(* ===== verification/Prelude.thy ===== *)
theory Prelude
  imports Main "HOL-Library.Word"
begin

text \<open>
  Shared vocabulary of the development: machine integers at their width, byte strings,
  the result type of fallible code, big-endian encoding and decoding of words, and the
  generic list and word lemmas that the component theories use.  Nothing here is specific
  to one protocol.
\<close>

unbundle bit_operations_syntax

section \<open>Types and collections\<close>

type_synonym u8 = "8 word"
type_synonym u16 = "16 word"
type_synonym u32 = "32 word"
type_synonym u64 = "64 word"
type_synonym bytes = "u8 list"

named_theorems io_simps \<open>symbolic execution of the stream monad\<close>
named_theorems streaming_intros \<open>closure rules for read-only stream parsers\<close>
named_theorems be_simps \<open>big-endian encodings and their lengths\<close>

section \<open>Errors as values\<close>

text \<open>
  \<open>io_kind\<close> are the \<open>std::io::ErrorKind\<close> values the code tells apart.  The sources use one
  opaque error type (\<open>anyhow::Error\<close>): an I/O error, a message from \<open>bail!\<close>, a failed UTF-8
  conversion, a failed number parse, or, outside that type, a panic.
\<close>

datatype io_kind = UnexpectedEof | BrokenPipe | ConnectionReset | InvalidData | Unsupported | Other

datatype err = Io io_kind | Bail string | Utf8Error | ParseError | Panic string

type_synonym 'a result = "err + 'a"

definition and_then :: "'a result \<Rightarrow> ('a \<Rightarrow> 'b result) \<Rightarrow> 'b result" where
  "and_then r f = (case r of Inl e \<Rightarrow> Inl e | Inr a \<Rightarrow> f a)"

lemma and_then_simps [simp]:
  "and_then (Inl e) f = Inl e"
  "and_then (Inr a) f = f a"
  by (simp_all add: and_then_def)

lemma and_then_eq_Inr:
  "and_then r f = Inr b \<longleftrightarrow> (\<exists>a. r = Inr a \<and> f a = Inr b)"
  by (cases r) simp_all

lemma and_then_split:
  "P (and_then r f) \<longleftrightarrow> (\<forall>e. r = Inl e \<longrightarrow> P (Inl e)) \<and> (\<forall>a. r = Inr a \<longrightarrow> P (f a))"
  by (cases r) simp_all

definition ensure :: "bool \<Rightarrow> err \<Rightarrow> unit result" where
  "ensure b e = (if b then Inr () else Inl e)"

lemma ensure_simps [simp]:
  "ensure True e = Inr ()"
  "ensure False e = Inl e"
  by (simp_all add: ensure_def)

section \<open>Lists\<close>

lemma take_append_length [simp]: "length xs = n \<Longrightarrow> take n (xs @ ys) = xs"
  by simp

lemma drop_append_length [simp]: "length xs = n \<Longrightarrow> drop n (xs @ ys) = ys"
  by simp

lemma split_at:
  assumes "n \<le> length xs"
  obtains ys zs where "xs = ys @ zs" "length ys = n"
  using assms append_take_drop_id [of n xs] by (metis length_take min.absorb2)

lemma length_eq_numeral_conv:
  "length xs = numeral k \<longleftrightarrow> (\<exists>y ys. xs = y # ys \<and> length ys = pred_numeral k)"
  by (cases xs) (auto simp: numeral_eq_Suc)

lemma unat_u8_less: "unat (b :: u8) < 256"
  using unsigned_less [of b] by simp

lemma unat_u16_less: "unat (w :: u16) < 65536"
  using unsigned_less [of w] by simp

lemma unat_u8_of_nat: "n < 256 \<Longrightarrow> unat (of_nat n :: u8) = n"
  by (simp add: unat_of_nat take_bit_eq_mod)

lemma unat_u16_of_nat: "n < 65536 \<Longrightarrow> unat (of_nat n :: u16) = n"
  by (simp add: unat_of_nat take_bit_eq_mod)

section \<open>Big-endian words\<close>

text \<open>
  \<open>to_be n w\<close> are the \<open>n\<close> low bytes of \<open>w\<close>, most significant first (Rust's \<open>to_be_bytes\<close> and
  \<open>BufMut::put_u16\<close>, \<open>put_u32\<close>, \<open>put_u64\<close>); \<open>from_be\<close> reads them back (\<open>from_be_bytes\<close>).
\<close>

primrec to_be :: "nat \<Rightarrow> 'a::len word \<Rightarrow> bytes" where
  "to_be 0 w = []"
| "to_be (Suc n) w = ucast (drop_bit (8 * n) w) # to_be n w"

definition from_be :: "bytes \<Rightarrow> 'a::len word" where
  "from_be bs = foldl (\<lambda>a b. push_bit 8 a OR ucast b) 0 bs"

lemma to_be_numeral [be_simps]:
  "to_be (numeral k) w = ucast (drop_bit (8 * pred_numeral k) w) # to_be (pred_numeral k) w"
  by (simp add: numeral_eq_Suc)

lemma length_to_be [simp, be_simps]: "length (to_be n w) = n"
  by (induction n) simp_all

lemma to_be_nonempty [simp]: "to_be (numeral k) w \<noteq> []"
  by (simp add: to_be_numeral)

lemma foldl_from_be:
  fixes a :: "'a::len word"
  shows "foldl (\<lambda>a b. push_bit 8 a OR ucast b) a bs = push_bit (8 * length bs) a OR from_be bs"
proof (induction bs arbitrary: a)
  case Nil
  then show ?case by (simp add: from_be_def)
next
  case (Cons b bs)
  have "foldl (\<lambda>a b. push_bit 8 a OR ucast b) a (b # bs)
      = push_bit (8 * length bs) (push_bit 8 a OR ucast b) OR from_be bs"
    by (simp add: Cons.IH)
  moreover have "(from_be (b # bs) :: 'a word) = push_bit (8 * length bs) (ucast b) OR from_be bs"
    using Cons.IH [of "ucast b"] by (simp add: from_be_def)
  ultimately show ?case
    by (simp add: push_bit_or ac_simps)
qed

lemma from_be_Nil [simp]: "from_be [] = 0"
  by (simp add: from_be_def)

lemma from_be_Cons:
  "(from_be (b # bs) :: 'a::len word) = push_bit (8 * length bs) (ucast b) OR from_be bs"
  using foldl_from_be [of "ucast b :: 'a word" bs] by (simp add: from_be_def)

lemma bit_from_be_high:
  "8 * length bs \<le> i \<Longrightarrow> \<not> bit (from_be bs :: 'a::len word) i"
  by (induction bs) (auto simp: from_be_Cons bit_simps dest: bit_imp_le_length)

lemma bit_to_be_nth:
  assumes "i < n"
  shows "to_be n w ! i = ucast (drop_bit (8 * (n - Suc i)) w)"
  using assms
proof (induction n arbitrary: i)
  case (Suc n)
  then show ?case by (cases i) simp_all
qed simp

lemma from_be_to_be_take: "from_be (to_be n w) = take_bit (8 * n) w"
proof (induction n)
  case (Suc n)
  show ?case
  proof (rule bit_word_eqI)
    fix i
    show "bit (from_be (to_be (Suc n) w) :: 'a word) i = bit (take_bit (8 * Suc n) w) i"
      by (cases "i < 8 * n") (auto simp: from_be_Cons Suc.IH bit_simps dest: bit_imp_le_length)
  qed
qed simp

lemma from_be_to_be:
  fixes w :: "'a::len word"
  assumes "LENGTH('a) \<le> 8 * n"
  shows "from_be (to_be n w) = w"
  using assms by (simp add: from_be_to_be_take take_bit_word_eq_self)

lemma from_be_to_be_numerals [simp]:
  "from_be (to_be 2 (w2 :: u16)) = w2"
  "from_be (to_be 4 (w4 :: u32)) = w4"
  "from_be (to_be 8 (w8 :: u64)) = w8"
  "from_be (to_be 16 (w16 :: 128 word)) = w16"
  by (simp_all add: from_be_to_be)

lemma to_be_or_push:
  fixes x y :: "'a::len word"
  shows "to_be n (push_bit (8 * n) x OR y) = to_be n y"
proof (rule nth_equalityI)
  fix i assume "i < length (to_be n (push_bit (8 * n) x OR y))"
  then have i: "i < n" by simp
  have "(ucast (drop_bit (8 * (n - Suc i)) (push_bit (8 * n) x OR y)) :: u8)
      = ucast (drop_bit (8 * (n - Suc i)) y)"
    using i by (intro bit_word_eqI) (auto simp: bit_simps)
  with i show "to_be n (push_bit (8 * n) x OR y) ! i = to_be n y ! i"
    by (simp add: bit_to_be_nth)
qed simp

lemma to_be_from_be:
  assumes "8 * length bs \<le> LENGTH('a::len)"
  shows "to_be (length bs) (from_be bs :: 'a word) = bs"
  using assms
proof (induction bs)
  case (Cons b bs)
  have "(ucast (drop_bit (8 * length bs) (push_bit (8 * length bs) (ucast b) OR from_be bs :: 'a word))
      :: u8) = b"
    using Cons.prems
    by (intro bit_word_eqI) (auto simp: bit_simps bit_from_be_high)
  with Cons show ?case
    by (simp add: from_be_Cons to_be_or_push)
qed simp

lemma to_be_from_be_eq:
  "length bs = n \<Longrightarrow> 8 * n \<le> LENGTH('a::len) \<Longrightarrow> to_be n (from_be bs :: 'a word) = bs"
  using to_be_from_be by blast

lemma to_be_pair:
  fixes w :: u16
  obtains x y where "to_be 2 w = [x, y]" "from_be [x, y] = w"
proof -
  obtain x y where xy: "to_be 2 w = [x, y]"
    using length_to_be [of 2 w] by (auto simp: numeral_2_eq_2 length_Suc_conv simp del: length_to_be)
  have "from_be (to_be 2 w) = w" by simp
  with xy that show ?thesis by simp
qed

end
