(* ===== verification/Rust_Std.thy ===== *)
theory Rust_Std
  imports Prelude
begin

text \<open>
  The parts of Rust's standard library the sources rely on, as executable functions:
  \<open>String\<close> as the list of its UTF-8 bytes, UTF-8 validation and lossy decoding
  (\<open>String::from_utf8\<close>, \<open>from_utf8_lossy\<close>), printing and parsing of unsigned decimals,
  the splitting and trimming functions of \<open>str\<close>, and the IP and socket addresses of
  \<open>std::net\<close> with their \<open>Display\<close> forms.
\<close>

section \<open>Strings\<close>

type_synonym rstring = bytes

definition str :: "string \<Rightarrow> rstring" where
  "str s = map of_char s"

lemma str_Nil [simp]: "str [] = []"
  by (simp add: str_def)

lemma str_Cons [simp]: "str (c # s) = of_char c # str s"
  by (simp add: str_def)

lemma length_str [simp]: "length (str s) = length s"
  by (simp add: str_def)

section \<open>UTF-8\<close>

text \<open>
  \<open>utf8_scan s\<close> looks at the head of \<open>s\<close>: \<open>(True, n)\<close> when the first \<open>n\<close> bytes are one
  well-formed scalar value, \<open>(False, n)\<close> when they are the maximal prefix of an ill-formed one.
\<close>

definition cont :: "u8 \<Rightarrow> bool" where
  "cont b \<longleftrightarrow> 0x80 \<le> b \<and> b \<le> 0xBF"

definition second_ok :: "u8 \<Rightarrow> u8 \<Rightarrow> bool" where
  "second_ok a b \<longleftrightarrow>
     (if a = 0xE0 then 0xA0 \<le> b \<and> b \<le> 0xBF
      else if a = 0xED then 0x80 \<le> b \<and> b \<le> 0x9F
      else if a = 0xF0 then 0x90 \<le> b \<and> b \<le> 0xBF
      else if a = 0xF4 then 0x80 \<le> b \<and> b \<le> 0x8F
      else cont b)"

definition utf8_width :: "u8 \<Rightarrow> nat" where
  "utf8_width a =
     (if a < 0x80 then 1
      else if 0xC2 \<le> a \<and> a \<le> 0xDF then 2
      else if 0xE0 \<le> a \<and> a \<le> 0xEF then 3
      else if 0xF0 \<le> a \<and> a \<le> 0xF4 then 4
      else 0)"

fun utf8_scan :: "bytes \<Rightarrow> bool \<times> nat" where
  "utf8_scan [] = (False, 0)"
| "utf8_scan (a # s) =
     (if utf8_width a = 1 then (True, 1)
      else if utf8_width a = 0 then (False, 1)
      else case s of
        [] \<Rightarrow> (False, 1)
      | b # s2 \<Rightarrow>
        (if \<not> second_ok a b then (False, 1)
         else if utf8_width a = 2 then (True, 2)
         else case s2 of
           [] \<Rightarrow> (False, 2)
         | c # s3 \<Rightarrow>
           (if \<not> cont c then (False, 2)
            else if utf8_width a = 3 then (True, 3)
            else case s3 of
              [] \<Rightarrow> (False, 3)
            | d # s4 \<Rightarrow> (if cont d then (True, 4) else (False, 3)))))"

lemma utf8_scan_pos: "s \<noteq> [] \<Longrightarrow> 0 < snd (utf8_scan s)"
  by (cases s) (auto split: list.splits)

function utf8_valid :: "bytes \<Rightarrow> bool" where
  "utf8_valid s \<longleftrightarrow>
     (if s = [] then True
      else if fst (utf8_scan s) then utf8_valid (drop (snd (utf8_scan s)) s)
      else False)"
  by pat_completeness auto
termination
  by (relation "measure length") (auto intro: diff_less simp: utf8_scan_pos)

declare utf8_valid.simps [simp del]

definition from_utf8 :: "bytes \<Rightarrow> rstring result" where
  "from_utf8 s = (if utf8_valid s then Inr s else Inl Utf8Error)"

function from_utf8_lossy :: "bytes \<Rightarrow> rstring" where
  "from_utf8_lossy s =
     (if s = [] then []
      else (if fst (utf8_scan s) then take (snd (utf8_scan s)) s else [0xEF, 0xBF, 0xBD])
           @ from_utf8_lossy (drop (snd (utf8_scan s)) s))"
  by pat_completeness auto
termination
  by (relation "measure length") (auto intro: diff_less simp: utf8_scan_pos)

declare from_utf8_lossy.simps [simp del]

lemma utf8_valid_Nil [simp]: "utf8_valid []"
  by (subst utf8_valid.simps) simp

lemma utf8_valid_ascii [simp]: "a < 0x80 \<Longrightarrow> utf8_valid (a # s) = utf8_valid s"
  by (subst utf8_valid.simps) (simp add: utf8_width_def)

lemma utf8_scan_append:
  "fst (utf8_scan s) \<Longrightarrow> utf8_scan (s @ t) = utf8_scan s \<and> snd (utf8_scan s) \<le> length s"
  by (cases s) (auto split: list.splits if_splits)

lemma utf8_valid_append: "utf8_valid s \<Longrightarrow> utf8_valid (s @ t) = utf8_valid t"
proof (induction s rule: utf8_valid.induct)
  case (1 s)
  show ?case
  proof (cases "s = []")
    case False
    with 1 have ok: "fst (utf8_scan s)" "utf8_valid (drop (snd (utf8_scan s)) s)"
      using utf8_valid.simps [of s] by (auto split: if_splits)
    have "utf8_valid (s @ t) = utf8_valid (drop (snd (utf8_scan s)) (s @ t))"
      using False ok(1) utf8_scan_append [OF ok(1), of t]
      by (subst utf8_valid.simps) simp
    with 1 False ok utf8_scan_append [OF ok(1), of t] show ?thesis by simp
  qed simp
qed

lemma utf8_lossy_valid: "utf8_valid s \<Longrightarrow> from_utf8_lossy s = s"
proof (induction s rule: utf8_valid.induct)
  case (1 s)
  then show ?case
    using utf8_valid.simps [of s] by (subst from_utf8_lossy.simps) (auto split: if_splits)
qed

definition ascii :: "bytes \<Rightarrow> bool" where
  "ascii s \<longleftrightarrow> (\<forall>b \<in> set s. b < 0x80)"

lemma ascii_simps [simp]:
  "ascii []"
  "ascii (b # s) \<longleftrightarrow> b < 0x80 \<and> ascii s"
  "ascii (s @ t) \<longleftrightarrow> ascii s \<and> ascii t"
  by (auto simp: ascii_def)

lemma ascii_utf8 [simp]: "ascii s \<Longrightarrow> utf8_valid s"
  by (induction s) simp_all

lemma from_utf8_ok [simp]: "utf8_valid s \<Longrightarrow> from_utf8 s = Inr s"
  by (simp add: from_utf8_def)

lemma from_utf8_eq_Inr: "from_utf8 s = Inr t \<longleftrightarrow> utf8_valid s \<and> t = s"
  by (auto simp: from_utf8_def)

section \<open>Decimal numbers\<close>

fun dec :: "nat \<Rightarrow> rstring" where
  "dec n = (if n < 10 then [of_nat (48 + n)] else dec (n div 10) @ [of_nat (48 + n mod 10)])"

declare dec.simps [simp del]

definition digit :: "nat \<Rightarrow> u8 \<Rightarrow> nat option" where
  "digit radix b =
     (let v = (if 48 \<le> b \<and> b \<le> 57 then Some (unat b - 48)
               else if 97 \<le> b \<and> b \<le> 122 then Some (unat b - 87)
               else if 65 \<le> b \<and> b \<le> 90 then Some (unat b - 55)
               else None)
      in case v of Some d \<Rightarrow> if d < radix then Some d else None | None \<Rightarrow> None)"

fun digits_val :: "nat \<Rightarrow> nat \<Rightarrow> rstring \<Rightarrow> nat option" where
  "digits_val radix acc [] = Some acc"
| "digits_val radix acc (b # s) =
     (case digit radix b of Some d \<Rightarrow> digits_val radix (acc * radix + d) s | None \<Rightarrow> None)"

text \<open>
  \<open>from_str_radix\<close> on an unsigned type with largest value \<open>hi\<close>: one leading plus sign is
  accepted, at least one digit is needed, and a value above \<open>hi\<close> is an error.
\<close>

definition from_str_radix :: "nat \<Rightarrow> nat \<Rightarrow> rstring \<Rightarrow> nat option" where
  "from_str_radix hi radix s =
     (let s' = (case s of b # t \<Rightarrow> if b = 43 then t else s | [] \<Rightarrow> [])
      in if s' = [] then None
         else case digits_val radix 0 s' of
                Some v \<Rightarrow> if v \<le> hi then Some v else None
              | None \<Rightarrow> None)"

abbreviation parse_unsigned :: "nat \<Rightarrow> rstring \<Rightarrow> nat option" where
  "parse_unsigned hi s \<equiv> from_str_radix hi 10 s"

text \<open>A signed type (\<open>i64\<close>) also accepts a leading minus sign.\<close>

definition parse_i64 :: "rstring \<Rightarrow> int option" where
  "parse_i64 s =
     (case s of
        b # t \<Rightarrow>
          if b = 45 then
            (if t = [] then None
             else case digits_val 10 0 t of
                    Some v \<Rightarrow> if v \<le> 2 ^ 63 then Some (- int v) else None
                  | None \<Rightarrow> None)
          else map_option int (from_str_radix (2 ^ 63 - 1) 10 s)
      | [] \<Rightarrow> None)"

lemma digit_dec_all: "\<forall>n \<in> set [0..<10]. digit 10 (of_nat (48 + n)) = Some n
    \<and> (48::u8) \<le> of_nat (48 + n) \<and> of_nat (48 + n) \<le> (57::u8)"
  by code_simp

lemma digit_dec: "n < 10 \<Longrightarrow> digit 10 (of_nat (48 + n)) = Some n"
  using digit_dec_all by (simp del: of_nat_add)

lemma digits_val_append:
  "digits_val r a (s @ t) = (case digits_val r a s of Some v \<Rightarrow> digits_val r v t | None \<Rightarrow> None)"
  by (induction s arbitrary: a) (auto split: option.splits)

lemma digits_val_dec: "digits_val 10 0 (dec n) = Some n"
proof (induction n rule: dec.induct)
  case (1 n)
  show ?case
  proof (cases "n < 10")
    case True
    then show ?thesis by (subst dec.simps) (simp add: digit_dec del: of_nat_add)
  next
    case False
    have m: "n mod 10 < 10" by simp
    from False "1.IH" show ?thesis
      by (subst dec.simps) (simp add: digits_val_append digit_dec [OF m] del: of_nat_add)
  qed
qed

lemma dec_nonempty [simp]: "dec n \<noteq> []"
  by (subst dec.simps) simp

lemma dec_digit_range: "b \<in> set (dec n) \<Longrightarrow> 48 \<le> b \<and> b \<le> 57"
proof (induction n rule: dec.induct)
  case (1 n)
  have *: "m < 10 \<Longrightarrow> (48::u8) \<le> of_nat (48 + m) \<and> of_nat (48 + m) \<le> (57::u8)" for m :: nat
    using digit_dec_all by (simp del: of_nat_add)
  from 1 show ?case
    using * [of n] * [of "n mod 10"]
    by (subst (asm) (2) dec.simps) (auto split: if_splits simp del: of_nat_add)
qed

lemma dec_ascii [simp]: "ascii (dec n)"
proof -
  have "b < 0x80" if "b \<in> set (dec n)" for b
    using dec_digit_range [OF that] by (auto intro: order.strict_trans1)
  then show ?thesis by (simp add: ascii_def)
qed

lemma dec_no_sign: "b \<notin> set (dec n)" if "b < 48 \<or> 57 < b"
  using dec_digit_range [of b n] that by auto

lemma parse_dec: "n \<le> hi \<Longrightarrow> parse_unsigned hi (dec n) = Some n"
proof -
  assume n: "n \<le> hi"
  obtain b t where bt: "dec n = b # t"
    by (cases "dec n") simp_all
  then have "b \<noteq> 43"
    using dec_no_sign [of 43 n] by auto
  with n bt show ?thesis
    using digits_val_dec [of n] by (simp add: from_str_radix_def)
qed

section \<open>Splitting and trimming\<close>

fun split_once :: "u8 \<Rightarrow> rstring \<Rightarrow> (rstring \<times> rstring) option" where
  "split_once d [] = None"
| "split_once d (b # s) =
     (if b = d then Some ([], s)
      else case split_once d s of Some (x, y) \<Rightarrow> Some (b # x, y) | None \<Rightarrow> None)"

definition rsplit_once :: "u8 \<Rightarrow> rstring \<Rightarrow> (rstring \<times> rstring) option" where
  "rsplit_once d s = (case split_once d (rev s) of Some (y, x) \<Rightarrow> Some (rev x, rev y) | None \<Rightarrow> None)"

fun split_on :: "u8 \<Rightarrow> rstring \<Rightarrow> rstring list" where
  "split_on d [] = [[]]"
| "split_on d (b # s) =
     (if b = d then [] # split_on d s
      else case split_on d s of w # ws \<Rightarrow> (b # w) # ws | [] \<Rightarrow> [[b]])"

text \<open>
  \<open>str::lines\<close>: the pieces between newlines, one trailing carriage return removed from each
  newline-terminated piece, and no empty piece after a final newline.
\<close>

definition strip_cr :: "rstring \<Rightarrow> rstring" where
  "strip_cr s = (if s \<noteq> [] \<and> last s = 13 then butlast s else s)"

definition lines :: "rstring \<Rightarrow> rstring list" where
  "lines s =
     (let ps = split_on 10 s
      in map strip_cr (butlast ps) @ (if last ps = [] then [] else [last ps]))"

text \<open>
  \<open>ws_len s\<close> is the length of the white-space scalar at the head of \<open>s\<close> (0 when there is
  none), and \<open>ws_rlen\<close> the same for the end of a reversed string: the Unicode property
  \<open>White_Space\<close>, as \<open>char::is_whitespace\<close> tests it.
\<close>

definition ws_list :: "bytes list" where
  "ws_list =
     [[9], [10], [11], [12], [13], [32], [0xC2, 0x85], [0xC2, 0xA0], [0xE1, 0x9A, 0x80],
      [0xE2, 0x80, 0x80], [0xE2, 0x80, 0x81], [0xE2, 0x80, 0x82], [0xE2, 0x80, 0x83],
      [0xE2, 0x80, 0x84], [0xE2, 0x80, 0x85], [0xE2, 0x80, 0x86], [0xE2, 0x80, 0x87],
      [0xE2, 0x80, 0x88], [0xE2, 0x80, 0x89], [0xE2, 0x80, 0x8A], [0xE2, 0x80, 0xA8],
      [0xE2, 0x80, 0xA9], [0xE2, 0x80, 0xAF], [0xE2, 0x81, 0x9F], [0xE3, 0x80, 0x80]]"

definition ws_len :: "rstring \<Rightarrow> nat" where
  "ws_len s = (case find (\<lambda>w. take (length w) s = w) ws_list of Some w \<Rightarrow> length w | None \<Rightarrow> 0)"

definition ws_rlen :: "rstring \<Rightarrow> nat" where
  "ws_rlen s = (case find (\<lambda>w. take (length w) s = rev w) ws_list of Some w \<Rightarrow> length w | None \<Rightarrow> 0)"

function trim_by :: "(rstring \<Rightarrow> nat) \<Rightarrow> rstring \<Rightarrow> rstring" where
  "trim_by f s = (if s = [] then [] else if f s = 0 then s else trim_by f (drop (f s) s))"
  by pat_completeness auto
termination
  by (relation "measure (length \<circ> snd)") auto

declare trim_by.simps [simp del]

definition trim :: "rstring \<Rightarrow> rstring" where
  "trim s = rev (trim_by ws_rlen (rev (trim_by ws_len s)))"

definition trim_start_byte :: "u8 \<Rightarrow> rstring \<Rightarrow> rstring" where
  "trim_start_byte d s = dropWhile (\<lambda>b. b = d) s"

definition trim_end_byte :: "u8 \<Rightarrow> rstring \<Rightarrow> rstring" where
  "trim_end_byte d s = rev (dropWhile (\<lambda>b. b = d) (rev s))"

definition trim_brackets :: "rstring \<Rightarrow> rstring" where
  "trim_brackets s =
     rev (dropWhile (\<lambda>b. b = 91 \<or> b = 93) (rev (dropWhile (\<lambda>b. b = 91 \<or> b = 93) s)))"

definition strip_prefix :: "rstring \<Rightarrow> rstring \<Rightarrow> rstring option" where
  "strip_prefix p s = (if take (length p) s = p then Some (drop (length p) s) else None)"

lemma split_once_append:
  "d \<notin> set x \<Longrightarrow> split_once d (x @ d # y) = Some (x, y)"
  by (induction x) auto

lemma split_once_SomeD:
  "split_once d s = Some (x, y) \<Longrightarrow> s = x @ d # y \<and> d \<notin> set x"
  by (induction s arbitrary: x) (auto split: if_splits option.splits)

lemma split_once_None: "split_once d s = None \<longleftrightarrow> d \<notin> set s"
  by (induction s) (auto split: option.splits)

lemma rsplit_once_append:
  "d \<notin> set y \<Longrightarrow> rsplit_once d (x @ d # y) = Some (x, y)"
  using split_once_append [of d "rev y" "rev x"] by (simp add: rsplit_once_def)

section \<open>IP and socket addresses\<close>

type_synonym ipv4 = u32
type_synonym ipv6 = "128 word"

datatype ip_addr = IpV4 ipv4 | IpV6 ipv6

datatype socket_addr = SockV4 ipv4 u16 | SockV6 ipv6 u16

fun sock_port :: "socket_addr \<Rightarrow> u16" where
  "sock_port (SockV4 a p) = p"
| "sock_port (SockV6 a p) = p"

fun sock_ip :: "socket_addr \<Rightarrow> ip_addr" where
  "sock_ip (SockV4 a p) = IpV4 a"
| "sock_ip (SockV6 a p) = IpV6 a"

definition octets4 :: "ipv4 \<Rightarrow> bytes" where
  "octets4 a = to_be 4 a"

definition octets6 :: "ipv6 \<Rightarrow> bytes" where
  "octets6 a = to_be 16 a"

definition segments :: "ipv6 \<Rightarrow> u16 list" where
  "segments a = map (\<lambda>i. ucast (drop_bit (16 * (7 - i)) a)) [0, 1, 2, 3, 4, 5, 6, 7]"

definition ipv4_to_string :: "ipv4 \<Rightarrow> rstring" where
  "ipv4_to_string a =
     (case map (\<lambda>b. dec (unat b)) (octets4 a) of
        [p, q, r, s] \<Rightarrow> p @ [46] @ q @ [46] @ r @ [46] @ s
      | _ \<Rightarrow> [])"

text \<open>\<open>to_ipv4_mapped\<close>: the IPv4 address inside \<open>::ffff:0:0/96\<close>.\<close>

definition to_ipv4_mapped :: "ipv6 \<Rightarrow> ipv4 option" where
  "to_ipv4_mapped a = (if drop_bit 32 a = 0xFFFF then Some (ucast a) else None)"

fun hex :: "nat \<Rightarrow> rstring" where
  "hex n =
     (let d = (\<lambda>m. of_nat (if m < 10 then 48 + m else 87 + m))
      in if n < 16 then [d n] else hex (n div 16) @ [d (n mod 16)])"

declare hex.simps [simp del]

text \<open>The longest run of zero segments, the first one of that length (start, length).\<close>

fun zero_span :: "nat \<Rightarrow> nat \<times> nat \<Rightarrow> nat \<times> nat \<Rightarrow> u16 list \<Rightarrow> nat \<times> nat" where
  "zero_span i cur best [] = best"
| "zero_span i cur best (s # ss) =
     (if s = 0 then
        (let cur' = ((if snd cur = 0 then i else fst cur), snd cur + 1)
         in zero_span (i + 1) cur' (if snd best < snd cur' then cur' else best) ss)
      else zero_span (i + 1) (0, 0) best ss)"

fun join_colon :: "rstring list \<Rightarrow> rstring" where
  "join_colon [] = []"
| "join_colon [w] = w"
| "join_colon (w # v # ws) = w @ [58] @ join_colon (v # ws)"

definition ipv6_to_string :: "ipv6 \<Rightarrow> rstring" where
  "ipv6_to_string a =
     (case to_ipv4_mapped a of
        Some v4 \<Rightarrow> str ''::ffff:'' @ ipv4_to_string v4
      | None \<Rightarrow>
        (let ss = map (\<lambda>s. hex (unat s)) (segments a);
             (st, len) = zero_span 0 (0, 0) (0, 0) (segments a)
         in if 1 < len then join_colon (take st ss) @ str ''::'' @ join_colon (drop (st + len) ss)
            else join_colon ss))"

definition bracketed :: "ipv6 \<Rightarrow> rstring" where
  "bracketed a = [91] @ ipv6_to_string a @ [93]"

definition host_port :: "rstring \<Rightarrow> u16 \<Rightarrow> rstring" where
  "host_port h p = h @ [58] @ dec (unat p)"

fun socket_addr_to_string :: "socket_addr \<Rightarrow> rstring" where
  "socket_addr_to_string (SockV4 a p) = host_port (ipv4_to_string a) p"
| "socket_addr_to_string (SockV6 a p) = host_port (bracketed a) p"

lemma length_octets [simp]: "length (octets4 a) = 4" "length (octets6 b) = 16"
  by (simp_all add: octets4_def octets6_def)

lemma from_be_octets [simp]: "from_be (octets4 a) = a" "from_be (octets6 b) = b"
  by (simp_all add: octets4_def octets6_def from_be_to_be)

lemma ipv4_to_string_octets:
  "ipv4_to_string (from_be [a, b, c, d]) =
     dec (unat a) @ [46] @ dec (unat b) @ [46] @ dec (unat c) @ [46] @ dec (unat d)"
proof -
  have "octets4 (from_be [a, b, c, d]) = [a, b, c, d]"
    unfolding octets4_def by (rule to_be_from_be_eq) simp_all
  then show ?thesis by (simp add: ipv4_to_string_def)
qed

lemma octets4_cases: "\<exists>a b c d. octets4 v = [a, b, c, d]"
  by (simp add: octets4_def be_simps)

lemma ipv4_to_string_ascii [simp]: "ascii (ipv4_to_string a)"
  using octets4_cases [of a] by (auto simp: ipv4_to_string_def)

lemma ipv4_to_string_no_colon: "58 \<notin> set (ipv4_to_string a)"
  using octets4_cases [of a] by (auto simp: ipv4_to_string_def dest: dec_digit_range)

text \<open>The host and the port of a printed target are recovered by splitting at its last colon.\<close>

lemma rsplit_host_port: "rsplit_once 58 (host_port h p) = Some (h, dec (unat p))"
  unfolding host_port_def
  using rsplit_once_append [of 58 "dec (unat p)" h] dec_no_sign [of 58 "unat p"] by simp

lemma parse_port: "parse_unsigned 65535 (dec (unat (p :: u16))) = Some (unat p)"
  by (rule parse_dec) (use unat_u16_less [of p] in simp)

lemma host_port_inject: "host_port h p = host_port h' p' \<longleftrightarrow> h = h' \<and> p = p'"
proof
  assume eq: "host_port h p = host_port h' p'"
  then have "Some (h, dec (unat p)) = Some (h', dec (unat p'))"
    by (simp only: rsplit_host_port [symmetric])
  then have "h = h'" and d: "dec (unat p) = dec (unat p')" by simp_all
  moreover have "Some (unat p) = Some (unat p')"
    by (simp only: parse_port [symmetric] d)
  ultimately show "h = h' \<and> p = p'" by (simp add: word_unat_eq_iff)
qed simp

lemma host_port_utf8: "utf8_valid h \<Longrightarrow> utf8_valid (host_port h p)"
  by (simp add: host_port_def utf8_valid_append)

section \<open>Printed addresses\<close>

text \<open>Their lengths and alphabets: what length fields and bracket trimming rely on.\<close>

lemma length_dec: "n < 10 ^ k \<Longrightarrow> 0 < k \<Longrightarrow> length (dec n) \<le> k"
proof (induction n arbitrary: k rule: dec.induct)
  case (1 n)
  show ?case
  proof (cases "n < 10")
    case False
    with "1.prems" have "k \<noteq> 1" by auto
    with "1.prems"(2) obtain j where j: "k = Suc j" "0 < j" by (cases k) auto
    with "1.prems" have "n div 10 < 10 ^ j" by (simp add: less_mult_imp_div_less mult.commute)
    with "1.IH" [OF False, of j] j show ?thesis by (subst dec.simps) simp
  qed (use "1.prems" in \<open>subst dec.simps, simp\<close>)
qed

lemma length_dec_port: "length (dec (unat (p :: u16))) \<le> 5"
  using length_dec [of "unat p" 5] unat_u16_less [of p] by simp

lemma length_dec_byte: "length (dec (unat (b :: u8))) \<le> 3"
  using length_dec [of "unat b" 3] unat_u8_less [of b] by simp

lemma length_hex: "n < 16 ^ k \<Longrightarrow> 0 < k \<Longrightarrow> length (hex n) \<le> k"
proof (induction n arbitrary: k rule: hex.induct)
  case (1 n)
  show ?case
  proof (cases "n < 16")
    case False
    with "1.prems" have "k \<noteq> 1" by auto
    with "1.prems"(2) obtain j where j: "k = Suc j" "0 < j" by (cases k) auto
    with "1.prems" have "n div 16 < 16 ^ j" by (simp add: less_mult_imp_div_less mult.commute)
    with "1.IH" [OF refl False, of j] j show ?thesis by (subst hex.simps) (simp add: Let_def)
  qed (use "1.prems" in \<open>subst hex.simps, simp\<close>)
qed

lemma hex_chars_all:
  "\<forall>m \<in> set [0..<16]. (let d = of_nat (if m < 10 then 48 + m else 87 + m) :: u8
     in 48 \<le> d \<and> d \<le> 57 \<or> 97 \<le> d \<and> d \<le> 102)"
  by code_simp

lemma hex_chars: "b \<in> set (hex n) \<Longrightarrow> 48 \<le> b \<and> b \<le> 57 \<or> 97 \<le> b \<and> b \<le> 102"
proof (induction n rule: hex.induct)
  case (1 n)
  have *: "48 \<le> d \<and> d \<le> 57 \<or> 97 \<le> d \<and> d \<le> 102"
    if "m < 16" "d = (of_nat (if m < 10 then 48 + m else 87 + m) :: u8)" for m :: nat and d
    using hex_chars_all that by (simp add: Let_def)
  show ?case
  proof (cases "n < 16")
    case True
    with "1.prems" hex.simps [of n] show ?thesis by (intro * [of n]) (simp_all add: Let_def)
  next
    case False
    with "1.prems" hex.simps [of n] consider "b \<in> set (hex (n div 16))"
      | "b = of_nat (if n mod 16 < 10 then 48 + n mod 16 else 87 + n mod 16)"
      by (auto simp: Let_def)
    then show ?thesis
    proof cases
      case 1
      then show ?thesis by (rule "1.IH" [OF refl False])
    next
      case 2
      then show ?thesis by (intro * [of "n mod 16"]) simp_all
    qed
  qed
qed

text \<open>The characters of a printed address: digits, \<open>a\<close> to \<open>f\<close>, colons and dots.\<close>

definition addr_char :: "u8 \<Rightarrow> bool" where
  "addr_char b \<longleftrightarrow> 48 \<le> b \<and> b \<le> 57 \<or> 97 \<le> b \<and> b \<le> 102 \<or> b = 58 \<or> b = 46"

lemma addr_char_ascii: "addr_char b \<Longrightarrow> b < 0x80 \<and> b \<noteq> 91 \<and> b \<noteq> 93"
  by (auto simp: addr_char_def intro: order.strict_trans1)

lemma ipv4_chars: "b \<in> set (ipv4_to_string a) \<Longrightarrow> addr_char b"
  using octets4_cases [of a] by (auto simp: ipv4_to_string_def addr_char_def dest: dec_digit_range)

lemma length_ipv4: "length (ipv4_to_string a) \<le> 15"
proof -
  obtain b c d e where o: "octets4 a = [b, c, d, e]" using octets4_cases [of a] by blast
  show ?thesis
    using length_dec_byte [of b] length_dec_byte [of c] length_dec_byte [of d] length_dec_byte [of e]
    by (simp add: ipv4_to_string_def o)
qed

lemma join_colon_chars: "b \<in> set (join_colon ws) \<Longrightarrow> b = 58 \<or> (\<exists>w \<in> set ws. b \<in> set w)"
  by (induction ws rule: join_colon.induct) auto

lemma length_join_colon: "(\<And>w. w \<in> set ws \<Longrightarrow> length w \<le> 4) \<Longrightarrow> length (join_colon ws) \<le> 5 * length ws"
proof (induction ws rule: join_colon.induct)
  case (3 w v ws)
  then show ?case by (fastforce simp: add_le_mono)
qed auto

lemma length_segments [simp]: "length (segments a) = 8"
  by (simp add: segments_def)

lemma ipv6_chars: "b \<in> set (ipv6_to_string a) \<Longrightarrow> addr_char b"
  by (auto simp: ipv6_to_string_def Let_def addr_char_def dest!: join_colon_chars in_set_takeD in_set_dropD
      hex_chars ipv4_chars split: option.splits if_splits prod.splits)

lemma length_ipv6: "length (ipv6_to_string a) \<le> 82"
proof -
  have seg: "length w \<le> 4" if "w \<in> set (map (\<lambda>s. hex (unat s)) (segments a))" for w
    using that length_hex [of _ 4] unat_u16_less by auto
  let ?ss = "map (\<lambda>s. hex (unat s)) (segments a)"
  have tk: "length (join_colon (take n ?ss)) \<le> 40" for n
  proof -
    have "length (join_colon (take n ?ss)) \<le> 5 * length (take n ?ss)"
      by (rule length_join_colon) (blast intro: seg in_set_takeD)
    then show ?thesis by (rule order_trans) simp
  qed
  have dr: "length (join_colon (drop n ?ss)) \<le> 40" for n
  proof -
    have "length (join_colon (drop n ?ss)) \<le> 5 * length (drop n ?ss)"
      by (rule length_join_colon) (blast intro: seg in_set_dropD)
    then show ?thesis by (rule order_trans) simp
  qed
  show ?thesis
  proof (cases "to_ipv4_mapped a")
    case (Some v)
    with length_ipv4 [of v] show ?thesis by (simp add: ipv6_to_string_def)
  next
    case None
    obtain st len where z: "zero_span 0 (0, 0) (0, 0) (segments a) = (st, len)" by fastforce
    show ?thesis using tk [of st] dr [of "st + len"] dr [of 0] None z by (simp add: ipv6_to_string_def Let_def)
  qed
qed

lemma trim_brackets_inner:
  assumes "\<And>b. b \<in> set h \<Longrightarrow> addr_char b"
  shows "trim_brackets h = h" "trim_brackets ([91] @ h @ [93]) = h"
proof -
  have n: "b \<in> set h \<Longrightarrow> \<not> (b = 91 \<or> b = 93)" for b
    using assms addr_char_ascii by blast
  have d: "dropWhile (\<lambda>b. b = 91 \<or> b = 93) h = h" "dropWhile (\<lambda>b. b = 91 \<or> b = 93) (rev h) = rev h"
    using n by (intro dropWhile_id; auto)+
  show "trim_brackets h = h" by (simp add: trim_brackets_def d)
  show "trim_brackets ([91] @ h @ [93]) = h"
  proof (cases "h = []")
    case False
    then have "dropWhile (\<lambda>b. b = 91 \<or> b = 93) (h @ [93]) = h @ [93]"
      using n by (cases h) auto
    then show ?thesis by (simp add: trim_brackets_def d)
  qed (simp add: trim_brackets_def)
qed

lemma addr_chars_utf8: "(\<And>b. b \<in> set h \<Longrightarrow> addr_char b) \<Longrightarrow> utf8_valid h"
  using addr_char_ascii by (intro ascii_utf8) (auto simp: ascii_def)

lemma bracketed_utf8: "utf8_valid (bracketed a)"
  using addr_char_ascii ipv6_chars by (intro ascii_utf8) (auto simp: ascii_def bracketed_def)

section \<open>Indexing and slicing\<close>

text \<open>Indexing and slicing outside a byte string panics; a big-endian \<open>u16\<close> read from two bytes.\<close>

definition byte_at :: "bytes \<Rightarrow> nat \<Rightarrow> u8 result" where
  "byte_at h i = (if i < length h then Inr (h ! i) else Inl (Panic ''index out of bounds''))"

definition get_slice :: "bytes \<Rightarrow> nat \<Rightarrow> nat \<Rightarrow> bytes result" where
  "get_slice h a n = (if a + n \<le> length h then Inr (take n (drop a h)) else Inl (Panic ''range out of bounds''))"

definition u16_at :: "bytes \<Rightarrow> nat \<Rightarrow> nat result" where
  "u16_at h i = and_then (byte_at h i) (\<lambda>a. and_then (byte_at h (i + 1)) (\<lambda>b. Inr (unat (from_be [a, b] :: u16))))"

lemma get_slice_ok: "a + n \<le> length h \<Longrightarrow> get_slice h a n = Inr (take n (drop a h))"
  by (simp add: get_slice_def)

lemma byte_at_ok: "i < length h \<Longrightarrow> byte_at h i = Inr (h ! i)"
  by (simp add: byte_at_def)

lemma u16_at_ok: "i + 1 < length h \<Longrightarrow> u16_at h i = Inr (unat (from_be [h ! i, h ! (i + 1)] :: u16))"
  by (simp add: u16_at_def byte_at_def)

lemma u16_at_append: "length xs = i \<Longrightarrow> u16_at (xs @ to_be 2 (w :: u16) @ ys) i = Inr (unat w)"
  by (rule to_be_pair [of w]) (simp add: u16_at_def byte_at_def nth_append)

end
