(* ===== verification/Reality_Hello.thy ===== *)
theory Reality_Hello
  imports Rust_Std
begin

text \<open>
  The check of a REALITY ClientHello (\<open>vless/tls/reality.rs\<close>): the parsers of the key share and the
  cipher suites in a raw TLS record, and \<open>verify_reality_client\<close>, which opens the session id under a
  key agreed with the client's key share.  The decoders and cryptographic functions of the libraries are a record.
\<close>

section \<open>The model\<close>

definition RECORD_HDR :: nat where "RECORD_HDR = 5"
definition HANDSHAKE_HDR :: nat where "HANDSHAKE_HDR = 4"
definition LEGACY_VER_LEN :: nat where "LEGACY_VER_LEN = 2"
definition RANDOM_OFFSET :: nat where "RANDOM_OFFSET = RECORD_HDR + HANDSHAKE_HDR + LEGACY_VER_LEN"
definition RANDOM_LEN :: nat where "RANDOM_LEN = 32"
definition SID_LEN_OFFSET :: nat where "SID_LEN_OFFSET = RANDOM_OFFSET + RANDOM_LEN"
definition SID_OFFSET :: nat where "SID_OFFSET = SID_LEN_OFFSET + 1"

lemmas hello_offsets = RECORD_HDR_def HANDSHAKE_HDR_def LEGACY_VER_LEN_def RANDOM_OFFSET_def RANDOM_LEN_def
  SID_LEN_OFFSET_def SID_OFFSET_def

record reality_lib =
  b64_url :: "rstring \<Rightarrow> bytes option"
  b64_std :: "rstring \<Rightarrow> bytes option"
  hex_decode :: "rstring \<Rightarrow> bytes option"
  x25519 :: "bytes \<Rightarrow> bytes \<Rightarrow> bytes"
  hkdf :: "bytes \<Rightarrow> bytes \<Rightarrow> bytes \<Rightarrow> bytes"
  gcm256_open :: "bytes \<Rightarrow> bytes \<Rightarrow> bytes \<Rightarrow> bytes \<Rightarrow> bytes option"
  chacha_open :: "bytes \<Rightarrow> bytes \<Rightarrow> bytes \<Rightarrow> bytes \<Rightarrow> bytes option"

record reality_config =
  private_key :: rstring
  short_ids :: "rstring list"
  dest :: rstring
  server_name :: rstring

text \<open>The scan of the key shares: an X25519 share wins, else the last hybrid one.\<close>

function share_loop :: "bytes \<Rightarrow> nat \<Rightarrow> nat \<Rightarrow> bytes option \<Rightarrow> bytes result" where
  "share_loop data pos fin mlkem =
     (if pos + 4 \<le> fin then
        and_then (u16_at data pos) (\<lambda>group.
        and_then (u16_at data (pos + 2)) (\<lambda>ke_len.
          let pos1 = pos + 4 in
          if pos1 + ke_len > fin then Inl (Bail ''KeyShare entry out of bounds'')
          else if group = 0x001d \<and> ke_len = 32 then get_slice data pos1 32
          else if group = 0x11ec \<and> ke_len \<ge> 1088 + 32 then
            and_then (get_slice data (pos1 + (ke_len - 32)) 32) (\<lambda>k. share_loop data (pos1 + ke_len) fin (Some k))
          else share_loop data (pos1 + ke_len) fin mlkem))
      else (case mlkem of Some key \<Rightarrow> Inr key | None \<Rightarrow> Inl (Bail ''no x25519 in KeyShare'')))"
  by pat_completeness auto
termination by (relation "measure (\<lambda>(_, pos, fin, _). fin - pos)") auto

declare share_loop.simps [simp del]

definition parse_x25519_key_share :: "bytes \<Rightarrow> bytes result" where
  "parse_x25519_key_share data =
     (if length data < 2 then Inl (Bail ''KeyShare data too short'')
      else and_then (u16_at data 0) (\<lambda>shares_len. share_loop data 2 (min (2 + shares_len) (length data)) None))"

function ext_loop :: "bytes \<Rightarrow> nat \<Rightarrow> nat \<Rightarrow> bytes result" where
  "ext_loop rcd pos ext_end =
     (if pos + 4 \<le> ext_end then
        and_then (u16_at rcd pos) (\<lambda>ext_type.
        and_then (u16_at rcd (pos + 2)) (\<lambda>ext_len.
          let pos1 = pos + 4 in
          if pos1 + ext_len > ext_end then Inl (Bail ''extension out of bounds'')
          else if ext_type = 0x0033 then and_then (get_slice rcd pos1 ext_len) parse_x25519_key_share
          else ext_loop rcd (pos1 + ext_len) ext_end))
      else Inl (Bail ''no KeyShare extension''))"
  by pat_completeness auto
termination by (relation "measure (\<lambda>(_, pos, ext_end). ext_end - pos)") auto

declare ext_loop.simps [simp del]

definition extract_x25519_from_key_share :: "bytes \<Rightarrow> bytes result" where
  "extract_x25519_from_key_share rcd =
     (let pos0 = SID_OFFSET + 32 in
      if pos0 + 2 > length rcd then Inl (Bail ''truncated before cipher_suites'')
      else and_then (u16_at rcd pos0) (\<lambda>cs_len.
        let pos1 = pos0 + (2 + cs_len) in
        if pos1 + 1 > length rcd then Inl (Bail ''truncated before compression_methods'')
        else and_then (byte_at rcd pos1) (\<lambda>cm_len.
          let pos2 = pos1 + (1 + unat cm_len) in
          if pos2 + 2 > length rcd then Inl (Bail ''truncated before extensions_length'')
          else and_then (u16_at rcd pos2) (\<lambda>ext_total.
            let pos3 = pos2 + 2; ext_end = pos3 + ext_total in
            if ext_end > length rcd then Inl (Bail ''extensions out of bounds'')
            else ext_loop rcd pos3 ext_end))))"

text \<open>The first cipher suite of a known kind decides between AES-GCM and ChaCha20.\<close>

definition aes_suites :: "nat list" where
  "aes_suites = [0x1301, 0x1302, 0x009c, 0x009d, 0xc02b, 0xc02c, 0xc02f, 0xc030]"

definition chacha_suites :: "nat list" where
  "chacha_suites = [0x1303, 0xcca8, 0xcca9]"

function suite_loop :: "bytes \<Rightarrow> nat \<Rightarrow> nat \<Rightarrow> bool result" where
  "suite_loop rcd i fin =
     (if i + 1 < fin then
        and_then (u16_at rcd i) (\<lambda>suite.
          if suite \<in> set aes_suites then Inr True
          else if suite \<in> set chacha_suites then Inr False
          else suite_loop rcd (i + 2) fin)
      else Inr True)"
  by pat_completeness auto
termination by (relation "measure (\<lambda>(_, i, fin). fin - i)") auto

declare suite_loop.simps [simp del]

definition cipher_suite_prefers_aes :: "bytes \<Rightarrow> bool result" where
  "cipher_suite_prefers_aes rcd =
     (let pos = SID_OFFSET + 32 in
      if pos + 2 > length rcd then Inr True
      else and_then (u16_at rcd pos) (\<lambda>cs_len.
        let cs_start = pos + 2 in
        if cs_start + cs_len > length rcd \<or> cs_len < 2 then Inr True
        else suite_loop rcd cs_start (cs_start + cs_len)))"

definition base64_url_decode :: "reality_lib \<Rightarrow> rstring \<Rightarrow> bytes result" where
  "base64_url_decode L s =
     (let s = trim s in
      case b64_url L s of
        Some v \<Rightarrow> Inr v
      | None \<Rightarrow> (case b64_std L s of Some v \<Rightarrow> Inr v | None \<Rightarrow> Inl (Bail ''base64 decode'')))"

fun match_short_id :: "reality_lib \<Rightarrow> bytes \<Rightarrow> bytes \<Rightarrow> rstring list \<Rightarrow> bytes result" where
  "match_short_id L auth_key plaintext [] = Inl (Bail ''short_id mismatch'')"
| "match_short_id L auth_key plaintext (sid_hex # sids) =
     (case hex_decode L sid_hex of
        None \<Rightarrow> Inl (Bail ''short_id decode'')
      | Some sid_bytes \<Rightarrow>
          let n = length sid_bytes in
          if n > 8 then Inl (Bail ''short_id too long'')
          else if n = 0 then Inr auth_key
          else if length plaintext \<ge> 8 + n \<and> take n (drop 8 plaintext) = sid_bytes then Inr auth_key
          else match_short_id L auth_key plaintext sids)"

text \<open>The associated data: the handshake message with the session id cleared.\<close>

definition hello_aad :: "bytes \<Rightarrow> bytes" where
  "hello_aad rcd =
     (let aad = drop RECORD_HDR rcd; start = SID_OFFSET - RECORD_HDR
      in take start aad @ replicate 32 0 @ drop (start + 32) aad)"

definition reality_key :: "reality_lib \<Rightarrow> bytes \<Rightarrow> bytes \<Rightarrow> bytes \<Rightarrow> bytes" where
  "reality_key L random server_private ecdhe_pub =
     (let raw_auth_key = x25519 L server_private ecdhe_pub
      in hkdf L (take 20 random) raw_auth_key (str ''REALITY''))"

definition verify_reality_client :: "reality_lib \<Rightarrow> reality_config \<Rightarrow> bytes \<Rightarrow> bytes result" where
  "verify_reality_client L cfg rcd =
     (if length rcd < SID_OFFSET + 32 + 4 then Inl (Bail ''record too short'')
      else
      and_then (byte_at rcd 0) (\<lambda>rec_type.
      if rec_type \<noteq> 0x16 then Inl (Bail ''not a handshake record'')
      else and_then (byte_at rcd RECORD_HDR) (\<lambda>hs_type.
      if hs_type \<noteq> 0x01 then Inl (Bail ''not a ClientHello'')
      else and_then (byte_at rcd SID_LEN_OFFSET) (\<lambda>sid_len.
      if sid_len \<noteq> 32 then Inl (Bail ''session_id_len'')
      else
      and_then (get_slice rcd RANDOM_OFFSET RANDOM_LEN) (\<lambda>random.
      and_then (get_slice rcd SID_OFFSET 32) (\<lambda>session_id.
      and_then (extract_x25519_from_key_share rcd) (\<lambda>ecdhe_pub.
      and_then (base64_url_decode L (private_key cfg)) (\<lambda>server_private.
      and_then (ensure (length server_private = 32) (Bail ''private_key must be 32 bytes'')) (\<lambda>_.
      let auth_key = reality_key L random server_private ecdhe_pub;
          nonce = drop 20 random
      in and_then (cipher_suite_prefers_aes rcd) (\<lambda>use_aes.
         case (if use_aes then gcm256_open L auth_key nonce (hello_aad rcd) session_id
               else chacha_open L auth_key nonce (hello_aad rcd) session_id) of
           None \<Rightarrow> Inl (Bail ''session id does not open'')
         | Some plaintext \<Rightarrow> match_short_id L auth_key plaintext (short_ids cfg)))))))))))"

section \<open>No panic\<close>

definition no_panic :: "'a result \<Rightarrow> bool" where
  "no_panic r \<longleftrightarrow> (\<forall>m. r \<noteq> Inl (Panic m))"

lemma no_panic_simps [simp]:
  "no_panic (Inr a)" "no_panic (Inl (Bail m))" "no_panic (ensure b (Bail m))"
  by (simp_all add: no_panic_def ensure_def)

lemma no_panic_bind: "no_panic r \<Longrightarrow> (\<And>a. r = Inr a \<Longrightarrow> no_panic (f a)) \<Longrightarrow> no_panic (and_then r f)"
  by (cases r) (simp_all add: no_panic_def)

lemma u16_at_bound: "u16_at h i = Inr v \<Longrightarrow> v < 65536"
  using unat_u16_less by (auto simp: u16_at_def and_then_eq_Inr)

lemma share_loop_no_panic: "fin \<le> length data \<Longrightarrow> no_panic (share_loop data pos fin m)"
proof (induction data pos fin m rule: share_loop.induct)
  case (1 data pos fin mlkem)
  show ?case
  proof (cases "pos + 4 \<le> fin")
    case False
    then show ?thesis by (subst share_loop.simps) (simp split: option.splits)
  next
    case True
    with 1(3) have u: "pos + 1 < length data" "pos + 2 + 1 < length data" by simp_all
    show ?thesis
      using True 1 u
      by (subst share_loop.simps) (simp add: u16_at_ok get_slice_ok Let_def)
  qed
qed

lemma parse_share_no_panic: "no_panic (parse_x25519_key_share data)"
  by (auto simp: parse_x25519_key_share_def u16_at_ok intro: share_loop_no_panic)

lemma ext_loop_no_panic: "fin \<le> length rcd \<Longrightarrow> no_panic (ext_loop rcd pos fin)"
proof (induction rcd pos fin rule: ext_loop.induct)
  case (1 rcd pos fin)
  show ?case
  proof (cases "pos + 4 \<le> fin")
    case False
    then show ?thesis by (subst ext_loop.simps) simp
  next
    case True
    with 1(2) have u: "pos + 1 < length rcd" "pos + 2 + 1 < length rcd" by simp_all
    show ?thesis
      using True 1 u by (subst ext_loop.simps) (simp add: u16_at_ok get_slice_ok Let_def parse_share_no_panic)
  qed
qed

lemma suite_loop_no_panic: "fin \<le> length rcd \<Longrightarrow> no_panic (suite_loop rcd i fin)"
proof (induction rcd i fin rule: suite_loop.induct)
  case (1 rcd i fin)
  show ?case
  proof (cases "i + 1 < fin")
    case False
    then show ?thesis by (subst suite_loop.simps) simp
  next
    case True
    with 1(2) have "i + 1 < length rcd" by simp
    with True 1 show ?thesis by (subst suite_loop.simps) (simp add: u16_at_ok)
  qed
qed

lemma extract_no_panic: "no_panic (extract_x25519_from_key_share rcd)"
  unfolding extract_x25519_from_key_share_def Let_def
  by (auto simp: u16_at_ok byte_at_ok intro!: ext_loop_no_panic)

lemma prefers_no_panic: "no_panic (cipher_suite_prefers_aes rcd)"
  unfolding cipher_suite_prefers_aes_def Let_def
  by (auto simp: u16_at_ok intro!: suite_loop_no_panic)

lemma match_no_panic: "no_panic (match_short_id L k pt sids)"
  by (induction sids) (auto simp: Let_def split: option.splits)

lemma b64_no_panic: "no_panic (base64_url_decode L s)"
  by (simp add: base64_url_decode_def Let_def split: option.splits)

lemma verify_no_panic: "no_panic (verify_reality_client L cfg rcd)"
proof (cases "length rcd < SID_OFFSET + 32 + 4")
  case True
  then show ?thesis by (simp add: verify_reality_client_def)
next
  case False
  then have len: "80 \<le> length rcd" by (simp add: hello_offsets)
  then have "rcd \<noteq> []" by auto
  with len have ok: "byte_at rcd 0 = Inr (rcd ! 0)" "byte_at rcd RECORD_HDR = Inr (rcd ! RECORD_HDR)"
    "byte_at rcd SID_LEN_OFFSET = Inr (rcd ! SID_LEN_OFFSET)"
    "get_slice rcd RANDOM_OFFSET RANDOM_LEN = Inr (take RANDOM_LEN (drop RANDOM_OFFSET rcd))"
    "get_slice rcd SID_OFFSET 32 = Inr (take 32 (drop SID_OFFSET rcd))"
    by (simp_all add: byte_at_ok get_slice_ok hello_offsets)
  show ?thesis
    unfolding verify_reality_client_def ok and_then_simps Let_def
    by (auto intro!: no_panic_bind extract_no_panic prefers_no_panic b64_no_panic match_no_panic split: option.splits)
qed

text \<open>
  No record makes the REALITY check panic: every index and get_slice that the parsers of the ClientHello take from
  the unauthenticated bytes is in range, whatever the bytes, the configuration and the libraries' answers.
\<close>

theorem reality_never_panics: "verify_reality_client L cfg rcd \<noteq> Inl (Panic m)"
  using verify_no_panic [of L cfg rcd] by (simp add: no_panic_def)

section \<open>What a ClientHello says\<close>

text \<open>
  A tag and a length-prefixed body: the layout of extensions and of key shares.  The reference reading of a list of shares
  and of extensions, over the structured data.
\<close>

definition tlv :: "u16 \<times> bytes \<Rightarrow> bytes" where
  "tlv e = to_be 2 (fst e) @ to_be 2 (of_nat (length (snd e)) :: u16) @ snd e"

definition tlvs :: "(u16 \<times> bytes) list \<Rightarrow> bytes" where
  "tlvs es = concat (map tlv es)"

definition small :: "(u16 \<times> bytes) list \<Rightarrow> bool" where
  "small es \<longleftrightarrow> (\<forall>e \<in> set es. length (snd e) < 65536)"

fun pick_share :: "(u16 \<times> bytes) list \<Rightarrow> bytes option \<Rightarrow> bytes option" where
  "pick_share [] hybrid = hybrid"
| "pick_share ((grp, key) # ss) hybrid =
     (if grp = 0x001d \<and> length key = 32 then Some key
      else if grp = 0x11ec \<and> 1120 \<le> length key then pick_share ss (Some (drop (length key - 32) key))
      else pick_share ss hybrid)"

lemma tlv_parts:
  assumes "length P = pos" "length k < 65536"
  shows "u16_at (P @ tlv (g, k) @ Q) pos = Inr (unat g)" "u16_at (P @ tlv (g, k) @ Q) (pos + 2) = Inr (length k)"
    "drop (pos + 4) (P @ tlv (g, k) @ Q) = k @ Q"
proof -
  have "u16_at ((P @ to_be 2 g) @ to_be 2 (of_nat (length k) :: u16) @ k @ Q) (pos + 2) = Inr (unat (of_nat (length k) :: u16))"
    by (rule u16_at_append) (simp add: assms(1))
  then show "u16_at (P @ tlv (g, k) @ Q) (pos + 2) = Inr (length k)"
    using assms(2) by (simp add: tlv_def unat_u16_of_nat)
  show "u16_at (P @ tlv (g, k) @ Q) pos = Inr (unat g)" by (simp add: tlv_def u16_at_append [OF assms(1)])
  show "drop (pos + 4) (P @ tlv (g, k) @ Q) = k @ Q" using assms(1) by (simp add: tlv_def)
qed

lemma length_tlv: "length (tlv e) = 4 + length (snd e)"
  by (simp add: tlv_def)

lemma unat_u16_eq: "unat (g :: u16) = n \<longleftrightarrow> n < 65536 \<and> g = of_nat n"
  using unat_u16_less [of g] by (auto simp: unat_u16_of_nat)

lemma share_loop_tlvs:
  assumes "length P = pos" "small ss" "fin = pos + length (tlvs ss)"
  shows "share_loop (P @ tlvs ss @ Q) pos fin hybrid
    = (case pick_share ss hybrid of Some k \<Rightarrow> Inr k | None \<Rightarrow> Inl (Bail ''no x25519 in KeyShare''))"
  using assms
proof (induction ss arbitrary: P pos hybrid)
  case Nil
  then show ?case by (subst share_loop.simps) (simp add: tlvs_def)
next
  case (Cons e ss)
  obtain g k where e: "e = (g, k)" by fastforce
  have k: "length k < 65536" using Cons.prems(2) by (simp add: small_def e)
  define d where "d = P @ tlv (g, k) @ tlvs ss @ Q"
  have d: "P @ tlvs (e # ss) @ Q = d" by (simp add: d_def tlvs_def e)
  note parts = tlv_parts [OF Cons.prems(1) k, of g "tlvs ss @ Q", folded d_def]
  have fin: "fin = pos + 4 + length k + length (tlvs ss)" using Cons.prems(3) by (simp add: tlvs_def length_tlv e)
  have len: "pos + 4 + length k \<le> length d" using Cons.prems(1) by (simp add: d_def length_tlv)
  have IH: "share_loop d (pos + 4 + length k) fin h
      = (case pick_share ss h of Some k \<Rightarrow> Inr k | None \<Rightarrow> Inl (Bail ''no x25519 in KeyShare''))" for h
    using Cons.IH [of "P @ tlv (g, k)" "pos + 4 + length k" h] Cons.prems(1,2) fin by (simp add: d_def length_tlv small_def)
  have sl: "get_slice d (pos + 4) 32 = Inr k" if "length k = 32"
    using len that parts(3) by (simp add: get_slice_def)
  have hy: "get_slice d (pos + length k - 28) 32 = Inr (drop (length k - 32) k)" if "1120 \<le> length k"
  proof -
    have i: "pos + length k - 28 = pos + 4 + (length k - 32)" using that by simp
    have "drop (pos + 4 + (length k - 32)) d = drop (length k - 32) (drop (pos + 4) d)" by (simp add: add.commute)
    then have "take 32 (drop (pos + 4 + (length k - 32)) d) = drop (length k - 32) k" using that by (simp add: parts(3))
    moreover have "pos + 4 + (length k - 32) + 32 \<le> length d" using len that by linarith
    ultimately show ?thesis unfolding i by (simp only: get_slice_ok)
  qed
  have g: "unat g = 0x001d \<longleftrightarrow> g = 0x001d" "unat g = 0x11ec \<longleftrightarrow> g = 0x11ec" by (simp_all add: unat_u16_eq)
  show ?case
    unfolding d by (subst share_loop.simps) (simp add: fin parts parts(2) [unfolded add_2_eq_Suc'] Let_def g sl hy IH [unfolded fin] e)
qed

lemma parse_share_tlvs:
  assumes "small ss" "length (tlvs ss) < 65536"
  shows "parse_x25519_key_share (to_be 2 (of_nat (length (tlvs ss)) :: u16) @ tlvs ss)
    = (case pick_share ss None of Some k \<Rightarrow> Inr k | None \<Rightarrow> Inl (Bail ''no x25519 in KeyShare''))"
proof -
  have "u16_at (to_be 2 (of_nat (length (tlvs ss)) :: u16) @ tlvs ss) 0 = Inr (length (tlvs ss))"
    using u16_at_append [of "[]" 0 "of_nat (length (tlvs ss))" "tlvs ss"] assms(2) by (simp add: unat_u16_of_nat)
  then show ?thesis
    using share_loop_tlvs [of "to_be 2 (of_nat (length (tlvs ss)) :: u16)" 2 ss "2 + length (tlvs ss)" "[]" None] assms(1)
    by (simp add: parse_x25519_key_share_def)
qed

lemma byte_at_append: "length xs = i \<Longrightarrow> byte_at (xs @ b # ys) i = Inr b"
  by (auto simp: byte_at_def)

lemma ext_loop_tlvs:
  assumes "length P = pos" "small es" "fin = pos + length (tlvs es)"
  shows "ext_loop (P @ tlvs es @ Q) pos fin
    = (case find (\<lambda>e. fst e = 0x0033) es of Some e \<Rightarrow> parse_x25519_key_share (snd e) | None \<Rightarrow> Inl (Bail ''no KeyShare extension''))"
  using assms
proof (induction es arbitrary: P pos)
  case Nil
  then show ?case by (subst ext_loop.simps) (simp add: tlvs_def)
next
  case (Cons e es)
  obtain g k where e: "e = (g, k)" by fastforce
  have k: "length k < 65536" using Cons.prems(2) by (simp add: small_def e)
  define d where "d = P @ tlv (g, k) @ tlvs es @ Q"
  have d: "P @ tlvs (e # es) @ Q = d" by (simp add: d_def tlvs_def e)
  note parts = tlv_parts [OF Cons.prems(1) k, of g "tlvs es @ Q", folded d_def]
  have fin: "fin = pos + 4 + length k + length (tlvs es)" using Cons.prems(3) by (simp add: tlvs_def length_tlv e)
  have len: "pos + 4 + length k \<le> length d" using Cons.prems(1) by (simp add: d_def length_tlv)
  have IH: "ext_loop d (pos + 4 + length k) fin
      = (case find (\<lambda>e. fst e = 0x0033) es of Some e \<Rightarrow> parse_x25519_key_share (snd e) | None \<Rightarrow> Inl (Bail ''no KeyShare extension''))"
    using Cons.IH [of "P @ tlv (g, k)" "pos + 4 + length k"] Cons.prems(1,2) fin by (simp add: d_def length_tlv small_def)
  have sl: "get_slice d (pos + 4) (length k) = Inr k" using len parts(3) by (simp add: get_slice_def)
  have g: "unat g = 0x0033 \<longleftrightarrow> g = 0x0033" by (simp add: unat_u16_eq)
  show ?case
    unfolding d by (subst ext_loop.simps) (simp add: fin parts parts(2) [unfolded add_2_eq_Suc'] Let_def g sl IH [unfolded fin] e)
qed

text \<open>A ClientHello in its record; \<open>rest\<close> of the record may follow.\<close>

record client_hello =
  ch_record :: bytes
  ch_length :: bytes
  ch_version :: bytes
  ch_random :: bytes
  ch_suites :: "u16 list"
  ch_compression :: bytes
  ch_exts :: "(u16 \<times> bytes) list"

definition suite_bytes :: "u16 list \<Rightarrow> bytes" where
  "suite_bytes ss = concat (map (to_be 2) ss)"

definition hello_ok :: "client_hello \<Rightarrow> bool" where
  "hello_ok h \<longleftrightarrow> length (ch_record h) = 4 \<and> length (ch_length h) = 3 \<and> length (ch_version h) = 2 \<and> length (ch_random h) = 32
     \<and> 2 * length (ch_suites h) < 65536 \<and> length (ch_compression h) < 256 \<and> small (ch_exts h) \<and> length (tlvs (ch_exts h)) < 65536"

definition hello_head :: "client_hello \<Rightarrow> bytes" where
  "hello_head h = 0x16 # ch_record h @ [0x01] @ ch_length h @ ch_version h @ ch_random h @ [32]"

definition hello_tail :: "client_hello \<Rightarrow> bytes" where
  "hello_tail h = to_be 2 (of_nat (2 * length (ch_suites h)) :: u16) @ suite_bytes (ch_suites h)
     @ [of_nat (length (ch_compression h))] @ ch_compression h
     @ to_be 2 (of_nat (length (tlvs (ch_exts h))) :: u16) @ tlvs (ch_exts h)"

definition hello_bytes :: "client_hello \<Rightarrow> bytes \<Rightarrow> bytes" where
  "hello_bytes h sid = hello_head h @ sid @ hello_tail h"

lemma length_hello_head: "hello_ok h \<Longrightarrow> length (hello_head h) = 44"
  by (simp add: hello_head_def hello_ok_def)

lemma length_suite_bytes: "length (suite_bytes ss) = 2 * length ss"
  by (induction ss) (simp_all add: suite_bytes_def)

text \<open>Where the parser's reads fall in a hello: after the suites at \<open>hello_p1\<close>, after the compression methods at \<open>hello_p2\<close>.\<close>

definition hello_p1 :: "client_hello \<Rightarrow> nat" where
  "hello_p1 h = 78 + 2 * length (ch_suites h)"

definition hello_p2 :: "client_hello \<Rightarrow> nat" where
  "hello_p2 h = hello_p1 h + 1 + length (ch_compression h)"

lemma hello_layout:
  assumes "hello_ok h" "length sid = 32"
  shows "u16_at (hello_bytes h sid) 76 = Inr (2 * length (ch_suites h))"
    and "byte_at (hello_bytes h sid) (hello_p1 h) = Inr (of_nat (length (ch_compression h)))"
    and "u16_at (hello_bytes h sid) (hello_p2 h) = Inr (length (tlvs (ch_exts h)))"
    and "length (hello_bytes h sid) = hello_p2 h + 2 + length (tlvs (ch_exts h))"
    and "ext_loop (hello_bytes h sid) (hello_p2 h + 2) (hello_p2 h + 2 + length (tlvs (ch_exts h)))
      = (case find (\<lambda>e. fst e = 0x0033) (ch_exts h) of
           Some e \<Rightarrow> parse_x25519_key_share (snd e) | None \<Rightarrow> Inl (Bail ''no KeyShare extension''))"
proof -
  let ?cs = "suite_bytes (ch_suites h)" and ?cm = "ch_compression h" and ?E = "tlvs (ch_exts h)"
  let ?n = "of_nat (2 * length (ch_suites h)) :: u16" and ?x = "of_nat (length ?E) :: u16"
  define d where "d = hello_bytes h sid"
  let ?P0 = "hello_head h @ sid"
  let ?P1 = "?P0 @ to_be 2 ?n @ ?cs"
  let ?P2 = "?P1 @ [of_nat (length ?cm)] @ ?cm"
  let ?P3 = "?P2 @ to_be 2 ?x"
  have d0: "d = ?P0 @ to_be 2 ?n @ (?cs @ [of_nat (length ?cm)] @ ?cm @ to_be 2 ?x @ ?E)"
    "d = ?P1 @ [of_nat (length ?cm)] @ (?cm @ to_be 2 ?x @ ?E)" "d = ?P2 @ to_be 2 ?x @ ?E" "d = ?P3 @ ?E @ []"
    by (simp_all add: d_def hello_bytes_def hello_tail_def)
  have len: "length ?P0 = 76" "length ?P1 = hello_p1 h" "length ?P2 = hello_p2 h" "length ?P3 = hello_p2 h + 2"
    using assms length_hello_head [OF assms(1)] by (simp_all add: hello_p1_def hello_p2_def length_suite_bytes)
  have n: "unat ?n = 2 * length (ch_suites h)" "unat ?x = length ?E"
    using assms(1) by (simp_all add: hello_ok_def unat_u16_of_nat del: of_nat_mult)
  show "u16_at (hello_bytes h sid) 76 = Inr (2 * length (ch_suites h))"
    unfolding d_def [symmetric] d0(1) using u16_at_append [OF len(1)] n(1) by metis
  show "byte_at (hello_bytes h sid) (hello_p1 h) = Inr (of_nat (length ?cm))"
    unfolding d_def [symmetric] d0(2) append_Cons append_Nil using byte_at_append [OF len(2)] .
  show "u16_at (hello_bytes h sid) (hello_p2 h) = Inr (length ?E)"
    unfolding d_def [symmetric] d0(3) using u16_at_append [OF len(3)] n(2) by metis
  show "length (hello_bytes h sid) = hello_p2 h + 2 + length ?E"
    using len(4) by (simp add: d_def [symmetric] d0(4))
  show "ext_loop (hello_bytes h sid) (hello_p2 h + 2) (hello_p2 h + 2 + length ?E)
    = (case find (\<lambda>e. fst e = 0x0033) (ch_exts h) of
         Some e \<Rightarrow> parse_x25519_key_share (snd e) | None \<Rightarrow> Inl (Bail ''no KeyShare extension''))"
    unfolding d_def [symmetric] d0(4) by (rule ext_loop_tlvs [OF len(4)]) (use assms(1) in \<open>simp_all add: hello_ok_def\<close>)
qed

lemma hello_positions:
  assumes "hello_ok h"
  shows "SID_OFFSET + 32 = 76" "76 + (2 + 2 * length (ch_suites h)) = hello_p1 h"
    "hello_p1 h + (1 + unat (of_nat (length (ch_compression h)) :: u8)) = hello_p2 h" "78 \<le> hello_p1 h" "hello_p1 h < hello_p2 h"
  using assms by (simp_all add: hello_offsets hello_p1_def hello_p2_def hello_ok_def unat_u8_of_nat)

lemma extract_hello:
  assumes "hello_ok h" "length sid = 32"
  shows "extract_x25519_from_key_share (hello_bytes h sid)
    = (case find (\<lambda>e. fst e = 0x0033) (ch_exts h) of
         Some e \<Rightarrow> parse_x25519_key_share (snd e) | None \<Rightarrow> Inl (Bail ''no KeyShare extension''))"
  unfolding extract_x25519_from_key_share_def hello_positions [OF assms(1)] Let_def hello_layout(1-3,5) [OF assms] and_then_simps
  using hello_layout(4) [OF assms] hello_positions(4,5) [OF assms(1)] by simp

lemma take_reads: "i < n \<Longrightarrow> n \<le> length d \<Longrightarrow> byte_at (take n d) i = byte_at d i"
  "i + 1 < n \<Longrightarrow> n \<le> length d \<Longrightarrow> u16_at (take n d) i = u16_at d i"
  by (simp_all add: byte_at_def u16_at_def)

text \<open>Cut anywhere, a hello no longer yields its key share: the lengths it announces run past what there is.\<close>

lemma extract_truncated:
  assumes "hello_ok h" "length sid = 32" "n < length (hello_bytes h sid)"
  shows "\<exists>m. extract_x25519_from_key_share (take n (hello_bytes h sid)) = Inl (Bail m)"
proof -
  note l = hello_layout [OF assms(1,2)] and p = hello_positions [OF assms(1)]
  let ?d = "hello_bytes h sid"
  have n: "n \<le> length ?d" "length (take n ?d) = n" using assms(3) by simp_all
  consider "n < 78" | "78 \<le> n" "n < hello_p1 h + 1" | "hello_p1 h + 1 \<le> n" "n < hello_p2 h + 2" | "hello_p2 h + 2 \<le> n" by linarith
  then show ?thesis
  proof cases
    case 1
    then show ?thesis unfolding extract_x25519_from_key_share_def n(2) p(1) Let_def by simp
  next
    case 2
    then have "u16_at (take n ?d) 76 = Inr (2 * length (ch_suites h))" using l(1) n(1) by (simp add: take_reads)
    with 2 show ?thesis unfolding extract_x25519_from_key_share_def n(2) p(1) Let_def by (simp add: hello_p1_def)
  next
    case 3
    then have "u16_at (take n ?d) 76 = Inr (2 * length (ch_suites h))"
      "byte_at (take n ?d) (hello_p1 h) = Inr (of_nat (length (ch_compression h)))"
      using l(1,2) n(1) p(4) by (simp_all add: take_reads)
    with 3 p(4) show ?thesis unfolding extract_x25519_from_key_share_def n(2) p(1) Let_def by (simp add: p(2,3) [simplified])
  next
    case 4
    then have "u16_at (take n ?d) 76 = Inr (2 * length (ch_suites h))"
      "byte_at (take n ?d) (hello_p1 h) = Inr (of_nat (length (ch_compression h)))"
      "u16_at (take n ?d) (hello_p2 h) = Inr (length (tlvs (ch_exts h)))"
      using l(1-3) n(1) p(4,5) by (simp_all add: take_reads)
    then show ?thesis
      unfolding extract_x25519_from_key_share_def n(2) p(1) Let_def using 4 p(4,5) assms(3) l(4)
      by (simp only: and_then_simps p(2,3)) simp
  qed
qed

text \<open>
  C39.  The scan of the raw ClientHello agrees with the reading of its structure: for every well-formed
  hello the key taken is that of the first key share extension, its first X25519 share if there is one and else the tail of the
  last hybrid share.
\<close>

theorem reality_key_share_equiv:
  assumes "hello_ok h" "length sid = 32" "small ss" "length (tlvs ss) < 65536"
    and "find (\<lambda>e. fst e = 0x0033) (ch_exts h) = Some (0x0033, to_be 2 (of_nat (length (tlvs ss)) :: u16) @ tlvs ss)"
  shows "extract_x25519_from_key_share (hello_bytes h sid)
    = (case pick_share ss None of Some k \<Rightarrow> Inr k | None \<Rightarrow> Inl (Bail ''no x25519 in KeyShare''))"
  unfolding extract_hello [OF assms(1,2)] assms(5) using parse_share_tlvs [OF assms(3,4)] by simp

section \<open>Cipher suites\<close>

definition aes_first :: "u16 list \<Rightarrow> bool" where
  "aes_first ss = (case find (\<lambda>s. unat s \<in> set aes_suites \<or> unat s \<in> set chacha_suites) ss of
     Some s \<Rightarrow> unat s \<in> set aes_suites | None \<Rightarrow> True)"

lemma suite_loop_bytes:
  assumes "length P = i" "fin = i + 2 * length ss"
  shows "suite_loop (P @ suite_bytes ss @ Q) i fin = Inr (aes_first ss)"
  using assms
proof (induction ss arbitrary: P i)
  case Nil
  then show ?case by (subst suite_loop.simps) (simp add: aes_first_def)
next
  case (Cons s ss)
  have u: "u16_at (P @ suite_bytes (s # ss) @ Q) i = Inr (unat s)"
    using u16_at_append [OF Cons.prems(1), of s "suite_bytes ss @ Q"] by (simp add: suite_bytes_def)
  have IH: "suite_loop (P @ suite_bytes (s # ss) @ Q) (i + 2) fin = Inr (aes_first ss)"
    using Cons.IH [of "P @ to_be 2 s" "i + 2"] Cons.prems by (simp add: suite_bytes_def)
  have c: "i + 1 < fin" using Cons.prems(2) by simp
  show ?case
    by (subst suite_loop.simps) (simp only: c if_True u and_then_simps IH, simp add: aes_first_def)
qed

lemma prefers_hello:
  assumes "hello_ok h" "length sid = 32"
  shows "cipher_suite_prefers_aes (hello_bytes h sid) = Inr (aes_first (ch_suites h))"
proof -
  let ?n = "of_nat (2 * length (ch_suites h)) :: u16"
  let ?Q = "[of_nat (length (ch_compression h))] @ ch_compression h
     @ to_be 2 (of_nat (length (tlvs (ch_exts h))) :: u16) @ tlvs (ch_exts h)"
  define d where "d = hello_bytes h sid"
  let ?P0 = "hello_head h @ sid"
  have d: "d = ?P0 @ to_be 2 ?n @ suite_bytes (ch_suites h) @ ?Q" "d = (?P0 @ to_be 2 ?n) @ suite_bytes (ch_suites h) @ ?Q"
    by (simp_all add: d_def hello_bytes_def hello_tail_def)
  have len: "length ?P0 = 76" "length (?P0 @ to_be 2 ?n) = 78" using assms length_hello_head [OF assms(1)] by simp_all
  have n: "unat ?n = 2 * length (ch_suites h)" using assms(1) by (simp add: hello_ok_def unat_u16_of_nat del: of_nat_mult)
  have u: "u16_at d 76 = Inr (2 * length (ch_suites h))" unfolding d(1) using u16_at_append [OF len(1)] n by metis
  have s: "suite_loop d 78 (78 + 2 * length (ch_suites h)) = Inr (aes_first (ch_suites h))"
    unfolding d(2) by (rule suite_loop_bytes [OF len(2)]) simp
  have "length d = 78 + 2 * length (ch_suites h) + length ?Q"
    using len by (simp add: d(1) length_suite_bytes)
  then have b: "SID_OFFSET + 32 = 76" "(76 :: nat) + 2 = 78" "\<not> 78 > length d" "\<not> 78 + 2 * length (ch_suites h) > length d"
    by (simp_all add: hello_offsets)
  have z: "ch_suites h = [] \<Longrightarrow> aes_first (ch_suites h)" by (simp add: aes_first_def)
  show ?thesis
    unfolding d_def [symmetric] cipher_suite_prefers_aes_def b(1) Let_def b(2) u and_then_simps s
    using b(3,4) z by (cases "ch_suites h") simp_all
qed

section \<open>Acceptance\<close>

text \<open>
  What the libraries promise: both sides of the key agreement compute the same secret, and a text
  opens exactly to what was sealed, which is sixteen bytes shorter.
\<close>

type_synonym sealing = "bytes \<Rightarrow> bytes \<Rightarrow> bytes \<Rightarrow> bytes \<Rightarrow> bytes"

definition reality_laws :: "reality_lib \<Rightarrow> (bytes \<Rightarrow> bytes) \<Rightarrow> sealing \<Rightarrow> sealing \<Rightarrow> bool" where
  "reality_laws L public seal_gcm seal_cc \<longleftrightarrow>
     (\<forall>a b. x25519 L a (public b) = x25519 L b (public a))
     \<and> (\<forall>k n aad pt ct. gcm256_open L k n aad ct = Some pt \<longleftrightarrow> ct = seal_gcm k n aad pt)
     \<and> (\<forall>k n aad pt ct. chacha_open L k n aad ct = Some pt \<longleftrightarrow> ct = seal_cc k n aad pt)
     \<and> (\<forall>k n aad pt. length (seal_gcm k n aad pt) = length pt + 16) \<and> (\<forall>k n aad pt. length (seal_cc k n aad pt) = length pt + 16)"

lemma match_short_id_listed:
  assumes "\<forall>x \<in> set pre. \<exists>b. hex_decode L x = Some b \<and> length b \<le> 8" "hex_decode L sid_hex = Some b" "length b \<le> 8"
    and "take (length b) (drop 8 pt) = b" "8 + length b \<le> length pt"
  shows "match_short_id L k pt (pre @ sid_hex # post) = Inr k"
  using assms by (induction pre) (auto simp: Let_def)

lemma match_short_id_ok:
  "match_short_id L k pt sids = Inr k' \<Longrightarrow> k' = k \<and> (\<exists>sid_hex \<in> set sids. \<exists>b. hex_decode L sid_hex = Some b \<and> length b \<le> 8
     \<and> (b = [] \<or> take (length b) (drop 8 pt) = b))"
  by (induction sids) (auto simp: Let_def split: option.splits if_splits)

lemma hello_fields:
  assumes "hello_ok h" "length sid = 32"
  shows "byte_at (hello_bytes h sid) 0 = Inr 0x16" "byte_at (hello_bytes h sid) RECORD_HDR = Inr 0x01"
    "byte_at (hello_bytes h sid) SID_LEN_OFFSET = Inr 32" "get_slice (hello_bytes h sid) RANDOM_OFFSET RANDOM_LEN = Inr (ch_random h)"
    "get_slice (hello_bytes h sid) SID_OFFSET 32 = Inr sid" "\<not> length (hello_bytes h sid) < SID_OFFSET + 32 + 4"
    "hello_aad (hello_bytes h sid) = drop 5 (hello_bytes h (replicate 32 0))"
proof -
  have l: "length (ch_record h) = 4" "length (ch_length h) = 3" "length (ch_version h) = 2" "length (ch_random h) = 32"
    using assms(1) by (simp_all add: hello_ok_def)
  show "byte_at (hello_bytes h sid) 0 = Inr 0x16" "byte_at (hello_bytes h sid) RECORD_HDR = Inr 0x01"
    "byte_at (hello_bytes h sid) SID_LEN_OFFSET = Inr 32" "get_slice (hello_bytes h sid) RANDOM_OFFSET RANDOM_LEN = Inr (ch_random h)"
    "get_slice (hello_bytes h sid) SID_OFFSET 32 = Inr sid" "\<not> length (hello_bytes h sid) < SID_OFFSET + 32 + 4"
    "hello_aad (hello_bytes h sid) = drop 5 (hello_bytes h (replicate 32 0))"
    using l assms(2)
    by (simp_all add: hello_bytes_def hello_head_def hello_tail_def byte_at_def get_slice_def hello_offsets nth_append hello_aad_def Let_def)
qed

text \<open>
  A client that knows the server's public key and a short id is accepted, and both sides derive the same
  authentication key: its hello offers a key share, and its session id is the short id sealed under the agreed key,
  with the whole handshake message (session id cleared) as associated data.
\<close>

lemma verify_accepts:
  assumes "reality_laws L public seal_gcm seal_cc" "hello_ok h" "small ss" "length (tlvs ss) < 65536"
    and "find (\<lambda>e. fst e = 0x0033) (ch_exts h) = Some (0x0033, to_be 2 (of_nat (length (tlvs ss)) :: u16) @ tlvs ss)"
    and "pick_share ss None = Some (public client)"
    and "base64_url_decode L (private_key cfg) = Inr server" "length server = 32"
    and "short_ids cfg = pre @ sid_hex # post" "\<forall>x \<in> set pre. \<exists>b. hex_decode L x = Some b \<and> length b \<le> 8"
    and "hex_decode L sid_hex = Some b" "length b \<le> 8" "length pt = 16" "take (length b) (drop 8 pt) = b"
    and "key = reality_key L (ch_random h) client (public server)"
    and "sid = (if aes_first (ch_suites h) then seal_gcm else seal_cc) key (drop 20 (ch_random h))
          (drop 5 (hello_bytes h (replicate 32 0))) pt"
  shows "verify_reality_client L cfg (hello_bytes h sid) = Inr key"
proof -
  have sid: "length sid = 32" using assms(1,13,16) by (simp add: reality_laws_def)
  note f = hello_fields [OF assms(2) sid]
  have share: "extract_x25519_from_key_share (hello_bytes h sid) = Inr (public client)"
    unfolding extract_hello [OF assms(2) sid] assms(5) using parse_share_tlvs [OF assms(3,4)] assms(6) by simp
  have key: "reality_key L (ch_random h) server (public client) = key"
    using assms(1,15) by (simp add: reality_laws_def reality_key_def)
  have opens: "(if aes_first (ch_suites h) then gcm256_open L key (drop 20 (ch_random h)) (drop 5 (hello_bytes h (replicate 32 0))) sid
      else chacha_open L key (drop 20 (ch_random h)) (drop 5 (hello_bytes h (replicate 32 0))) sid) = Some pt"
    using assms(1,16) by (auto simp: reality_laws_def)
  have "match_short_id L key pt (short_ids cfg) = Inr key"
    unfolding assms(9) by (rule match_short_id_listed [OF assms(10-12,14)]) (use assms(12,13) in simp)
  with f(6) show ?thesis
    unfolding verify_reality_client_def f(1-5,7) and_then_simps share assms(7) Let_def key prefers_hello [OF assms(2) sid] opens
    by (simp add: assms(8) ensure_def)
qed

text \<open>
  C13.  Only such clients are accepted: an accepted record carries in its session id a text sealed under the key that the server's
  private key and the record's key share agree on, bound to the whole message, with a configured short id in it.
\<close>

theorem reality_needs_secret:
  assumes "reality_laws L public seal_gcm seal_cc" "verify_reality_client L cfg rcd = Inr key"
  shows "\<exists>server share random pt sid_hex b. base64_url_decode L (private_key cfg) = Inr server
    \<and> extract_x25519_from_key_share rcd = Inr share \<and> random = take 32 (drop 11 rcd)
    \<and> key = reality_key L random server share
    \<and> take 32 (drop 44 rcd) \<in> {seal_gcm key (drop 20 random) (hello_aad rcd) pt, seal_cc key (drop 20 random) (hello_aad rcd) pt}
    \<and> sid_hex \<in> set (short_ids cfg) \<and> hex_decode L sid_hex = Some b \<and> (b = [] \<or> take (length b) (drop 8 pt) = b)"
proof -
  have "\<exists>random sid share server pt. get_slice rcd RANDOM_OFFSET RANDOM_LEN = Inr random \<and> get_slice rcd SID_OFFSET 32 = Inr sid
    \<and> extract_x25519_from_key_share rcd = Inr share \<and> base64_url_decode L (private_key cfg) = Inr server
    \<and> (gcm256_open L (reality_key L random server share) (drop 20 random) (hello_aad rcd) sid = Some pt
        \<or> chacha_open L (reality_key L random server share) (drop 20 random) (hello_aad rcd) sid = Some pt)
    \<and> match_short_id L (reality_key L random server share) pt (short_ids cfg) = Inr key"
    using assms(2) unfolding verify_reality_client_def Let_def
    by (auto simp: and_then_eq_Inr split: if_splits option.splits)
  then obtain random sid share server pt where
    r: "get_slice rcd RANDOM_OFFSET RANDOM_LEN = Inr random" "get_slice rcd SID_OFFSET 32 = Inr sid"
      "extract_x25519_from_key_share rcd = Inr share" "base64_url_decode L (private_key cfg) = Inr server"
    and k: "gcm256_open L (reality_key L random server share) (drop 20 random) (hello_aad rcd) sid = Some pt
        \<or> chacha_open L (reality_key L random server share) (drop 20 random) (hello_aad rcd) sid = Some pt"
    and m: "match_short_id L (reality_key L random server share) pt (short_ids cfg) = Inr key"
    by blast
  from match_short_id_ok [OF m] obtain sid_hex b where
    key: "key = reality_key L random server share"
    and s: "sid_hex \<in> set (short_ids cfg)" "hex_decode L sid_hex = Some b" "b = [] \<or> take (length b) (drop 8 pt) = b" by blast
  from r(1,2) have e: "random = take 32 (drop 11 rcd)" "sid = take 32 (drop 44 rcd)"
    by (simp_all add: get_slice_def hello_offsets split: if_splits)
  have "sid = seal_gcm key (drop 20 random) (hello_aad rcd) pt \<or> sid = seal_cc key (drop 20 random) (hello_aad rcd) pt"
    using k assms(1) unfolding key by (auto simp: reality_laws_def)
  then have "take 32 (drop 44 rcd) \<in> {seal_gcm key (drop 20 random) (hello_aad rcd) pt, seal_cc key (drop 20 random) (hello_aad rcd) pt}"
    unfolding e(2) by blast
  then show ?thesis
    by (intro exI [of _ server] exI [of _ share] exI [of _ random] exI [of _ pt] exI [of _ sid_hex] exI [of _ b] conjI r(3,4) e(1) key s)
qed

section \<open>Instances\<close>

definition toy_seal :: sealing where
  "toy_seal k n aad pt = pt @ replicate 16 0"

definition toy_open :: "bytes \<Rightarrow> bytes \<Rightarrow> bytes \<Rightarrow> bytes \<Rightarrow> bytes option" where
  "toy_open k n aad ct =
     (if 16 \<le> length ct \<and> drop (length ct - 16) ct = replicate 16 0 then Some (take (length ct - 16) ct) else None)"

definition toy_reality :: reality_lib where
  "toy_reality = \<lparr>b64_url = \<lambda>s. Some (replicate 32 1), b64_std = \<lambda>_. None, hex_decode = Some,
     x25519 = \<lambda>_ _. replicate 32 7, hkdf = \<lambda>_ k _. k, gcm256_open = toy_open, chacha_open = toy_open\<rparr>"

lemma toy_open_iff: "toy_open k n aad ct = Some pt \<longleftrightarrow> ct = toy_seal k n aad pt"
proof
  assume "toy_open k n aad ct = Some pt"
  then have "drop (length ct - 16) ct = replicate 16 0" "take (length ct - 16) ct = pt"
    unfolding toy_open_def by (simp_all split: if_splits)
  then show "ct = toy_seal k n aad pt" unfolding toy_seal_def by (metis append_take_drop_id)
next
  assume "ct = toy_seal k n aad pt"
  then show "toy_open k n aad ct = Some pt" by (simp add: toy_open_def toy_seal_def)
qed

lemma toy_reality_laws: "reality_laws toy_reality (\<lambda>_. replicate 32 3) toy_seal toy_seal"
  unfolding reality_laws_def toy_reality_def by (simp add: toy_open_iff) (simp add: toy_seal_def)

definition demo_shares :: "(u16 \<times> bytes) list" where
  "demo_shares = [(0x0a0a, [0]), (0x001d, replicate 32 3)]"

definition demo_hello :: client_hello where
  "demo_hello = \<lparr>ch_record = [3, 1, 0, 0], ch_length = [0, 0, 0], ch_version = [3, 3], ch_random = replicate 32 9,
     ch_suites = [0x0a0a, 0x1303], ch_compression = [0],
     ch_exts = [(0, [1, 2]), (0x0033, to_be 2 (of_nat (length (tlvs demo_shares)) :: u16) @ tlvs demo_shares)]\<rparr>"

lemma demo_hello_ok: "hello_ok demo_hello" "small demo_shares" "length (tlvs demo_shares) < 65536"
  "find (\<lambda>e. fst e = 0x0033) (ch_exts demo_hello) = Some (0x0033, to_be 2 (of_nat (length (tlvs demo_shares)) :: u16) @ tlvs demo_shares)"
  "pick_share demo_shares None = Some (replicate 32 3)"
  by (simp_all add: hello_ok_def demo_hello_def small_def demo_shares_def tlvs_def length_tlv)

definition demo_pt :: bytes where "demo_pt = replicate 8 0 @ [0xAB] @ replicate 7 0"

definition demo_sid :: bytes where
  "demo_sid = (if aes_first (ch_suites demo_hello) then toy_seal else toy_seal)
     (reality_key toy_reality (ch_random demo_hello) [5] (replicate 32 3)) (drop 20 (ch_random demo_hello))
     (drop 5 (hello_bytes demo_hello (replicate 32 0))) demo_pt"

definition demo_reality :: reality_config where
  "demo_reality = \<lparr>private_key = str ''k'', short_ids = [[0xCD], [0xAB]],
     dest = str ''d:443'', server_name = str ''d''\<rparr>"

lemma demo_reality_ok: "base64_url_decode toy_reality (private_key demo_reality) = Inr (replicate 32 1)"
  "length (replicate 32 (1 :: u8)) = 32" "short_ids demo_reality = [[0xCD]] @ [0xAB] # []"
  "\<forall>x \<in> set [[0xCD :: u8]]. \<exists>b. hex_decode toy_reality x = Some b \<and> length b \<le> 8"
  "hex_decode toy_reality [0xAB] = Some [0xAB]" "length [0xAB :: u8] \<le> 8" "length demo_pt = 16"
  "take (length [0xAB :: u8]) (drop 8 demo_pt) = [0xAB]"
  by (simp_all add: base64_url_decode_def toy_reality_def demo_reality_def demo_pt_def)

theorem reality_key_share_equiv_witness:
  "extract_x25519_from_key_share (hello_bytes demo_hello (replicate 32 0)) = Inr (replicate 32 3)"
  using reality_key_share_equiv [OF demo_hello_ok(1) _ demo_hello_ok(2-4), of "replicate 32 0"] demo_hello_ok(5) by simp

theorem reality_needs_secret_witness:
  "\<exists>sid_hex \<in> set (short_ids demo_reality). \<exists>b. hex_decode toy_reality sid_hex = Some b"
proof -
  have f: "length demo_sid = 32" by (simp add: demo_sid_def toy_seal_def demo_pt_def)
  note h = hello_fields [OF demo_hello_ok(1) f] and x = extract_hello [OF demo_hello_ok(1) f, unfolded demo_hello_ok(4)]
    and c = prefers_hello [OF demo_hello_ok(1) f]
  have k: "reality_key toy_reality r s p = replicate 32 7" for r s p by (simp add: reality_key_def toy_reality_def)
  have o: "gcm256_open toy_reality K n a demo_sid = Some demo_pt" "chacha_open toy_reality K n a demo_sid = Some demo_pt" for K n a
    by (simp_all add: toy_reality_def toy_open_iff demo_sid_def) (simp_all add: toy_seal_def)
  have m: "match_short_id toy_reality K demo_pt (short_ids demo_reality) = Inr K" for K
    unfolding demo_reality_ok(3) by (rule match_short_id_listed [OF demo_reality_ok(4-6,8)]) (simp add: demo_pt_def)
  have "verify_reality_client toy_reality demo_reality (hello_bytes demo_hello demo_sid) = Inr (replicate 32 7)"
    unfolding verify_reality_client_def h(1-5) and_then_simps x Let_def c
    using h(6) parse_share_tlvs [OF demo_hello_ok(2,3)] demo_hello_ok(5) demo_reality_ok(1)
    by (simp add: ensure_def k o m)
  from reality_needs_secret [OF toy_reality_laws this] show ?thesis by blast
qed

end
