(* ===== verification/Reality_Der.thy ===== *)
theory Reality_Der
  imports Rust_Std
begin

text \<open>
  The rewriting of the per-connection certificate of REALITY (\<open>vless/tls/reality.rs\<close>): DER lengths,
  the search for the signature value, its replacement and the correction of the outer length.
\<close>

section \<open>The model\<close>

fun length_bytes :: "bytes \<Rightarrow> nat \<Rightarrow> nat \<Rightarrow> nat \<Rightarrow> nat result" where
  "length_bytes data pos 0 len = Inr len"
| "length_bytes data pos (Suc n) len =
     and_then (byte_at data pos) (\<lambda>b. length_bytes data (pos + 1) n (256 * len + unat b))"

definition der_decode_length :: "bytes \<Rightarrow> nat \<Rightarrow> (nat \<times> nat) result" where
  "der_decode_length data pos =
     (if pos \<ge> length data then Inl (Bail ''DER length out of bounds'')
      else let first = data ! pos
      in if first < 0x80 then Inr (unat first, 1)
         else let n = unat (first AND 0x7f)
         in if n = 0 \<or> n > 4 \<or> pos + 1 + n > length data then Inl (Bail ''DER multi-byte length'')
            else and_then (length_bytes data (pos + 1) n 0) (\<lambda>len. Inr (len, 1 + n)))"

definition der_tlv_lens :: "bytes \<Rightarrow> nat \<Rightarrow> (nat \<times> nat) result" where
  "der_tlv_lens data pos =
     (if pos + 1 \<ge> length data then Inl (Bail ''TLV out of bounds'')
      else and_then (der_decode_length data (pos + 1)) (\<lambda>(content_len, len_field_bytes).
        Inr (1 + len_field_bytes + content_len, content_len)))"

definition der_tlv_content_start :: "bytes \<Rightarrow> nat \<Rightarrow> nat result" where
  "der_tlv_content_start data pos =
     and_then (der_decode_length data (pos + 1)) (\<lambda>(_, len_field_bytes). Inr (pos + 1 + len_field_bytes))"

definition der_encode_tlv :: "u8 \<Rightarrow> bytes \<Rightarrow> bytes" where
  "der_encode_tlv tag content =
     (let len = length content
      in [tag]
         @ (if len < 0x80 then [of_nat len]
            else if len < 0x100 then [0x81, of_nat len]
            else if len < 0x10000 then [0x82, of_nat (len div 256), of_nat (len mod 256)]
            else [0x83, of_nat (len div 65536), of_nat (len div 256), of_nat (len mod 256)])
         @ content)"

text \<open>\<open>Vec::splice\<close>: the range from \<open>a\<close> to \<open>b\<close> is replaced; a range outside the vector panics.\<close>

definition splice :: "bytes \<Rightarrow> nat \<Rightarrow> nat \<Rightarrow> bytes \<Rightarrow> bytes result" where
  "splice der a b new =
     (if a \<le> b \<and> b \<le> length der then Inr (take a der @ new @ drop b der) else Inl (Panic ''range out of bounds''))"

definition der_fix_outer_sequence_length :: "bytes \<Rightarrow> bytes result" where
  "der_fix_outer_sequence_length der =
     and_then (byte_at der 0) (\<lambda>tag.
     if tag \<noteq> 0x30 then Inl (Bail ''not a SEQUENCE'')
     else and_then (der_tlv_content_start der 0) (\<lambda>old_content_start.
       let new_content_len = length der - old_content_start;
           new_len_field =
             (if new_content_len < 0x80 then [of_nat new_content_len]
              else if new_content_len < 0x100 then [0x81, of_nat new_content_len]
              else [0x82, of_nat (new_content_len div 256), of_nat (new_content_len mod 256)])
       in splice der 1 old_content_start new_len_field))"

fun field_loop :: "bytes \<Rightarrow> bytes \<Rightarrow> nat \<Rightarrow> nat \<Rightarrow> bytes result" where
  "field_loop der new_sig 0 pos =
     (if pos \<ge> length der then Inl (Bail ''DER incomplete'')
      else and_then (der_tlv_lens der pos) (\<lambda>(total, _).
        and_then (byte_at der pos) (\<lambda>tag.
        if tag \<noteq> 0x03 then Inl (Bail ''signatureValue is not a BIT STRING'')
        else and_then (splice der pos (pos + total) (der_encode_tlv 0x03 (0x00 # new_sig))) der_fix_outer_sequence_length)))"
| "field_loop der new_sig (Suc n) pos =
     (if pos \<ge> length der then Inl (Bail ''DER incomplete'')
      else and_then (der_tlv_lens der pos) (\<lambda>(total, _). field_loop der new_sig n (pos + total)))"

definition replace_signature_in_cert_der :: "bytes \<Rightarrow> bytes \<Rightarrow> bytes result" where
  "replace_signature_in_cert_der der new_sig =
     (if der = [] \<or> der ! 0 \<noteq> 0x30 then Inl (Bail ''DER does not start with a SEQUENCE'')
      else and_then (der_tlv_content_start der 0) (\<lambda>pos. field_loop der new_sig 2 pos))"

section \<open>Encoded lengths decode\<close>

definition len_field :: "nat \<Rightarrow> bytes" where
  "len_field len =
     (if len < 0x80 then [of_nat len]
      else if len < 0x100 then [0x81, of_nat len]
      else if len < 0x10000 then [0x82, of_nat (len div 256), of_nat (len mod 256)]
      else [0x83, of_nat (len div 65536), of_nat (len div 256), of_nat (len mod 256)])"

lemma der_encode_tlv_field: "der_encode_tlv tag c = tag # len_field (length c) @ c"
  by (simp add: der_encode_tlv_def len_field_def Let_def)

lemma unat_of_nat_mod: "unat (of_nat n :: u8) = n mod 256"
  by (simp add: unat_of_nat)

lemma of_nat_small: "len < 0x80 \<Longrightarrow> (of_nat len :: u8) < 0x80"
  by (simp add: word_less_nat_alt unat_of_nat)

lemma first_bits: "\<not> (0x81 :: u8) < 0x80" "\<not> (0x82 :: u8) < 0x80" "\<not> (0x83 :: u8) < 0x80"
  "unat ((0x81 :: u8) AND 0x7f) = 1" "unat ((0x82 :: u8) AND 0x7f) = 2" "unat ((0x83 :: u8) AND 0x7f) = 3"
  by simp_all

lemma length_bytes_append:
  "length P = pos \<Longrightarrow> length_bytes (P @ bs @ Q) pos (length bs) len = Inr (foldl (\<lambda>l b. 256 * l + unat b) len bs)"
proof (induction bs arbitrary: P pos len)
  case (Cons b bs)
  have "byte_at (P @ (b # bs) @ Q) pos = Inr b" using Cons.prems by (auto simp: byte_at_def)
  with Cons.IH [of "P @ [b]" "pos + 1" "256 * len + unat b"] Cons.prems show ?case by simp
qed simp

lemma decode_long_form:
  assumes "length P = pos" "\<not> first < 0x80" "unat (first AND 0x7f) = length bs" "0 < length bs" "length bs \<le> 4"
  shows "der_decode_length (P @ first # bs @ Q) pos = Inr (foldl (\<lambda>l b. 256 * l + unat b) 0 bs, 1 + length bs)"
proof -
  have "(P @ first # bs @ Q) ! pos = first" using assms(1) by auto
  moreover have "length_bytes ((P @ [first]) @ bs @ Q) (pos + 1) (length bs) 0 = Inr (foldl (\<lambda>l b. 256 * l + unat b) 0 bs)"
    by (rule length_bytes_append) (simp add: assms(1))
  ultimately show ?thesis
    using assms unfolding der_decode_length_def by (simp add: Let_def)
qed

lemma der_decode_length_field:
  assumes "length P = pos" "len < 0x1000000"
  shows "der_decode_length (P @ len_field len @ Q) pos = Inr (len, length (len_field len))"
proof -
  consider "len < 0x80" | "0x80 \<le> len" "len < 0x100" | "0x100 \<le> len" "len < 0x10000" | "0x10000 \<le> len" by linarith
  then show ?thesis
  proof cases
    case 1
    have "(P @ of_nat len # Q) ! pos = of_nat len" using assms(1) by auto
    with 1 show ?thesis
      using assms(1) of_nat_small [OF 1] by (simp add: der_decode_length_def len_field_def Let_def unat_of_nat_mod)
  next
    case 2
    then show ?thesis
      using decode_long_form [OF assms(1) first_bits(1), of "[of_nat len]" Q] by (simp add: len_field_def unat_of_nat_mod)
  next
    case 3
    have "256 * (len div 256 mod 256) + len mod 256 = len" using 3 by simp
    with 3 show ?thesis
      using decode_long_form [OF assms(1) first_bits(2), of "[of_nat (len div 256), of_nat (len mod 256)]" Q]
      by (simp add: len_field_def unat_of_nat_mod)
  next
    case 4
    have "len div 65536 = len div 256 div 256" by (simp add: div_mult2_eq [symmetric])
    then have "65536 * (len div 65536) + 256 * (len div 256 mod 256) + len mod 256 = len"
      using div_mult_mod_eq [of "len div 256" 256] div_mult_mod_eq [of len 256] by linarith
    moreover have "len div 65536 mod 256 = len div 65536" using assms(2) by simp
    ultimately have "65536 * (len div 65536 mod 256) + 256 * (len div 256 mod 256) + len mod 256 = len"
      "65536 * (len div 65536) + 256 * (len div 256 mod 256) + len mod 256 = len" by simp_all
    with 4 show ?thesis
      using decode_long_form [OF assms(1) first_bits(3), of "[of_nat (len div 65536), of_nat (len div 256), of_nat (len mod 256)]" Q]
      by (simp add: len_field_def unat_of_nat_mod)
  qed
qed

lemma tlv_at:
  assumes "length P = pos" "length c < 0x1000000"
  shows "der_tlv_lens (P @ der_encode_tlv tag c @ Q) pos = Inr (length (der_encode_tlv tag c), length c)"
    and "der_tlv_content_start (P @ der_encode_tlv tag c @ Q) pos = Inr (pos + 1 + length (len_field (length c)))"
    and "byte_at (P @ der_encode_tlv tag c @ Q) pos = Inr tag"
proof -
  have d: "der_decode_length (P @ der_encode_tlv tag c @ Q) (pos + 1) = Inr (length c, length (len_field (length c)))"
    using der_decode_length_field [of "P @ [tag]" "pos + 1" "length c" "c @ Q"] assms by (simp add: der_encode_tlv_field)
  have "len_field (length c) \<noteq> []" by (simp add: len_field_def)
  then have "\<not> pos + 1 \<ge> length (P @ der_encode_tlv tag c @ Q)" using assms(1) by (simp add: der_encode_tlv_field)
  with d show "der_tlv_lens (P @ der_encode_tlv tag c @ Q) pos = Inr (length (der_encode_tlv tag c), length c)"
    by (simp add: der_tlv_lens_def) (simp add: der_encode_tlv_field)
  from d show "der_tlv_content_start (P @ der_encode_tlv tag c @ Q) pos = Inr (pos + 1 + length (len_field (length c)))"
    by (simp add: der_tlv_content_start_def)
  show "byte_at (P @ der_encode_tlv tag c @ Q) pos = Inr tag"
    using assms(1) by (auto simp: der_encode_tlv_field byte_at_def)
qed

lemma fix_outer_length:
  assumes "length old < 0x1000000" "length new < 0x10000"
  shows "der_fix_outer_sequence_length (0x30 # len_field (length old) @ new) = Inr (der_encode_tlv 0x30 new)"
proof -
  have "der_decode_length ([0x30] @ len_field (length old) @ new) 1 = Inr (length old, length (len_field (length old)))"
    by (rule der_decode_length_field) (use assms(1) in simp_all)
  then have s: "der_tlv_content_start (0x30 # len_field (length old) @ new) 0 = Inr (1 + length (len_field (length old)))"
    by (simp add: der_tlv_content_start_def)
  have n: "length (0x30 # len_field (length old) @ new) - (1 + length (len_field (length old))) = length new" by simp
  have b: "byte_at (0x30 # len_field (length old) @ new) 0 = Inr 0x30" by (simp add: byte_at_def)
  show ?thesis
    unfolding der_fix_outer_sequence_length_def b and_then_simps s Let_def prod.case n
    using assms(2) by (simp add: splice_def der_encode_tlv_def Let_def)
qed

lemma splice_mid: "length P = a \<Longrightarrow> splice (P @ S @ Q) a (a + length S) N = Inr (P @ N @ Q)"
  by (simp add: splice_def)

text \<open>
  The signature of a DER certificate is replaced exactly: the result is the encoding of the same first two fields
  followed by a bit string with the new signature, with all lengths right, for every certificate whose new content is below 64 KiB.
\<close>

lemma signature_replaced:
  assumes "length tbs < 0x1000000" "length alg < 0x1000000" "length sig < 0x1000000"
    and "cert = der_encode_tlv t1 tbs @ der_encode_tlv t2 alg @ der_encode_tlv 0x03 sig" "length cert < 0x1000000"
    and "new = der_encode_tlv t1 tbs @ der_encode_tlv t2 alg @ der_encode_tlv 0x03 (0x00 # new_sig)" "length new < 0x10000"
  shows "replace_signature_in_cert_der (der_encode_tlv 0x30 cert) new_sig = Inr (der_encode_tlv 0x30 new)"
proof -
  let ?H = "0x30 # len_field (length cert)" and ?A = "der_encode_tlv t1 tbs" and ?B = "der_encode_tlv t2 alg"
  let ?S = "der_encode_tlv 0x03 sig" and ?N = "der_encode_tlv 0x03 (0x00 # new_sig)"
  define d where "d = der_encode_tlv 0x30 cert"
  have dc: "d = ?H @ cert" by (simp add: d_def der_encode_tlv_field)
  have d: "d = [] @ der_encode_tlv 0x30 cert @ []" "d = ?H @ ?A @ (?B @ ?S)" "d = (?H @ ?A) @ ?B @ ?S" "d = (?H @ ?A @ ?B) @ ?S @ []"
    using dc by (simp_all add: assms(4)) (simp add: d_def assms(4))
  define p0 p1 p2 where "p0 = 1 + length (len_field (length cert))" and "p1 = p0 + length ?A" and "p2 = p1 + length ?B"
  have start: "der_tlv_content_start d 0 = Inr p0" unfolding d(1) using tlv_at(2) [where P = "[]" and pos = 0 and c = cert and tag = "0x30" and Q = "[]"] assms(5) by (simp add: p0_def)
  have l: "length ?H = p0" "length (?H @ ?A) = p1" "length (?H @ ?A @ ?B) = p2" by (simp_all add: p0_def p1_def p2_def)
  have f1: "der_tlv_lens d p0 = Inr (length ?A, length tbs)" unfolding d(2) by (rule tlv_at(1) [OF l(1) assms(1)])
  have f2: "der_tlv_lens d p1 = Inr (length ?B, length alg)" unfolding d(3) by (rule tlv_at(1) [OF l(2) assms(2)])
  have f3: "der_tlv_lens d p2 = Inr (length ?S, length sig)" "byte_at d p2 = Inr 0x03"
    unfolding d(4) by (rule tlv_at(1,3) [OF l(3) assms(3)])+
  have len: "length d = p2 + length ?S" "0 < length ?A" "0 < length ?B" "0 < length ?S"
    using l(3) by (simp_all add: d(4)) (simp_all add: der_encode_tlv_field)
  have "splice d p2 (p2 + length ?S) ?N = Inr ((?H @ ?A @ ?B) @ ?N)"
    unfolding d(4) using splice_mid [OF l(3), of ?S "[]" ?N] by simp
  moreover have "(?H @ ?A @ ?B) @ ?N = 0x30 # len_field (length cert) @ new" by (simp add: assms(6))
  moreover have "der_fix_outer_sequence_length (0x30 # len_field (length cert) @ new) = Inr (der_encode_tlv 0x30 new)"
    by (rule fix_outer_length [OF assms(5,7)])
  ultimately have last: "field_loop d new_sig 0 p2 = Inr (der_encode_tlv 0x30 new)"
    using len f3 by simp
  have "field_loop d new_sig (Suc (Suc 0)) p0 = Inr (der_encode_tlv 0x30 new)"
    using len f1 f2 last by (simp add: p1_def [symmetric] p2_def [symmetric] del: field_loop.simps(1)) (simp add: p1_def p2_def)
  moreover have "d \<noteq> []" "d ! 0 = 0x30" by (simp_all add: d_def der_encode_tlv_field)
  ultimately show ?thesis
    unfolding d_def [symmetric] replace_signature_in_cert_der_def using start by (simp add: numeral_2_eq_2)
qed

end
