(* ===== verification/Stream_IO.thy ===== *)
theory Stream_IO
  imports Rust_Std
begin

text \<open>
  Byte streams and the code that runs on them.  A connection holds the bytes that still
  arrive from the peer and how the stream ends after them, the bytes written so far, how
  many more bytes the peer accepts, and whether the write half has been shut down.  Asynchronous code that awaits one connection is a
  function on its state that returns a result and the next state; \<open>?\<close> in the source is
  \<open>bind_io\<close> here, for any state (the framed streams of AnyTLS have a state of their own).  A read-only parser is \<open>streaming\<close> when it consumes a prefix of the input,
  depends on that prefix only, and reports every truncation of it as the end of the stream.
\<close>

section \<open>Connections\<close>

record conn =
  rx :: bytes
  rx_end :: io_kind
  tx :: bytes
  tx_cap :: "nat option"
  tx_shut :: bool

type_synonym ('s, 'a) action = "'s \<Rightarrow> 'a result \<times> 's"
type_synonym 'a io = "(conn, 'a) action"

definition return_io :: "'a \<Rightarrow> ('s, 'a) action" where
  "return_io a c = (Inr a, c)"

definition fail_io :: "err \<Rightarrow> ('s, 'a) action" where
  "fail_io e c = (Inl e, c)"

definition bind_io :: "('s, 'a) action \<Rightarrow> ('a \<Rightarrow> ('s, 'b) action) \<Rightarrow> ('s, 'b) action" where
  "bind_io m f c = (case m c of (Inl e, c') \<Rightarrow> (Inl e, c') | (Inr a, c') \<Rightarrow> f a c')"

definition lift_io :: "'a result \<Rightarrow> ('s, 'a) action" where
  "lift_io r c = (r, c)"

text \<open>\<open>read_exact\<close>, \<open>read_u8\<close>, \<open>read_u16\<close> (big-endian) and \<open>write_all\<close>.\<close>

definition read_exact :: "nat \<Rightarrow> bytes io" where
  "read_exact n c =
     (if n \<le> length (rx c) then (Inr (take n (rx c)), c\<lparr>rx := drop n (rx c)\<rparr>)
      else (Inl (Io (rx_end c)), c\<lparr>rx := []\<rparr>))"

definition read_u8 :: "u8 io" where
  "read_u8 = bind_io (read_exact 1) (\<lambda>bs. return_io (hd bs))"

definition read_u16 :: "u16 io" where
  "read_u16 = bind_io (read_exact 2) (\<lambda>bs. return_io (from_be bs))"

definition write_all :: "bytes \<Rightarrow> unit io" where
  "write_all bs c =
     (case tx_cap c of
        None \<Rightarrow> (Inr (), c\<lparr>tx := tx c @ bs\<rparr>)
      | Some k \<Rightarrow>
        if length bs \<le> k then (Inr (), c\<lparr>tx := tx c @ bs, tx_cap := Some (k - length bs)\<rparr>)
        else (Inl (Io BrokenPipe), c\<lparr>tx := tx c @ take k bs, tx_cap := Some 0\<rparr>))"

definition shutdown_io :: "unit io" where
  "shutdown_io c = (Inr (), c\<lparr>tx_shut := True\<rparr>)"

text \<open>The outcome of \<open>TcpStream::connect\<close> under a timeout, decided by the network.\<close>

datatype dial = Connected | Refused io_kind | TimedOut

section \<open>Symbolic execution\<close>

lemma bind_return_io [simp]: "bind_io (return_io a) f = f a"
  by (simp add: bind_io_def return_io_def fun_eq_iff)

lemma bind_fail_io [simp]: "bind_io (fail_io e) f = fail_io e"
  by (simp add: bind_io_def fail_io_def fun_eq_iff)

lemma bind_io_assoc: "bind_io (bind_io m f) g = bind_io m (\<lambda>a. bind_io (f a) g)"
  by (auto simp: bind_io_def fun_eq_iff split: prod.splits sum.splits)

lemma return_io_apply [io_simps]: "return_io a c = (Inr a, c)"
  by (simp add: return_io_def)

lemma fail_io_apply [io_simps]: "fail_io e c = (Inl e, c)"
  by (simp add: fail_io_def)

lemma lift_io_simps [simp]: "lift_io (Inr a) = return_io a" "lift_io (Inl e) = fail_io e"
  by (simp_all add: lift_io_def return_io_def fail_io_def fun_eq_iff)

lemma bind_io_Inr [io_simps]: "m c = (Inr a, c') \<Longrightarrow> bind_io m f c = f a c'"
  by (simp add: bind_io_def)

lemma bind_io_Inl [io_simps]: "m c = (Inl e, c') \<Longrightarrow> bind_io m f c = (Inl e, c')"
  by (simp add: bind_io_def)

lemma bind_io_eq_Inr:
  "bind_io m f c = (Inr b, c') \<longleftrightarrow> (\<exists>a c1. m c = (Inr a, c1) \<and> f a c1 = (Inr b, c'))"
  by (auto simp: bind_io_def split: prod.splits sum.splits)

lemma read_exact_append [io_simps]:
  "length xs = n \<Longrightarrow> read_exact n (c\<lparr>rx := xs @ ys\<rparr>) = (Inr xs, c\<lparr>rx := ys\<rparr>)"
  by (simp add: read_exact_def)

lemma read_exact_all [io_simps]:
  "length xs = n \<Longrightarrow> read_exact n (c\<lparr>rx := xs\<rparr>) = (Inr xs, c\<lparr>rx := []\<rparr>)"
  by (simp add: read_exact_def)

lemma read_exact_short [io_simps]:
  "length xs < n \<Longrightarrow> read_exact n (c\<lparr>rx := xs\<rparr>) = (Inl (Io (rx_end c)), c\<lparr>rx := []\<rparr>)"
  by (simp add: read_exact_def)

lemma read_exact_one [io_simps]:
  "read_exact (Suc 0) (c\<lparr>rx := b # ys\<rparr>) = (Inr [b], c\<lparr>rx := ys\<rparr>)"
  by (simp add: read_exact_def)

lemma read_u8_Cons [io_simps]: "read_u8 (c\<lparr>rx := b # ys\<rparr>) = (Inr b, c\<lparr>rx := ys\<rparr>)"
  by (simp add: read_u8_def read_exact_def bind_io_def return_io_def)

lemma read_u16_append [io_simps]:
  "read_u16 (c\<lparr>rx := to_be 2 w @ ys\<rparr>) = (Inr w, c\<lparr>rx := ys\<rparr>)"
  by (simp add: read_u16_def read_exact_def bind_io_def return_io_def)

lemma read_u16_all [io_simps]:
  "read_u16 (c\<lparr>rx := to_be 2 w\<rparr>) = (Inr w, c\<lparr>rx := []\<rparr>)"
  by (simp add: read_u16_def read_exact_def bind_io_def return_io_def)

lemma read_exact_ok:
  "read_exact n c = (Inr a, c') \<Longrightarrow>
     n \<le> length (rx c) \<and> a = take n (rx c) \<and> c' = c\<lparr>rx := drop n (rx c)\<rparr>"
  by (auto simp: read_exact_def split: if_splits)

lemma read_u8_ok:
  "read_u8 c = (Inr b, c') \<Longrightarrow> rx c \<noteq> [] \<and> b = hd (rx c) \<and> c' = c\<lparr>rx := tl (rx c)\<rparr>"
  by (auto simp: read_u8_def bind_io_eq_Inr return_io_def hd_conv_nth drop_Suc
      dest!: read_exact_ok)

text \<open>What a successful read consumed, as a decomposition of the input.\<close>

lemma read_exact_split: "read_exact n c = (Inr a, c') \<Longrightarrow> rx c = a @ rx c' \<and> length a = n"
  by (auto dest!: read_exact_ok)

lemma read_u8_split: "read_u8 c = (Inr b, c') \<Longrightarrow> rx c = b # rx c'"
  by (auto dest!: read_u8_ok)

lemma read_u16_split: "read_u16 c = (Inr w, c') \<Longrightarrow> rx c = to_be 2 w @ rx c'"
  by (auto simp: read_u16_def bind_io_eq_Inr return_io_def to_be_from_be_eq dest!: read_exact_split)

lemma write_all_rx: "write_all bs c = (r, c') \<Longrightarrow> rx c' = rx c"
  by (auto simp: write_all_def split: option.splits if_splits)

lemma rx_tx_swap: "c\<lparr>rx := a, tx := b\<rparr> = (c\<lparr>tx := b\<rparr>)\<lparr>rx := a\<rparr>" for c :: conn
  by simp

lemma write_all_open [io_simps]:
  "tx_cap c = None \<Longrightarrow> write_all bs c = (Inr (), c\<lparr>tx := tx c @ bs\<rparr>)"
  by (simp add: write_all_def)

lemma rx_update_inject [simp]: "(c :: conn)\<lparr>rx := a\<rparr> = c\<lparr>rx := b\<rparr> \<longleftrightarrow> a = b"
proof
  assume "c\<lparr>rx := a\<rparr> = c\<lparr>rx := b\<rparr>"
  then have "rx (c\<lparr>rx := a\<rparr>) = rx (c\<lparr>rx := b\<rparr>)" by (rule arg_cong)
  then show "a = b" by simp
qed simp

section \<open>Streaming parsers\<close>

definition consumes :: "'a io \<Rightarrow> conn \<Rightarrow> 'a result \<Rightarrow> bytes \<Rightarrow> bool" where
  "consumes p c r xs \<longleftrightarrow>
     (\<forall>a. r = Inr a \<longrightarrow>
        (\<forall>zs. p (c\<lparr>rx := xs @ zs\<rparr>) = (Inr a, c\<lparr>rx := zs\<rparr>)) \<and>
        (\<forall>k < length xs. p (c\<lparr>rx := take k xs\<rparr>) = (Inl (Io (rx_end c)), c\<lparr>rx := []\<rparr>)))"

definition streaming :: "'a io \<Rightarrow> bool" where
  "streaming p \<longleftrightarrow>
     (\<forall>c r c'. p c = (r, c') \<longrightarrow>
        (\<exists>xs ys. rx c = xs @ ys \<and> c' = c\<lparr>rx := ys\<rparr> \<and> consumes p c r xs))"

lemma streamingI:
  assumes "\<And>c r c'. p c = (r, c') \<Longrightarrow>
    \<exists>xs ys. rx c = xs @ ys \<and> c' = c\<lparr>rx := ys\<rparr> \<and> consumes p c r xs"
  shows "streaming p"
  using assms by (simp add: streaming_def)

lemma streamingE:
  assumes "streaming p" "p c = (r, c')"
  obtains xs ys where "rx c = xs @ ys" "c' = c\<lparr>rx := ys\<rparr>" "consumes p c r xs"
  using assms unfolding streaming_def by blast

lemma consumesD:
  assumes "consumes p c (Inr a) xs"
  shows "p (c\<lparr>rx := xs @ zs\<rparr>) = (Inr a, c\<lparr>rx := zs\<rparr>)"
    and "k < length xs \<Longrightarrow> p (c\<lparr>rx := take k xs\<rparr>) = (Inl (Io (rx_end c)), c\<lparr>rx := []\<rparr>)"
  using assms by (simp_all add: consumes_def)

lemma streaming_frame:
  assumes "streaming p" "p c = (r, c')"
  shows "tx c' = tx c" "tx_cap c' = tx_cap c" "rx_end c' = rx_end c" "tx_shut c' = tx_shut c"
  using streamingE [OF assms] by (metis conn.select_convs conn.surjective conn.update_convs(1))+

lemma consumes_Inl [simp]: "consumes p c (Inl e) xs"
  by (simp add: consumes_def)

lemma streaming_return [streaming_intros, intro]: "streaming (return_io a)"
proof (rule streamingI)
  fix c c' :: conn and r assume "return_io a c = (r, c')"
  then show "\<exists>xs ys. rx c = xs @ ys \<and> c' = c\<lparr>rx := ys\<rparr> \<and> consumes (return_io a) c r xs"
    by (intro exI [of _ "[]"] exI [of _ "rx c"]) (auto simp: consumes_def return_io_def)
qed

lemma streaming_fail [streaming_intros, intro]: "streaming (fail_io e)"
proof (rule streamingI)
  fix c c' :: conn and r assume "fail_io e c = (r, c')"
  then show "\<exists>xs ys. rx c = xs @ ys \<and> c' = c\<lparr>rx := ys\<rparr> \<and> consumes (fail_io e) c r xs"
    by (intro exI [of _ "[]"] exI [of _ "rx c"]) (auto simp: fail_io_def)
qed

lemma streaming_lift [streaming_intros, intro]: "streaming (lift_io r)"
  by (cases r) auto

lemma streaming_read_exact [streaming_intros, intro]: "streaming (read_exact n)"
proof (rule streamingI)
  fix c r c' assume eq: "read_exact n c = (r, c')"
  show "\<exists>xs ys. rx c = xs @ ys \<and> c' = c\<lparr>rx := ys\<rparr> \<and> consumes (read_exact n) c r xs"
  proof (cases "n \<le> length (rx c)")
    case True
    with eq show ?thesis
      by (intro exI [of _ "take n (rx c)"] exI [of _ "drop n (rx c)"])
        (auto simp: read_exact_def consumes_def min_def)
  next
    case False
    with eq show ?thesis
      by (intro exI [of _ "rx c"] exI [of _ "[]"]) (auto simp: read_exact_def)
  qed
qed

lemma consumes_bind:
  assumes p: "consumes p c (Inr a1) xs" and f: "consumes (f a1) (c\<lparr>rx := q\<rparr>) r ys"
  shows "consumes (bind_io p f) c r (xs @ ys)"
  unfolding consumes_def
proof (intro allI impI conjI)
  fix a zs assume r: "r = Inr a"
  from consumesD(1) [OF p, of "ys @ zs"] consumesD(1) [OF f [unfolded r], of zs]
  show "bind_io p f (c\<lparr>rx := (xs @ ys) @ zs\<rparr>) = (Inr a, c\<lparr>rx := zs\<rparr>)"
    by (simp add: bind_io_def)
next
  fix a k assume r: "r = Inr a" and k: "k < length (xs @ ys)"
  show "bind_io p f (c\<lparr>rx := take k (xs @ ys)\<rparr>) = (Inl (Io (rx_end c)), c\<lparr>rx := []\<rparr>)"
  proof (cases "k < length xs")
    case True
    with consumesD(2) [OF p True] show ?thesis by (simp add: bind_io_def)
  next
    case False
    with k consumesD(1) [OF p, of "take (k - length xs) ys"]
      consumesD(2) [OF f [unfolded r], of "k - length xs"]
    show ?thesis by (simp add: bind_io_def)
  qed
qed

lemma streaming_bind [streaming_intros, intro]:
  assumes p: "streaming p" and f: "\<And>a. streaming (f a)"
  shows "streaming (bind_io p f)"
proof (rule streamingI)
  fix c r c' assume b: "bind_io p f c = (r, c')"
  obtain r1 c1 where p1: "p c = (r1, c1)" by (cases "p c")
  obtain xs ys where xs: "rx c = xs @ ys" "c1 = c\<lparr>rx := ys\<rparr>" "consumes p c r1 xs"
    by (rule streamingE [OF p p1])
  show "\<exists>xs ys. rx c = xs @ ys \<and> c' = c\<lparr>rx := ys\<rparr> \<and> consumes (bind_io p f) c r xs"
  proof (cases r1)
    case (Inl e)
    with b p1 have "r = Inl e" "c' = c1" by (auto simp: bind_io_def)
    with xs show ?thesis by auto
  next
    case (Inr a1)
    with b p1 have f1: "f a1 c1 = (r, c')" by (simp add: bind_io_def)
    obtain us vs where us: "rx c1 = us @ vs" "c' = c1\<lparr>rx := vs\<rparr>" "consumes (f a1) c1 r us"
      by (rule streamingE [OF f f1])
    have "consumes (bind_io p f) c r (xs @ us)"
      using consumes_bind [of p c a1 xs f ys r us] xs us Inr by simp
    with xs us show ?thesis by (intro exI [of _ "xs @ us"] exI [of _ vs]) simp
  qed
qed

lemma streaming_if [streaming_intros, intro]:
  "streaming p \<Longrightarrow> streaming q \<Longrightarrow> streaming (if b then p else q)"
  by simp

lemma streaming_read_u8 [streaming_intros, intro]: "streaming read_u8"
  unfolding read_u8_def by (intro streaming_intros)

lemma streaming_read_u16 [streaming_intros, intro]: "streaming read_u16"
  unfolding read_u16_def by (intro streaming_intros)

section \<open>The interface of a header parser\<close>

text \<open>
  What a protocol handler relies on when it hands a fresh connection to a header parser: the
  parser is streaming, and it reads back what a conforming peer writes.  \<open>wf\<close> are the values
  the wire format can carry.
\<close>

locale header_parser =
  fixes parse :: "'a io"
    and enc :: "'b \<Rightarrow> bytes"
    and val :: "'b \<Rightarrow> 'a"
    and wf :: "'b \<Rightarrow> bool"
  assumes streaming_parse: "streaming parse"
    and parse_enc: "wf h \<Longrightarrow> parse (c\<lparr>rx := enc h @ rest\<rparr>) = (Inr (val h), c\<lparr>rx := rest\<rparr>)"
begin

lemma consumes_enc:
  assumes "wf h"
  shows "consumes parse c (Inr (val h)) (enc h)"
proof -
  have eq: "parse (c\<lparr>rx := enc h @ []\<rparr>) = (Inr (val h), c\<lparr>rx := []\<rparr>)"
    by (rule parse_enc [OF assms])
  obtain xs ys where "rx (c\<lparr>rx := enc h @ []\<rparr>) = xs @ ys"
    "c\<lparr>rx := []\<rparr> = (c\<lparr>rx := enc h @ []\<rparr>)\<lparr>rx := ys\<rparr>"
    "consumes parse (c\<lparr>rx := enc h @ []\<rparr>) (Inr (val h)) xs"
    by (rule streamingE [OF streaming_parse eq])
  moreover from this(2) have "ys = []" by simp
  ultimately show ?thesis by (simp add: consumes_def)
qed

lemma truncated:
  assumes "wf h" "k < length (enc h)"
  shows "parse (c\<lparr>rx := take k (enc h)\<rparr>) = (Inl (Io (rx_end c)), c\<lparr>rx := []\<rparr>)"
  using consumesD(2) [OF consumes_enc [OF assms(1)] assms(2)] .

lemma prefix_free:
  assumes "wf g" "wf h" "enc g @ s = enc h @ t"
  shows "val g = val h \<and> s = t"
proof -
  let ?c = "\<lparr>rx = [], rx_end = UnexpectedEof, tx = [], tx_cap = None, tx_shut = False\<rparr>"
  show ?thesis
    using parse_enc [OF assms(1), where c = ?c and rest = s] parse_enc [OF assms(2), where c = ?c and rest = t] assms(3) by simp
qed

end

end
