(* ===== verification/Relay.thy ===== *)
theory Relay
  imports Stream_IO
begin

text \<open>
  The bidirectional relay that ends every TCP handler.  VLESS, Trojan and SOCKS5 run two
  \<open>tokio::io::copy\<close> loops to their ends with \<open>join!\<close>, shutting the write side down after each; the
  TUIC handler runs two of them under \<open>select!\<close> and stops both when one ends.  A copy loop reads
  into an 8 KiB buffer whenever it has room and writes what the peer takes, in any chunk sizes
  and in any interleaving with the other direction.  The bytes of a peer arrive over time, and it may end its
  side cleanly, break off with an error, or stay silent for ever.
\<close>

section \<open>The model\<close>

text \<open>
  One direction.  \<open>h_todo\<close> is what the sending side has yet to send, \<open>h_src\<close> what has arrived and is not read yet;
  \<open>h_closed\<close> says that the sending side has ended and \<open>h_final\<close> how: \<open>UnexpectedEof\<close> is a clean end of the
  stream, anything else the error its reads then return.  \<open>h_shut\<close> marks the end of the copy loop.
\<close>

record half =
  h_todo :: bytes
  h_src :: bytes
  h_closed :: bool
  h_final :: io_kind
  h_buf :: bytes
  h_out :: bytes
  h_cap :: "nat option"
  h_shut :: bool

definition COPY_BUF :: nat where "COPY_BUF = 8192"

definition half_open :: "bytes \<Rightarrow> io_kind \<Rightarrow> nat option \<Rightarrow> half" where
  "half_open src ending cap =
     \<lparr>h_todo = src, h_src = [], h_closed = False, h_final = ending, h_buf = [], h_out = [], h_cap = cap, h_shut = False\<rparr>"

definition take_cap :: "nat \<Rightarrow> nat option \<Rightarrow> nat option" where
  "take_cap k cap = (case cap of None \<Rightarrow> None | Some n \<Rightarrow> Some (n - k))"

text \<open>
  What the network does to a direction: some bytes arrive, or the sending side ends after all of its bytes.  It may do
  neither for ever; that is a peer that stays silent.
\<close>

inductive peer_step :: "half \<Rightarrow> half \<Rightarrow> bool" where
  arrive: "0 < k \<Longrightarrow> k \<le> length (h_todo h) \<Longrightarrow>
    peer_step h (h\<lparr>h_todo := drop k (h_todo h), h_src := h_src h @ take k (h_todo h)\<rparr>)"
| ends: "h_todo h = [] \<Longrightarrow> \<not> h_closed h \<Longrightarrow> peer_step h (h\<lparr>h_closed := True\<rparr>)"

text \<open>
  One poll of a copy loop: a read, a write of what the peer still takes, the clean end of the input with an empty
  buffer, a read error, which ends the loop at once and drops what is in the buffer, or a write error.  After any end the
  loop shuts the writer down.
\<close>

inductive half_step :: "half \<Rightarrow> half \<Rightarrow> bool" where
  half_read: "\<not> h_shut h \<Longrightarrow> 0 < k \<Longrightarrow> k \<le> length (h_src h) \<Longrightarrow> length (h_buf h) + k \<le> COPY_BUF \<Longrightarrow>
    half_step h (h\<lparr>h_src := drop k (h_src h), h_buf := h_buf h @ take k (h_src h)\<rparr>)"
| half_write: "\<not> h_shut h \<Longrightarrow> 0 < k \<Longrightarrow> k \<le> length (h_buf h) \<Longrightarrow> \<forall>n. h_cap h = Some n \<longrightarrow> k \<le> n \<Longrightarrow>
    half_step h (h\<lparr>h_buf := drop k (h_buf h), h_out := h_out h @ take k (h_buf h),
                  h_cap := take_cap k (h_cap h)\<rparr>)"
| half_eof: "\<not> h_shut h \<Longrightarrow> h_src h = [] \<Longrightarrow> h_closed h \<Longrightarrow> h_final h = UnexpectedEof \<Longrightarrow> h_buf h = [] \<Longrightarrow>
    half_step h (h\<lparr>h_shut := True\<rparr>)"
| half_read_error: "\<not> h_shut h \<Longrightarrow> h_src h = [] \<Longrightarrow> h_closed h \<Longrightarrow> h_final h \<noteq> UnexpectedEof \<Longrightarrow>
    length (h_buf h) < COPY_BUF \<Longrightarrow> half_step h (h\<lparr>h_shut := True\<rparr>)"
| half_write_error: "\<not> h_shut h \<Longrightarrow> h_buf h \<noteq> [] \<Longrightarrow> h_cap h = Some 0 \<Longrightarrow> half_step h (h\<lparr>h_shut := True\<rparr>)"

record relay =
  uplink :: half
  downlink :: half

text \<open>\<open>relay\<close> takes the client's connection and the outbound one, each a reader and a writer.\<close>

definition relay_start :: "conn \<Rightarrow> conn \<Rightarrow> relay" where
  "relay_start inbound outbound =
     \<lparr>uplink = half_open (rx inbound) (rx_end inbound) (tx_cap outbound),
      downlink = half_open (rx outbound) (rx_end outbound) (tx_cap inbound)\<rparr>"

inductive relay_step :: "relay \<Rightarrow> relay \<Rightarrow> bool" where
  up: "half_step (uplink r) h \<Longrightarrow> relay_step r (r\<lparr>uplink := h\<rparr>)"
| down: "half_step (downlink r) h \<Longrightarrow> relay_step r (r\<lparr>downlink := h\<rparr>)"

text \<open>A run of the relay among its peers: their steps and the relay's in any order.\<close>

inductive relay_run :: "relay \<Rightarrow> relay \<Rightarrow> bool" where
  program: "relay_step r r' \<Longrightarrow> relay_run r r'"
| peer_up: "peer_step (uplink r) h \<Longrightarrow> relay_run r (r\<lparr>uplink := h\<rparr>)"
| peer_down: "peer_step (downlink r) h \<Longrightarrow> relay_run r (r\<lparr>downlink := h\<rparr>)"

definition relay_done :: "relay \<Rightarrow> bool" where
  "relay_done r \<longleftrightarrow> h_shut (uplink r) \<and> h_shut (downlink r)"

text \<open>Under \<open>select!\<close> neither loop moves once one of them has ended.\<close>

inductive select_step :: "relay \<Rightarrow> relay \<Rightarrow> bool" where
  select: "\<not> h_shut (uplink r) \<Longrightarrow> \<not> h_shut (downlink r) \<Longrightarrow> relay_run r r' \<Longrightarrow> select_step r r'"

inductive_cases half_stepE: "half_step h h'"
inductive_cases relay_stepE: "relay_step r r'"
inductive_cases relay_runE: "relay_run r r'"

section \<open>One direction\<close>

text \<open>
  No byte is lost or changed on its way through the buffer; the loop ends only after its source did or its writer failed,
  and after a clean end with nothing left to deliver.
\<close>

definition half_inv :: "bytes \<Rightarrow> io_kind \<Rightarrow> nat option \<Rightarrow> half \<Rightarrow> bool" where
  "half_inv src ending cap h \<longleftrightarrow>
     h_out h @ h_buf h @ h_src h @ h_todo h = src \<and> h_final h = ending \<and> (cap = None \<longrightarrow> h_cap h = None)
     \<and> (h_closed h \<longrightarrow> h_todo h = [])
     \<and> (h_shut h \<and> cap = None \<longrightarrow> h_closed h \<and> (ending = UnexpectedEof \<longrightarrow> h_buf h @ h_src h = []))"

lemma half_inv_open: "half_inv src ending cap (half_open src ending cap)"
  by (simp add: half_inv_def half_open_def)

lemma half_inv_step: "half_step h h' \<Longrightarrow> half_inv src ending cap h \<Longrightarrow> half_inv src ending cap h'"
  by (induction rule: half_step.induct) (auto simp: half_inv_def take_cap_def)

lemma half_inv_peer: "peer_step h h' \<Longrightarrow> half_inv src ending cap h \<Longrightarrow> half_inv src ending cap h'"
  by (induction rule: peer_step.induct) (auto simp: half_inv_def)

definition half_measure :: "half \<Rightarrow> nat" where
  "half_measure h = 2 * length (h_src h) + length (h_buf h) + (if h_shut h then 0 else 1)"

lemma half_measure_step: "half_step h h' \<Longrightarrow> half_measure h' < half_measure h"
  by (induction rule: half_step.induct) (auto simp: half_measure_def)

text \<open>An open loop that cannot move has delivered all that arrived and waits for a source that is still open.\<close>

lemma half_waits:
  assumes "\<not> h_shut h" "\<nexists>h'. half_step h h'"
  shows "h_buf h = [] \<and> h_src h = [] \<and> \<not> h_closed h"
proof -
  have buf: "h_buf h = []"
  proof (rule ccontr)
    assume ne: "h_buf h \<noteq> []"
    show False
    proof (cases "h_cap h = Some 0")
      case True
      with ne assms show False by (blast intro: half_write_error)
    next
      case False
      then have "half_step h (h\<lparr>h_buf := drop 1 (h_buf h), h_out := h_out h @ take 1 (h_buf h),
          h_cap := take_cap 1 (h_cap h)\<rparr>)"
        using ne assms(1) by (intro half_write) (auto simp: Suc_le_eq)
      with assms(2) show False by blast
    qed
  qed
  have src: "h_src h = []"
  proof (rule ccontr)
    assume "h_src h \<noteq> []"
    then have "half_step h (h\<lparr>h_src := drop 1 (h_src h), h_buf := h_buf h @ take 1 (h_src h)\<rparr>)"
      using assms(1) buf by (intro half_read) (auto simp: COPY_BUF_def Suc_le_eq)
    with assms(2) show False by blast
  qed
  have "\<not> h_closed h"
  proof
    assume "h_closed h"
    with buf src assms(1) have "half_step h (h\<lparr>h_shut := True\<rparr>)"
      by (cases "h_final h = UnexpectedEof") (auto intro: half_eof half_read_error simp: COPY_BUF_def)
    with assms(2) show False by blast
  qed
  with buf src show ?thesis by simp
qed

section \<open>Both directions\<close>

lemma relay_run_inv:
  assumes "relay_run\<^sup>*\<^sup>* (relay_start inb outb) r"
  shows "half_inv (rx inb) (rx_end inb) (tx_cap outb) (uplink r)
    \<and> half_inv (rx outb) (rx_end outb) (tx_cap inb) (downlink r)"
  using assms
proof (induction rule: rtranclp_induct)
  case base
  show ?case by (simp add: relay_start_def half_inv_open)
next
  case (step r1 r2)
  from step.hyps(2) step.IH show ?case
    by (elim relay_runE relay_stepE) (auto intro: half_inv_step half_inv_peer)
qed

lemmas relay_run_halves = relay_run_inv [THEN conjunct1] relay_run_inv [THEN conjunct2]

definition relay_measure :: "relay \<Rightarrow> nat" where
  "relay_measure r = half_measure (uplink r) + half_measure (downlink r)"

lemma relay_measure_step: "relay_step r r' \<Longrightarrow> relay_measure r' < relay_measure r"
  by (elim relay_stepE) (auto simp: relay_measure_def dest: half_measure_step)

lemma relay_stuck_halves:
  assumes "\<nexists>r'. relay_step r r'"
  shows "\<nexists>h. half_step (uplink r) h" "\<nexists>h. half_step (downlink r) h"
  using assms relay_step.intros by blast+

text \<open>The relay alone settles: it can always be run to a state in which it waits for its peers or is done.\<close>

lemma relay_settles: "\<exists>q. relay_step\<^sup>*\<^sup>* r q \<and> (\<nexists>q'. relay_step q q')"
proof (induction r rule: measure_induct_rule [of relay_measure])
  case (less r)
  show ?case
  proof (cases "\<exists>r'. relay_step r r'")
    case True
    then obtain r' where r': "relay_step r r'" by blast
    from less [OF relay_measure_step [OF this]] obtain q where "relay_step\<^sup>*\<^sup>* r' q" "\<nexists>q'. relay_step q q'" by blast
    with r' show ?thesis by (blast intro: converse_rtranclp_into_rtranclp)
  qed blast
qed

lemma relay_step_run: "relay_step\<^sup>*\<^sup>* r q \<Longrightarrow> relay_run\<^sup>*\<^sup>* r q"
  by (erule rtranclp_mono [THEN predicate2D, rotated]) (blast intro: relay_run.program)

lemma closed_step: "relay_step\<^sup>*\<^sup>* r q \<Longrightarrow> h_closed (uplink q) = h_closed (uplink r) \<and> h_closed (downlink q) = h_closed (downlink r)"
  by (induction rule: rtranclp_induct) (auto elim!: relay_stepE half_stepE)

lemma half_peer_closes:
  assumes "\<not> h_closed h"
  shows "\<exists>h'. peer_step\<^sup>*\<^sup>* h h' \<and> h_closed h'"
proof -
  let ?h = "h\<lparr>h_todo := [], h_src := h_src h @ h_todo h\<rparr>"
  have 1: "peer_step\<^sup>*\<^sup>* h ?h"
  proof (cases "h_todo h = []")
    case False
    with arrive [of "length (h_todo h)" h] show ?thesis by simp
  qed (cases h; simp)
  have "peer_step ?h (?h\<lparr>h_closed := True\<rparr>)" using ends [of ?h] assms by simp
  with 1 have "peer_step\<^sup>*\<^sup>* h (?h\<lparr>h_closed := True\<rparr>)" by (rule rtranclp.rtrancl_into_rtrancl)
  then show ?thesis by (intro exI [of _ "?h\<lparr>h_closed := True\<rparr>"]) simp
qed

lemma relay_finishes: "\<exists>q. relay_run\<^sup>*\<^sup>* (relay_start inb outb) q \<and> relay_done q"
proof -
  let ?r = "relay_start inb outb"
  obtain u where u: "peer_step\<^sup>*\<^sup>* (uplink ?r) u" "h_closed u"
    using half_peer_closes [of "uplink ?r"] by (auto simp: relay_start_def half_open_def)
  obtain d where d: "peer_step\<^sup>*\<^sup>* (downlink ?r) d" "h_closed d"
    using half_peer_closes [of "downlink ?r"] by (auto simp: relay_start_def half_open_def)
  have up: "relay_run\<^sup>*\<^sup>* r (r\<lparr>uplink := h\<rparr>)" if "peer_step\<^sup>*\<^sup>* (uplink r) h" for r h
    using that
  proof (induction rule: rtranclp_induct)
    case (step y z)
    with peer_up [of "r\<lparr>uplink := y\<rparr>" z] show ?case by simp
  qed simp
  have down: "relay_run\<^sup>*\<^sup>* r (r\<lparr>downlink := h\<rparr>)" if "peer_step\<^sup>*\<^sup>* (downlink r) h" for r h
    using that
  proof (induction rule: rtranclp_induct)
    case (step y z)
    with peer_down [of "r\<lparr>downlink := y\<rparr>" z] show ?case by simp
  qed simp
  let ?r2 = "?r\<lparr>uplink := u, downlink := d\<rparr>"
  have "relay_run\<^sup>*\<^sup>* ?r ?r2"
    using up [OF u(1)] down [of "?r\<lparr>uplink := u\<rparr>" d] d(1) by (simp add: rtranclp_trans)
  moreover obtain q where q: "relay_step\<^sup>*\<^sup>* ?r2 q" "\<nexists>q'. relay_step q q'" using relay_settles by blast
  moreover have "relay_done q"
    using relay_stuck_halves [OF q(2)] half_waits closed_step [OF q(1)] u(2) d(2) by (auto simp: relay_done_def)
  ultimately show ?thesis by (meson relay_step_run rtranclp_trans)
qed

text \<open>
  A complete exchange between a client that sends \<open>body\<close>, and then ends as \<open>ending\<close> says, and the outbound side: at every
  moment of every run each side holds a prefix of what the other sends; a direction only ends after its source, and has then
  delivered everything if that end was clean; and the relay can be run to its end.
\<close>

definition half_delivers :: "bytes \<Rightarrow> io_kind \<Rightarrow> half \<Rightarrow> bool" where
  "half_delivers src ending h \<longleftrightarrow>
     take (length (h_out h)) src = h_out h
     \<and> (h_shut h \<longrightarrow> h_closed h \<and> (ending = UnexpectedEof \<longrightarrow> h_out h = src))"

lemma half_delivers_inv: "half_inv src ending None h \<Longrightarrow> half_delivers src ending h"
  by (auto simp: half_inv_def half_delivers_def)

definition exchanged :: "bytes \<Rightarrow> io_kind \<Rightarrow> conn \<Rightarrow> relay \<Rightarrow> bool" where
  "exchanged body ending outbound start \<longleftrightarrow>
     (\<forall>q. relay_run\<^sup>*\<^sup>* start q \<longrightarrow>
        half_delivers body ending (uplink q) \<and> half_delivers (rx outbound) (rx_end outbound) (downlink q))
     \<and> (\<exists>q. relay_run\<^sup>*\<^sup>* start q \<and> relay_done q)"

lemma exchanged_start:
  assumes "tx_cap outb = None" "tx_cap inb = None"
  shows "exchanged (rx inb) (rx_end inb) outb (relay_start inb outb)"
  unfolding exchanged_def
proof (intro conjI allI impI relay_finishes)
  fix q
  assume "relay_run\<^sup>*\<^sup>* (relay_start inb outb) q"
  note h = relay_run_halves [OF this, unfolded assms]
  show "half_delivers (rx inb) (rx_end inb) (uplink q)" "half_delivers (rx outb) (rx_end outb) (downlink q)"
    using h by (blast intro: half_delivers_inv)+
qed

section \<open>Properties\<close>

text \<open>
  C5.  The relay of VLESS, Trojan and SOCKS5 neither repeats, reorders nor invents a byte: at every moment of every run,
  whatever the two peers send, when it arrives and how the directions interleave, what a side has been sent is a prefix of what
  the other side sends.  As long as a side takes data, the direction towards it goes on until its source has ended; if that
  end is clean everything has been delivered by then (after a read error the rest may be lost).  Between two steps of the
  peers the relay makes finitely many steps, and when it can make no more, each direction has ended or has passed on
  every byte that arrived and waits for a source that is still open.
\<close>

theorem relay_delivers:
  assumes "relay_run\<^sup>*\<^sup>* (relay_start inb outb) r"
  shows "(\<exists>z. rx inb = h_out (uplink r) @ z) \<and> (\<exists>z. rx outb = h_out (downlink r) @ z)
    \<and> (h_shut (uplink r) \<and> tx_cap outb = None \<longrightarrow> h_closed (uplink r) \<and> (rx_end inb = UnexpectedEof \<longrightarrow> h_out (uplink r) = rx inb))
    \<and> (h_shut (downlink r) \<and> tx_cap inb = None \<longrightarrow> h_closed (downlink r) \<and> (rx_end outb = UnexpectedEof \<longrightarrow> h_out (downlink r) = rx outb))
    \<and> (\<forall>r'. relay_step r r' \<longrightarrow> relay_measure r' < relay_measure r)
    \<and> ((\<nexists>r'. relay_step r r') \<longrightarrow>
         (h_shut (uplink r) \<or> \<not> h_closed (uplink r) \<and> h_out (uplink r) @ h_todo (uplink r) = rx inb)
         \<and> (h_shut (downlink r) \<or> \<not> h_closed (downlink r) \<and> h_out (downlink r) @ h_todo (downlink r) = rx outb))"
proof -
  note h = relay_run_halves [OF assms]
  have "\<exists>z. rx inb = h_out (uplink r) @ z" "\<exists>z. rx outb = h_out (downlink r) @ z"
    using h unfolding half_inv_def by metis+
  moreover have "h_shut (uplink r) \<and> tx_cap outb = None \<longrightarrow> h_closed (uplink r) \<and> (rx_end inb = UnexpectedEof \<longrightarrow> h_out (uplink r) = rx inb)"
    "h_shut (downlink r) \<and> tx_cap inb = None \<longrightarrow> h_closed (downlink r) \<and> (rx_end outb = UnexpectedEof \<longrightarrow> h_out (downlink r) = rx outb)"
    using h by (auto simp: half_inv_def)
  moreover have "(h_shut (uplink r) \<or> \<not> h_closed (uplink r) \<and> h_out (uplink r) @ h_todo (uplink r) = rx inb)
      \<and> (h_shut (downlink r) \<or> \<not> h_closed (downlink r) \<and> h_out (downlink r) @ h_todo (downlink r) = rx outb)"
    if "\<nexists>r'. relay_step r r'"
    using relay_stuck_halves [OF that] half_waits [of "uplink r"] half_waits [of "downlink r"] h by (auto simp: half_inv_def)
  ultimately show ?thesis using relay_measure_step by blast
qed

text \<open>The witness: two bytes arrive, are relayed and the client ends its side cleanly, while the target stays silent.\<close>

theorem relay_delivers_witness:
  "\<exists>r. relay_run\<^sup>*\<^sup>* (relay_start
        \<lparr>rx = [1, 2], rx_end = UnexpectedEof, tx = [], tx_cap = None, tx_shut = False\<rparr>
        \<lparr>rx = [], rx_end = UnexpectedEof, tx = [], tx_cap = None, tx_shut = False\<rparr>) r
     \<and> h_shut (uplink r) \<and> \<not> h_shut (downlink r) \<and> h_out (uplink r) = [1, 2]"
proof -
  let ?in = "\<lparr>rx = [1, 2], rx_end = UnexpectedEof, tx = [], tx_cap = None, tx_shut = False\<rparr>"
  let ?out = "\<lparr>rx = [], rx_end = UnexpectedEof, tx = [], tx_cap = None, tx_shut = False\<rparr>"
  let ?h = "\<lambda>t s c b w z. \<lparr>h_todo = t, h_src = s, h_closed = c, h_final = UnexpectedEof, h_buf = b, h_out = w, h_cap = None, h_shut = z\<rparr>"
  let ?r = "\<lambda>u. \<lparr>uplink = u, downlink = ?h [] [] False [] [] False\<rparr>"
  have s0: "relay_start ?in ?out = ?r (?h [1, 2] [] False [] [] False)"
    by (simp add: relay_start_def half_open_def)
  have upI: "half_step u u' \<Longrightarrow> relay_run (?r u) (?r u')" for u u'
    using relay_run.program [OF relay_step.up [of "?r u" u']] by simp
  have peerI: "peer_step u u' \<Longrightarrow> relay_run (?r u) (?r u')" for u u'
    using relay_run.peer_up [of "?r u" u'] by simp
  have 1: "peer_step (?h [1, 2] [] False [] [] False) (?h [] [1, 2] False [] [] False)"
    using arrive [of 2 "?h [1, 2] [] False [] [] False"] by simp
  have 2: "half_step (?h [] [1, 2] False [] [] False) (?h [] [] False [1, 2] [] False)"
    using half_read [of "?h [] [1, 2] False [] [] False" 2] by (simp add: COPY_BUF_def)
  have 3: "half_step (?h [] [] False [1, 2] [] False) (?h [] [] False [] [1, 2] False)"
    using half_write [of "?h [] [] False [1, 2] [] False" 2] by (simp add: take_cap_def)
  have 4: "peer_step (?h [] [] False [] [1, 2] False) (?h [] [] True [] [1, 2] False)"
    using ends [of "?h [] [] False [] [1, 2] False"] by simp
  have 5: "half_step (?h [] [] True [] [1, 2] False) (?h [] [] True [] [1, 2] True)"
    using half_eof [of "?h [] [] True [] [1, 2] False"] by simp
  from peerI [OF 1] upI [OF 2] upI [OF 3] peerI [OF 4] upI [OF 5]
  have "relay_run\<^sup>*\<^sup>* (relay_start ?in ?out) (?r (?h [] [] True [] [1, 2] True))"
    unfolding s0 by (meson converse_rtranclp_into_rtranclp rtranclp.rtrancl_refl)
  from relay_delivers [OF this] this show ?thesis
    by (intro exI [of _ "?r (?h [] [] True [] [1, 2] True)"]) simp
qed

text \<open>
  The relay of TUIC stops both directions with the first one.  For every reply the server has
  yet to send there is a run in which the client merely finishes its own sending side and the
  relay then stops for good with none of the reply delivered, although the client would take it.
\<close>

theorem select_relay_truncates:
  assumes "rx inb = []" "rx_end inb = UnexpectedEof" "rx outb \<noteq> []" "tx_cap inb = None"
  shows "\<exists>r. select_step\<^sup>*\<^sup>* (relay_start inb outb) r \<and> (\<nexists>r'. select_step r r')
    \<and> h_out (downlink r) = [] \<and> h_out (downlink r) \<noteq> rx outb"
proof -
  let ?start = "relay_start inb outb"
  let ?c = "?start\<lparr>uplink := (uplink ?start)\<lparr>h_closed := True\<rparr>\<rparr>"
  let ?r = "?c\<lparr>uplink := (uplink ?c)\<lparr>h_shut := True\<rparr>\<rparr>"
  have "relay_run ?start ?c"
    using assms(1) by (intro relay_run.peer_up ends) (simp_all add: relay_start_def half_open_def)
  then have 1: "select_step ?start ?c"
    by (intro select_step.intros) (simp_all add: relay_start_def half_open_def)
  have "relay_run ?c ?r"
    using assms(1,2) by (intro relay_run.program relay_step.up half_eof) (simp_all add: relay_start_def half_open_def)
  then have 2: "select_step ?c ?r"
    by (intro select_step.intros) (simp_all add: relay_start_def half_open_def)
  from 1 2 have "select_step\<^sup>*\<^sup>* ?start ?r" by (rule converse_rtranclp_into_rtranclp [OF _ r_into_rtranclp])
  moreover have "\<nexists>r'. select_step ?r r'" by (auto elim: select_step.cases)
  moreover have "h_out (downlink ?r) = []" by (simp add: relay_start_def half_open_def)
  ultimately show ?thesis using assms(3) by (intro exI [of _ ?r]) auto
qed

theorem select_relay_truncates_witness:
  "\<exists>r. select_step\<^sup>*\<^sup>* (relay_start
       \<lparr>rx = [], rx_end = UnexpectedEof, tx = [], tx_cap = None, tx_shut = False\<rparr>
       \<lparr>rx = [7, 7], rx_end = UnexpectedEof, tx = [], tx_cap = None, tx_shut = False\<rparr>) r
     \<and> h_out (downlink r) = []"
  using select_relay_truncates [of
      "\<lparr>rx = [], rx_end = UnexpectedEof, tx = [], tx_cap = None, tx_shut = False\<rparr>"
      "\<lparr>rx = [7, 7], rx_end = UnexpectedEof, tx = [], tx_cap = None, tx_shut = False\<rparr>"]
  by auto

end
