(* ===== verification/Reality_Accept.thy ===== *)
theory Reality_Accept
  imports Reality_Hello Reality_Der Relay
begin

text \<open>
  The REALITY handshake around the check of the ClientHello (\<open>vless/tls/reality.rs\<close>): the peek at the
  socket, the certificate made for each accepted connection, the forwarding of everyone else to
  the camouflage destination, and the check of the configuration at start-up.  Key generation, certificate
  encoding and the TLS handshake are the libraries'.
\<close>

section \<open>The model\<close>

record keypair =
  kp_spki :: bytes
  kp_der :: bytes

record cert_lib =
  generate_keypair :: "keypair option"
  self_signed :: "rstring \<Rightarrow> keypair \<Rightarrow> bytes option"
  hmac_sha512 :: "bytes \<Rightarrow> bytes \<Rightarrow> bytes"
  signing_key :: "bytes \<Rightarrow> (nat list \<Rightarrow> nat option) option"

text \<open>
  A server configuration of rustls: the certificate chain, the signature scheme picked from those the
  client offers, and the protocols for ALPN.
\<close>

record server_config =
  cert_chain :: "bytes list"
  sc_scheme :: "nat list \<Rightarrow> nat option"
  alpn_protocols :: "rstring list"

definition ED25519 :: nat where "ED25519 = 0x0807"

text \<open>\<open>AnySchemeEd25519Key\<close> ignores what the client offers.\<close>

definition choose_scheme :: "(nat list \<Rightarrow> nat option) \<Rightarrow> nat list \<Rightarrow> nat option" where
  "choose_scheme inner offered = inner [ED25519]"

definition build_per_connection_config :: "cert_lib \<Rightarrow> reality_config \<Rightarrow> bytes \<Rightarrow> server_config result" where
  "build_per_connection_config C cfg auth_key =
     (case generate_keypair C of
        None \<Rightarrow> Inl (Bail ''rcgen keypair'')
      | Some key_pair \<Rightarrow>
          let spki = kp_spki key_pair in
          if length spki < 32 then Inl (Bail ''ed25519 SPKI too short'')
          else let pub_key_32 = drop (length spki - 32) spki;
                   reality_sig = hmac_sha512 C auth_key pub_key_32
          in case self_signed C (server_name cfg) key_pair of
               None \<Rightarrow> Inl (Bail ''rcgen self-signed'')
             | Some der_bytes \<Rightarrow>
                 and_then (replace_signature_in_cert_der der_bytes reality_sig) (\<lambda>der_bytes.
                 case signing_key C (kp_der key_pair) of
                   None \<Rightarrow> Inl (Bail ''SigningKey'')
                 | Some key \<Rightarrow>
                     Inr \<lparr>cert_chain = [der_bytes], sc_scheme = choose_scheme key,
                          alpn_protocols = [str ''h2'', str ''http/1.1'']\<rparr>))"

text \<open>
  The peek: one \<open>recv\<close> of up to 2048 bytes, which leaves them in the socket.  \<open>arrived\<close> counts the
  bytes in the receive buffer when the socket first becomes readable, \<open>None\<close> is an error of the call.
\<close>

definition peek_client_hello :: "nat option \<Rightarrow> conn \<Rightarrow> bytes result" where
  "peek_client_hello arrived stream =
     (case arrived of None \<Rightarrow> Inl (Bail ''peek ClientHello'') | Some n \<Rightarrow> Inr (take (min n 2048) (rx stream)))"

text \<open>Both copy loops of the forwarding; unlike in the other relays nothing is shut down after them.\<close>

definition forward_to_dest :: "(rstring \<Rightarrow> dial) \<Rightarrow> reality_config \<Rightarrow> conn \<Rightarrow> conn \<Rightarrow> relay result" where
  "forward_to_dest connect cfg inbound outbound =
     (case connect (dest cfg) of
        Connected \<Rightarrow> Inr (relay_start inbound outbound)
      | Refused e \<Rightarrow> Inl (Io e)
      | TimedOut \<Rightarrow> Inl (Io Other))"

text \<open>
  The whole \<open>accept\<close>: its result, and the forwarding it started, if any.  \<open>tls\<close> is the handshake of the TLS
  library on a server configuration.  A panic of the check would end the task.
\<close>

definition accept ::
  "reality_lib \<Rightarrow> cert_lib \<Rightarrow> (server_config \<Rightarrow> conn \<Rightarrow> conn result) \<Rightarrow> (rstring \<Rightarrow> dial) \<Rightarrow> nat option \<Rightarrow>
     reality_config \<Rightarrow> conn \<Rightarrow> conn \<Rightarrow> conn result \<times> relay option" where
  "accept L C tls connect arrived cfg stream outbound =
     (case peek_client_hello arrived stream of
        Inl e \<Rightarrow> (Inl e, None)
      | Inr client_hello \<Rightarrow>
          (case verify_reality_client L cfg client_hello of
             Inr auth_key \<Rightarrow> (and_then (build_per_connection_config C cfg auth_key) (\<lambda>sc. tls sc stream), None)
           | Inl (Panic m) \<Rightarrow> (Inl (Panic m), None)
           | Inl e \<Rightarrow>
               (case forward_to_dest connect cfg stream outbound of
                  Inl e \<Rightarrow> (Inl e, None)
                | Inr fwd \<Rightarrow> (Inl (Bail ''non-Reality client forwarded to dest''), Some fwd))))"

text \<open>The check at start-up; the configuration it returns is a placeholder that no connection uses.\<close>

fun check_short_ids :: "reality_lib \<Rightarrow> rstring list \<Rightarrow> unit result" where
  "check_short_ids L [] = Inr ()"
| "check_short_ids L (sid_hex # sids) =
     (case hex_decode L sid_hex of
        None \<Rightarrow> Inl (Bail ''short_id decode'')
      | Some sid \<Rightarrow> if length sid > 8 then Inl (Bail ''short_id too long'') else check_short_ids L sids)"

definition build_placeholder_config ::
  "(rstring \<Rightarrow> (bytes \<times> keypair) option) \<Rightarrow> (bytes list \<Rightarrow> bytes \<Rightarrow> (nat list \<Rightarrow> nat option) option) \<Rightarrow>
     reality_config \<Rightarrow> server_config result" where
  "build_placeholder_config simple_self_signed single_cert cfg =
     (case simple_self_signed (server_name cfg) of
        None \<Rightarrow> Inl (Bail ''placeholder certificate'')
      | Some (cert, key_pair) \<Rightarrow>
          (case single_cert [cert] (kp_der key_pair) of
             None \<Rightarrow> Inl (Bail ''placeholder ServerConfig'')
           | Some scheme \<Rightarrow>
               Inr \<lparr>cert_chain = [cert], sc_scheme = scheme, alpn_protocols = [str ''h2'', str ''http/1.1'']\<rparr>))"

definition reality_build ::
  "reality_lib \<Rightarrow> (rstring \<Rightarrow> (bytes \<times> keypair) option) \<Rightarrow> (bytes list \<Rightarrow> bytes \<Rightarrow> (nat list \<Rightarrow> nat option) option) \<Rightarrow>
     reality_config \<Rightarrow> server_config result" where
  "reality_build L simple_self_signed single_cert cfg =
     and_then (base64_url_decode L (private_key cfg)) (\<lambda>priv_bytes.
     and_then (ensure (length priv_bytes = 32) (Bail ''private_key must be 32 bytes'')) (\<lambda>_.
     and_then (check_short_ids L (short_ids cfg)) (\<lambda>_.
       build_placeholder_config simple_self_signed single_cert cfg)))"

section \<open>The parts\<close>

lemma check_short_ids_ok: "check_short_ids L sids = Inr u \<Longrightarrow> \<forall>x \<in> set sids. \<exists>b. hex_decode L x = Some b \<and> length b \<le> 8"
  by (induction sids) (auto split: option.splits if_splits)

lemma reality_build_ok:
  assumes "reality_build L self single cfg = Inr sc"
  obtains server where "base64_url_decode L (private_key cfg) = Inr server" "length server = 32"
    "\<forall>x \<in> set (short_ids cfg). \<exists>b. hex_decode L x = Some b \<and> length b \<le> 8"
  using assms check_short_ids_ok unfolding reality_build_def and_then_eq_Inr ensure_def by (metis sum.distinct(1))

lemma verify_truncated:
  assumes "hello_ok h" "length sid = 32" "n < length (hello_bytes h sid)"
  shows "verify_reality_client L cfg (take n (hello_bytes h sid)) \<noteq> Inr key"
proof
  assume "verify_reality_client L cfg (take n (hello_bytes h sid)) = Inr key"
  then obtain share where "extract_x25519_from_key_share (take n (hello_bytes h sid)) = Inr share"
    unfolding verify_reality_client_def Let_def by (auto simp: and_then_eq_Inr split: if_splits)
  with extract_truncated [OF assms] show False by auto
qed

lemma accept_forwards:
  assumes "\<And>key. verify_reality_client L cfg (take (min n 2048) (rx stream)) \<noteq> Inr key" "connect (dest cfg) = Connected"
  shows "accept L C tls connect (Some n) cfg stream outb
    = (Inl (Bail ''non-Reality client forwarded to dest''), Some (relay_start stream outb))"
proof -
  from assms(1) obtain e where e: "verify_reality_client L cfg (take (min n 2048) (rx stream)) = Inl e"
    by (cases "verify_reality_client L cfg (take (min n 2048) (rx stream))") blast+
  with verify_no_panic [of L cfg "take (min n 2048) (rx stream)"] show ?thesis
    by (cases e) (simp_all add: accept_def peek_client_hello_def no_panic_def forward_to_dest_def assms(2))
qed

lemma accept_needs_secret:
  assumes "accept L C tls connect arrived cfg stream outb = (Inr io, fwd)"
  shows "\<exists>n key sc. arrived = Some n \<and> verify_reality_client L cfg (take (min n 2048) (rx stream)) = Inr key
    \<and> build_per_connection_config C cfg key = Inr sc \<and> tls sc stream = Inr io \<and> fwd = None"
  using assms
  by (auto simp: accept_def peek_client_hello_def and_then_eq_Inr split: option.splits sum.splits err.splits)

text \<open>What the certificate library promises: an Ed25519 key at the end of its public key info, and a certificate of three fields.\<close>

definition cert_laws :: "cert_lib \<Rightarrow> reality_config \<Rightarrow> bytes \<Rightarrow> bytes \<Rightarrow> bytes \<Rightarrow> bool" where
  "cert_laws C cfg pub tbs alg \<longleftrightarrow>
     (\<exists>kp pre sig. generate_keypair C = Some kp \<and> kp_spki kp = pre @ pub \<and> length pub = 32
        \<and> length tbs + length alg + length sig < 0x8000
        \<and> self_signed C (server_name cfg) kp
            = Some (der_encode_tlv 0x30 (der_encode_tlv 0x30 tbs @ der_encode_tlv 0x30 alg @ der_encode_tlv 0x03 sig))
        \<and> signing_key C (kp_der kp) \<noteq> None)
     \<and> (\<forall>k m. length (hmac_sha512 C k m) = 64)"

lemma length_der_encode: "length (der_encode_tlv tag c) \<le> length c + 5"
  by (simp add: der_encode_tlv_field len_field_def)

text \<open>The client's check of the certificate: its signature is the MAC of its key under the authentication key.\<close>

definition client_accepts :: "cert_lib \<Rightarrow> bytes \<Rightarrow> bytes \<Rightarrow> server_config \<Rightarrow> bool" where
  "client_accepts C key pub sc \<longleftrightarrow>
     (\<exists>tbs alg. cert_chain sc = [der_encode_tlv 0x30 (der_encode_tlv 0x30 tbs @ der_encode_tlv 0x30 alg
        @ der_encode_tlv 0x03 (0x00 # hmac_sha512 C key pub))])"

lemma build_per_connection_ok:
  assumes "cert_laws C cfg pub tbs alg"
  shows "\<exists>sc. build_per_connection_config C cfg key = Inr sc \<and> client_accepts C key pub sc
    \<and> (\<exists>inner. sc_scheme sc = (\<lambda>offered. inner [ED25519]))"
proof -
  from assms obtain kp pre sig inner where kp: "generate_keypair C = Some kp" "kp_spki kp = pre @ pub" "length pub = 32"
    "self_signed C (server_name cfg) kp
      = Some (der_encode_tlv 0x30 (der_encode_tlv 0x30 tbs @ der_encode_tlv 0x30 alg @ der_encode_tlv 0x03 sig))"
    "signing_key C (kp_der kp) = Some inner"
    and len: "length tbs + length alg + length sig < 0x8000" "length (hmac_sha512 C key pub) = 64"
    unfolding cert_laws_def by blast
  let ?sig = "hmac_sha512 C key pub"
  let ?new = "der_encode_tlv 0x30 tbs @ der_encode_tlv 0x30 alg @ der_encode_tlv 0x03 (0x00 # ?sig)"
  have "length tbs < 0x1000000" "length alg < 0x1000000" "length sig < 0x1000000"
    "length (der_encode_tlv 0x30 tbs @ der_encode_tlv 0x30 alg @ der_encode_tlv 0x03 sig) < 0x1000000"
    "length ?new < 0x10000"
    using len length_der_encode [of "0x30" tbs] length_der_encode [of "0x30" alg] length_der_encode [of "0x03" sig]
      length_der_encode [of "0x03" "0x00 # ?sig"]
    by simp_all
  from signature_replaced [OF this(1-3) refl this(4) refl this(5)] kp
  have "build_per_connection_config C cfg key = Inr \<lparr>cert_chain = [der_encode_tlv 0x30 ?new], sc_scheme = choose_scheme inner,
      alpn_protocols = [str ''h2'', str ''http/1.1'']\<rparr>"
    by (simp add: build_per_connection_config_def Let_def)
  then show ?thesis by (simp add: client_accepts_def choose_scheme_def fun_eq_iff) blast
qed

section \<open>Properties\<close>

text \<open>
  C10.  The REALITY handshake authenticates both sides.  With a configuration that passed the check at start-up, a client that
  knows the server's public key and any configured short id, and whose ClientHello arrives whole, is handed to TLS with all its
  bytes still in the stream; the server's certificate carries the MAC under exactly the key the client derived,
  so the client's check accepts it; and nothing is forwarded.
\<close>

theorem reality_handshake:
  assumes "reality_laws L public seal_gcm seal_cc" "hello_ok h" "small ss" "length (tlvs ss) < 65536"
    and "find (\<lambda>e. fst e = 0x0033) (ch_exts h) = Some (0x0033, to_be 2 (of_nat (length (tlvs ss)) :: u16) @ tlvs ss)"
    and "pick_share ss None = Some (public client)"
    and "reality_build L self single cfg = Inr placeholder" "base64_url_decode L (private_key cfg) = Inr server"
    and "sid_hex \<in> set (short_ids cfg)" "hex_decode L sid_hex = Some b" "length pt = 16" "take (length b) (drop 8 pt) = b"
    and "key = reality_key L (ch_random h) client (public server)"
    and "sid = (if aes_first (ch_suites h) then seal_gcm else seal_cc) key (drop 20 (ch_random h))
          (drop 5 (hello_bytes h (replicate 32 0))) pt"
    and "cert_laws C cfg pub tbs alg" "rx stream = hello_bytes h sid @ later" "length (hello_bytes h sid) \<le> 2048"
  shows "\<exists>sc. accept L C tls connect (Some (length (hello_bytes h sid))) cfg stream outb = (tls sc stream, None)
    \<and> client_accepts C key pub sc"
proof -
  from reality_build_ok [OF assms(7)] assms(8) have ok: "length server = 32"
    "\<forall>x \<in> set (short_ids cfg). \<exists>b. hex_decode L x = Some b \<and> length b \<le> 8" by auto
  from split_list [OF assms(9)] obtain pre post where ids: "short_ids cfg = pre @ sid_hex # post" by blast
  have b: "length b \<le> 8" "\<forall>x \<in> set pre. \<exists>b. hex_decode L x = Some b \<and> length b \<le> 8"
    using ok(2) assms(9,10) ids by auto
  have "verify_reality_client L cfg (hello_bytes h sid) = Inr key"
    by (rule verify_accepts [OF assms(1-6,8) ok(1) ids b(2) assms(10) b(1) assms(11-14)])
  moreover from build_per_connection_ok [OF assms(15)] obtain sc where
    "build_per_connection_config C cfg key = Inr sc" "client_accepts C key pub sc" by blast
  ultimately show ?thesis
    using assms(16,17) by (intro exI [of _ sc]) (simp add: accept_def peek_client_hello_def min_absorb1)
qed

text \<open>
  C14.  Everyone else sees only the camouflage destination: a connection whose first bytes the check does not accept
  gets none of the server's own bytes.  At every moment of every run of the forwarding the destination holds a prefix of the
  client's bytes, the peeked ones included, and the client one of the destination's; a direction goes on until its source
  has ended, and after a clean end it has passed on exactly all of its bytes.
\<close>

theorem reality_probe_forwarded:
  assumes "\<And>key. verify_reality_client L cfg (take (min n 2048) (rx stream)) \<noteq> Inr key"
    and "connect (dest cfg) = Connected" "tx_cap outb = None" "tx_cap stream = None"
  shows "\<exists>fwd. accept L C tls connect (Some n) cfg stream outb = (Inl (Bail ''non-Reality client forwarded to dest''), Some fwd)
    \<and> exchanged (rx stream) (rx_end stream) outb fwd"
  using accept_forwards [where L = L and cfg = cfg and n = n and stream = stream and connect = connect] assms(1,2)
    exchanged_start [OF assms(3,4)] by blast

text \<open>
  The peek decides on one read: a ClientHello of any client, the legitimate ones included, is treated as a probe when the
  first read does not return all of it, because its last segment has not arrived yet or because it is longer than 2048 bytes.
\<close>

theorem reality_partial_hello_forwarded:
  assumes "hello_ok h" "length sid = 32" "rx stream = hello_bytes h sid @ later" "min n 2048 < length (hello_bytes h sid)"
    and "connect (dest cfg) = Connected"
  shows "accept L C tls connect (Some n) cfg stream outb
    = (Inl (Bail ''non-Reality client forwarded to dest''), Some (relay_start stream outb))"
proof (rule accept_forwards [where connect = connect])
  have "take (min n 2048) (rx stream) = take (min n 2048) (hello_bytes h sid)" using assms(3,4) by simp
  with verify_truncated [OF assms(1,2,4)] show "verify_reality_client L cfg (take (min n 2048) (rx stream)) \<noteq> Inr key" for key
    by simp
qed (rule assms(5))

section \<open>Instances\<close>

definition toy_certs :: cert_lib where
  "toy_certs = \<lparr>generate_keypair = Some \<lparr>kp_spki = replicate 32 4, kp_der = [1]\<rparr>,
     self_signed = \<lambda>_ _. Some (der_encode_tlv 0x30 (der_encode_tlv 0x30 [2] @ der_encode_tlv 0x30 [6] @ der_encode_tlv 0x03 [0, 9])),
     hmac_sha512 = \<lambda>k m. replicate 64 8, signing_key = \<lambda>_. Some (\<lambda>_. None)\<rparr>"

lemma toy_cert_laws: "cert_laws toy_certs cfg (replicate 32 4) [2] [6]"
  by (simp add: cert_laws_def toy_certs_def) (rule exI [of _ "[0, 9]"], simp)

definition demo_build :: "server_config result" where
  "demo_build = reality_build toy_reality (\<lambda>_. Some ([], \<lparr>kp_spki = [], kp_der = []\<rparr>)) (\<lambda>_ _. Some (\<lambda>_. None)) demo_reality"

lemma demo_build_ok: "\<exists>sc. demo_build = Inr sc"
  by (simp add: demo_build_def reality_build_def build_placeholder_config_def ensure_def demo_reality_ok(1))
    (simp add: demo_reality_def toy_reality_def)

definition demo_stream :: conn where
  "demo_stream = \<lparr>rx = hello_bytes demo_hello demo_sid @ [20], rx_end = UnexpectedEof, tx = [], tx_cap = None, tx_shut = False\<rparr>"

lemma length_demo_hello: "length (hello_bytes demo_hello demo_sid) = 139"
  by (simp add: hello_bytes_def hello_head_def hello_tail_def demo_hello_def demo_sid_def toy_seal_def demo_pt_def
      suite_bytes_def tlvs_def length_tlv demo_shares_def)

theorem reality_handshake_witness:
  "\<exists>sc. accept toy_reality toy_certs (\<lambda>sc c. Inr c) (\<lambda>_. TimedOut) (Some 139) demo_reality demo_stream demo_stream = (Inr demo_stream, None)
     \<and> client_accepts toy_certs (reality_key toy_reality (ch_random demo_hello) [5] (replicate 32 3)) (replicate 32 4) sc"
proof -
  from demo_build_ok obtain sc0 where b: "demo_build = Inr sc0" by blast
  have "rx demo_stream = hello_bytes demo_hello demo_sid @ [20]" "length (hello_bytes demo_hello demo_sid) \<le> 2048"
    "[0xAB] \<in> set (short_ids demo_reality)"
    by (simp_all add: demo_stream_def length_demo_hello demo_reality_def)
  from reality_handshake [OF toy_reality_laws demo_hello_ok b [unfolded demo_build_def] demo_reality_ok(1) this(3)
      demo_reality_ok(5,7,8) refl demo_sid_def toy_cert_laws this(1,2), where tls = "\<lambda>sc c. Inr c"]
  show ?thesis unfolding length_demo_hello by blast
qed

theorem reality_probe_forwarded_witness:
  "\<exists>fwd. accept toy_reality toy_certs (\<lambda>sc c. Inr c) (\<lambda>_. Connected) (Some 2) demo_reality
      \<lparr>rx = [71, 69, 84], rx_end = UnexpectedEof, tx = [], tx_cap = None, tx_shut = False\<rparr>
      \<lparr>rx = [9], rx_end = UnexpectedEof, tx = [], tx_cap = None, tx_shut = False\<rparr>
    = (Inl (Bail ''non-Reality client forwarded to dest''), Some fwd)
    \<and> exchanged [71, 69, 84] UnexpectedEof \<lparr>rx = [9], rx_end = UnexpectedEof, tx = [], tx_cap = None, tx_shut = False\<rparr> fwd"
proof -
  have "verify_reality_client toy_reality demo_reality (take (min 2 2048) [71, 69, 84]) \<noteq> Inr key" for key
    by (simp add: verify_reality_client_def)
  then show ?thesis
    using reality_probe_forwarded [where L = toy_reality and cfg = demo_reality and n = 2 and connect = "\<lambda>_. Connected"
        and stream = "\<lparr>rx = [71, 69, 84], rx_end = UnexpectedEof, tx = [], tx_cap = None, tx_shut = False\<rparr>"
        and outb = "\<lparr>rx = [9], rx_end = UnexpectedEof, tx = [], tx_cap = None, tx_shut = False\<rparr>"] by simp
qed

theorem reality_partial_hello_forwarded_witness:
  "accept toy_reality toy_certs (\<lambda>sc c. Inr c) (\<lambda>_. Connected) (Some 138) demo_reality demo_stream demo_stream
    = (Inl (Bail ''non-Reality client forwarded to dest''), Some (relay_start demo_stream demo_stream))"
proof -
  have "length demo_sid = 32" "rx demo_stream = hello_bytes demo_hello demo_sid @ [20]"
    "min 138 2048 < length (hello_bytes demo_hello demo_sid)"
    unfolding length_demo_hello by (simp_all add: demo_sid_def toy_seal_def demo_pt_def demo_stream_def)
  from reality_partial_hello_forwarded [OF demo_hello_ok(1) this] show ?thesis by simp
qed

end
