(* ===== verification/Byte_Source.thy ===== *)
theory Byte_Source
  imports Stream_IO
begin

text \<open>
  Streams that hand out their bytes piecewise: the multiplexed streams of AnyTLS, the decrypting
  reader of Shadowsocks, and the WebSocket and XHTTP transports all buffer what arrived and
  answer a read of up to \<open>n\<close> bytes with some of it.  The locale states what code above them
  relies on; it proves once that the usual \<open>read_exact\<close> loop and a loop that drains the stream
  deliver the stream's bytes, and that a parser written over such a stream behaves as on a
  plain connection.
\<close>

section \<open>Refinement of actions\<close>

text \<open>
  \<open>refines ab p q\<close>: on every state the concrete action \<open>p\<close> has the result of \<open>q\<close> on the abstract
  state, and after a success the states correspond again.
\<close>

definition refines :: "('s \<Rightarrow> 't) \<Rightarrow> ('s, 'a) action \<Rightarrow> ('t, 'a) action \<Rightarrow> bool" where
  "refines ab p q \<longleftrightarrow>
     (\<forall>s. fst (q (ab s)) = fst (p s) \<and> (\<not> isl (fst (p s)) \<longrightarrow> snd (q (ab s)) = ab (snd (p s))))"

named_theorems refines_intros \<open>refinement rules for actions\<close>

lemma refines_return [refines_intros]: "refines ab (return_io a) (return_io a)"
  by (simp add: refines_def return_io_def)

lemma refines_fail [refines_intros]: "refines ab (fail_io e) (fail_io e)"
  by (simp add: refines_def fail_io_def)

lemma refines_lift [refines_intros]: "refines ab (lift_io r) (lift_io r)"
  by (simp add: refines_def lift_io_def)

lemma refines_if [refines_intros]:
  "refines ab p q \<Longrightarrow> refines ab p' q' \<Longrightarrow> refines ab (if b then p else p') (if b then q else q')"
  by simp

lemma refines_bind [refines_intros]:
  assumes "refines ab p q" "\<And>a. refines ab (f a) (g a)"
  shows "refines ab (bind_io p f) (bind_io q g)"
  unfolding refines_def
proof (intro allI)
  fix s
  obtain r s' where p: "p s = (r, s')" by fastforce
  obtain r' t' where q: "q (ab s) = (r', t')" by fastforce
  have rel: "r' = r" "\<not> isl r \<Longrightarrow> t' = ab s'"
    using assms(1) p q by (simp_all add: refines_def split: prod.splits) (metis fst_conv snd_conv)+
  show "fst (bind_io q g (ab s)) = fst (bind_io p f s)
      \<and> (\<not> isl (fst (bind_io p f s)) \<longrightarrow> snd (bind_io q g (ab s)) = ab (snd (bind_io p f s)))"
  proof (cases r)
    case (Inl e)
    with p q rel show ?thesis by (simp add: bind_io_def)
  next
    case (Inr a)
    with p q rel assms(2) [of a] show ?thesis by (simp add: bind_io_def refines_def)
  qed
qed

lemma refines_result: "refines ab p q \<Longrightarrow> fst (p s) = fst (q (ab s))"
  by (simp add: refines_def)

section \<open>The interface\<close>

text \<open>\<open>read_exact_loop\<close> is the loop that fills a buffer of \<open>need\<close> bytes by repeated reads.\<close>

function read_exact_loop :: "(nat \<Rightarrow> 's \<Rightarrow> bytes \<times> 's) \<Rightarrow> nat \<Rightarrow> bytes \<Rightarrow> ('s, bytes) action" where
  "read_exact_loop rd need acc s =
     (if need \<le> length acc then (Inr acc, s)
      else (case rd (need - length acc) s of
              (bs, s') \<Rightarrow>
                if bs = [] then (Inl (Io UnexpectedEof), s')
                else read_exact_loop rd need (acc @ bs) s'))"
  by pat_completeness auto
termination
  by (relation "measure (\<lambda>(rd, need, acc, s). need - length acc)")
    (auto simp: length_greater_0_conv [symmetric] simp del: length_greater_0_conv)

declare read_exact_loop.simps [simp del]

text \<open>\<open>drain\<close> reads \<open>n\<close> bytes at a time until a read returns nothing; \<open>fuel\<close> bounds the reads.\<close>

fun drain :: "(nat \<Rightarrow> 's \<Rightarrow> bytes \<times> 's) \<Rightarrow> nat \<Rightarrow> nat \<Rightarrow> 's \<Rightarrow> bytes option" where
  "drain rd n 0 s = None"
| "drain rd n (Suc fuel) s =
     (case rd n s of
        (bs, s') \<Rightarrow> if bs = [] then Some [] else map_option ((@) bs) (drain rd n fuel s'))"

lemma drain_unique: "drain rd n f s = Some a \<Longrightarrow> drain rd n g s = Some b \<Longrightarrow> a = b"
proof (induction f arbitrary: g s a b)
  case (Suc f)
  then obtain g' where g: "g = Suc g'" by (cases g) auto
  obtain bs s' where r: "rd n s = (bs, s')" by fastforce
  show ?case
  proof (cases "bs = []")
    case False
    with Suc.prems r g obtain a' b' where "drain rd n f s' = Some a'" "a = bs @ a'" "drain rd n g' s' = Some b'" "b = bs @ b'" by auto
    with Suc.IH show ?thesis by blast
  qed (use Suc.prems r g in simp)
qed simp

locale byte_source =
  fixes rd :: "nat \<Rightarrow> 's \<Rightarrow> bytes \<times> 's"
    and avail :: "'s \<Rightarrow> bytes"
    and ok :: "'s \<Rightarrow> bool"
  assumes rd_eof: "ok s \<Longrightarrow> 0 < n \<Longrightarrow> avail s = [] \<Longrightarrow> fst (rd n s) = []"
    and rd_some: "ok s \<Longrightarrow> 0 < n \<Longrightarrow> avail s \<noteq> [] \<Longrightarrow>
      fst (rd n s) \<noteq> [] \<and> length (fst (rd n s)) \<le> n \<and> avail s = fst (rd n s) @ avail (snd (rd n s))"
    and rd_ok: "ok s \<Longrightarrow> 0 < n \<Longrightarrow> avail s \<noteq> [] \<Longrightarrow> ok (snd (rd n s))"
begin

lemma read_exact_loop_avail:
  assumes "ok s"
  shows "if need \<le> length acc + length (avail s)
    then \<exists>s'. read_exact_loop rd need acc s = (Inr (acc @ take (need - length acc) (avail s)), s')
       \<and> ok s' \<and> avail s' = drop (need - length acc) (avail s)
    else fst (read_exact_loop rd need acc s) = Inl (Io UnexpectedEof)"
  using assms
proof (induction rd\<equiv>rd need acc s rule: read_exact_loop.induct)
  case (1 need acc s)
  show ?case
  proof (cases "need \<le> length acc")
    case True
    then show ?thesis using "1.prems" by (subst read_exact_loop.simps) simp
  next
    case False
    obtain bs s' where r: "rd (need - length acc) s = (bs, s')" by fastforce
    have eq: "read_exact_loop rd need acc s = (if bs = [] then (Inl (Io UnexpectedEof), s')
        else read_exact_loop rd need (acc @ bs) s')"
      using False r by (subst read_exact_loop.simps) simp
    have n: "0 < need - length acc" using False by simp
    show ?thesis
    proof (cases "avail s = []")
      case True
      with rd_eof [OF "1.prems" n] r eq False show ?thesis by simp
    next
      case ne: False
      with rd_some [OF "1.prems" n] rd_ok [OF "1.prems" n] r
      have bs: "bs \<noteq> []" "length bs \<le> need - length acc" "avail s = bs @ avail s'" "ok s'" by simp_all
      have "take (need - length acc) (avail s) = bs @ take (need - length (acc @ bs)) (avail s')"
        "drop (need - length acc) (avail s) = drop (need - length (acc @ bs)) (avail s')"
        using bs(2,3) by simp_all
      with "1.hyps" [OF False r [symmetric] bs(1,4)] bs eq show ?thesis
        by (auto split: if_splits)
    qed
  qed
qed

lemma drain_avail:
  assumes "0 < n" "ok s" "length (avail s) < fuel"
  shows "drain rd n fuel s = Some (avail s)"
  using assms(2,3)
proof (induction fuel arbitrary: s)
  case (Suc fuel)
  obtain bs s' where r: "rd n s = (bs, s')" by fastforce
  show ?case
  proof (cases "avail s = []")
    case True
    with rd_eof [OF Suc.prems(1) assms(1)] r show ?thesis by simp
  next
    case False
    with rd_some [OF Suc.prems(1) assms(1)] rd_ok [OF Suc.prems(1) assms(1)] r
    have bs: "bs \<noteq> []" "avail s = bs @ avail s'" "ok s'" by simp_all
    then have "length (avail s') < fuel" using Suc.prems(2) by (cases bs) auto
    with Suc.IH [OF bs(3)] bs r show ?thesis by simp
  qed
qed simp

end

text \<open>A source seen as a connection that ends after its bytes.\<close>

definition as_conn :: "('s \<Rightarrow> bytes) \<Rightarrow> 's \<Rightarrow> conn" where
  "as_conn avail s = \<lparr>rx = avail s, rx_end = UnexpectedEof, tx = [], tx_cap = None, tx_shut = False\<rparr>"

locale total_byte_source = byte_source rd avail "\<lambda>_. True" for rd :: "nat \<Rightarrow> 's \<Rightarrow> bytes \<times> 's" and avail
begin

lemma read_exact_refines: "refines (as_conn avail) (read_exact_loop rd n []) (read_exact n)"
  unfolding refines_def
proof (intro allI)
  fix s
  show "fst (read_exact n (as_conn avail s)) = fst (read_exact_loop rd n [] s)
      \<and> (\<not> isl (fst (read_exact_loop rd n [] s)) \<longrightarrow>
         snd (read_exact n (as_conn avail s)) = as_conn avail (snd (read_exact_loop rd n [] s)))"
    using read_exact_loop_avail [where s = s and need = n and acc = "[]"]
    by (auto simp: read_exact_def as_conn_def split: if_splits)
qed

end

section \<open>What a handler reads from a stream\<close>

text \<open>
  Reads of \<open>n\<close> bytes until one returns nothing: the bytes, and how they ended.  A read answers \<open>None\<close> while it is
  pending; on a stream to which nothing is added any more that is the end too.
\<close>

fun read_to_end :: "(nat \<Rightarrow> 's \<Rightarrow> bytes result option \<times> 's) \<Rightarrow> nat \<Rightarrow> nat \<Rightarrow> 's \<Rightarrow> bytes \<times> io_kind" where
  "read_to_end rd n 0 s = ([], UnexpectedEof)"
| "read_to_end rd n (Suc fuel) s =
     (case rd n s of
        (None, s') \<Rightarrow> ([], UnexpectedEof)
      | (Some (Inl e), s') \<Rightarrow> ([], case e of Io k \<Rightarrow> k | _ \<Rightarrow> Other)
      | (Some (Inr bs), s') \<Rightarrow>
          if bs = [] then ([], UnexpectedEof)
          else (case read_to_end rd n fuel s' of (bs2, k) \<Rightarrow> (bs @ bs2, k)))"

text \<open>The connection that a handler sees over such a stream: what reads of 8 KiB return, which the sources show to be what reads of any size return.\<close>

definition READ_BUF :: nat where "READ_BUF = 8192"

definition input_conn :: "(nat \<Rightarrow> 's \<Rightarrow> bytes result option \<times> 's) \<Rightarrow> nat \<Rightarrow> 's \<Rightarrow> conn" where
  "input_conn rd bound s =
     (case read_to_end rd READ_BUF (Suc bound) s of
        (bs, k) \<Rightarrow> \<lparr>rx = bs, rx_end = k, tx = [], tx_cap = None, tx_shut = False\<rparr>)"

definition flat_read :: "(nat \<Rightarrow> 's \<Rightarrow> bytes result option \<times> 's) \<Rightarrow> nat \<Rightarrow> 's \<Rightarrow> bytes \<times> 's" where
  "flat_read rd n s = (case rd n s of (Some (Inr bs), s') \<Rightarrow> (bs, s') | (_, s') \<Rightarrow> ([], s'))"

text \<open>One read of the loop, by what it returns.\<close>

lemma read_to_end_stop: "fst (flat_read rd n s) = [] \<Longrightarrow> fst (read_to_end rd n (Suc fuel) s) = []"
  by (simp add: flat_read_def split: prod.splits option.splits sum.splits)

lemma read_to_end_more:
  assumes "rd n s = (Some (Inr bs), s')" "bs \<noteq> []"
  shows "read_to_end rd n (Suc fuel) s = (bs @ fst (read_to_end rd n fuel s'), snd (read_to_end rd n fuel s'))"
  using assms by (simp split: prod.splits)

lemma flat_read_some: "flat_read rd n s = (bs, s') \<Longrightarrow> bs \<noteq> [] \<Longrightarrow> rd n s = (Some (Inr bs), s')"
  by (auto simp: flat_read_def split: prod.splits option.splits sum.splits)

lemma read_to_end_drain: "drain (flat_read rd) n fuel s = Some bs \<Longrightarrow> fst (read_to_end rd n fuel s) = bs"
proof (induction fuel arbitrary: s bs)
  case (Suc fuel)
  obtain b s' where r: "flat_read rd n s = (b, s')" by fastforce
  show ?case
  proof (cases "b = []")
    case True
    with Suc.prems r have "bs = []" by simp
    with read_to_end_stop [of rd n s fuel] r True show ?thesis by simp
  next
    case False
    with Suc.prems r obtain c where "drain (flat_read rd) n fuel s' = Some c" "bs = b @ c" by auto
    with Suc.IH read_to_end_more [of rd n s b s' fuel] flat_read_some [OF r False] False show ?thesis by simp
  qed
qed simp

lemma input_conn_simps [simp]:
  "tx (input_conn rd bound s) = []" "tx_cap (input_conn rd bound s) = None" "tx_shut (input_conn rd bound s) = False"
  "rx (input_conn rd bound s) = fst (read_to_end rd READ_BUF (Suc bound) s)"
  "rx_end (input_conn rd bound s) = snd (read_to_end rd READ_BUF (Suc bound) s)"
  by (simp_all add: input_conn_def split: prod.splits)

lemma input_conn_drain:
  assumes "drain (flat_read rd) READ_BUF (Suc bound) s = Some bs"
  shows "rx (input_conn rd bound s) = bs"
  using read_to_end_drain [OF assms] by (simp del: read_to_end.simps)

end
