(* ===== verification/Websocket.thy ===== *)
theory Websocket
  imports Byte_Source
begin

text \<open>
  The WebSocket transport (\<open>common/transport/websocket.rs\<close>): the check of the upgrade request and
  \<open>WsStream\<close>, which turns messages into a byte stream and back.  The handshake, the frame
  format and its masking are the library's; it delivers messages.
\<close>

section \<open>The model\<close>

record ws_request =
  wr_host :: "rstring option"
  wr_path :: rstring

datatype upgrade = Accepted | Rejected nat

definition do_upgrade :: "rstring \<Rightarrow> rstring option \<Rightarrow> ws_request \<Rightarrow> upgrade" where
  "do_upgrade expected_path expected_host req =
     (let host_bad = (case expected_host of
                        Some expected \<Rightarrow> (case wr_host req of Some h \<Rightarrow> h | None \<Rightarrow> []) \<noteq> expected
                      | None \<Rightarrow> False)
      in if host_bad then Rejected 400
         else if wr_path req \<noteq> expected_path then Rejected 404
         else Accepted)"

datatype message = Binary bytes | Text rstring | Ping bytes | Pong bytes | RawFrame | Close

text \<open>
  What \<open>poll_next\<close> still yields: messages and errors, then the end of the stream when \<open>ws_ended\<close>,
  otherwise nothing yet.  \<open>ws_out\<close> is what was sent, \<open>ws_ready\<close> what the sink answers.
\<close>

datatype ws_item = Msg message | WsError

datatype sink = SinkReady | SinkPending | SinkError

record ws_stream =
  ws_in :: "ws_item list"
  ws_ended :: bool
  read_buf :: bytes
  ws_out :: "message list"

definition ws_new :: "ws_item list \<Rightarrow> bool \<Rightarrow> ws_stream" where
  "ws_new items ended = \<lparr>ws_in = items, ws_ended = ended, read_buf = [], ws_out = []\<rparr>"

text \<open>The loop over messages: \<open>None\<close> is pending, \<open>Some (Inr [])\<close> the end of the stream.\<close>

fun next_data :: "nat \<Rightarrow> bool \<Rightarrow> ws_item list \<Rightarrow> bytes result option \<times> bytes \<times> ws_item list" where
  "next_data n ended [] = (if ended then Some (Inr []) else None, [], [])"
| "next_data n ended (WsError # items) = (Some (Inl (Io ConnectionReset)), [], items)"
| "next_data n ended (Msg m # items) =
     (case m of
        Ping _ \<Rightarrow> next_data n ended items
      | Pong _ \<Rightarrow> next_data n ended items
      | RawFrame \<Rightarrow> next_data n ended items
      | Close \<Rightarrow> (Some (Inr []), [], items)
      | Binary v \<Rightarrow> if v = [] then next_data n ended items else (Some (Inr (take n v)), drop n v, items)
      | Text s \<Rightarrow> if s = [] then next_data n ended items else (Some (Inr (take n s)), drop n s, items))"

definition ws_poll_read :: "nat \<Rightarrow> ws_stream \<Rightarrow> bytes result option \<times> ws_stream" where
  "ws_poll_read n this =
     (if read_buf this \<noteq> [] then
        (Some (Inr (take n (read_buf this))), this\<lparr>read_buf := drop n (read_buf this)\<rparr>)
      else case next_data n (ws_ended this) (ws_in this) of
        (r, rest, items) \<Rightarrow> (r, this\<lparr>read_buf := rest, ws_in := items\<rparr>))"

definition ws_poll_write :: "sink \<Rightarrow> bool \<Rightarrow> bytes \<Rightarrow> ws_stream \<Rightarrow> nat result option \<times> ws_stream" where
  "ws_poll_write ready started buf this =
     (case ready of
        SinkPending \<Rightarrow> (None, this)
      | SinkError \<Rightarrow> (Some (Inl (Io BrokenPipe)), this)
      | SinkReady \<Rightarrow>
          if started then (Some (Inr (length buf)), this\<lparr>ws_out := ws_out this @ [Binary buf]\<rparr>)
          else (Some (Inl (Io BrokenPipe)), this))"

section \<open>The stream is a byte source\<close>

fun payload :: "message \<Rightarrow> bytes" where
  "payload (Binary v) = v"
| "payload (Text s) = s"
| "payload _ = []"

fun data_before_close :: "ws_item list \<Rightarrow> bytes" where
  "data_before_close [] = []"
| "data_before_close (WsError # items) = []"
| "data_before_close (Msg m # items) = (if m = Close then [] else payload m @ data_before_close items)"

definition ws_avail :: "ws_stream \<Rightarrow> bytes" where
  "ws_avail s = read_buf s @ data_before_close (ws_in s)"

definition ws_read :: "nat \<Rightarrow> ws_stream \<Rightarrow> bytes \<times> ws_stream" where
  "ws_read n s = (case ws_poll_read n s of (Some (Inr bs), s') \<Rightarrow> (bs, s') | (_, s') \<Rightarrow> ([], s'))"

text \<open>The connection that a handler sees over a WebSocket on which the items are all that ever arrives.\<close>

definition ws_size :: "ws_stream \<Rightarrow> nat" where
  "ws_size s = length (read_buf s) + length (concat (map (\<lambda>i. case i of Msg m \<Rightarrow> payload m | WsError \<Rightarrow> []) (ws_in s)))"

definition ws_conn :: "ws_stream \<Rightarrow> conn" where
  "ws_conn s = input_conn ws_poll_read (ws_size s) s"

lemma next_data_cases:
  "0 < n \<Longrightarrow>
   (data_before_close items = [] \<and> (fst (next_data n ended items) = None \<or> fst (next_data n ended items) = Some (Inr [])
      \<or> fst (next_data n ended items) = Some (Inl (Io ConnectionReset))))
   \<or> (\<exists>bs rest items'. next_data n ended items = (Some (Inr bs), rest, items') \<and> bs \<noteq> [] \<and> length bs \<le> n
      \<and> data_before_close items = bs @ rest @ data_before_close items')"
  by (induction n ended items rule: next_data.induct) (auto split: message.splits)

lemma ws_read_buf: "read_buf s \<noteq> [] \<Longrightarrow> ws_read n s = (take n (read_buf s), s\<lparr>read_buf := drop n (read_buf s)\<rparr>)"
  by (simp add: ws_read_def ws_poll_read_def)

lemma ws_read_next:
  assumes "read_buf s = []" "0 < n"
  shows "(ws_avail s = [] \<and> fst (ws_read n s) = [])
    \<or> (fst (ws_read n s) \<noteq> [] \<and> length (fst (ws_read n s)) \<le> n \<and> ws_avail s = fst (ws_read n s) @ ws_avail (snd (ws_read n s)))"
  using next_data_cases [OF assms(2), of "ws_in s" "ws_ended s"] assms(1)
  by (auto simp: ws_read_def ws_poll_read_def ws_avail_def split: prod.splits option.splits sum.splits)

interpretation ws_source: total_byte_source ws_read ws_avail
proof
  fix s :: ws_stream and n :: nat
  assume n: "0 < n"
  show "fst (ws_read n s) = []" if "ws_avail s = []"
    using that ws_read_next [OF _ n, of s] by (fastforce simp: ws_avail_def)
  show "fst (ws_read n s) \<noteq> [] \<and> length (fst (ws_read n s)) \<le> n
      \<and> ws_avail s = fst (ws_read n s) @ ws_avail (snd (ws_read n s))" if "ws_avail s \<noteq> []"
  proof (cases "read_buf s = []")
    case True
    with ws_read_next [OF _ n, of s] that show ?thesis by blast
  next
    case False
    with n show ?thesis by (simp add: ws_read_buf ws_avail_def)
  qed
qed simp

lemma ws_read_flat: "ws_read = flat_read ws_poll_read"
  by (simp add: ws_read_def flat_read_def fun_eq_iff)

lemma length_ws_avail: "length (ws_avail s) \<le> ws_size s"
proof -
  have "length (data_before_close is) \<le> length (concat (map (\<lambda>i. case i of Msg m \<Rightarrow> payload m | WsError \<Rightarrow> []) is))" for "is"
    by (induction "is" rule: data_before_close.induct) auto
  then show ?thesis by (simp add: ws_avail_def ws_size_def)
qed

lemma ws_conn_simps [simp]:
  "rx (ws_conn s) = ws_avail s" "tx (ws_conn s) = []" "tx_cap (ws_conn s) = None" "tx_shut (ws_conn s) = False"
proof -
  have "drain (flat_read ws_poll_read) READ_BUF (Suc (ws_size s)) s = Some (ws_avail s)"
    using ws_source.drain_avail [of READ_BUF s "Suc (ws_size s)"] length_ws_avail [of s]
    by (simp add: ws_read_flat READ_BUF_def less_Suc_eq_le del: drain.simps)
  then show "rx (ws_conn s) = ws_avail s" unfolding ws_conn_def by (rule input_conn_drain)
qed (simp_all add: ws_conn_def)

text \<open>No error before the close message: then the reads end cleanly.\<close>

fun ws_clean :: "ws_item list \<Rightarrow> bool" where
  "ws_clean [] = True"
| "ws_clean (WsError # items) = False"
| "ws_clean (Msg m # items) = (m = Close \<or> ws_clean items)"

lemma next_data_clean:
  assumes "ws_clean items" "next_data n ended items = (r, rest, items')"
  shows "\<not> (\<exists>e. r = Some (Inl e)) \<and> (\<forall>bs. r = Some (Inr bs) \<longrightarrow> bs \<noteq> [] \<longrightarrow> ws_clean items')"
  using assms by (induction n ended items rule: next_data.induct) (auto split: message.splits if_splits)

lemma ws_conn_clean: "ws_clean (ws_in s) \<Longrightarrow> rx_end (ws_conn s) = UnexpectedEof"
proof -
  have "ws_clean (ws_in s) \<Longrightarrow> snd (read_to_end ws_poll_read n fuel s) = UnexpectedEof" for n fuel
  proof (induction fuel arbitrary: s)
    case (Suc fuel)
    obtain r s' where r: "ws_poll_read n s = (r, s')" by fastforce
    have ok: "\<not> (\<exists>e. r = Some (Inl e)) \<and> (\<forall>bs. r = Some (Inr bs) \<longrightarrow> bs \<noteq> [] \<longrightarrow> ws_clean (ws_in s'))"
    proof (cases "read_buf s = []")
      case True
      obtain q rest items where nd: "next_data n (ws_ended s) (ws_in s) = (q, rest, items)" by (metis prod_cases3)
      with r True have "q = r" "ws_in s' = items" by (auto simp: ws_poll_read_def)
      with next_data_clean [OF Suc.prems nd] show ?thesis by simp
    qed (use r Suc.prems in \<open>auto simp: ws_poll_read_def\<close>)
    show ?case
    proof (cases "\<exists>bs. r = Some (Inr bs) \<and> bs \<noteq> []")
      case True
      then obtain bs where b: "r = Some (Inr bs)" "bs \<noteq> []" by blast
      with ok Suc.IH [of s'] read_to_end_more [of ws_poll_read n s bs s' fuel] r show ?thesis by simp
    next
      case False
      with ok r show ?thesis by (cases r) (auto split: sum.splits)
    qed
  qed simp
  then show "ws_clean (ws_in s) \<Longrightarrow> rx_end (ws_conn s) = UnexpectedEof" by (simp add: ws_conn_def del: read_to_end.simps)
qed

section \<open>Properties\<close>

text \<open>What the client sent as data before it closed the connection.\<close>

fun ws_writes :: "bytes list \<Rightarrow> ws_stream \<Rightarrow> ws_stream" where
  "ws_writes [] s = s"
| "ws_writes (b # bs) s = ws_writes bs (snd (ws_poll_write SinkReady True b s))"

lemma ws_writes_out: "ws_out (ws_writes bs s) = ws_out s @ map Binary bs"
  by (induction bs arbitrary: s) (simp_all add: ws_poll_write_def)

lemma data_before_close_map:
  "Close \<notin> set ms \<Longrightarrow> data_before_close (map Msg ms @ items) = concat (map payload ms) @ data_before_close items"
  by (induction ms) auto

text \<open>
  A WebSocket carries a byte stream: however the peer cuts its bytes into text and binary messages,
  with pings, pongs and empty messages in between, a reader of any buffer size gets exactly
  those bytes and then the end at the close message; and the messages that writes of any sizes
  produce carry exactly the written bytes to such a reader.
\<close>

theorem websocket_stream:
  assumes "Close \<notin> set ms" "0 < n"
  shows "drain ws_read n (Suc (length (concat (map payload ms)))) (ws_new (map Msg ms @ Msg Close # items) ended)
      = Some (concat (map payload ms))
    \<and> drain ws_read n (Suc (length (concat bs))) (ws_new (map Msg (ws_out (ws_writes bs (ws_new [] False)))) True)
      = Some (concat bs)"
proof -
  let ?s = "ws_new (map Msg ms @ Msg Close # items) ended"
  let ?t = "ws_new (map Msg (ws_out (ws_writes bs (ws_new [] False)))) True"
  have "ws_avail ?s = concat (map payload ms)"
    using assms(1) by (simp add: ws_avail_def ws_new_def data_before_close_map)
  moreover have "ws_avail ?t = concat bs"
    using data_before_close_map [of "map Binary bs" "[]"]
    by (auto simp: ws_avail_def ws_new_def ws_writes_out comp_def)
  ultimately show ?thesis
    using ws_source.drain_avail [OF assms(2), of ?s] ws_source.drain_avail [OF assms(2), of ?t]
    by (simp del: drain.simps)
qed

theorem websocket_stream_witness:
  "drain ws_read 2 4 (ws_new (map Msg [Binary [1, 2], Ping [], Text [3]] @ [Msg Close]) False) = Some [1, 2, 3]"
proof -
  have e: "concat (map payload [Binary [1, 2], Ping [], Text [3]]) = [1, 2, 3]" "Suc (length ([1, 2, 3] :: bytes)) = 4"
    by simp_all
  have "Close \<notin> set [Binary [1, 2], Ping [], Text [3]]" "(0 :: nat) < 2" by simp_all
  from websocket_stream [OF this, of "[]" False "[]"] show ?thesis unfolding e by blast
qed

end
