(* ===== verification/Transport_Stack.thy ===== *)
theory Transport_Stack
  imports Reality_Accept Websocket
begin

text \<open>
  What lies between an accepted TCP connection and a protocol handler: the server configuration for
  standard TLS (\<open>common/tls/standard.rs\<close>), the TLS handshake, and the WebSocket upgrade
  (\<open>accept_plain\<close> and \<open>accept_tls\<close> of \<open>common/transport/websocket.rs\<close>).  Files, PEM, certificates, and
  both handshakes are the libraries' and the operating system's.
\<close>

section \<open>The model\<close>

record standard_tls_config =
  cert_path :: "rstring option"
  key_path :: "rstring option"
  self_signed_domain :: "rstring option"

text \<open>
  \<open>single_cert\<close> is \<open>with_single_cert\<close>, with the scheme it picks; \<open>ws_handshake\<close> is the HTTP upgrade: the request, and
  the messages that follow when it is granted.
\<close>

record net_lib =
  pem_certs :: "rstring \<Rightarrow> bytes list result"
  pem_key :: "rstring \<Rightarrow> bytes option result"
  simple_self_signed :: "rstring \<Rightarrow> (bytes \<times> keypair) option"
  single_cert :: "bytes list \<Rightarrow> bytes \<Rightarrow> (nat list \<Rightarrow> nat option) option"
  tls_handshake :: "server_config \<Rightarrow> conn \<Rightarrow> conn result"
  ws_handshake :: "conn \<Rightarrow> (ws_request \<times> ws_item list \<times> bool) option"

definition load_certs :: "net_lib \<Rightarrow> rstring \<Rightarrow> bytes list result" where
  "load_certs N path =
     and_then (pem_certs N path) (\<lambda>chain.
     and_then (ensure (chain \<noteq> []) (Bail ''no certs'')) (\<lambda>_. Inr chain))"

definition load_key :: "net_lib \<Rightarrow> rstring \<Rightarrow> bytes result" where
  "load_key N path =
     and_then (pem_key N path) (\<lambda>k. case k of None \<Rightarrow> Inl (Bail ''no private key'') | Some key \<Rightarrow> Inr key)"

definition standard_build :: "net_lib \<Rightarrow> standard_tls_config \<Rightarrow> server_config result" where
  "standard_build N t =
     and_then
       (case (cert_path t, key_path t) of
          (Some cert, Some key) \<Rightarrow>
            and_then (load_certs N cert) (\<lambda>chain. and_then (load_key N key) (\<lambda>key. Inr (chain, key)))
        | _ \<Rightarrow>
            let domain = (case self_signed_domain t of Some d \<Rightarrow> d | None \<Rightarrow> str ''localhost'')
            in case simple_self_signed N domain of
                 None \<Rightarrow> Inl (Bail ''failed to generate self-signed cert'')
               | Some (cert, key_pair) \<Rightarrow> Inr ([cert], kp_der key_pair))
       (\<lambda>(cert_chain, private_key).
          case single_cert N cert_chain private_key of
            None \<Rightarrow> Inl (Bail ''build rustls ServerConfig'')
          | Some scheme \<Rightarrow>
              Inr \<lparr>cert_chain = cert_chain, sc_scheme = scheme, alpn_protocols = [str ''h2'', str ''http/1.1'']\<rparr>)"

definition accept_plain :: "net_lib \<Rightarrow> rstring \<Rightarrow> rstring option \<Rightarrow> conn \<Rightarrow> ws_stream result" where
  "accept_plain N expected_path expected_host stream =
     (case ws_handshake N stream of
        None \<Rightarrow> Inl (Io Other)
      | Some (req, items, ended) \<Rightarrow>
          (case do_upgrade expected_path expected_host req of
             Accepted \<Rightarrow> Inr (ws_new items ended)
           | Rejected status \<Rightarrow> Inl (Io Other)))"

definition accept_tls :: "net_lib \<Rightarrow> rstring \<Rightarrow> rstring option \<Rightarrow> conn \<Rightarrow> ws_stream result" where
  "accept_tls N expected_path expected_host stream =
     (case ws_handshake N stream of
        None \<Rightarrow> Inl (Io Other)
      | Some (req, items, ended) \<Rightarrow>
          (case do_upgrade expected_path expected_host req of
             Accepted \<Rightarrow> Inr (ws_new items ended)
           | Rejected status \<Rightarrow> Inl (Io Other)))"

text \<open>The transport part of a configuration, and the one the XHTTP server is started with.\<close>

record transport_config =
  tr_type :: rstring
  ws_path :: rstring
  ws_host :: "rstring option"
  xhttp_path :: rstring
  xhttp_host :: "rstring option"

definition default_transport :: transport_config where
  "default_transport = \<lparr>tr_type = str ''tcp'', ws_path = str ''/'', ws_host = None, xhttp_path = str ''/'', xhttp_host = None\<rparr>"

record xhttp_config =
  xh_path :: rstring
  xh_host :: "rstring option"

section \<open>The layers of a connection\<close>

text \<open>
  The reference view of what every listener does: standard TLS when configured, then WebSocket when it
  is the transport.  \<open>unknown\<close> is the error for any other transport.
\<close>

definition tls_layer :: "net_lib \<Rightarrow> server_config option \<Rightarrow> conn \<Rightarrow> conn result" where
  "tls_layer N acceptor stream = (case acceptor of None \<Rightarrow> Inr stream | Some a \<Rightarrow> tls_handshake N a stream)"

definition transport_layer :: "net_lib \<Rightarrow> err \<Rightarrow> transport_config \<Rightarrow> conn \<Rightarrow> conn result" where
  "transport_layer N unknown tr stream =
     (if tr_type tr = str ''tcp'' then Inr stream
      else if tr_type tr = str ''ws'' then
        and_then (accept_plain N (ws_path tr) (ws_host tr) stream) (\<lambda>ws. Inr (ws_conn ws))
      else Inl unknown)"

lemma accept_tls_plain: "accept_tls = accept_plain"
  by (intro ext) (simp add: accept_tls_def accept_plain_def)

text \<open>What a handler gets to see comes from the peer only through the layers.\<close>

lemma transport_layer_ok:
  assumes "transport_layer N unknown tr stream = Inr io"
  shows "tr_type tr \<in> {str ''tcp'', str ''ws''} \<and> (io = stream \<or> (\<exists>req items ended. ws_handshake N stream = Some (req, items, ended)
    \<and> do_upgrade (ws_path tr) (ws_host tr) req = Accepted \<and> io = ws_conn (ws_new items ended)))"
  using assms by (auto simp: transport_layer_def accept_plain_def and_then_eq_Inr split: if_splits option.splits upgrade.splits)

section \<open>Properties\<close>

text \<open>
  The certificate of a TLS listener.  Files are served only when both paths are configured, and then exactly the
  chain of the certificate file, which is not empty; with a single path, or none, the files play no
  role and a fresh self-signed certificate for the configured domain, or for localhost, is served instead.
\<close>

theorem standard_tls_certificate:
  assumes "standard_build N t = Inr sc"
  shows "(\<forall>cert key. cert_path t = Some cert \<and> key_path t = Some key \<longrightarrow>
      pem_certs N cert = Inr (cert_chain sc) \<and> cert_chain sc \<noteq> [] \<and> (\<exists>k. pem_key N key = Inr (Some k)))
    \<and> (cert_path t = None \<or> key_path t = None \<longrightarrow>
      (\<exists>c kp. cert_chain sc = [c] \<and> simple_self_signed N (case self_signed_domain t of Some d \<Rightarrow> d | None \<Rightarrow> str ''localhost'') = Some (c, kp))
      \<and> standard_build N (t\<lparr>cert_path := None, key_path := None\<rparr>) = Inr sc)"
  by (cases "cert_path t"; cases "key_path t"; insert assms,
      auto simp: standard_build_def load_certs_def load_key_def and_then_eq_Inr ensure_def Let_def
      split: option.splits if_splits)

text \<open>A library that finds everything and changes nothing.\<close>

definition toy_net :: net_lib where
  "toy_net = \<lparr>pem_certs = \<lambda>_. Inr [[1]], pem_key = \<lambda>_. Inr (Some [2]),
     simple_self_signed = \<lambda>_. Some ([3], \<lparr>kp_spki = [], kp_der = []\<rparr>), single_cert = \<lambda>_ _. Some (\<lambda>_. None),
     tls_handshake = \<lambda>_ c. Inr c, ws_handshake = \<lambda>_. None\<rparr>"

theorem standard_tls_certificate_witness:
  "\<exists>sc c kp. standard_build toy_net \<lparr>cert_path = Some (str ''c''), key_path = None, self_signed_domain = None\<rparr> = Inr sc
     \<and> cert_chain sc = [c] \<and> simple_self_signed toy_net (str ''localhost'') = Some (c, kp)"
proof -
  let ?t = "\<lparr>cert_path = Some (str ''c''), key_path = None, self_signed_domain = None\<rparr>"
  have "\<exists>sc. standard_build toy_net ?t = Inr sc" by (simp add: standard_build_def toy_net_def)
  then obtain sc where "standard_build toy_net ?t = Inr sc" ..
  with standard_tls_certificate [OF this] show ?thesis by simp
qed

end
