(* ===== verification/Wire_Addr.thy ===== *)
theory Wire_Addr
  imports Stream_IO
begin

text \<open>
  The destination hosts that every inbound protocol carries, as a conforming client writes
  them: an IPv4 address, a length-prefixed name or an IPv6 address after a type byte.  The
  protocols differ in the type bytes and in where the port stands; each protocol theory
  shows that its own reader inverts \<open>enc_host\<close> at its own type bytes.
\<close>

datatype host = Host4 ipv4 | HostName rstring | Host6 ipv6

fun host_text :: "host \<Rightarrow> rstring" where
  "host_text (Host4 a) = ipv4_to_string a"
| "host_text (HostName d) = d"
| "host_text (Host6 a) = bracketed a"

fun host_ok :: "host \<Rightarrow> bool" where
  "host_ok (HostName d) \<longleftrightarrow> length d < 256 \<and> utf8_valid d"
| "host_ok _ \<longleftrightarrow> True"

fun enc_host :: "u8 \<Rightarrow> u8 \<Rightarrow> u8 \<Rightarrow> host \<Rightarrow> bytes" where
  "enc_host t4 td t6 (Host4 a) = t4 # octets4 a"
| "enc_host t4 td t6 (HostName d) = td # of_nat (length d) # d"
| "enc_host t4 td t6 (Host6 a) = t6 # octets6 a"

text \<open>A SOCKS5 destination (RFC 1928, section 5): type bytes 1, 3 and 4, then the port.\<close>

definition enc_socks_dest :: "host \<times> u16 \<Rightarrow> bytes" where
  "enc_socks_dest d = enc_host 1 3 4 (fst d) @ to_be 2 (snd d)"

definition dest_text :: "host \<times> u16 \<Rightarrow> rstring" where
  "dest_text d = host_port (host_text (fst d)) (snd d)"

lemma length_enc_host:
  "length (enc_host t4 td t6 h) =
     (case h of Host4 _ \<Rightarrow> 5 | HostName d \<Rightarrow> 2 + length d | Host6 _ \<Rightarrow> 17)"
  by (cases h) simp_all

end
