(* ===== verification/Vless.thy ===== *)
theory Vless
  imports Wire_Addr
begin

text \<open>
  VLESS: the request header decoder, the response encoder and the UUID parser of
  \<open>vless/protocol.rs\<close>, and the per-stream handler \<open>process_vless_stream\<close> of
  \<open>vless/listener.rs\<close> up to the point where it starts relaying.
\<close>

section \<open>The model\<close>

definition VLESS_VERSION :: u8 where "VLESS_VERSION = 0x00"
definition CMD_TCP :: u8 where "CMD_TCP = 0x01"
definition CMD_UDP :: u8 where "CMD_UDP = 0x02"
definition ATYP_IPV4 :: u8 where "ATYP_IPV4 = 0x01"
definition ATYP_DOMAIN :: u8 where "ATYP_DOMAIN = 0x02"
definition ATYP_IPV6 :: u8 where "ATYP_IPV6 = 0x03"

lemmas vless_consts = VLESS_VERSION_def CMD_TCP_def CMD_UDP_def
  ATYP_IPV4_def ATYP_DOMAIN_def ATYP_IPV6_def

record vless_request =
  command :: u8
  target :: rstring

definition read_address :: "rstring io" where
  "read_address =
     bind_io read_u8 (\<lambda>atyp.
       if atyp = ATYP_IPV4 then
         bind_io (read_exact 4) (\<lambda>buf. return_io (ipv4_to_string (from_be buf)))
       else if atyp = ATYP_DOMAIN then
         bind_io read_u8 (\<lambda>domain_len.
           if unat domain_len = 0 then fail_io (Bail ''vless: empty domain'')
           else bind_io (read_exact (unat domain_len)) (\<lambda>domain_buf. lift_io (from_utf8 domain_buf)))
       else if atyp = ATYP_IPV6 then
         bind_io (read_exact 16) (\<lambda>buf. return_io (bracketed (from_be buf)))
       else fail_io (Bail ''vless: unknown address type''))"

definition decode_request :: "bytes \<Rightarrow> vless_request io" where
  "decode_request expected_uuid =
     bind_io read_u8 (\<lambda>version.
       if version \<noteq> VLESS_VERSION then fail_io (Bail ''vless: unsupported version'')
       else bind_io (read_exact 16) (\<lambda>uuid_buf.
         if uuid_buf \<noteq> expected_uuid then fail_io (Bail ''vless: invalid UUID'')
         else bind_io read_u8 (\<lambda>addon_len.
           bind_io (if unat addon_len > 0
                    then bind_io (read_exact (unat addon_len)) (\<lambda>_. return_io ())
                    else return_io ()) (\<lambda>_.
           bind_io read_u8 (\<lambda>cmd.
             if cmd \<noteq> CMD_TCP \<and> cmd \<noteq> CMD_UDP then fail_io (Bail ''vless: unsupported command'')
             else bind_io read_u16 (\<lambda>port.
               bind_io read_address (\<lambda>addr.
                 return_io \<lparr>command = cmd, target = host_port addr port\<rparr>)))))))"

definition encode_response :: "unit io" where
  "encode_response = write_all [VLESS_VERSION, 0x00]"

text \<open>Slicing a string inside a scalar value panics.\<close>

definition char_boundary :: "rstring \<Rightarrow> nat \<Rightarrow> bool" where
  "char_boundary s k \<longleftrightarrow> k = 0 \<or> k = length s \<or> (k < length s \<and> (s ! k < 0x80 \<or> 0xC0 \<le> s ! k))"

fun uuid_loop :: "rstring \<Rightarrow> nat \<Rightarrow> nat \<Rightarrow> bytes result" where
  "uuid_loop hx i 0 = Inr []"
| "uuid_loop hx i (Suc n) =
     (if \<not> (char_boundary hx (2 * i) \<and> char_boundary hx (2 * i + 2))
      then Inl (Panic ''byte index is not a char boundary'')
      else case from_str_radix 255 16 (take 2 (drop (2 * i) hx)) of
             None \<Rightarrow> Inl (Bail ''vless: invalid UUID hex'')
           | Some v \<Rightarrow> and_then (uuid_loop hx (i + 1) n) (\<lambda>bs. Inr (of_nat v # bs)))"

definition parse_uuid :: "rstring \<Rightarrow> bytes result" where
  "parse_uuid s =
     (let hx = filter (\<lambda>b. b \<noteq> 45) s
      in if length hx \<noteq> 32 then Inl (Bail ''vless: invalid UUID string'')
         else uuid_loop hx 0 16)"

definition process_vless_stream :: "(rstring \<Rightarrow> dial) \<Rightarrow> bytes \<Rightarrow> rstring io" where
  "process_vless_stream connect uuid_bytes =
     bind_io (decode_request uuid_bytes) (\<lambda>request.
       if command request \<noteq> CMD_TCP then fail_io (Bail ''vless: UDP not supported'')
       else case connect (target request) of
         Refused e \<Rightarrow> fail_io (Io e)
       | TimedOut \<Rightarrow> fail_io (Bail ''connect timeout'')
       | Connected \<Rightarrow> bind_io encode_response (\<lambda>_. return_io (target request)))"

section \<open>The wire format\<close>

text \<open>
  What a client sends: any addon bytes, a command, a port and a host.  \<open>wire_ok\<close> are the
  requests the length fields can carry.
\<close>

record vless_wire =
  w_addons :: bytes
  w_command :: u8
  w_port :: u16
  w_host :: host

definition enc_request :: "bytes \<Rightarrow> vless_wire \<Rightarrow> bytes" where
  "enc_request uuid w =
     [VLESS_VERSION] @ uuid @ [of_nat (length (w_addons w))] @ w_addons w @ [w_command w]
     @ to_be 2 (w_port w) @ enc_host ATYP_IPV4 ATYP_DOMAIN ATYP_IPV6 (w_host w)"

definition wire_ok :: "vless_wire \<Rightarrow> bool" where
  "wire_ok w \<longleftrightarrow>
     length (w_addons w) < 256 \<and> w_command w \<in> {CMD_TCP, CMD_UDP} \<and> host_ok (w_host w)
     \<and> w_host w \<noteq> HostName []"

definition wire_request :: "vless_wire \<Rightarrow> vless_request" where
  "wire_request w = \<lparr>command = w_command w, target = host_port (host_text (w_host w)) (w_port w)\<rparr>"

section \<open>The decoder reads the wire format back\<close>

lemma streaming_read_address [streaming_intros]: "streaming read_address"
  unfolding read_address_def by (intro streaming_intros)

lemma streaming_decode_request: "streaming (decode_request uuid)"
  unfolding decode_request_def by (intro streaming_intros)

lemma read_address_enc:
  assumes "host_ok h" "h \<noteq> HostName []"
  shows "read_address (c\<lparr>rx := enc_host ATYP_IPV4 ATYP_DOMAIN ATYP_IPV6 h @ rest\<rparr>)
       = (Inr (host_text h), c\<lparr>rx := rest\<rparr>)"
  using assms
  by (cases h) (auto simp: read_address_def io_simps vless_consts unat_u8_of_nat)

lemma decode_request_enc:
  assumes "length uuid = 16" "wire_ok w"
  shows "decode_request uuid (c\<lparr>rx := enc_request uuid w @ rest\<rparr>)
       = (Inr (wire_request w), c\<lparr>rx := rest\<rparr>)"
  using assms
  by (auto simp: decode_request_def enc_request_def wire_ok_def wire_request_def io_simps
      vless_consts unat_u8_of_nat read_address_enc [unfolded vless_consts])

text \<open>The decoder meets the contract of a header parser, for any configured UUID.\<close>

interpretation vless: header_parser "decode_request uuid" "enc_request uuid" wire_request
  "\<lambda>w. length uuid = 16 \<and> wire_ok w" for uuid
  by unfold_locales (simp_all add: streaming_decode_request decode_request_enc)

section \<open>Nothing is answered before the client is known\<close>

lemma decode_request_auth:
  assumes "decode_request uuid c = (Inr req, c')"
  shows "take 17 (rx c) = VLESS_VERSION # uuid"
  using assms
  by (cases "rx c")
    (auto simp: decode_request_def bind_io_eq_Inr fail_io_def dest!: read_u8_ok read_exact_ok
      split: if_splits)

lemma vless_gate:
  assumes "process_vless_stream connect uuid c \<noteq> process_vless_stream connect' uuid c"
  shows "take 17 (rx c) = VLESS_VERSION # uuid"
proof (cases "decode_request uuid c")
  case (Pair r c1)
  with assms obtain req where "r = Inr req" by (cases r) (auto simp: process_vless_stream_def bind_io_def)
  with Pair decode_request_auth show ?thesis by blast
qed

lemma process_reply:
  assumes "process_vless_stream connect uuid c = (r, c')" "tx c' \<noteq> tx c \<or> \<not> isl r"
  shows "\<exists>req c1. decode_request uuid c = (Inr req, c1) \<and> command req = CMD_TCP
    \<and> connect (target req) = Connected"
proof -
  obtain r1 c1 where d: "decode_request uuid c = (r1, c1)" by (cases "decode_request uuid c")
  note fr = streaming_frame(1) [OF streaming_decode_request d]
  show ?thesis
    using assms d fr
    by (cases r1)
      (auto simp: process_vless_stream_def bind_io_def fail_io_def split: if_splits dial.splits)
qed

section \<open>UUID text\<close>

text \<open>The canonical text of a UUID: lowercase hexadecimal with hyphens, 8-4-4-4-12.\<close>

definition hexdigit :: "nat \<Rightarrow> u8" where
  "hexdigit d = of_nat (if d < 10 then 48 + d else 87 + d)"

definition hex2 :: "u8 \<Rightarrow> rstring" where
  "hex2 b = [hexdigit (unat b div 16), hexdigit (unat b mod 16)]"

definition hex_bytes :: "bytes \<Rightarrow> rstring" where
  "hex_bytes bs = concat (map hex2 bs)"

definition uuid_text :: "bytes \<Rightarrow> rstring" where
  "uuid_text bs =
     hex_bytes (take 4 bs) @ [45] @ hex_bytes (take 2 (drop 4 bs)) @ [45]
     @ hex_bytes (take 2 (drop 6 bs)) @ [45] @ hex_bytes (take 2 (drop 8 bs)) @ [45]
     @ hex_bytes (drop 10 bs)"

lemma hexdigit_all:
  "\<forall>d \<in> set [0..<16]. digit 16 (hexdigit d) = Some d \<and> hexdigit d < 0x80
     \<and> hexdigit d \<noteq> 43 \<and> hexdigit d \<noteq> 45"
  by code_simp

lemma hexdigit:
  assumes "d < 16"
  shows "digit 16 (hexdigit d) = Some d" "hexdigit d < 0x80" "hexdigit d \<noteq> 43" "hexdigit d \<noteq> 45"
  using hexdigit_all assms by auto

lemma hex2: "from_str_radix 255 16 (hex2 b) = Some (unat b)" "ascii (hex2 b)" "45 \<notin> set (hex2 b)"
proof -
  have d: "unat b div 16 < 16" "unat b mod 16 < 16"
    using unat_u8_less [of b] by auto
  have "unat b div 16 * 16 + unat b mod 16 = unat b" by simp
  moreover have "unat b \<le> 255" using unat_u8_less [of b] by simp
  ultimately show "from_str_radix 255 16 (hex2 b) = Some (unat b)"
    using hexdigit [OF d(1)] hexdigit [OF d(2)] by (simp add: from_str_radix_def hex2_def)
  show "ascii (hex2 b)" "45 \<notin> set (hex2 b)"
    using hexdigit [OF d(1)] hexdigit [OF d(2)] by (auto simp: hex2_def)
qed

lemma length_hex2 [simp]: "length (hex2 b) = 2"
  by (simp add: hex2_def)

lemma hex_bytes_simps [simp]:
  "hex_bytes [] = []" "hex_bytes (b # bs) = hex2 b @ hex_bytes bs"
  "hex_bytes (bs @ cs) = hex_bytes bs @ hex_bytes cs"
  by (simp_all add: hex_bytes_def)

lemma length_hex_bytes [simp]: "length (hex_bytes bs) = 2 * length bs"
  by (induction bs) simp_all

lemma ascii_hex_bytes: "ascii (hex_bytes bs)"
  by (induction bs) (simp_all add: hex2)

lemma filter_hex_bytes: "filter (\<lambda>b. b \<noteq> 45) (hex_bytes bs) = hex_bytes bs"
  by (induction bs) (auto simp: filter_id_conv dest: hex2(3) [THEN notE])

lemma ascii_boundary: "ascii s \<Longrightarrow> k \<le> length s \<Longrightarrow> char_boundary s k"
  by (auto simp: char_boundary_def ascii_def)

lemma uuid_loop_hex:
  "uuid_loop (hex_bytes (pre @ bs)) (length pre) (length bs) = Inr bs"
proof (induction bs arbitrary: pre)
  case (Cons b bs)
  have "uuid_loop (hex_bytes (pre @ b # bs)) (length pre + 1) (length bs) = Inr bs"
    using Cons.IH [of "pre @ [b]"] by simp
  moreover have "take 2 (drop (2 * length pre) (hex_bytes (pre @ b # bs))) = hex2 b"
    by simp
  ultimately show ?case
    using ascii_boundary [OF ascii_hex_bytes [of "pre @ b # bs"]] by (simp add: hex2)
qed simp

lemma filter_uuid_text:
  assumes "length bs = 16"
  shows "filter (\<lambda>b. b \<noteq> 45) (uuid_text bs) = hex_bytes bs"
proof -
  have *: "hex_bytes (drop i bs) = hex_bytes (take n (drop i bs)) @ hex_bytes (drop (n + i) bs)" for n i
    by (metis append_take_drop_id drop_drop hex_bytes_simps(3))
  have "hex_bytes bs = hex_bytes (take 4 bs) @ hex_bytes (take 2 (drop 4 bs))
      @ hex_bytes (take 2 (drop 6 bs)) @ hex_bytes (take 2 (drop 8 bs)) @ hex_bytes (drop 10 bs)"
    using * [of 0 4] * [of 4 2] * [of 6 2] * [of 8 2] by simp
  then show ?thesis by (simp add: uuid_text_def filter_hex_bytes)
qed

section \<open>Properties\<close>

text \<open>
  A VLESS request header that a conforming client writes (version, the configured UUID,
  addons, command, port, host) is decoded to exactly its command and target, the stream is
  left at the first payload byte, and every proper prefix of the header ends in the stream's
  own end-of-input error.
\<close>

theorem vless_decode_roundtrip:
  assumes "length uuid = 16" "wire_ok w"
  shows "decode_request uuid (c\<lparr>rx := enc_request uuid w @ rest\<rparr>)
           = (Inr (wire_request w), c\<lparr>rx := rest\<rparr>)
    \<and> (\<forall>k < length (enc_request uuid w).
         decode_request uuid (c\<lparr>rx := take k (enc_request uuid w)\<rparr>)
           = (Inl (Io (rx_end c)), c\<lparr>rx := []\<rparr>))"
  using assms vless.parse_enc [of uuid w] vless.truncated [of uuid w] by blast

theorem vless_decode_roundtrip_witness:
  "wire_ok \<lparr>w_addons = [], w_command = 1, w_port = 443, w_host = HostName (str ''a.b'')\<rparr>
   \<and> decode_request (replicate 16 7)
       \<lparr>rx = enc_request (replicate 16 7)
              \<lparr>w_addons = [], w_command = 1, w_port = 443, w_host = HostName (str ''a.b'')\<rparr> @ [9],
        rx_end = UnexpectedEof, tx = [], tx_cap = None, tx_shut = False\<rparr>
     = (Inr \<lparr>command = 1, target = str ''a.b:443''\<rparr>,
        \<lparr>rx = [9], rx_end = UnexpectedEof, tx = [], tx_cap = None, tx_shut = False\<rparr>)"
proof -
  let ?w = "\<lparr>w_addons = [], w_command = 1, w_port = 443, w_host = HostName (str ''a.b'')\<rparr>"
  have w: "wire_ok ?w" by (simp add: wire_ok_def vless_consts)
  have t: "wire_request ?w = \<lparr>command = 1, target = str ''a.b:443''\<rparr>"
    by (simp add: wire_request_def host_port_def dec.simps)
  show ?thesis
    using vless_decode_roundtrip [of "replicate 16 7" ?w
        "[9]"
        "\<lparr>rx = [], rx_end = UnexpectedEof, tx = [], tx_cap = None, tx_shut = False\<rparr>"] w t
    by simp
qed

text \<open>
  The server writes a byte to a VLESS client, or goes on to relay, only after it has read
  the version and the configured UUID, decoded a TCP request, and reached that request's target.
\<close>

theorem vless_no_reply_before_auth:
  assumes "process_vless_stream connect uuid c = (r, c')" "tx c' \<noteq> tx c \<or> \<not> isl r"
  shows "take 17 (rx c) = VLESS_VERSION # uuid
    \<and> (\<exists>req c1. decode_request uuid c = (Inr req, c1) \<and> command req = CMD_TCP
         \<and> connect (target req) = Connected)"
  using process_reply [OF assms] decode_request_auth by blast

theorem vless_no_reply_before_auth_witness:
  "\<exists>c c'. process_vless_stream (\<lambda>_. Connected) (replicate 16 7) c = (Inr (str ''a.b:443''), c')
     \<and> tx c' = [0, 0] \<and> take 17 (rx c) = VLESS_VERSION # replicate 16 7"
proof -
  let ?u = "replicate 16 7 :: bytes"
  let ?w = "\<lparr>w_addons = [], w_command = 1, w_port = 443, w_host = HostName (str ''a.b'')\<rparr>"
  let ?c = "\<lparr>rx = enc_request ?u ?w @ [], rx_end = UnexpectedEof, tx = [], tx_cap = None,
    tx_shut = False\<rparr>"
  have w: "wire_ok ?w" by (simp add: wire_ok_def vless_consts)
  have d: "decode_request ?u ?c = (Inr (wire_request ?w), ?c\<lparr>rx := []\<rparr>)"
    using decode_request_enc [of ?u ?w "[]" ?c] w by simp
  have t: "wire_request ?w = \<lparr>command = 1, target = str ''a.b:443''\<rparr>"
    by (simp add: wire_request_def host_port_def dec.simps)
  have p: "process_vless_stream (\<lambda>_. Connected) ?u ?c
      = (Inr (str ''a.b:443''), ?c\<lparr>rx := [], tx := [0, 0]\<rparr>)"
    unfolding process_vless_stream_def bind_io_def d t
    by (simp add: vless_consts encode_response_def write_all_def return_io_def)
  from vless_no_reply_before_auth [OF p] p show ?thesis
    by (intro exI [of _ ?c] exI [of _ "?c\<lparr>rx := [], tx := [0, 0]\<rparr>"]) simp
qed

lemma uuid_loop_length: "uuid_loop hx i n = Inr bs \<Longrightarrow> length bs = n"
  by (induction n arbitrary: i bs) (auto simp: and_then_eq_Inr split: if_splits option.splits)

lemma parse_uuid_length: "parse_uuid s = Inr bs \<Longrightarrow> length bs = 16"
  by (auto simp: parse_uuid_def Let_def uuid_loop_length split: if_splits)

lemma parse_uuid_text: "length bs = 16 \<Longrightarrow> parse_uuid (uuid_text bs) = Inr bs"
  using uuid_loop_hex [of "[]" bs] by (simp add: parse_uuid_def filter_uuid_text)

text \<open>
  The canonical text of any 16-byte UUID is parsed back to the same bytes, with or without
  its hyphens.
\<close>

theorem parse_uuid_roundtrip:
  assumes "length bs = 16"
  shows "parse_uuid (uuid_text bs) = Inr bs \<and> parse_uuid (hex_bytes bs) = Inr bs"
  using uuid_loop_hex [of "[]" bs] assms
  by (simp add: parse_uuid_def filter_uuid_text filter_hex_bytes)

theorem parse_uuid_roundtrip_witness:
  "length [0, 1, 2, 3, 4, 5, 6, 7, 8, 9, 10, 11, 12, 13, 14, 255 :: u8] = 16
   \<and> parse_uuid (str ''00010203-0405-0607-0809-0a0b0c0d0eff'')
     = Inr [0, 1, 2, 3, 4, 5, 6, 7, 8, 9, 10, 11, 12, 13, 14, 255]"
proof -
  let ?b = "[0, 1, 2, 3, 4, 5, 6, 7, 8, 9, 10, 11, 12, 13, 14, 255] :: bytes"
  have "uuid_text ?b = str ''00010203-0405-0607-0809-0a0b0c0d0eff''" by code_simp
  with parse_uuid_roundtrip [of ?b] show ?thesis by simp
qed

end
