(* ===== verification/Trojan.thy ===== *)
theory Trojan
  imports Wire_Addr
begin

text \<open>
  The Trojan inbound (\<open>trojan/mod.rs\<close>): the password line, the destination, and the handler that
  dials it.  The hexadecimal SHA-224 digest comes from the \<open>sha2\<close> and \<open>hex\<close> crates and is the
  parameter \<open>hex_digest\<close>; what the theorems use of it, that a digest is 56 hexadecimal digits, is the
  predicate \<open>digest_laws\<close>.
\<close>

section \<open>The model\<close>

text \<open>
  The loop that reads the password line.  It pushes one byte at a time and stops at a line end
  or once the line is longer than 256 bytes; \<open>n\<close> counts the bytes that may still be pushed
  before that, so the recursion is structural.
\<close>

fun read_line :: "nat \<Rightarrow> bytes \<Rightarrow> bytes io" where
  "read_line 0 line = fail_io (Bail ''bad auth'')"
| "read_line (Suc n) line =
     bind_io read_u8 (\<lambda>b.
       let line = line @ [b] in
       if 2 \<le> length line \<and> drop (length line - 2) line = [13, 10] then return_io line
       else if 256 < length line then fail_io (Bail ''bad auth'')
       else read_line n line)"

definition read_host :: "rstring io" where
  "read_host =
     bind_io read_u8 (\<lambda>atyp.
       if atyp = 1 then bind_io (read_exact 4) (\<lambda>b. return_io (ipv4_to_string (from_be b)))
       else if atyp = 3 then
         bind_io read_u8 (\<lambda>l. bind_io (read_exact (unat l)) (\<lambda>b. lift_io (from_utf8 b)))
       else if atyp = 4 then bind_io (read_exact 16) (\<lambda>b. return_io (bracketed (from_be b)))
       else fail_io (Bail ''bad atyp''))"

definition decode_trojan :: "(rstring \<Rightarrow> rstring) \<Rightarrow> rstring \<Rightarrow> rstring io" where
  "decode_trojan hex_digest password =
     bind_io (read_line 257 []) (\<lambda>line.
       let got = from_utf8_lossy (take (length line - 2) line);
           expected = hex_digest password
       in if got \<noteq> expected then fail_io (Bail ''invalid password'')
          else bind_io read_u8 (\<lambda>cmd.
            if cmd \<noteq> 1 then fail_io (Bail ''only tcp supported'')
            else bind_io read_host (\<lambda>host.
              bind_io read_u16 (\<lambda>port.
              bind_io (read_exact 2) (\<lambda>crlf. return_io (host_port host port))))))"

definition trojan_process :: "(rstring \<Rightarrow> rstring) \<Rightarrow> (rstring \<Rightarrow> dial) \<Rightarrow> rstring \<Rightarrow> rstring io" where
  "trojan_process hex_digest connect password =
     bind_io (decode_trojan hex_digest password) (\<lambda>target.
       case connect target of
         Connected \<Rightarrow> return_io target
       | Refused e \<Rightarrow> fail_io (Io e)
       | TimedOut \<Rightarrow> fail_io (Io Other))"

definition digest_laws :: "(rstring \<Rightarrow> rstring) \<Rightarrow> bool" where
  "digest_laws H \<longleftrightarrow>
     (\<forall>p. length (H p) = 56 \<and> (\<forall>b \<in> set (H p). 48 \<le> b \<and> b \<le> 57 \<or> 97 \<le> b \<and> b \<le> 102))"

section \<open>Reading the password line\<close>

lemma streaming_read_line: "streaming (read_line n line)"
  by (induction n arbitrary: line) (auto simp: Let_def intro!: streaming_intros)

lemma streaming_read_host [streaming_intros]: "streaming read_host"
  unfolding read_host_def by (intro streaming_intros)

lemma streaming_decode_trojan: "streaming (decode_trojan H pw)"
  unfolding decode_trojan_def Let_def by (intro streaming_intros streaming_read_line)

lemma line_end_snoc:
  "2 \<le> length (l @ [b]) \<and> drop (length (l @ [b]) - 2) (l @ [b]) = [13, 10]
   \<longleftrightarrow> l \<noteq> [] \<and> last l = 13 \<and> b = (10 :: u8)"
  by (cases l rule: rev_cases) auto

lemma read_line_ok:
  "read_line n line c = (Inr l, c') \<Longrightarrow> \<exists>x. l = line @ x \<and> rx c = x @ rx c' \<and> x \<noteq> [] \<and> length x \<le> n
     \<and> 2 \<le> length l \<and> drop (length l - 2) l = [13, 10]"
proof (induction n arbitrary: line c)
  case 0
  then show ?case by (simp add: fail_io_def)
next
  case (Suc n)
  from Suc.prems obtain b c1 where b: "read_u8 c = (Inr b, c1)"
    and r: "(if 2 \<le> length (line @ [b]) \<and> drop (length (line @ [b]) - 2) (line @ [b]) = [13, 10]
        then return_io (line @ [b])
        else if 256 < length (line @ [b]) then fail_io (Bail ''bad auth'')
        else read_line n (line @ [b])) c1 = (Inr l, c')"
    by (auto simp only: read_line.simps bind_io_eq_Inr Let_def)
  note rx = read_u8_split [OF b]
  show ?case
  proof (cases "2 \<le> length (line @ [b]) \<and> drop (length (line @ [b]) - 2) (line @ [b]) = [13, 10]")
    case True
    with r have "l = line @ [b]" "c' = c1" by (auto simp: return_io_def)
    with True rx show ?thesis by (intro exI [of _ "[b]"]) simp
  next
    case False
    with r have "read_line n (line @ [b]) c1 = (Inr l, c')"
      by (auto simp: fail_io_def split: if_splits)
    from Suc.IH [OF this] rx show ?thesis by force
  qed
qed

lemma read_line_append:
  assumes "\<forall>b \<in> set s. b \<noteq> 13" "length line + length s + 2 \<le> 256" "length s + 2 \<le> n"
    and "line = [] \<or> last line \<noteq> 13"
  shows "read_line n line (c\<lparr>rx := s @ [13, 10] @ rest\<rparr>) = (Inr (line @ s @ [13, 10]), c\<lparr>rx := rest\<rparr>)"
  using assms
proof (induction s arbitrary: n line)
  case Nil
  then obtain m where n: "n = Suc (Suc m)" by (cases n; cases "n - 1") auto
  show ?case
    using Nil line_end_snoc [of line 13] line_end_snoc [of "line @ [13]" 10]
    by (simp add: n io_simps Let_def)
next
  case (Cons b s)
  then obtain m where n: "n = Suc m" by (cases n) auto
  show ?case
    using Cons.prems line_end_snoc [of line b] Cons.IH [of "line @ [b]" m]
    by (auto simp: n io_simps Let_def)
qed

text \<open>Lossy decoding that yields plain ASCII changed nothing.\<close>

lemma from_utf8_lossy_ascii: "ascii (from_utf8_lossy s) \<Longrightarrow> from_utf8_lossy s = s"
proof (induction s rule: from_utf8_lossy.induct)
  case (1 s)
  show ?case
  proof (cases "s = []")
    case True
    then show ?thesis by (simp add: from_utf8_lossy.simps)
  next
    case False
    let ?n = "snd (utf8_scan s)"
    have eq: "from_utf8_lossy s = (if fst (utf8_scan s) then take ?n s else [0xEF, 0xBF, 0xBD])
        @ from_utf8_lossy (drop ?n s)"
      using False by (subst from_utf8_lossy.simps) simp
    with "1.prems" have "fst (utf8_scan s)" "ascii (from_utf8_lossy (drop ?n s))"
      by (auto split: if_splits)
    with "1.IH" [OF False] eq show ?thesis by simp
  qed
qed

section \<open>The wire format\<close>

definition enc_trojan :: "(rstring \<Rightarrow> rstring) \<Rightarrow> rstring \<Rightarrow> host \<times> u16 \<Rightarrow> bytes" where
  "enc_trojan H pw d = H pw @ [13, 10] @ [1] @ enc_socks_dest d @ [13, 10]"

lemma digest_facts:
  assumes "digest_laws H"
  shows "length (H p) = 56" "ascii (H p)" "\<forall>b \<in> set (H p). b \<noteq> 13"
proof -
  have hexd: "b < 0x80 \<and> b \<noteq> 13" if "48 \<le> b \<and> b \<le> 57 \<or> 97 \<le> b \<and> b \<le> 102" for b :: u8
    using that by (auto intro: order.strict_trans1)
  show "length (H p) = 56" using assms by (simp add: digest_laws_def)
  show "ascii (H p)" "\<forall>b \<in> set (H p). b \<noteq> 13"
    using assms hexd unfolding digest_laws_def ascii_def by blast+
qed

lemma decode_trojan_enc:
  assumes "digest_laws H" "host_ok (fst d)"
  shows "decode_trojan H pw (c\<lparr>rx := enc_trojan H pw d @ rest\<rparr>) = (Inr (dest_text d), c\<lparr>rx := rest\<rparr>)"
proof -
  note H = digest_facts [OF assms(1), of pw]
  obtain h p where d: "d = (h, p)" by fastforce
  let ?tail = "[1] @ enc_socks_dest d @ [13, 10] @ rest"
  have l: "read_line 257 [] (c\<lparr>rx := H pw @ [13, 10] @ ?tail\<rparr>) = (Inr (H pw @ [13, 10]), c\<lparr>rx := ?tail\<rparr>)"
    using read_line_append [of "H pw" "[]" 257 ?tail c] H by simp
  have h: "read_host (c\<lparr>rx := enc_host 1 3 4 h @ r\<rparr>) = (Inr (host_text h), c\<lparr>rx := r\<rparr>)" for r
    using assms(2) d by (cases h) (auto simp: read_host_def io_simps unat_u8_of_nat)
  have x: "read_exact 2 (c\<lparr>rx := 13 # 10 # rest\<rparr>) = (Inr [13, 10], c\<lparr>rx := rest\<rparr>)"
    using read_exact_append [of "[13, 10]" 2 rest c] by simp
  have e: "enc_trojan H pw d @ rest = H pw @ [13, 10] @ ?tail" by (simp add: enc_trojan_def)
  show ?thesis
    unfolding decode_trojan_def e bind_io_Inr [where m = "read_line 257 []", OF l]
    using H by (simp add: Let_def utf8_lossy_valid io_simps d enc_socks_dest_def h x dest_text_def)
qed

interpretation trojan: header_parser "decode_trojan H pw" "enc_trojan H pw" dest_text
  "\<lambda>d. digest_laws H \<and> host_ok (fst d)" for H pw
  by unfold_locales (simp_all add: streaming_decode_trojan decode_trojan_enc)

lemma decode_trojan_password:
  assumes "digest_laws H" "decode_trojan H pw c = (Inr t, c')"
  shows "take 58 (rx c) = H pw @ [13, 10]"
proof -
  note H = digest_facts [OF assms(1), of pw]
  from assms(2) obtain l c1 where l: "read_line 257 [] c = (Inr l, c1)"
    and g: "from_utf8_lossy (take (length l - 2) l) = H pw"
    by (auto simp: decode_trojan_def bind_io_eq_Inr Let_def fail_io_def split: if_splits)
  from read_line_ok [OF l] have x: "rx c = l @ rx c1" "2 \<le> length l" "drop (length l - 2) l = [13, 10]"
    by auto
  have "take (length l - 2) l = H pw"
    using from_utf8_lossy_ascii [of "take (length l - 2) l"] g H(2) by simp
  with x(2,3) have "l = H pw @ [13, 10]" by (metis append_take_drop_id)
  with x(1) H(1) show ?thesis by simp
qed

section \<open>Properties\<close>

text \<open>
  A Trojan request (digest line, CONNECT, destination, line end) is decoded to exactly its
  destination, the stream is left at the first payload byte, and every truncation of the header
  is an end-of-input error, for every password and every destination the format can carry.
\<close>

theorem trojan_decode_roundtrip:
  assumes "digest_laws H" "host_ok (fst d)"
  shows "decode_trojan H pw (c\<lparr>rx := enc_trojan H pw d @ rest\<rparr>) = (Inr (dest_text d), c\<lparr>rx := rest\<rparr>)
    \<and> (\<forall>k < length (enc_trojan H pw d).
         decode_trojan H pw (c\<lparr>rx := take k (enc_trojan H pw d)\<rparr>) = (Inl (Io (rx_end c)), c\<lparr>rx := []\<rparr>))"
  using assms trojan.parse_enc [of H d pw] trojan.truncated [of H d _ pw] by blast

theorem trojan_decode_roundtrip_witness:
  "decode_trojan (\<lambda>_. replicate 56 97) (str ''pw'')
     \<lparr>rx = enc_trojan (\<lambda>_. replicate 56 97) (str ''pw'') (HostName (str ''a.b''), 443) @ [9],
      rx_end = UnexpectedEof, tx = [], tx_cap = None, tx_shut = False\<rparr>
   = (Inr (str ''a.b:443''),
      \<lparr>rx = [9], rx_end = UnexpectedEof, tx = [], tx_cap = None, tx_shut = False\<rparr>)"
proof -
  have H: "digest_laws (\<lambda>_. replicate 56 97)" by (simp add: digest_laws_def)
  have "dest_text (HostName (str ''a.b''), 443) = str ''a.b:443''"
    by (simp add: dest_text_def host_port_def dec.simps)
  with trojan_decode_roundtrip [OF H, of "(HostName (str ''a.b''), 443)" "str ''pw''" "[9]"
      "\<lparr>rx = [], rx_end = UnexpectedEof, tx = [], tx_cap = None, tx_shut = False\<rparr>"]
  show ?thesis by simp
qed

lemma trojan_gate:
  assumes "digest_laws H" "trojan_process H connect pw c \<noteq> trojan_process H connect' pw c"
  shows "take 58 (rx c) = H pw @ [13, 10]"
proof -
  obtain r c1 where d: "decode_trojan H pw c = (r, c1)" by fastforce
  show ?thesis
  proof (cases r)
    case (Inl e)
    with d assms(2) show ?thesis by (simp add: trojan_process_def bind_io_def)
  next
    case (Inr t)
    with d decode_trojan_password [OF assms(1)] show ?thesis by blast
  qed
qed

text \<open>
  The outcome of a dial reaches a Trojan connection only when the client's first 58 bytes are
  the digest of the configured password and a line end; otherwise no target is dialled.
\<close>

theorem trojan_dial_needs_password:
  assumes "digest_laws H" "trojan_process H connect pw c \<noteq> trojan_process H connect' pw c"
  shows "take 58 (rx c) = H pw @ [13, 10]"
  by (rule trojan_gate [OF assms])

theorem trojan_dial_needs_password_witness:
  "\<exists>c :: conn. trojan_process (\<lambda>_. replicate 56 97) (\<lambda>_. Connected) (str ''pw'') c
       \<noteq> trojan_process (\<lambda>_. replicate 56 97) (\<lambda>_. TimedOut) (str ''pw'') c
     \<and> take 58 (rx c) = replicate 56 97 @ [13, 10]"
proof -
  let ?H = "\<lambda>_. replicate 56 97" and ?d = "(HostName (str ''a.b''), 443 :: u16)"
  let ?c = "\<lparr>rx = [], rx_end = UnexpectedEof, tx = [], tx_cap = None, tx_shut = False\<rparr>"
  let ?in = "?c\<lparr>rx := enc_trojan ?H (str ''pw'') ?d @ []\<rparr>"
  have H: "digest_laws ?H" by (simp add: digest_laws_def)
  have "decode_trojan ?H (str ''pw'') ?in = (Inr (dest_text ?d), ?c\<lparr>rx := []\<rparr>)"
    by (rule decode_trojan_enc [OF H]) simp
  then have ne: "trojan_process ?H (\<lambda>_. Connected) (str ''pw'') ?in
      \<noteq> trojan_process ?H (\<lambda>_. TimedOut) (str ''pw'') ?in"
    unfolding trojan_process_def bind_io_def by (simp add: return_io_def fail_io_def)
  with trojan_dial_needs_password [OF H ne] show ?thesis by (intro exI [of _ ?in]) blast
qed

end
