(* ===== verification/Socks.thy ===== *)
theory Socks
  imports Wire_Addr
begin

text \<open>
  The SOCKS5 inbound (\<open>socks/mod.rs\<close>): method negotiation with optional username and password,
  the CONNECT request, the replies and the dial.  The handler returns the target whose
  connection it goes on to relay.
\<close>

section \<open>The model\<close>

definition VER :: u8 where "VER = 0x05"
definition METHOD_NO_AUTH :: u8 where "METHOD_NO_AUTH = 0x00"
definition METHOD_PASSWORD :: u8 where "METHOD_PASSWORD = 0x02"
definition METHOD_NO_ACCEPTABLE :: u8 where "METHOD_NO_ACCEPTABLE = 0xFF"
definition CMD_CONNECT :: u8 where "CMD_CONNECT = 0x01"
definition ATYP_IPV4 :: u8 where "ATYP_IPV4 = 0x01"
definition ATYP_DOMAIN :: u8 where "ATYP_DOMAIN = 0x03"
definition ATYP_IPV6 :: u8 where "ATYP_IPV6 = 0x04"
definition REP_SUCCESS :: u8 where "REP_SUCCESS = 0x00"
definition REP_GENERAL_FAILURE :: u8 where "REP_GENERAL_FAILURE = 0x01"
definition REP_CMD_NOT_SUPPORTED :: u8 where "REP_CMD_NOT_SUPPORTED = 0x07"
definition REP_ATYP_NOT_SUPPORTED :: u8 where "REP_ATYP_NOT_SUPPORTED = 0x08"

lemmas socks_consts = VER_def METHOD_NO_AUTH_def METHOD_PASSWORD_def METHOD_NO_ACCEPTABLE_def
  CMD_CONNECT_def ATYP_IPV4_def ATYP_DOMAIN_def ATYP_IPV6_def REP_SUCCESS_def
  REP_GENERAL_FAILURE_def REP_CMD_NOT_SUPPORTED_def REP_ATYP_NOT_SUPPORTED_def

record socks_user =
  username :: rstring
  password :: rstring

definition send_reply :: "u8 \<Rightarrow> unit io" where
  "send_reply rep = write_all [VER, rep, 0x00, ATYP_IPV4, 0, 0, 0, 0, 0, 0]"

text \<open>The username and password sub-negotiation (RFC 1929).\<close>

definition read_credentials :: "(bytes \<times> bytes) io" where
  "read_credentials =
     bind_io read_u8 (\<lambda>sub_ver.
       if sub_ver \<noteq> 0x01 then fail_io (Bail ''bad subneg version'')
       else bind_io read_u8 (\<lambda>ulen.
         bind_io (read_exact (unat ulen)) (\<lambda>uname.
         bind_io read_u8 (\<lambda>plen.
         bind_io (read_exact (unat plen)) (\<lambda>passwd. return_io (uname, passwd))))))"

definition credentials_ok :: "socks_user list \<Rightarrow> bytes \<Rightarrow> bytes \<Rightarrow> bool" where
  "credentials_ok users uname passwd \<longleftrightarrow>
     list_ex (\<lambda>u. username u = from_utf8_lossy uname \<and> password u = from_utf8_lossy passwd) users"

definition negotiate :: "socks_user list \<Rightarrow> unit io" where
  "negotiate users =
     bind_io read_u8 (\<lambda>ver.
       if ver \<noteq> VER then fail_io (Bail ''bad SOCKS version'')
       else bind_io read_u8 (\<lambda>nmethods.
         bind_io (read_exact (unat nmethods)) (\<lambda>methods.
           let use_password = (users \<noteq> []) in
           if use_password \<and> METHOD_PASSWORD \<in> set methods then
             bind_io (write_all [VER, METHOD_PASSWORD]) (\<lambda>_.
             bind_io read_credentials (\<lambda>(uname, passwd).
               if credentials_ok users uname passwd then write_all [0x01, 0x00]
               else bind_io (write_all [0x01, 0x01]) (\<lambda>_. fail_io (Bail ''authentication failed''))))
           else if \<not> use_password \<and> METHOD_NO_AUTH \<in> set methods then
             write_all [VER, METHOD_NO_AUTH]
           else bind_io (write_all [VER, METHOD_NO_ACCEPTABLE]) (\<lambda>_.
             fail_io (Bail ''no acceptable auth method'')))))"

definition read_request :: "(u8 \<times> rstring) io" where
  "read_request =
     bind_io read_u8 (\<lambda>ver2.
       if ver2 \<noteq> VER then fail_io (Bail ''bad SOCKS version in request'')
       else bind_io read_u8 (\<lambda>cmd.
         bind_io read_u8 (\<lambda>rsv.
         bind_io read_u8 (\<lambda>atyp.
         bind_io
           (if atyp = ATYP_IPV4 then
              bind_io (read_exact 4) (\<lambda>b. return_io (ipv4_to_string (from_be b)))
            else if atyp = ATYP_DOMAIN then
              bind_io read_u8 (\<lambda>len. bind_io (read_exact (unat len)) (\<lambda>b. lift_io (from_utf8 b)))
            else if atyp = ATYP_IPV6 then
              bind_io (read_exact 16) (\<lambda>b. return_io (bracketed (from_be b)))
            else bind_io (send_reply REP_ATYP_NOT_SUPPORTED) (\<lambda>_.
              fail_io (Bail ''unsupported address type''))) (\<lambda>target_host.
         bind_io read_u16 (\<lambda>port. return_io (cmd, host_port target_host port)))))))"

definition socks_handle :: "(rstring \<Rightarrow> dial) \<Rightarrow> socks_user list \<Rightarrow> rstring io" where
  "socks_handle connect users =
     bind_io (negotiate users) (\<lambda>_.
     bind_io read_request (\<lambda>(cmd, target).
       if cmd \<noteq> CMD_CONNECT then
         bind_io (send_reply REP_CMD_NOT_SUPPORTED) (\<lambda>_. fail_io (Bail ''unsupported command''))
       else case connect target of
         Connected \<Rightarrow> bind_io (send_reply REP_SUCCESS) (\<lambda>_. return_io target)
       | _ \<Rightarrow> bind_io (send_reply REP_GENERAL_FAILURE) (\<lambda>_. fail_io (Bail ''connect failed''))))"

section \<open>What a client sends\<close>

definition enc_greeting :: "bytes \<Rightarrow> bytes" where
  "enc_greeting methods = [VER, of_nat (length methods)] @ methods"

definition enc_credentials :: "bytes \<times> bytes \<Rightarrow> bytes" where
  "enc_credentials up =
     [0x01, of_nat (length (fst up))] @ fst up @ [of_nat (length (snd up))] @ snd up"

definition enc_socks_request :: "u8 \<times> host \<times> u16 \<Rightarrow> bytes" where
  "enc_socks_request r = [VER, fst r, 0x00] @ enc_socks_dest (snd r)"

lemma streaming_read_credentials: "streaming read_credentials"
  unfolding read_credentials_def by (intro streaming_intros)

lemma read_credentials_enc:
  assumes "length (fst up) < 256 \<and> length (snd up) < 256"
  shows "read_credentials (c\<lparr>rx := enc_credentials up @ rest\<rparr>) = (Inr up, c\<lparr>rx := rest\<rparr>)"
  using assms
  by (cases up) (simp add: read_credentials_def enc_credentials_def io_simps unat_u8_of_nat)

interpretation socks_credentials: header_parser read_credentials enc_credentials "\<lambda>up. up"
  "\<lambda>up. length (fst up) < 256 \<and> length (snd up) < 256"
  by unfold_locales (simp_all add: streaming_read_credentials read_credentials_enc)

lemma read_request_enc:
  assumes "host_ok (fst (snd r))"
  shows "read_request (c\<lparr>rx := enc_socks_request r @ rest\<rparr>)
    = (Inr (fst r, dest_text (snd r)), c\<lparr>rx := rest\<rparr>)"
proof -
  obtain cmd h p where r: "r = (cmd, h, p)" by (cases r) auto
  show ?thesis
    using assms
    by (cases h) (auto simp: r read_request_def enc_socks_request_def enc_socks_dest_def dest_text_def
        io_simps socks_consts unat_u8_of_nat)
qed

lemma negotiate_password_enc:
  assumes "users \<noteq> []" "METHOD_PASSWORD \<in> set methods" "length methods < 256"
    and "length (fst up) < 256 \<and> length (snd up) < 256" "tx_cap c = None"
    and ok: "credentials_ok users (fst up) (snd up)"
  shows "negotiate users (c\<lparr>rx := enc_greeting methods @ enc_credentials up @ rest\<rparr>)
    = (Inr (), c\<lparr>rx := rest, tx := tx c @ [5, 2, 1, 0]\<rparr>)"
proof -
  have r: "read_credentials ((c\<lparr>tx := t\<rparr>)\<lparr>rx := enc_credentials up @ rest\<rparr>)
      = (Inr up, (c\<lparr>tx := t\<rparr>)\<lparr>rx := rest\<rparr>)" for t
    using read_credentials_enc [OF assms(4), of rest "c\<lparr>tx := t\<rparr>"] .
  show ?thesis
    using assms r
    by (cases up)
      (simp add: negotiate_def enc_greeting_def io_simps unat_u8_of_nat socks_consts rx_tx_swap Let_def)
qed

lemma read_credentials_ok:
  "read_credentials c = (Inr up, c') \<Longrightarrow> rx c = enc_credentials up @ rx c'"
  by (auto simp: read_credentials_def enc_credentials_def bind_io_eq_Inr return_io_def fail_io_def
      dest!: read_u8_split read_exact_split split: if_splits)

lemma negotiate_ok:
  assumes "negotiate users c = (Inr (), c')" "users \<noteq> []"
  shows "\<exists>methods up. rx c = enc_greeting methods @ enc_credentials up @ rx c'
    \<and> credentials_ok users (fst up) (snd up)"
proof -
  from assms obtain nm methods up and c1 c2 c3 :: conn where
    c: "rx c = VER # nm # methods @ rx c1" "length methods = unat nm" "rx c2 = rx c1"
      "read_credentials c2 = (Inr up, c3)" "credentials_ok users (fst up) (snd up)" "rx c' = rx c3"
    by (auto simp: negotiate_def bind_io_eq_Inr fail_io_def Let_def
        dest!: read_u8_split read_exact_split write_all_rx split: if_splits)
  from read_credentials_ok [OF c(4)] c have "rx c = enc_greeting methods @ enc_credentials up @ rx c'"
    by (simp add: enc_greeting_def)
  with c(5) show ?thesis by blast
qed

lemma socks_gate:
  assumes "users \<noteq> []" "socks_handle connect users c \<noteq> socks_handle connect' users c"
  shows "\<exists>methods up rest. rx c = enc_greeting methods @ enc_credentials up @ rest
    \<and> credentials_ok users (fst up) (snd up)"
proof -
  obtain r c1 where n: "negotiate users c = (r, c1)" by fastforce
  show ?thesis
  proof (cases r)
    case (Inl e)
    with n have "socks_handle k users c = (Inl e, c1)" for k
      by (simp add: socks_handle_def bind_io_def)
    with assms(2) show ?thesis by simp
  next
    case (Inr u)
    with n negotiate_ok [of users c c1] assms(1) show ?thesis by auto
  qed
qed

section \<open>Properties\<close>

text \<open>
  C28.  When users are configured, the outcome of dialling a target can influence a SOCKS5
  connection only if the client sent a greeting and the username and password of a configured
  user first: no dial is attempted, and no relay started, for anyone else.
\<close>

theorem socks_dial_needs_credentials:
  assumes "users \<noteq> []" "socks_handle connect users c \<noteq> socks_handle connect' users c"
  shows "\<exists>methods up rest. rx c = enc_greeting methods @ enc_credentials up @ rest
    \<and> credentials_ok users (fst up) (snd up)"
  by (rule socks_gate [OF assms])

theorem socks_dial_needs_credentials_witness:
  "\<exists>c :: conn. rx c = enc_greeting [2] @ enc_credentials (str ''u'', str ''p'') @ [5, 1, 0, 1, 1, 2, 3, 4, 0, 80]
     \<and> (\<exists>methods up rest. rx c = enc_greeting methods @ enc_credentials up @ rest
         \<and> credentials_ok [\<lparr>username = str ''u'', password = str ''p''\<rparr>] (fst up) (snd up))"
proof -
  let ?us = "[\<lparr>username = str ''u'', password = str ''p''\<rparr>]" and ?up = "(str ''u'', str ''p'')"
  let ?c = "\<lparr>rx = [], rx_end = UnexpectedEof, tx = [], tx_cap = None, tx_shut = False\<rparr>"
  let ?rest = "enc_socks_request (1, Host4 0x01020304, 80) @ []"
  let ?in = "?c\<lparr>rx := enc_greeting [2] @ enc_credentials ?up @ ?rest\<rparr>"
  have ok: "credentials_ok ?us (fst ?up) (snd ?up)"
    by (simp add: credentials_ok_def utf8_lossy_valid)
  have n: "negotiate ?us ?in = (Inr (), (?c\<lparr>tx := [5, 2, 1, 0]\<rparr>)\<lparr>rx := ?rest\<rparr>)"
    using negotiate_password_enc [OF _ _ _ _ _ ok, of "[2]" ?c ?rest] by (simp add: socks_consts)
  have "fst (socks_handle (\<lambda>_. Connected) ?us ?in) \<noteq> fst (socks_handle (\<lambda>_. TimedOut) ?us ?in)"
    unfolding socks_handle_def bind_io_def n
    using read_request_enc [of "(1, Host4 0x01020304, 80)" "[]" "?c\<lparr>tx := [5, 2, 1, 0]\<rparr>"]
    by (simp add: socks_consts send_reply_def write_all_def return_io_def fail_io_def)
  then have "socks_handle (\<lambda>_. Connected) ?us ?in \<noteq> socks_handle (\<lambda>_. TimedOut) ?us ?in" by auto
  from socks_dial_needs_credentials [OF _ this]
  have "\<exists>methods up rest. rx ?in = enc_greeting methods @ enc_credentials up @ rest
      \<and> credentials_ok ?us (fst up) (snd up)" by simp
  moreover have "enc_socks_request (1, Host4 0x01020304, 80) = [5, 1, 0, 1, 1, 2, 3, 4, 0, 80]"
    by (simp add: enc_socks_request_def enc_socks_dest_def socks_consts octets4_def be_simps)
  ultimately show ?thesis by (intro exI [of _ ?in]) simp
qed

text \<open>
  The whole exchange with a client that offers a password: after valid credentials, a CONNECT
  request is answered with success and leads to a relay with exactly the requested target, the
  stream being left at the first payload byte; a failed dial is answered with reply code 1 and any
  other command with reply code 7, and nothing is relayed.
\<close>

theorem socks_exchange:
  assumes "users \<noteq> []" "METHOD_PASSWORD \<in> set methods" "length methods < 256"
    and "length (fst up) < 256 \<and> length (snd up) < 256" "credentials_ok users (fst up) (snd up)"
    and "tx_cap c = None" "host_ok (fst d)"
  shows "socks_handle connect users
      (c\<lparr>rx := enc_greeting methods @ enc_credentials up @ enc_socks_request (cmd, d) @ rest\<rparr>)
    = (let reply = (\<lambda>rep. [5, 2, 1, 0] @ [5, rep, 0, 1, 0, 0, 0, 0, 0, 0]) in
       if cmd \<noteq> CMD_CONNECT then
         (Inl (Bail ''unsupported command''), c\<lparr>rx := rest, tx := tx c @ reply 7\<rparr>)
       else if connect (dest_text d) = Connected then
         (Inr (dest_text d), c\<lparr>rx := rest, tx := tx c @ reply 0\<rparr>)
       else (Inl (Bail ''connect failed''), c\<lparr>rx := rest, tx := tx c @ reply 1\<rparr>))"
proof -
  let ?c1 = "c\<lparr>tx := tx c @ [5, 2, 1, 0]\<rparr>"
  have n: "negotiate users (c\<lparr>rx := enc_greeting methods @ enc_credentials up
        @ enc_socks_request (cmd, d) @ rest\<rparr>)
      = (Inr (), ?c1\<lparr>rx := enc_socks_request (cmd, d) @ rest\<rparr>)"
    using negotiate_password_enc [OF assms(1-4,6,5), of "enc_socks_request (cmd, d) @ rest"] by simp
  have r: "read_request (?c1\<lparr>rx := enc_socks_request (cmd, d) @ rest\<rparr>)
      = (Inr (cmd, dest_text d), ?c1\<lparr>rx := rest\<rparr>)"
    using read_request_enc [of "(cmd, d)" rest ?c1] assms(7) by simp
  have w: "write_all bs (?c1\<lparr>rx := rest\<rparr>) = (Inr (), c\<lparr>rx := rest, tx := tx c @ [5, 2, 1, 0] @ bs\<rparr>)" for bs
    using assms(6) by (simp add: write_all_def)
  show ?thesis
    unfolding socks_handle_def bind_io_def n
    by (simp add: r w send_reply_def fail_io_def return_io_def socks_consts split: dial.splits)
qed

theorem socks_exchange_witness:
  "socks_handle (\<lambda>t. if t = str ''a.b:80'' then Connected else TimedOut)
     [\<lparr>username = str ''u'', password = str ''p''\<rparr>]
     \<lparr>rx = [5, 1, 2] @ [1, 1, 117, 1, 112] @ [5, 1, 0, 3, 3, 97, 46, 98, 0, 80] @ [9], rx_end = UnexpectedEof,
      tx = [], tx_cap = None, tx_shut = False\<rparr>
   = (Inr (str ''a.b:80''),
      \<lparr>rx = [9], rx_end = UnexpectedEof, tx = [5, 2, 1, 0, 5, 0, 0, 1, 0, 0, 0, 0, 0, 0],
       tx_cap = None, tx_shut = False\<rparr>)"
proof -
  let ?c = "\<lparr>rx = [], rx_end = UnexpectedEof, tx = [], tx_cap = None, tx_shut = False\<rparr>"
  let ?d = "(HostName (str ''a.b''), 80 :: u16)" and ?up = "(str ''u'', str ''p'')"
  have e: "enc_greeting [2] = [5, 1, 2]" "enc_credentials ?up = [1, 1, 117, 1, 112]"
    "enc_socks_request (1, ?d) = [5, 1, 0, 3, 3, 97, 46, 98, 0, 80]" "dest_text ?d = str ''a.b:80''"
    by (simp_all add: enc_greeting_def enc_credentials_def enc_socks_request_def enc_socks_dest_def
        socks_consts be_simps dest_text_def host_port_def dec.simps)
  have ok: "credentials_ok [\<lparr>username = str ''u'', password = str ''p''\<rparr>] (fst ?up) (snd ?up)"
    by (simp add: credentials_ok_def utf8_lossy_valid)
  from socks_exchange [OF _ _ _ _ ok, where methods = "[2]" and c = ?c and d = ?d and cmd = 1
      and rest = "[9]" and connect = "\<lambda>t. if t = str ''a.b:80'' then Connected else TimedOut"] e
  show ?thesis by (simp add: socks_consts)
qed

end
