(* ===== verification/Xhttp_Stream.thy ===== *)
theory Xhttp_Stream
  imports Byte_Source "HOL-Library.Multiset"
begin

text \<open>
  The upload side of an XHTTP connection (\<open>common/transport/xhttp.rs\<close>, from \<open>PktQueue\<close> on): POST
  requests put packets into a channel in whatever order the network delivers them, and
  \<open>XhttpStream\<close> hands their bytes out in sequence order.  \<open>BinaryHeap\<close> of the standard library is a
  list kept in ascending order; the library leaves the order of equal entries open.
\<close>

section \<open>The model\<close>

datatype upload_packet = Chunk bytes | Packet u64 bytes | Eof

datatype pkt_entry = PktEntry (pe_seq: u64) (pe_data: bytes)

text \<open>\<open>impl Ord for PktEntry\<close> compares sequence numbers only: a preorder, not an order.\<close>

instantiation pkt_entry :: preorder
begin

definition less_eq_pkt_entry :: "pkt_entry \<Rightarrow> pkt_entry \<Rightarrow> bool" where
  "less_eq_pkt_entry a b \<longleftrightarrow> pe_seq a \<le> pe_seq b"

definition less_pkt_entry :: "pkt_entry \<Rightarrow> pkt_entry \<Rightarrow> bool" where
  "less_pkt_entry a b \<longleftrightarrow> pe_seq a < pe_seq b"

instance
  by standard (auto simp: less_eq_pkt_entry_def less_pkt_entry_def)

end

fun heap_push :: "pkt_entry \<Rightarrow> pkt_entry list \<Rightarrow> pkt_entry list" where
  "heap_push e [] = [e]"
| "heap_push e (x # xs) = (if e \<le> x then e # x # xs else x # heap_push e xs)"

record pkt_queue =
  pq_heap :: "pkt_entry list"
  next_seq :: u64
  leftover :: bytes

text \<open>\<open>up_rx\<close> is what the channel holds, \<open>up_closed\<close> whether every sender is gone.\<close>

record xhttp_stream =
  up_rx :: "upload_packet list"
  up_closed :: bool
  queue :: pkt_queue
  stream_buf :: bytes
  xs_eof :: bool

definition xhttp_stream_new :: xhttp_stream where
  "xhttp_stream_new =
     \<lparr>up_rx = [], up_closed = False, queue = \<lparr>pq_heap = [], next_seq = 0, leftover = []\<rparr>,
      stream_buf = [], xs_eof = False\<rparr>"

text \<open>A read of up to \<open>n\<close> bytes: \<open>None\<close> is \<open>Poll::Pending\<close>, \<open>Some []\<close> the end of the stream.\<close>

function poll_read :: "nat \<Rightarrow> xhttp_stream \<Rightarrow> bytes option \<times> xhttp_stream" where
  "poll_read n this =
     (if leftover (queue this) \<noteq> [] then
        (Some (take n (leftover (queue this))),
         this\<lparr>queue := (queue this)\<lparr>leftover := drop n (leftover (queue this))\<rparr>\<rparr>)
      else if stream_buf this \<noteq> [] then
        (Some (take n (stream_buf this)), this\<lparr>stream_buf := drop n (stream_buf this)\<rparr>)
      else if pq_heap (queue this) \<noteq> [] \<and> pe_seq (hd (pq_heap (queue this))) = next_seq (queue this) then
        (let entry = hd (pq_heap (queue this)) in
         (Some (take n (pe_data entry)),
          this\<lparr>queue := \<lparr>pq_heap = tl (pq_heap (queue this)), next_seq = next_seq (queue this) + 1,
                          leftover = drop n (pe_data entry)\<rparr>\<rparr>))
      else if xs_eof this then (Some [], this)
      else case up_rx this of
        [] \<Rightarrow> if up_closed this then (Some [], this\<lparr>xs_eof := True\<rparr>) else (None, this)
      | Chunk data # rest \<Rightarrow> (Some (take n data), this\<lparr>up_rx := rest, stream_buf := drop n data\<rparr>)
      | Packet s data # rest \<Rightarrow>
          poll_read n (this\<lparr>up_rx := rest,
            queue := (queue this)\<lparr>pq_heap := heap_push (PktEntry s data) (pq_heap (queue this))\<rparr>\<rparr>)
      | Eof # rest \<Rightarrow> (Some [], this\<lparr>up_rx := rest, xs_eof := True\<rparr>))"
  by pat_completeness auto
termination
  by (relation "measure (\<lambda>(n, this). length (up_rx this))") auto

declare poll_read.simps [simp del]

text \<open>
  The download side: \<open>poll_write\<close> puts a buffer into a channel of 64 entries that the response body
  takes from; \<open>None\<close> is \<open>Poll::Pending\<close>, and \<open>dl_open\<close> whether the response still reads.
\<close>

record downlink_chan =
  dl_items :: "bytes list"
  dl_open :: bool

definition poll_write :: "bytes \<Rightarrow> downlink_chan \<Rightarrow> nat result option \<times> downlink_chan" where
  "poll_write buf d =
     (if \<not> dl_open d then (Some (Inl (Io BrokenPipe)), d)
      else if 64 \<le> length (dl_items d) then (None, d)
      else (Some (Inr (length buf)), d\<lparr>dl_items := dl_items d @ [buf]\<rparr>))"

datatype response_body = EmptyBody | StreamBody downlink_chan

text \<open>\<open>poll_frame\<close>, with a flag for a sender that is gone: a frame, the end, or pending.\<close>

datatype frame_poll = FramePending | FrameEnd | Frame bytes

fun poll_frame :: "bool \<Rightarrow> response_body \<Rightarrow> frame_poll \<times> response_body" where
  "poll_frame closed EmptyBody = (FrameEnd, EmptyBody)"
| "poll_frame closed (StreamBody d) =
     (case dl_items d of
        [] \<Rightarrow> (if closed then FrameEnd else FramePending, StreamBody d)
      | f # fs \<Rightarrow> (Frame f, StreamBody (d\<lparr>dl_items := fs\<rparr>)))"

section \<open>The heap\<close>

lemma mset_heap_push [simp]: "mset (heap_push e h) = add_mset e (mset h)"
  by (induction h) simp_all

lemma heap_push_sorted:
  "sorted_wrt (\<lambda>a b. pe_seq a \<le> pe_seq b) h \<Longrightarrow> sorted_wrt (\<lambda>a b. pe_seq a \<le> pe_seq b) (heap_push e h)"
proof (induction h)
  case (Cons x h)
  have "set (heap_push e h) = insert e (set h)"
    using mset_heap_push [of e h] by (metis set_mset_add_mset_insert set_mset_mset)
  with Cons show ?case by (auto simp: less_eq_pkt_entry_def)
qed simp

text \<open>What a stream still holds, in the queue and in the channel.\<close>

fun packet_entries :: "upload_packet list \<Rightarrow> pkt_entry list" where
  "packet_entries [] = []"
| "packet_entries (Packet s d # us) = PktEntry s d # packet_entries us"
| "packet_entries (_ # us) = packet_entries us"

lemma packet_entries_append [simp]: "packet_entries (us @ vs) = packet_entries us @ packet_entries vs"
  by (induction us rule: packet_entries.induct) simp_all

definition held :: "xhttp_stream \<Rightarrow> pkt_entry multiset" where
  "held s = mset (pq_heap (queue s)) + mset (packet_entries (up_rx s))"

text \<open>The packets \<open>k\<close>, \<open>k + 1\<close>, ... of a transfer.\<close>

definition numbered_from :: "nat \<Rightarrow> bytes list \<Rightarrow> pkt_entry list" where
  "numbered_from k ds = map (\<lambda>(i, d). PktEntry (of_nat i) d) (zip [k..<k + length ds] ds)"

lemma numbered_from_simps [simp]:
  "numbered_from k [] = []"
  "numbered_from k (d # ds) = PktEntry (of_nat k) d # numbered_from (Suc k) ds"
  by (simp_all add: numbered_from_def upt_conv_Cons del: upt_Suc)

lemma numbered_from_later:
  assumes "e \<in> set (numbered_from (Suc k) ds)" "k + length ds < 2 ^ 64"
  shows "of_nat k < pe_seq e"
proof -
  from assms(1) obtain i d where e: "e = PktEntry (of_nat i) d" "i \<in> set [Suc k..<Suc k + length ds]"
    unfolding numbered_from_def by (auto dest: set_zip_leftD)
  with assms(2) have "k < i" "i < 2 ^ 64" by auto
  then show ?thesis using e by (simp add: word_less_nat_alt unat_of_nat take_bit_eq_mod)
qed

text \<open>
  A stream that waits for the packets of \<open>ds\<close> from number \<open>k\<close> on and for nothing else; every one
  of them is in the queue or in the channel.
\<close>

definition expects :: "nat \<Rightarrow> bytes list \<Rightarrow> xhttp_stream \<Rightarrow> bool" where
  "expects k ds s \<longleftrightarrow>
     next_seq (queue s) = of_nat k \<and> k + length ds < 2 ^ 64 \<and> [] \<notin> set ds
     \<and> held s = mset (numbered_from k ds)
     \<and> sorted_wrt (\<lambda>a b. pe_seq a \<le> pe_seq b) (pq_heap (queue s))
     \<and> (\<forall>u \<in> set (up_rx s). \<exists>n d. u = Packet n d)
     \<and> stream_buf s = [] \<and> \<not> xs_eof s"

section \<open>One read\<close>

abbreviation pushed :: "u64 \<Rightarrow> bytes \<Rightarrow> upload_packet list \<Rightarrow> xhttp_stream \<Rightarrow> xhttp_stream" where
  "pushed sq d rest s \<equiv> s\<lparr>up_rx := rest,
     queue := (queue s)\<lparr>pq_heap := heap_push (PktEntry sq d) (pq_heap (queue s))\<rparr>\<rparr>"

lemma expects_pushed:
  assumes "expects k ds s" "up_rx s = Packet sq d # rest"
  shows "expects k ds (pushed sq d rest s)"
  using assms heap_push_sorted [of "pq_heap (queue s)"] by (auto simp: expects_def held_def)

lemma expects_head:
  assumes "expects k (d # ds) s" "pq_heap (queue s) \<noteq> []" "pe_seq (hd (pq_heap (queue s))) = of_nat k"
  shows "hd (pq_heap (queue s)) = PktEntry (of_nat k) d"
proof (rule ccontr)
  let ?e = "hd (pq_heap (queue s))"
  assume ne: "?e \<noteq> PktEntry (of_nat k) d"
  have "?e \<in># held s" using assms(2) by (simp add: held_def)
  with assms(1) ne have "?e \<in> set (numbered_from (Suc k) ds)" by (simp add: expects_def)
  with numbered_from_later [OF this] assms(1,3) show False by (simp add: expects_def)
qed

lemma expects_in_channel:
  assumes "expects k (d # ds) s" "\<not> (pq_heap (queue s) \<noteq> [] \<and> pe_seq (hd (pq_heap (queue s))) = of_nat k)"
  shows "up_rx s \<noteq> []"
proof
  assume "up_rx s = []"
  with assms(1) have h: "mset (pq_heap (queue s)) = mset (numbered_from k (d # ds))"
    by (simp add: expects_def held_def)
  then have set: "set (pq_heap (queue s)) = set (numbered_from k (d # ds))" by (rule mset_eq_setD)
  then obtain x xs where x: "pq_heap (queue s) = x # xs" by (cases "pq_heap (queue s)") auto
  have "PktEntry (of_nat k) d \<in> set (x # xs)" using set by (simp add: x)
  moreover have "\<forall>y \<in> set xs. pe_seq x \<le> pe_seq y" using assms(1) by (simp add: expects_def x)
  ultimately have "pe_seq x \<le> of_nat k" by auto
  moreover have "of_nat k \<le> pe_seq x"
  proof (cases "x = PktEntry (of_nat k) d")
    case False
    then have "x \<in> set (numbered_from (Suc k) ds)" using set by (auto simp: x)
    with numbered_from_later [OF this] assms(1) show ?thesis by (simp add: expects_def)
  qed simp
  ultimately show False using assms(2) x by simp
qed

lemma poll_next:
  "expects k (d # ds) s \<Longrightarrow> leftover (queue s) = [] \<Longrightarrow>
   \<exists>s'. poll_read n s = (Some (take n d), s') \<and> expects (Suc k) ds s'
     \<and> leftover (queue s') = drop n d \<and> up_closed s' = up_closed s"
proof (induction n s rule: poll_read.induct)
  case (1 n s)
  let ?h = "pq_heap (queue s)"
  have s: "next_seq (queue s) = of_nat k" "stream_buf s = []" "\<not> xs_eof s"
    using "1.prems" by (simp_all add: expects_def)
  show ?case
  proof (cases "?h \<noteq> [] \<and> pe_seq (hd ?h) = of_nat k")
    case True
    with expects_head [OF "1.prems"(1)] obtain xs where h: "?h = PktEntry (of_nat k) d # xs"
      by (metis list.collapse)
    let ?s = "s\<lparr>queue := \<lparr>pq_heap = xs, next_seq = of_nat k + 1, leftover = drop n d\<rparr>\<rparr>"
    have "poll_read n s = (Some (take n d), ?s)"
      using "1.prems"(2) s h by (subst poll_read.simps) (simp add: Let_def)
    moreover have "expects (Suc k) ds ?s"
      using "1.prems"(1) h by (simp add: expects_def held_def add.commute)
    ultimately show ?thesis by auto
  next
    case False
    then obtain u rest where u: "up_rx s = u # rest"
      using expects_in_channel [OF "1.prems"(1)] by (cases "up_rx s") auto
    with "1.prems"(1) obtain sq x where x: "up_rx s = Packet sq x # rest" by (auto simp: expects_def)
    have eq: "poll_read n s = poll_read n (pushed sq x rest s)"
      using "1.prems"(2) s False x by (subst poll_read.simps) auto
    have "\<exists>s'. poll_read n (pushed sq x rest s) = (Some (take n d), s') \<and> expects (Suc k) ds s'
        \<and> leftover (queue s') = drop n d \<and> up_closed s' = up_closed (pushed sq x rest s)"
      using "1.prems" s False x expects_pushed [OF "1.prems"(1) x]
      by (intro "1.IH") auto
    with eq show ?thesis by simp
  qed
qed

lemma poll_leftover:
  "leftover (queue s) \<noteq> [] \<Longrightarrow> poll_read n s = (Some (take n (leftover (queue s))),
     s\<lparr>queue := (queue s)\<lparr>leftover := drop n (leftover (queue s))\<rparr>\<rparr>)"
  by (subst poll_read.simps) simp

lemma expects_leftover [simp]: "expects k ds (s\<lparr>queue := (queue s)\<lparr>leftover := b\<rparr>\<rparr>) = expects k ds s"
  by (simp add: expects_def held_def)

lemma poll_done:
  assumes "expects k [] s" "leftover (queue s) = []"
  shows "poll_read n s = (if up_closed s then (Some [], s\<lparr>xs_eof := True\<rparr>) else (None, s))"
proof -
  from assms(1) have "pq_heap (queue s) = []" "packet_entries (up_rx s) = []" "\<forall>u \<in> set (up_rx s). \<exists>n d. u = Packet n d"
    by (simp_all add: expects_def held_def)
  then have "up_rx s = []" by (cases "up_rx s") auto
  with assms \<open>pq_heap (queue s) = []\<close> show ?thesis
    by (subst poll_read.simps) (simp add: expects_def)
qed

section \<open>The stream is a byte source\<close>

definition to_come :: "xhttp_stream \<Rightarrow> bytes" where
  "to_come s = leftover (queue s) @ concat (map pe_data (sort_key pe_seq
      (pq_heap (queue s) @ packet_entries (up_rx s))))"

definition complete :: "xhttp_stream \<Rightarrow> bool" where
  "complete s \<longleftrightarrow> up_closed s \<and> (\<exists>k ds. expects k ds s)"

text \<open>With every sender gone a read is never pending; \<open>xhttp_conn\<close> is the connection that a handler sees over such a stream.\<close>

definition xs_poll :: "nat \<Rightarrow> xhttp_stream \<Rightarrow> bytes result option \<times> xhttp_stream" where
  "xs_poll n s = (case poll_read n s of (r, s') \<Rightarrow> (map_option Inr r, s'))"

fun packet_data :: "upload_packet \<Rightarrow> bytes" where
  "packet_data (Chunk d) = d"
| "packet_data (Packet s d) = d"
| "packet_data Eof = []"

definition xs_size :: "xhttp_stream \<Rightarrow> nat" where
  "xs_size s = length (leftover (queue s)) + length (stream_buf s)
     + (\<Sum>e \<leftarrow> pq_heap (queue s). length (pe_data e)) + (\<Sum>u \<leftarrow> up_rx s. length (packet_data u))"

definition xhttp_conn :: "xhttp_stream \<Rightarrow> conn" where
  "xhttp_conn s = input_conn xs_poll (xs_size s) s"

definition xs_read :: "nat \<Rightarrow> xhttp_stream \<Rightarrow> bytes \<times> xhttp_stream" where
  "xs_read n s = (case poll_read n s of (Some bs, s') \<Rightarrow> (bs, s') | (None, s') \<Rightarrow> ([], s'))"

lemma numbered_from_data: "map pe_data (numbered_from k ds) = ds"
  by (induction ds arbitrary: k) simp_all

lemma numbered_from_sorted:
  "k + length ds < 2 ^ 64 \<Longrightarrow> sorted_wrt (<) (map pe_seq (numbered_from k ds))"
proof (induction ds arbitrary: k)
  case (Cons d ds)
  then show ?case using numbered_from_later [where k = k and ds = ds] by auto
qed simp

lemma to_come_expects:
  assumes "expects k ds s"
  shows "to_come s = leftover (queue s) @ concat ds"
proof -
  let ?l = "pq_heap (queue s) @ packet_entries (up_rx s)"
  have m: "mset ?l = mset (numbered_from k ds)" and b: "k + length ds < 2 ^ 64"
    using assms by (simp_all add: expects_def held_def)
  have srt: "sorted_wrt (<) (map pe_seq (numbered_from k ds))" by (rule numbered_from_sorted [OF b])
  have "distinct (map pe_seq (numbered_from k ds))" using srt by (simp add: strict_sorted_iff)
  then have inj: "inj_on pe_seq (set ?l)" using m by (metis distinct_map mset_eq_setD)
  have "sort_key pe_seq ?l = numbered_from k ds"
    using srt by (intro sort_key_inj_key_eq [OF m inj]) (simp add: strict_sorted_iff)
  then show ?thesis by (simp add: to_come_def numbered_from_data)
qed

lemma expects_nonempty: "expects k (d # ds) s \<Longrightarrow> d \<noteq> []"
  by (auto simp: expects_def)

lemma poll_complete:
  assumes "expects k ds s" "up_closed s" "0 < n" "to_come s \<noteq> []"
  shows "\<exists>bs s' k' ds'. poll_read n s = (Some bs, s') \<and> bs \<noteq> [] \<and> length bs \<le> n
    \<and> to_come s = bs @ to_come s' \<and> expects k' ds' s' \<and> up_closed s'"
proof (cases "leftover (queue s) = []")
  case True
  with assms(1,4) obtain d es where ds: "ds = d # es" by (cases ds) (auto simp: to_come_expects)
  from poll_next [OF assms(1) [unfolded ds] True, of n] obtain s' where
    s': "poll_read n s = (Some (take n d), s')" "expects (Suc k) es s'" "leftover (queue s') = drop n d"
      "up_closed s' = up_closed s" by blast
  have "to_come s = take n d @ to_come s'"
    using to_come_expects [OF assms(1)] to_come_expects [OF s'(2)] True s'(3) ds by simp
  moreover have "d \<noteq> []" using expects_nonempty assms(1) ds by blast
  ultimately show ?thesis using s' assms(2,3) by fastforce
next
  case False
  let ?s = "s\<lparr>queue := (queue s)\<lparr>leftover := drop n (leftover (queue s))\<rparr>\<rparr>"
  have "to_come s = take n (leftover (queue s)) @ to_come ?s" by (simp add: to_come_def)
  with poll_leftover [OF False, of n] False assms(1,2,3) show ?thesis
    by (intro exI [of _ "take n (leftover (queue s))"] exI [of _ ?s] exI [of _ k] exI [of _ ds]) simp
qed

interpretation xhttp_source: byte_source xs_read to_come complete
proof
  fix s :: xhttp_stream and n :: nat
  assume c: "complete s" and n: "0 < n"
  then obtain k ds where e: "expects k ds s" "up_closed s" by (auto simp: complete_def)
  show "fst (xs_read n s) = []" if "to_come s = []"
  proof -
    have l: "leftover (queue s) = []" and "concat ds = []" using that to_come_expects [OF e(1)] by simp_all
    then have "ds = []" using e(1) by (cases ds) (auto simp: expects_def)
    with poll_done [of k s n] e l show ?thesis by (simp add: xs_read_def)
  qed
  assume "to_come s \<noteq> []"
  from poll_complete [OF e n this] show
    "fst (xs_read n s) \<noteq> [] \<and> length (fst (xs_read n s)) \<le> n \<and> to_come s = fst (xs_read n s) @ to_come (snd (xs_read n s))"
    "complete (snd (xs_read n s))"
    by (auto simp: xs_read_def complete_def) blast
qed

section \<open>What reads return does not depend on their sizes\<close>

lemma xs_read_flat: "xs_read = flat_read xs_poll"
  by (auto simp: xs_read_def flat_read_def xs_poll_def fun_eq_iff split: prod.splits option.splits)

lemma heap_push_size [simp]: "(\<Sum>e \<leftarrow> heap_push x h. length (pe_data e)) = length (pe_data x) + (\<Sum>e \<leftarrow> h. length (pe_data e))"
  by (induction h) simp_all

text \<open>
  A read takes from one entry: the leftover of one, the buffer, the next packet or the next chunk.  What it does not take is the
  next entry; \<open>put r\<close> is the stream with \<open>r\<close> of it left.
\<close>

definition entry_of :: "xhttp_stream \<Rightarrow> bytes \<Rightarrow> (bytes \<Rightarrow> xhttp_stream) \<Rightarrow> bool" where
  "entry_of s full put \<longleftrightarrow>
     (\<forall>n. poll_read n s = (Some (take n full), put (drop n full)))
     \<and> (\<forall>r n. r \<noteq> [] \<longrightarrow> poll_read n (put r) = (Some (take n r), put (drop n r)))
     \<and> (\<forall>r. xs_size (put r) + length full = xs_size s + length r)"

lemma poll_entry: "(\<exists>full put. entry_of s full put) \<or> (\<exists>r s'. r \<in> {None, Some []} \<and> (\<forall>n. poll_read n s = (r, s')))"
proof (induction "up_rx s" arbitrary: s rule: length_induct)
  case 1
  consider (left) "leftover (queue s) \<noteq> []" | (buf) "leftover (queue s) = []" "stream_buf s \<noteq> []"
    | (top) "leftover (queue s) = []" "stream_buf s = []" "pq_heap (queue s) \<noteq> []" "pe_seq (hd (pq_heap (queue s))) = next_seq (queue s)"
    | (eof) "leftover (queue s) = []" "stream_buf s = []"
        "\<not> (pq_heap (queue s) \<noteq> [] \<and> pe_seq (hd (pq_heap (queue s))) = next_seq (queue s))" "xs_eof s"
    | (chan) "leftover (queue s) = []" "stream_buf s = []"
        "\<not> (pq_heap (queue s) \<noteq> [] \<and> pe_seq (hd (pq_heap (queue s))) = next_seq (queue s))" "\<not> xs_eof s"
    by blast
  then show ?case
  proof cases
    case left
    then have "entry_of s (leftover (queue s)) (\<lambda>r. s\<lparr>queue := (queue s)\<lparr>leftover := r\<rparr>\<rparr>)"
      unfolding entry_of_def by (subst (1 2) poll_read.simps) (simp add: xs_size_def)
    then show ?thesis by blast
  next
    case buf
    then have "entry_of s (stream_buf s) (\<lambda>r. s\<lparr>stream_buf := r\<rparr>)"
      unfolding entry_of_def by (subst (1 2) poll_read.simps) (simp add: xs_size_def)
    then show ?thesis by blast
  next
    case top
    then obtain e h where h: "pq_heap (queue s) = e # h" by (cases "pq_heap (queue s)") auto
    with top have "entry_of s (pe_data e) (\<lambda>r. s\<lparr>queue := \<lparr>pq_heap = h, next_seq = next_seq (queue s) + 1, leftover = r\<rparr>\<rparr>)"
      unfolding entry_of_def by (subst (1 2) poll_read.simps) (simp add: xs_size_def Let_def)
    then show ?thesis by blast
  next
    case eof
    then have "\<forall>n. poll_read n s = (Some [], s)" by (subst poll_read.simps) auto
    then show ?thesis by blast
  next
    case chan
    show ?thesis
    proof (cases "up_rx s")
      case Nil
      with chan have "\<forall>n. poll_read n s = (if up_closed s then (Some [], s\<lparr>xs_eof := True\<rparr>) else (None, s))"
        by (subst poll_read.simps) auto
      then show ?thesis by (cases "up_closed s") auto
    next
      case (Cons u rest)
      show ?thesis
      proof (cases u)
        case (Chunk d)
        with chan Cons have "entry_of s d (\<lambda>r. s\<lparr>up_rx := rest, stream_buf := r\<rparr>)"
          unfolding entry_of_def by (subst (1 2) poll_read.simps) (auto simp: xs_size_def)
        then show ?thesis by blast
      next
        case (Packet sq d)
        with chan Cons have p: "poll_read n s = poll_read n (pushed sq d rest s)" for n by (subst poll_read.simps) auto
        have sz: "xs_size (pushed sq d rest s) = xs_size s" using Cons Packet by (simp add: xs_size_def)
        from 1 [rule_format, of "up_rx (pushed sq d rest s)", OF _ refl] Cons have "(\<exists>full put. entry_of (pushed sq d rest s) full put)
            \<or> (\<exists>r s'. r \<in> {None, Some []} \<and> (\<forall>n. poll_read n (pushed sq d rest s) = (r, s')))" by simp
        moreover have "entry_of s full put = entry_of (pushed sq d rest s) full put" for full put
          unfolding entry_of_def p sz ..
        ultimately show ?thesis unfolding p by blast
      next
        case Eof
        with chan Cons have "\<forall>n. poll_read n s = (Some [], s\<lparr>up_rx := rest, xs_eof := True\<rparr>)" by (subst poll_read.simps) auto
        then show ?thesis by blast
      qed
    qed
  qed
qed

lemma poll_size:
  assumes "poll_read n s = (Some bs, s')" "bs \<noteq> []"
  shows "xs_size s' + length bs = xs_size s"
proof (cases "\<exists>full put. entry_of s full put")
  case True
  then obtain full put where e: "entry_of s full put" by blast
  with assms(1) have s': "s' = put (drop n full)" and bs: "bs = take n full" by (auto simp: entry_of_def)
  have "xs_size (put (drop n full)) + length full = xs_size s + length (drop n full)"
    using e unfolding entry_of_def by blast
  moreover have "length (drop n full) + length (take n full) = length full" by simp
  ultimately show ?thesis unfolding s' bs by linarith
next
  case False
  with poll_entry [of s] obtain r t where "r \<in> {None, Some []}" "\<forall>n. poll_read n s = (r, t)" by blast
  with assms show ?thesis by auto
qed

definition xs_all :: "nat \<Rightarrow> xhttp_stream \<Rightarrow> bytes" where
  "xs_all n s = fst (read_to_end xs_poll n (Suc (xs_size s)) s)"

lemma xs_fuel:
  "xs_size s < f \<Longrightarrow> xs_size s < f' \<Longrightarrow> read_to_end xs_poll n f s = read_to_end xs_poll n f' s"
proof (induction f arbitrary: s f')
  case (Suc f)
  then obtain g where g: "f' = Suc g" by (cases f') auto
  obtain r s' where r: "poll_read n s = (r, s')" by fastforce
  show ?case
  proof (cases "\<exists>bs. r = Some bs \<and> bs \<noteq> []")
    case True
    then obtain bs where b: "r = Some bs" "bs \<noteq> []" by blast
    have "xs_size s' + length bs = xs_size s" using poll_size r b by blast
    with b(2) Suc.prems g have "xs_size s' < f" "xs_size s' < g" by (cases bs; simp)+
    from Suc.IH [OF this] r b g show ?thesis by (simp add: xs_poll_def)
  next
    case False
    with r g show ?thesis by (cases r) (auto simp: xs_poll_def)
  qed
qed simp

lemma xs_all_more:
  assumes "poll_read n s = (Some bs, s')" "bs \<noteq> []"
  shows "xs_all n s = bs @ xs_all n s'"
proof -
  have "xs_size s' + length bs = xs_size s" by (rule poll_size [OF assms])
  with assms(2) have "xs_size s' < xs_size s" by (cases bs) simp_all
  then have "read_to_end xs_poll n (xs_size s) s' = read_to_end xs_poll n (Suc (xs_size s')) s'" by (intro xs_fuel) simp_all
  with read_to_end_more [of xs_poll n s bs s' "xs_size s"] assms show ?thesis by (simp add: xs_all_def xs_poll_def del: read_to_end.simps)
qed

lemma xs_all_stop: "poll_read n s = (r, s') \<Longrightarrow> r \<in> {None, Some []} \<Longrightarrow> xs_all n s = []"
  by (auto simp: xs_all_def xs_poll_def)

lemma xs_all_put:
  assumes "entry_of s full put" "0 < n"
  shows "xs_all n (put r) = r @ xs_all n (put [])"
proof (induction r rule: length_induct)
  case (1 r)
  show ?case
  proof (cases "r = []")
    case False
    with assms have "poll_read n (put r) = (Some (take n r), put (drop n r))" "take n r \<noteq> []" by (auto simp: entry_of_def)
    moreover have "xs_all n (put (drop n r)) = drop n r @ xs_all n (put [])"
      using 1 [rule_format, of "drop n r"] False assms(2) by simp
    ultimately show ?thesis using xs_all_more [of n "put r" "take n r" "put (drop n r)"] by simp
  qed simp
qed

lemma xs_all_entry:
  assumes "entry_of s full put" "0 < n"
  shows "xs_all n s = (if full = [] then [] else full @ xs_all n (put []))"
proof (cases "full = []")
  case False
  with assms have "poll_read n s = (Some (take n full), put (drop n full))" "take n full \<noteq> []" by (auto simp: entry_of_def)
  from xs_all_more [OF this] xs_all_put [OF assms, of "drop n full"] False show ?thesis by simp
next
  case True
  with assms(1) have "poll_read n s = (Some [], put [])" by (auto simp: entry_of_def)
  from xs_all_stop [OF this] True show ?thesis by simp
qed

lemma xs_all_sizes: "0 < n \<Longrightarrow> 0 < m \<Longrightarrow> xs_all n s = xs_all m s"
proof (induction "xs_size s" arbitrary: s rule: less_induct)
  case less
  show ?case
  proof (cases "\<exists>full put. entry_of s full put")
    case True
    then obtain full put where e: "entry_of s full put" by blast
    show ?thesis
    proof (cases "full = []")
      case False
      have "xs_size (put []) + length full = xs_size s" using e by (auto simp: entry_of_def)
      with False have "xs_size (put []) < xs_size s" by (cases full) auto
      from less.hyps [OF this] less.prems xs_all_entry [OF e] show ?thesis by simp
    qed (use xs_all_entry [OF e] less.prems in simp)
  next
    case False
    with poll_entry [of s] obtain r s' where "r \<in> {None, Some []}" "\<forall>n. poll_read n s = (r, s')" by blast
    then show ?thesis using xs_all_stop by metis
  qed
qed

text \<open>So every stream, whatever it holds, is a byte source: a handler over it behaves as on the connection \<open>xhttp_conn\<close>.\<close>

lemma xhttp_conn_rx: "rx (xhttp_conn s) = xs_all READ_BUF s"
  by (simp add: xhttp_conn_def xs_all_def)

lemma xs_read_entry:
  assumes "0 < n"
  shows "xs_all n s = fst (xs_read n s) @ (if fst (xs_read n s) = [] then [] else xs_all n (snd (xs_read n s)))"
proof -
  obtain r s' where r: "poll_read n s = (r, s')" by fastforce
  show ?thesis
  proof (cases "\<exists>bs. r = Some bs \<and> bs \<noteq> []")
    case True
    then obtain bs where b: "r = Some bs" "bs \<noteq> []" by blast
    with xs_all_more [of n s bs s'] r show ?thesis by (simp add: xs_read_def)
  next
    case False
    then have "r \<in> {None, Some []}" by (cases r) auto
    with xs_all_stop [OF r this] r show ?thesis by (auto simp: xs_read_def)
  qed
qed

lemma xs_read_length: "length (fst (xs_read n s)) \<le> n"
proof -
  have "case poll_read n s of (Some bs, s') \<Rightarrow> length bs \<le> n | (None, s') \<Rightarrow> True"
    by (rule poll_read.induct [of "\<lambda>n s. case poll_read n s of (Some bs, s') \<Rightarrow> length bs \<le> n | (None, s') \<Rightarrow> True"], subst poll_read.simps)
      (auto simp: Let_def split: list.splits upload_packet.splits)
  then show ?thesis by (auto simp: xs_read_def split: prod.splits option.splits)
qed

interpretation xhttp_input: total_byte_source xs_read "\<lambda>s. rx (xhttp_conn s)"
proof
  fix s :: xhttp_stream and n :: nat
  assume n: "0 < n"
  have b: "0 < READ_BUF" by (simp add: READ_BUF_def)
  note e = xs_read_entry [OF n, of s, unfolded xs_all_sizes [OF n b]]
  show "fst (xs_read n s) = []" if "rx (xhttp_conn s) = []" using that e by (simp add: xhttp_conn_rx)
  show "fst (xs_read n s) \<noteq> [] \<and> length (fst (xs_read n s)) \<le> n
      \<and> rx (xhttp_conn s) = fst (xs_read n s) @ rx (xhttp_conn (snd (xs_read n s)))" if "rx (xhttp_conn s) \<noteq> []"
    using that e xs_read_length [of n s] by (auto simp: xhttp_conn_rx split: if_splits)
qed simp

lemma xhttp_conn_simps [simp]:
  "tx (xhttp_conn s) = []" "tx_cap (xhttp_conn s) = None" "tx_shut (xhttp_conn s) = False"
  by (simp_all add: xhttp_conn_def)

lemma xhttp_conn_end [simp]: "rx_end (xhttp_conn s) = UnexpectedEof"
proof -
  have "snd (read_to_end xs_poll n f s) = UnexpectedEof" for n f
  proof (induction f arbitrary: s)
    case (Suc f)
    obtain r s' where r: "poll_read n s = (r, s')" by fastforce
    with Suc.IH [of s'] show ?case by (cases r) (auto simp: xs_poll_def split: prod.splits)
  qed simp
  then show ?thesis by (simp add: xhttp_conn_def del: read_to_end.simps)
qed

lemma xhttp_conn_complete:
  assumes "complete s"
  shows "rx (xhttp_conn s) = to_come s"
proof -
  have b: "0 < READ_BUF" by (simp add: READ_BUF_def)
  from drain_unique [OF xhttp_input.drain_avail [OF b TrueI lessI] xhttp_source.drain_avail [OF b assms lessI]] show ?thesis .
qed

text \<open>The chunks of \<open>stream-one\<close> and \<open>stream-up\<close> are read in the order of their arrival.\<close>

lemma poll_chunk:
  assumes "leftover (queue s) = []" "stream_buf s = []" "pq_heap (queue s) = []" "\<not> xs_eof s" "up_rx s = Chunk d # rest"
  shows "poll_read n s = (Some (take n d), s\<lparr>up_rx := rest, stream_buf := drop n d\<rparr>)"
  using assms by (subst poll_read.simps) simp

lemma xhttp_conn_chunks:
  "[] \<notin> set ds \<Longrightarrow> leftover (queue s) = [] \<Longrightarrow> stream_buf s = [] \<Longrightarrow> pq_heap (queue s) = [] \<Longrightarrow> \<not> xs_eof s
    \<Longrightarrow> up_rx s = map Chunk ds \<Longrightarrow> rx (xhttp_conn s) = concat ds"
proof (induction ds arbitrary: s)
  case Nil
  then have "poll_read n s = (if up_closed s then (Some [], s\<lparr>xs_eof := True\<rparr>) else (None, s))" for n
    by (subst poll_read.simps) simp
  then show ?case by (cases "up_closed s") (simp_all add: xhttp_conn_rx xs_all_def xs_poll_def)
next
  case (Cons d ds)
  let ?put = "\<lambda>r. s\<lparr>up_rx := map Chunk ds, stream_buf := r\<rparr>"
  have "entry_of s d ?put"
    unfolding entry_of_def using Cons.prems by (subst poll_chunk) (auto simp: xs_size_def poll_read.simps)
  moreover have "xs_all READ_BUF (?put []) = concat ds"
    using Cons.IH [of "?put []"] Cons.prems by (simp add: xhttp_conn_rx)
  ultimately show ?case
    using xs_all_entry [of s d ?put READ_BUF] Cons.prems by (auto simp: xhttp_conn_rx READ_BUF_def)
qed

section \<open>Arrivals and reads in any order\<close>

datatype xs_event = Arrive upload_packet | Read nat

fun xs_run :: "xs_event list \<Rightarrow> xhttp_stream \<Rightarrow> bytes \<times> xhttp_stream" where
  "xs_run [] s = ([], s)"
| "xs_run (Arrive u # es) s = xs_run es (s\<lparr>up_rx := up_rx s @ [u]\<rparr>)"
| "xs_run (Read n # es) s =
     (case poll_read n s of
        (None, s') \<Rightarrow> xs_run es s'
      | (Some bs, s') \<Rightarrow> (case xs_run es s' of (out, t) \<Rightarrow> (bs @ out, t)))"

fun arrivals :: "xs_event list \<Rightarrow> upload_packet list" where
  "arrivals [] = []"
| "arrivals (Arrive u # es) = u # arrivals es"
| "arrivals (Read n # es) = arrivals es"

abbreviation fed :: "upload_packet list \<Rightarrow> xhttp_stream \<Rightarrow> xhttp_stream" where
  "fed us s \<equiv> s\<lparr>up_rx := up_rx s @ us, up_closed := True\<rparr>"

text \<open>What a read returns before the rest has arrived, it also returns after.\<close>

lemma poll_fed:
  "\<not> up_closed s \<Longrightarrow> poll_read n (fed us s) =
     (case poll_read n s of (Some bs, s') \<Rightarrow> (Some bs, fed us s') | (None, s') \<Rightarrow> poll_read n (fed us s'))
   \<and> \<not> up_closed (snd (poll_read n s))"
proof (induction n s rule: poll_read.induct)
  case (1 n s)
  consider (now) "leftover (queue s) \<noteq> [] \<or> stream_buf s \<noteq> []
      \<or> (pq_heap (queue s) \<noteq> [] \<and> pe_seq (hd (pq_heap (queue s))) = next_seq (queue s)) \<or> xs_eof s"
    | (chan) "leftover (queue s) = []" "stream_buf s = []"
      "\<not> (pq_heap (queue s) \<noteq> [] \<and> pe_seq (hd (pq_heap (queue s))) = next_seq (queue s))" "\<not> xs_eof s"
    by blast
  then show ?case
  proof cases
    case now
    then show ?thesis using "1.prems"
      by (subst (1 2 3 4) poll_read.simps) (auto simp: Let_def)
  next
    case chan
    show ?thesis
    proof (cases "up_rx s")
      case Nil
      then have "poll_read n s = (None, s)" using chan "1.prems" by (subst poll_read.simps) auto
      then show ?thesis using "1.prems" by simp
    next
      case (Cons u rest)
      show ?thesis
      proof (cases u)
        case (Packet sq d)
        have p: "poll_read n s = poll_read n (pushed sq d rest s)"
          using chan "1.prems" Cons Packet by (subst poll_read.simps) auto
        have "poll_read n (fed us s) = poll_read n (pushed sq d (rest @ us) (fed us s))"
          using chan "1.prems" Cons Packet by (subst poll_read.simps) auto
        also have "pushed sq d (rest @ us) (fed us s) = fed us (pushed sq d rest s)" by (cases s) simp
        finally have q: "poll_read n (fed us s) = poll_read n (fed us (pushed sq d rest s))" .
        show ?thesis unfolding p q
          using chan "1.prems" Cons Packet by (intro "1.IH") auto
      next
        case (Chunk d)
        have "poll_read n s = (Some (take n d), s\<lparr>up_rx := rest, stream_buf := drop n d\<rparr>)"
          "poll_read n (fed us s) = (Some (take n d), (fed us s)\<lparr>up_rx := rest @ us, stream_buf := drop n d\<rparr>)"
          using chan Cons Chunk by (subst poll_read.simps; auto)+
        then show ?thesis using "1.prems" by simp
      next
        case Eof
        have "poll_read n s = (Some [], s\<lparr>up_rx := rest, xs_eof := True\<rparr>)"
          "poll_read n (fed us s) = (Some [], (fed us s)\<lparr>up_rx := rest @ us, xs_eof := True\<rparr>)"
          using chan Cons Eof by (subst poll_read.simps; auto)+
        then show ?thesis using "1.prems" by simp
      qed
    qed
  qed
qed

lemma poll_pending:
  assumes "\<not> up_closed s" "poll_read n s = (None, s')" "expects k ds (fed us s)"
  shows "expects k ds (fed us s') \<and> leftover (queue s') = leftover (queue s)"
  using assms
proof (induction n s rule: poll_read.induct)
  case (1 n s)
  have pend: "leftover (queue s) = []" "stream_buf s = []"
    "\<not> (pq_heap (queue s) \<noteq> [] \<and> pe_seq (hd (pq_heap (queue s))) = next_seq (queue s))" "\<not> xs_eof s"
    using "1.prems"(2) by (subst (asm) poll_read.simps, auto simp: Let_def split: if_splits)+
  show ?case
  proof (cases "up_rx s")
    case Nil
    then have "poll_read n s = (None, s)" using pend "1.prems"(1) by (subst poll_read.simps) auto
    with "1.prems"(2,3) show ?thesis by simp
  next
    case (Cons u rest)
    from "1.prems"(3) Cons obtain sq d where u: "u = Packet sq d" by (auto simp: expects_def)
    have p: "poll_read n s = poll_read n (pushed sq d rest s)"
      using pend Cons u by (subst poll_read.simps) auto
    have f: "pushed sq d (rest @ us) (fed us s) = fed us (pushed sq d rest s)" by (cases s) simp
    have "expects k ds (fed us (pushed sq d rest s))"
      using expects_pushed [OF "1.prems"(3), of sq d "rest @ us"] Cons u unfolding f by simp
    with "1.IH" [OF _ _ _ _ Cons u] pend "1.prems" p show ?thesis by auto
  qed
qed

abbreviation senders_gone :: "xhttp_stream \<Rightarrow> xhttp_stream" where
  "senders_gone s \<equiv> s\<lparr>up_closed := True\<rparr>"

text \<open>What a run has read, and what its last state still has to give, is what there was to read.\<close>

lemma xs_run_rest:
  assumes "\<not> up_closed s" "expects k ds (fed (arrivals es) s)" "\<forall>n. Read n \<in> set es \<longrightarrow> 0 < n"
  shows "\<exists>k' ds'. to_come (fed (arrivals es) s) = fst (xs_run es s) @ to_come (senders_gone (snd (xs_run es s)))
    \<and> expects k' ds' (senders_gone (snd (xs_run es s)))"
  using assms
proof (induction es arbitrary: s k ds)
  case (Cons e es)
  show ?case
  proof (cases e)
    case (Arrive u)
    with Cons.IH [of "s\<lparr>up_rx := up_rx s @ [u]\<rparr>" k ds] Cons.prems show ?thesis by simp
  next
    case (Read n)
    let ?us = "arrivals es"
    have n: "0 < n" and x: "expects k ds (fed ?us s)" using Cons.prems Read by auto
    have rest: "\<forall>n. Read n \<in> set es \<longrightarrow> 0 < n" using Cons.prems by simp
    obtain r s' where r: "poll_read n s = (r, s')" by fastforce
    note fedp = poll_fed [OF Cons.prems(1), of n ?us, unfolded r]
    show ?thesis
    proof (cases r)
      case None
      from poll_pending [OF Cons.prems(1) r [unfolded None] x]
      have x': "expects k ds (fed ?us s')" and l: "leftover (queue s') = leftover (queue s)" by auto
      have "to_come (fed ?us s') = to_come (fed ?us s)"
        using to_come_expects [OF x] to_come_expects [OF x'] l by simp
      with Cons.IH [OF _ x' rest] fedp r None Read show ?thesis by simp
    next
      case (Some bs)
      then have p: "poll_read n (fed ?us s) = (Some bs, fed ?us s')" "\<not> up_closed s'" using fedp by auto
      have "to_come (fed ?us s) \<noteq> []"
      proof
        assume "to_come (fed ?us s) = []"
        then have l: "leftover (queue s) = []" and "concat ds = []" using to_come_expects [OF x] by simp_all
        then have "ds = []" using x by (cases ds) (auto simp: expects_def)
        with x have "expects k [] s" by (auto simp: expects_def held_def)
        from poll_done [OF this l] Cons.prems(1) r Some show False by simp
      qed
      from poll_complete [OF x _ n this] p obtain k' ds' where
        "to_come (fed ?us s) = bs @ to_come (fed ?us s')" "expects k' ds' (fed ?us s')" by auto
      with Cons.IH [OF p(2) _ rest] r Some Read show ?thesis
        by (auto split: prod.splits)
    qed
  qed
qed auto

section \<open>Properties\<close>

definition packets_of :: "bytes list \<Rightarrow> upload_packet list" where
  "packets_of ds = map (\<lambda>e. Packet (pe_seq e) (pe_data e)) (numbered_from 0 ds)"

lemma packet_entries_map: "packet_entries (map (\<lambda>e. Packet (pe_seq e) (pe_data e)) es) = es"
  by (induction es) simp_all

lemma mset_packet_entries: "mset us = mset vs \<Longrightarrow> mset (packet_entries us) = mset (packet_entries vs)"
proof -
  let ?f = "\<lambda>u. case u of Packet n d \<Rightarrow> {#PktEntry n d#} | _ \<Rightarrow> {#}"
  have "mset (packet_entries ws) = (\<Sum>u \<in># mset ws. ?f u)" for ws
    by (induction ws rule: packet_entries.induct) simp_all
  then show "mset us = mset vs \<Longrightarrow> mset (packet_entries us) = mset (packet_entries vs)" by simp
qed

lemma fresh_expects:
  assumes "mset us = mset (packets_of ds)" "length ds < 2 ^ 64" "[] \<notin> set ds"
  shows "expects 0 ds (fed us xhttp_stream_new)"
proof -
  have "set us = set (packets_of ds)" using assms(1) by (rule mset_eq_setD)
  then have "\<forall>u \<in> set us. \<exists>n d. u = Packet n d" by (auto simp: packets_of_def)
  moreover have "mset (packet_entries us) = mset (numbered_from 0 ds)"
    using mset_packet_entries [OF assms(1)] by (simp add: packets_of_def packet_entries_map)
  ultimately show ?thesis using assms(2,3) by (simp add: expects_def held_def xhttp_stream_new_def)
qed

text \<open>
  C4.  XHTTP uploads are put back in order: when the packets of an upload, none of them empty, arrive in any order and reads of any
  size are interleaved with the arrivals in any way, what has been read at any moment is a prefix of the upload; and
  from whatever state those reads have left, a reader that goes on once all packets are there and the senders are gone gets
  exactly the rest of the upload and then the end of the stream.  (A read that meets an empty packet returns no
  byte, which its reader takes for the end of the stream.)
\<close>

theorem xhttp_reassembly:
  assumes "mset (arrivals es) = mset (packets_of ds)" "length ds < 2 ^ 64" "[] \<notin> set ds"
    and "\<forall>n. Read n \<in> set es \<longrightarrow> 0 < n" "0 < m"
  shows "\<exists>rest. concat ds = fst (xs_run es xhttp_stream_new) @ rest
    \<and> drain xs_read m (Suc (length rest)) (senders_gone (snd (xs_run es xhttp_stream_new))) = Some rest"
proof -
  let ?s = "senders_gone (snd (xs_run es xhttp_stream_new))"
  have x: "expects 0 ds (fed (arrivals es) xhttp_stream_new)" by (rule fresh_expects [OF assms(1-3)])
  have t: "to_come (fed (arrivals es) xhttp_stream_new) = concat ds"
    using to_come_expects [OF x] by (simp add: xhttp_stream_new_def)
  from xs_run_rest [OF _ x assms(4)] obtain k ds' where
    r: "concat ds = fst (xs_run es xhttp_stream_new) @ to_come ?s" "expects k ds' ?s"
    unfolding t by (auto simp: xhttp_stream_new_def)
  then have "complete ?s" by (auto simp: complete_def)
  from xhttp_source.drain_avail [OF assms(5) this lessI] r(1) show ?thesis by blast
qed

text \<open>The witness: the second packet arrives first, a read is pending, then the first one arrives and one byte of it is read.\<close>

theorem xhttp_reassembly_witness:
  "\<exists>rest. [1, 2, 3] = fst (xs_run [Arrive (Packet 1 [3]), Read 9, Arrive (Packet 0 [1, 2]), Read 1] xhttp_stream_new) @ rest
   \<and> drain xs_read 2 (Suc (length rest)) (senders_gone (snd (xs_run
        [Arrive (Packet 1 [3]), Read 9, Arrive (Packet 0 [1, 2]), Read 1] xhttp_stream_new))) = Some rest"
proof -
  let ?es = "[Arrive (Packet 1 [3]), Read 9, Arrive (Packet 0 [1, 2]), Read 1]"
  have "mset (arrivals ?es) = mset (packets_of [[1, 2], [3]])" "length [[1, 2], [3 :: u8]] < 2 ^ 64"
    "[] \<notin> set [[1, 2], [3 :: u8]]" "\<forall>n. Read n \<in> set ?es \<longrightarrow> 0 < n" "(0 :: nat) < 2"
    by (simp_all add: packets_of_def add_mset_commute)
  note r = xhttp_reassembly [OF this]
  have e: "concat [[1, 2], [3]] = ([1, 2, 3] :: bytes)" by simp
  from r show ?thesis unfolding e .
qed

text \<open>An empty packet is read as the end of the stream although its successor is there.\<close>

theorem xhttp_empty_packet_ends:
  assumes "0 < n"
  shows "fst (poll_read n (xhttp_stream_new\<lparr>up_rx := [Packet 0 [], Packet 1 d]\<rparr>)) = Some []
    \<and> rx (xhttp_conn (xhttp_stream_new\<lparr>up_rx := [Packet 0 [], Packet 1 d]\<rparr>)) = []"
proof -
  have p: "fst (poll_read n (xhttp_stream_new\<lparr>up_rx := [Packet 0 [], Packet 1 d]\<rparr>)) = Some []" for n
    by (subst poll_read.simps, simp add: xhttp_stream_new_def)
      (subst poll_read.simps, simp add: xhttp_stream_new_def Let_def)
  then have "xs_all READ_BUF (xhttp_stream_new\<lparr>up_rx := [Packet 0 [], Packet 1 d]\<rparr>) = []"
    by (intro xs_all_stop [of READ_BUF _ "Some []"]) (auto simp: prod_eq_iff)
  with p show ?thesis by (simp add: xhttp_conn_rx)
qed

theorem xhttp_empty_packet_ends_witness:
  "fst (poll_read 4 (xhttp_stream_new\<lparr>up_rx := [Packet 0 [], Packet 1 [7]]\<rparr>)) = Some []"
  using xhttp_empty_packet_ends [of 4 "[7]"] by simp

text \<open>
  A packet that is delivered twice stalls the stream: once a number below the next expected one
  stands at the head of the queue, no read returns a byte of any packet again, whatever
  arrives, while the channel stays open.
\<close>

theorem xhttp_stale_packet_stalls:
  assumes "leftover (queue s) = []" "stream_buf s = []" "\<not> xs_eof s" "\<not> up_closed s"
    and "sorted_wrt (\<lambda>a b. pe_seq a \<le> pe_seq b) (pq_heap (queue s))"
    and "e \<in> set (pq_heap (queue s))" "pe_seq e < next_seq (queue s)"
    and "\<forall>u \<in> set (up_rx s @ arrivals es). \<exists>n d. u = Packet n d"
  shows "fst (xs_run es s) = []"
  using assms
proof (induction es arbitrary: s)
  case (Cons ev es)
  show ?case
  proof (cases ev)
    case (Arrive u)
    with Cons.IH [of "s\<lparr>up_rx := up_rx s @ [u]\<rparr>"] Cons.prems show ?thesis by simp
  next
    case (Read n)
    have "\<exists>s'. poll_read n s = (None, s') \<and> leftover (queue s') = [] \<and> stream_buf s' = [] \<and> \<not> xs_eof s' \<and> \<not> up_closed s'
        \<and> sorted_wrt (\<lambda>a b. pe_seq a \<le> pe_seq b) (pq_heap (queue s')) \<and> e \<in> set (pq_heap (queue s'))
        \<and> next_seq (queue s') = next_seq (queue s) \<and> up_rx s' = []"
      using Cons.prems
    proof (induction n s rule: poll_read.induct)
      case (1 n s)
      have hd: "pe_seq (hd (pq_heap (queue s))) \<noteq> next_seq (queue s)" "pq_heap (queue s) \<noteq> []"
        using "1.prems"(5-7) by (cases "pq_heap (queue s)"; fastforce)+
      show ?case
      proof (cases "up_rx s")
        case Nil
        then have "poll_read n s = (None, s)" using "1.prems" hd by (subst poll_read.simps) auto
        with "1.prems" Nil show ?thesis by simp
      next
        case C: (Cons u rest)
        with "1.prems"(8) obtain sq d where u: "u = Packet sq d" by auto
        have p: "poll_read n s = poll_read n (pushed sq d rest s)"
          using "1.prems" hd C u by (subst poll_read.simps) auto
        have "set (heap_push (PktEntry sq d) (pq_heap (queue s))) = insert (PktEntry sq d) (set (pq_heap (queue s)))"
          using mset_heap_push by (metis set_mset_add_mset_insert set_mset_mset)
        with "1.IH" [OF _ _ _ _ C u] "1.prems" hd C heap_push_sorted p show ?thesis by auto
      qed
    qed
    then obtain s' where s': "poll_read n s = (None, s')" "leftover (queue s') = []" "stream_buf s' = []"
      "\<not> xs_eof s'" "\<not> up_closed s'" "sorted_wrt (\<lambda>a b. pe_seq a \<le> pe_seq b) (pq_heap (queue s'))"
      "e \<in> set (pq_heap (queue s'))" "next_seq (queue s') = next_seq (queue s)" "up_rx s' = []" by blast
    with Cons.IH [OF s'(2-7)] Cons.prems(7,8) Read show ?thesis by simp
  qed
qed simp

theorem xhttp_stale_packet_stalls_witness:
  "fst (xs_run [Read 9, Arrive (Packet 1 [5]), Read 9]
     (xhttp_stream_new\<lparr>queue := \<lparr>pq_heap = [PktEntry 0 [4]], next_seq = 1, leftover = []\<rparr>\<rparr>)) = []"
  by (rule xhttp_stale_packet_stalls [where e = "PktEntry 0 [4]"]) (simp_all add: xhttp_stream_new_def)

end
