(* ===== verification/Proxy_Handlers.thy ===== *)
theory Proxy_Handlers
  imports Vless Trojan Socks Relay Websocket Xhttp_Stream
begin

text \<open>
  The plain TCP handlers from the first byte to the last: a handler that reads a request and
  dials, followed by the relay it starts.  \<open>inbound_handler\<close> is what VLESS, Trojan and SOCKS5 have in
  common; what a client of each gets follows from it once.
\<close>

section \<open>The model\<close>

text \<open>Runs a handler on the client's connection and starts the relay to the outbound one.\<close>

definition serve :: "rstring io \<Rightarrow> conn \<Rightarrow> conn \<Rightarrow> (rstring \<times> relay) result \<times> conn" where
  "serve handler inbound outbound =
     (case handler inbound of
        (Inl e, c) \<Rightarrow> (Inl e, c)
      | (Inr dst, c) \<Rightarrow> (Inr (dst, relay_start c outbound), c))"

definition vless_serve :: "(rstring \<Rightarrow> dial) \<Rightarrow> bytes \<Rightarrow> conn \<Rightarrow> conn \<Rightarrow> (rstring \<times> relay) result \<times> conn" where
  "vless_serve connect uuid = serve (process_vless_stream connect uuid)"

definition trojan_serve ::
  "(rstring \<Rightarrow> rstring) \<Rightarrow> (rstring \<Rightarrow> dial) \<Rightarrow> rstring \<Rightarrow> conn \<Rightarrow> conn \<Rightarrow> (rstring \<times> relay) result \<times> conn" where
  "trojan_serve hex_digest connect pass = serve (trojan_process hex_digest connect pass)"

definition socks_serve :: "(rstring \<Rightarrow> dial) \<Rightarrow> socks_user list \<Rightarrow> conn \<Rightarrow> conn \<Rightarrow> (rstring \<times> relay) result \<times> conn" where
  "socks_serve connect users = serve (socks_handle connect users)"

section \<open>What the handlers have in common\<close>

text \<open>
  A handler reads a well-formed request, answers it with a fixed reply once its destination is
  connected, and leaves the stream at the first byte of the payload.
\<close>

locale inbound_handler =
  fixes handle :: "(rstring \<Rightarrow> dial) \<Rightarrow> rstring io"
    and enc :: "'r \<Rightarrow> bytes"
    and dest :: "'r \<Rightarrow> rstring"
    and reply :: bytes
    and wf :: "'r \<Rightarrow> bool"
  assumes handled: "wf r \<Longrightarrow> connect (dest r) = Connected \<Longrightarrow> tx_cap c = None \<Longrightarrow>
      handle connect (c\<lparr>rx := enc r @ rest\<rparr>) = (Inr (dest r), c\<lparr>rx := rest, tx := tx c @ reply\<rparr>)"
begin

lemma end_to_end:
  assumes "wf r" "connect (dest r) = Connected" "rx c = enc r @ body" "tx_cap c = None" "tx_cap outb = None"
  shows "\<exists>start c'. serve (handle connect) c outb = (Inr (dest r, start), c') \<and> tx c' = tx c @ reply
    \<and> exchanged body (rx_end c) outb start"
proof -
  let ?c = "c\<lparr>rx := body, tx := tx c @ reply\<rparr>"
  have "handle connect c = (Inr (dest r), ?c)"
    using handled [where r = r and connect = connect and c = c and rest = body] assms(1-4) by (cases c) simp
  then have "serve (handle connect) c outb = (Inr (dest r, relay_start ?c outb), ?c)" by (simp add: serve_def)
  moreover have "exchanged body (rx_end c) outb (relay_start ?c outb)"
    using exchanged_start [of outb ?c] assms(4,5) by simp
  ultimately show ?thesis by simp
qed

end

section \<open>The three handlers\<close>

interpretation vless_inbound: inbound_handler "\<lambda>connect. process_vless_stream connect uuid" "enc_request uuid"
  "\<lambda>w. host_port (host_text (w_host w)) (w_port w)" "[0, 0]" "\<lambda>w. length uuid = 16 \<and> wire_ok w \<and> w_command w = CMD_TCP" for uuid
proof
  fix r :: vless_wire and connect and c :: conn and rest
  assume "length uuid = 16 \<and> wire_ok r \<and> w_command r = CMD_TCP" "connect (host_port (host_text (w_host r)) (w_port r)) = Connected"
    "tx_cap c = None"
  with decode_request_enc [where uuid = uuid and w = r and c = c and rest = rest]
  show "process_vless_stream connect uuid (c\<lparr>rx := enc_request uuid r @ rest\<rparr>)
      = (Inr (host_port (host_text (w_host r)) (w_port r)), c\<lparr>rx := rest, tx := tx c @ [0, 0]\<rparr>)"
    by (simp add: process_vless_stream_def bind_io_def wire_request_def encode_response_def VLESS_VERSION_def
        write_all_def return_io_def)
qed

interpretation trojan_inbound: inbound_handler "\<lambda>connect. trojan_process H connect pw" "enc_trojan H pw" dest_text "[]"
  "\<lambda>d. digest_laws H \<and> host_ok (fst d)" for H pw
  by unfold_locales (simp add: trojan_process_def bind_io_def decode_trojan_enc return_io_def)

interpretation socks_inbound: inbound_handler "\<lambda>connect. socks_handle connect users"
  "\<lambda>(up, d). enc_greeting [METHOD_PASSWORD] @ enc_credentials up @ enc_socks_request (CMD_CONNECT, d)" "\<lambda>(up, d). dest_text d"
  "[5, 2, 1, 0, 5, 0, 0, 1, 0, 0, 0, 0, 0, 0]"
  "\<lambda>(up, d). users \<noteq> [] \<and> length (fst up) < 256 \<and> length (snd up) < 256 \<and> credentials_ok users (fst up) (snd up) \<and> host_ok (fst d)"
  for users
proof
  fix r :: "(bytes \<times> bytes) \<times> host \<times> u16" and connect and c :: conn and rest
  assume wf: "case r of (up, d) \<Rightarrow> users \<noteq> [] \<and> length (fst up) < 256 \<and> length (snd up) < 256
      \<and> credentials_ok users (fst up) (snd up) \<and> host_ok (fst d)"
    and connect: "connect (case r of (up, d) \<Rightarrow> dest_text d) = Connected" and cap: "tx_cap c = None"
  obtain up d where r: "r = (up, d)" by (cases r)
  let ?c1 = "c\<lparr>tx := tx c @ [5, 2, 1, 0]\<rparr>"
  have n: "negotiate users (c\<lparr>rx := enc_greeting [METHOD_PASSWORD] @ enc_credentials up @ enc_socks_request (CMD_CONNECT, d) @ rest\<rparr>)
      = (Inr (), ?c1\<lparr>rx := enc_socks_request (CMD_CONNECT, d) @ rest\<rparr>)"
    using negotiate_password_enc [of users "[METHOD_PASSWORD]" up c "enc_socks_request (CMD_CONNECT, d) @ rest"] wf r cap by simp
  have q: "read_request (?c1\<lparr>rx := enc_socks_request (CMD_CONNECT, d) @ rest\<rparr>) = (Inr (CMD_CONNECT, dest_text d), ?c1\<lparr>rx := rest\<rparr>)"
    using read_request_enc [of "(CMD_CONNECT, d)" rest ?c1] wf r by simp
  show "socks_handle connect users (c\<lparr>rx := (case r of (up, d) \<Rightarrow> enc_greeting [METHOD_PASSWORD] @ enc_credentials up
        @ enc_socks_request (CMD_CONNECT, d)) @ rest\<rparr>)
      = (Inr (case r of (up, d) \<Rightarrow> dest_text d), c\<lparr>rx := rest, tx := tx c @ [5, 2, 1, 0, 5, 0, 0, 1, 0, 0, 0, 0, 0, 0]\<rparr>)"
    using connect cap n unfolding r socks_handle_def
    by (simp add: bind_io_def q [unfolded socks_consts] send_reply_def return_io_def write_all_def socks_consts)
qed

section \<open>Properties\<close>

text \<open>
  C24.  A VLESS connection over WebSocket, end to end.  The client cuts its request and payload into messages in any way, with pings,
  pongs and empty messages in between; the handler works on what reading those messages returns.  The target is the
  requested one, the client is answered with the two bytes of the response, and the relay passes on exactly the payload: at every
  moment the target holds a prefix of it, and all of it once that direction has ended; likewise for the target's reply
  when the target ends cleanly.
\<close>

theorem vless_over_websocket:
  assumes "length uuid = 16" "wire_ok w" "w_command w = CMD_TCP" "connect (host_port (host_text (w_host w)) (w_port w)) = Connected"
    and "Close \<notin> set ms" "concat (map payload ms) = enc_request uuid w @ body" "tx_cap outb = None"
  shows "\<exists>start c. vless_serve connect uuid (ws_conn (ws_new (map Msg ms @ Msg Close # items) ended)) outb
      = (Inr (host_port (host_text (w_host w)) (w_port w), start), c)
    \<and> tx c = [0, 0] \<and> exchanged body UnexpectedEof outb start"
proof -
  let ?c = "ws_conn (ws_new (map Msg ms @ Msg Close # items) ended)"
  have "rx ?c = enc_request uuid w @ body" "tx_cap ?c = None" "tx ?c = []"
    using assms(5,6) by (simp_all add: ws_avail_def ws_new_def data_before_close_map)
  moreover have "rx_end ?c = UnexpectedEof"
  proof (rule ws_conn_clean)
    have "ws_clean (map Msg ms @ Msg Close # items)" by (induction ms) simp_all
    then show "ws_clean (ws_in (ws_new (map Msg ms @ Msg Close # items) ended))" by (simp add: ws_new_def)
  qed
  ultimately show ?thesis
    using vless_inbound.end_to_end [of uuid w connect ?c body outb] assms(1-4,7) by (simp add: vless_serve_def)
qed

theorem vless_over_websocket_witness:
  "\<exists>start c. vless_serve (\<lambda>_. Connected) (replicate 16 7) (ws_conn (ws_new (map Msg
         [Ping [], Binary (enc_request (replicate 16 7)
           \<lparr>w_addons = [], w_command = 1, w_port = 443, w_host = HostName (str ''a.b'')\<rparr>), Text [1, 2]] @ [Msg Close]) False))
         \<lparr>rx = [9], rx_end = UnexpectedEof, tx = [], tx_cap = None, tx_shut = False\<rparr> = (Inr (str ''a.b:443'', start), c)
     \<and> tx c = [0, 0] \<and> exchanged [1, 2] UnexpectedEof \<lparr>rx = [9], rx_end = UnexpectedEof, tx = [], tx_cap = None, tx_shut = False\<rparr> start"
proof -
  let ?u = "replicate 16 7 :: bytes" and ?out = "\<lparr>rx = [9], rx_end = UnexpectedEof, tx = [], tx_cap = None, tx_shut = False\<rparr>"
  let ?w = "\<lparr>w_addons = [], w_command = 1, w_port = 443, w_host = HostName (str ''a.b'')\<rparr>"
  let ?ms = "[Ping [], Binary (enc_request ?u ?w), Text [1, 2]]"
  have t: "host_port (host_text (w_host ?w)) (w_port ?w) = str ''a.b:443''" by (simp add: host_port_def dec.simps)
  have "wire_ok ?w" "w_command ?w = Vless.CMD_TCP" by (simp_all add: wire_ok_def vless_consts)
  moreover have "Close \<notin> set ?ms" "concat (map payload ?ms) = enc_request ?u ?w @ [1, 2]" by simp_all
  ultimately show ?thesis
    using vless_over_websocket [of ?u ?w "\<lambda>_. Connected" ?ms "[1, 2]" ?out "[]" False] by (simp only: t) simp
qed

text \<open>
  C23.  A VLESS connection over XHTTP, end to end.  The upload, a request and its payload, comes either as numbered packets that
  arrive in any order or as the chunks of one streaming request, none of them empty; the handler works on what reading the
  stream returns.  The target is the requested one, the answer is the two bytes of the response, and the relay passes on
  exactly the payload: at every moment the target holds a prefix of it, and all of it once that direction has ended; likewise
  for the target's reply when the target ends cleanly.
\<close>

theorem vless_over_xhttp:
  assumes "length uuid = 16" "wire_ok w" "w_command w = CMD_TCP" "connect (host_port (host_text (w_host w)) (w_port w)) = Connected"
    and "mset us = mset (packets_of ds) \<or> us = map Chunk ds" "length ds < 2 ^ 64" "[] \<notin> set ds"
    and "concat ds = enc_request uuid w @ body" "tx_cap outb = None"
  shows "\<exists>start c. vless_serve connect uuid (xhttp_conn (fed us xhttp_stream_new)) outb
      = (Inr (host_port (host_text (w_host w)) (w_port w), start), c)
    \<and> tx c = [0, 0] \<and> exchanged body UnexpectedEof outb start"
proof -
  let ?s = "fed us xhttp_stream_new"
  have "rx (xhttp_conn ?s) = concat ds"
    using assms(5)
  proof
    assume "mset us = mset (packets_of ds)"
    from fresh_expects [OF this assms(6,7)] have e: "expects 0 ds ?s" .
    then have "complete ?s" by (auto simp: complete_def)
    from xhttp_conn_complete [OF this] to_come_expects [OF e] show ?thesis by (simp add: xhttp_stream_new_def)
  next
    assume "us = map Chunk ds"
    then show ?thesis using xhttp_conn_chunks [of ds ?s] assms(7) by (simp add: xhttp_stream_new_def)
  qed
  with vless_inbound.end_to_end [of uuid w connect "xhttp_conn ?s" body outb] assms(1-4,8,9) show ?thesis
    by (simp add: vless_serve_def)
qed

theorem vless_over_xhttp_witness:
  "\<exists>start c. vless_serve (\<lambda>_. Connected) (replicate 16 7) (xhttp_conn (fed
         [Packet 1 [1, 2], Packet 0 (enc_request (replicate 16 7)
            \<lparr>w_addons = [], w_command = 1, w_port = 443, w_host = HostName (str ''a.b'')\<rparr>)] xhttp_stream_new))
         \<lparr>rx = [9], rx_end = UnexpectedEof, tx = [], tx_cap = None, tx_shut = False\<rparr> = (Inr (str ''a.b:443'', start), c)
     \<and> tx c = [0, 0] \<and> exchanged [1, 2] UnexpectedEof \<lparr>rx = [9], rx_end = UnexpectedEof, tx = [], tx_cap = None, tx_shut = False\<rparr> start"
proof -
  let ?u = "replicate 16 7 :: bytes" and ?out = "\<lparr>rx = [9], rx_end = UnexpectedEof, tx = [], tx_cap = None, tx_shut = False\<rparr>"
  let ?w = "\<lparr>w_addons = [], w_command = 1, w_port = 443, w_host = HostName (str ''a.b'')\<rparr>"
  let ?us = "[Packet 1 [1, 2], Packet 0 (enc_request ?u ?w)]" and ?ds = "[enc_request ?u ?w, [1, 2]]"
  have t: "host_port (host_text (w_host ?w)) (w_port ?w) = str ''a.b:443''" by (simp add: host_port_def dec.simps)
  have "wire_ok ?w" "w_command ?w = Vless.CMD_TCP" by (simp_all add: wire_ok_def vless_consts)
  moreover have "mset ?us = mset (packets_of ?ds)" "[] \<notin> set ?ds"
    by (simp_all add: packets_of_def add_mset_commute) (simp add: enc_request_def)
  ultimately show ?thesis
    using vless_over_xhttp [of ?u ?w "\<lambda>_. Connected" ?us ?ds "[1, 2]" ?out] by (simp only: t) simp
qed

text \<open>
  A Trojan connection, end to end: with the digest of the password and a well-formed destination, the target is the requested one, nothing is
  written in front of the target's reply, and the relay exchanges exactly the payload and the reply.
\<close>

theorem trojan_end_to_end:
  assumes "digest_laws H" "host_ok (fst d)" "connect (dest_text d) = Connected"
    and "rx c = enc_trojan H pw d @ body" "tx_cap c = None" "tx_cap outb = None"
  shows "\<exists>start c'. trojan_serve H connect pw c outb = (Inr (dest_text d, start), c') \<and> tx c' = tx c \<and> exchanged body (rx_end c) outb start"
  using trojan_inbound.end_to_end [of H d connect c pw body outb] assms by (simp add: trojan_serve_def)

theorem trojan_end_to_end_witness:
  "\<exists>start c. trojan_serve (\<lambda>_. replicate 56 97) (\<lambda>_. Connected) (str ''pw'')
         \<lparr>rx = enc_trojan (\<lambda>_. replicate 56 97) (str ''pw'') (HostName (str ''a.b''), 443) @ [1, 2], rx_end = UnexpectedEof,
          tx = [], tx_cap = None, tx_shut = False\<rparr>
         \<lparr>rx = [9], rx_end = UnexpectedEof, tx = [], tx_cap = None, tx_shut = False\<rparr> = (Inr (str ''a.b:443'', start), c)
     \<and> tx c = [] \<and> exchanged [1, 2] UnexpectedEof \<lparr>rx = [9], rx_end = UnexpectedEof, tx = [], tx_cap = None, tx_shut = False\<rparr> start"
proof -
  let ?H = "\<lambda>_ :: rstring. replicate 56 97 :: rstring" and ?d = "(HostName (str ''a.b''), 443 :: u16)"
  have "digest_laws ?H" by (simp add: digest_laws_def)
  moreover have "dest_text ?d = str ''a.b:443''" by (simp add: dest_text_def host_port_def dec.simps)
  ultimately show ?thesis
    using trojan_end_to_end [of ?H ?d "\<lambda>_. Connected" "\<lparr>rx = enc_trojan ?H (str ''pw'') ?d @ [1, 2], rx_end = UnexpectedEof,
        tx = [], tx_cap = None, tx_shut = False\<rparr>" "str ''pw''" "[1, 2]"
        "\<lparr>rx = [9], rx_end = UnexpectedEof, tx = [], tx_cap = None, tx_shut = False\<rparr>"]
    by simp
qed

text \<open>
  A SOCKS5 connection with a user name and password, end to end: after the method and credential replies and the success reply, the relay exchanges exactly
  the payload and the target's reply.
\<close>

theorem socks_end_to_end:
  assumes "users \<noteq> []" "length name < 256" "length pass < 256" "credentials_ok users name pass" "host_ok (fst d)"
    and "connect (dest_text d) = Connected" "tx_cap c = None" "tx_cap outb = None"
    and "rx c = (enc_greeting [METHOD_PASSWORD] @ enc_credentials (name, pass) @ enc_socks_request (CMD_CONNECT, d)) @ body"
  shows "\<exists>start c'. socks_serve connect users c outb = (Inr (dest_text d, start), c')
    \<and> tx c' = tx c @ [5, 2, 1, 0] @ [5, 0, 0, 1, 0, 0, 0, 0, 0, 0] \<and> exchanged body (rx_end c) outb start"
  using socks_inbound.end_to_end [of users "((name, pass), d)" connect c body outb] assms by (simp add: socks_serve_def)

theorem socks_end_to_end_witness:
  "\<exists>start c. socks_serve (\<lambda>_. Connected) [\<lparr>username = str ''u'', password = str ''p''\<rparr>]
         \<lparr>rx = [5, 1, 2] @ [1, 1, 117, 1, 112] @ [5, 1, 0, 3, 3, 97, 46, 98, 0, 80] @ [1, 2], rx_end = UnexpectedEof,
          tx = [], tx_cap = None, tx_shut = False\<rparr>
         \<lparr>rx = [9], rx_end = UnexpectedEof, tx = [], tx_cap = None, tx_shut = False\<rparr> = (Inr (str ''a.b:80'', start), c)
     \<and> exchanged [1, 2] UnexpectedEof \<lparr>rx = [9], rx_end = UnexpectedEof, tx = [], tx_cap = None, tx_shut = False\<rparr> start"
proof -
  let ?d = "(HostName (str ''a.b''), 80 :: u16)" and ?up = "(str ''u'', str ''p'')"
  have e: "enc_greeting [METHOD_PASSWORD] = [5, 1, 2]" "enc_credentials ?up = [1, 1, 117, 1, 112]"
    "enc_socks_request (CMD_CONNECT, ?d) = [5, 1, 0, 3, 3, 97, 46, 98, 0, 80]" "dest_text ?d = str ''a.b:80''"
    by (simp_all add: enc_greeting_def enc_credentials_def enc_socks_request_def enc_socks_dest_def
        socks_consts be_simps dest_text_def host_port_def dec.simps)
  have ok: "credentials_ok [\<lparr>username = str ''u'', password = str ''p''\<rparr>] (str ''u'') (str ''p'')"
    by (simp add: credentials_ok_def utf8_lossy_valid)
  show ?thesis
    using socks_end_to_end [OF _ _ _ ok, where d = ?d and connect = "\<lambda>_. Connected" and body = "[1, 2]"
        and c = "\<lparr>rx = [5, 1, 2] @ [1, 1, 117, 1, 112] @ [5, 1, 0, 3, 3, 97, 46, 98, 0, 80] @ [1, 2], rx_end = UnexpectedEof,
          tx = [], tx_cap = None, tx_shut = False\<rparr>"
        and outb = "\<lparr>rx = [9], rx_end = UnexpectedEof, tx = [], tx_cap = None, tx_shut = False\<rparr>"] e
    by auto
qed

end
