(* ===== verification/Aead_Stream.thy ===== *)
theory Aead_Stream
  imports Byte_Source
begin

text \<open>
  The encrypted byte stream of Shadowsocks 2022 (\<open>shadowsocks/protocol.rs\<close>): ciphers, the nonce
  counter, the chunk reader and the chunk writer.  The primitives of the AEAD crates are a record
  of functions; \<open>aead_laws\<close> says what the code relies on.  The theory shows that nonces do not
  repeat, that the reader is a byte source, that it returns what the writer was given, and
  that it accepts nothing else than what a holder of the key has sealed, in order.
\<close>

section \<open>The model\<close>

datatype shadowsocks_cipher = Blake3Aes128Gcm | Blake3Aes256Gcm | Blake3Chacha20Poly1305

fun key_len :: "shadowsocks_cipher \<Rightarrow> nat" where
  "key_len Blake3Aes128Gcm = 16"
| "key_len Blake3Aes256Gcm = 32"
| "key_len Blake3Chacha20Poly1305 = 32"

definition salt_len :: "shadowsocks_cipher \<Rightarrow> nat" where
  "salt_len cipher = key_len cipher"

definition tag_len :: "shadowsocks_cipher \<Rightarrow> nat" where
  "tag_len cipher = 16"

definition MAX_CHUNK :: nat where "MAX_CHUNK = 0x3FFF"

text \<open>The \<open>encrypt\<close> and \<open>decrypt\<close> methods of the three AEAD types: key, nonce, text.\<close>

type_synonym aead_fun = "bytes \<Rightarrow> bytes \<Rightarrow> bytes \<Rightarrow> bytes option"

record aead_prims =
  aes128_encrypt :: aead_fun
  aes128_decrypt :: aead_fun
  aes256_encrypt :: aead_fun
  aes256_decrypt :: aead_fun
  chacha_encrypt :: aead_fun
  chacha_decrypt :: aead_fun

definition run_aead :: "aead_fun \<Rightarrow> nat \<Rightarrow> bytes \<Rightarrow> bytes \<Rightarrow> bytes \<Rightarrow> bytes option result" where
  "run_aead f n key nonce text =
     (if length key = n then Inr (f key nonce text) else Inl (Bail ''Invalid Length''))"

definition aead_encrypt ::
  "aead_prims \<Rightarrow> shadowsocks_cipher \<Rightarrow> bytes \<Rightarrow> bytes \<Rightarrow> bytes \<Rightarrow> bytes result" where
  "aead_encrypt P cipher key nonce pt =
     and_then
       (case cipher of
          Blake3Aes128Gcm \<Rightarrow> run_aead (aes128_encrypt P) 16 key nonce pt
        | Blake3Aes256Gcm \<Rightarrow> run_aead (aes256_encrypt P) 32 key nonce pt
        | Blake3Chacha20Poly1305 \<Rightarrow> run_aead (chacha_encrypt P) 32 key nonce pt)
       (\<lambda>r. case r of Some ct \<Rightarrow> Inr ct | None \<Rightarrow> Inl (Bail ''AEAD encrypt failed''))"

definition aead_decrypt ::
  "aead_prims \<Rightarrow> shadowsocks_cipher \<Rightarrow> bytes \<Rightarrow> bytes \<Rightarrow> bytes \<Rightarrow> bytes result" where
  "aead_decrypt P cipher key nonce ct =
     and_then
       (case cipher of
          Blake3Aes128Gcm \<Rightarrow> run_aead (aes128_decrypt P) 16 key nonce ct
        | Blake3Aes256Gcm \<Rightarrow> run_aead (aes256_decrypt P) 32 key nonce ct
        | Blake3Chacha20Poly1305 \<Rightarrow> run_aead (chacha_decrypt P) 32 key nonce ct)
       (\<lambda>r. case r of Some pt \<Rightarrow> Inr pt | None \<Rightarrow> Inl (Bail ''AEAD decrypt failed''))"

fun increment_nonce :: "bytes \<Rightarrow> bytes" where
  "increment_nonce [] = []"
| "increment_nonce (b # bs) = (let b' = b + 1 in if b' \<noteq> 0 then b' # bs else b' # increment_nonce bs)"

subsection \<open>The reader\<close>

record aead_reader =
  ar_inner :: conn
  ar_cipher :: shadowsocks_cipher
  ar_subkey :: bytes
  ar_nonce :: bytes
  ar_buf :: bytes

definition reader_new :: "conn \<Rightarrow> shadowsocks_cipher \<Rightarrow> bytes \<Rightarrow> aead_reader" where
  "reader_new inner cipher subkey =
     \<lparr>ar_inner = inner, ar_cipher = cipher, ar_subkey = subkey, ar_nonce = replicate 12 0, ar_buf = []\<rparr>"

definition inner_read :: "(aead_reader \<Rightarrow> nat) \<Rightarrow> (aead_reader, bytes) action" where
  "inner_read n s = (case read_exact (n s) (ar_inner s) of (r, c) \<Rightarrow> (r, s\<lparr>ar_inner := c\<rparr>))"

definition decrypt_next :: "aead_prims \<Rightarrow> bytes \<Rightarrow> (aead_reader, bytes) action" where
  "decrypt_next P ct s =
     (case aead_decrypt P (ar_cipher s) (ar_subkey s) (ar_nonce s) ct of
        Inl e \<Rightarrow> (Inl e, s)
      | Inr pt \<Rightarrow> (Inr pt, s\<lparr>ar_nonce := increment_nonce (ar_nonce s)\<rparr>))"

text \<open>The rest of a chunk after its encrypted length: decrypt the length, read and decrypt the payload.\<close>

definition read_payload :: "aead_prims \<Rightarrow> bytes \<Rightarrow> (aead_reader, bytes) action" where
  "read_payload P len_ct =
     bind_io (decrypt_next P len_ct) (\<lambda>len_pt.
       if length len_pt < 2 then fail_io (Panic ''index out of bounds'')
       else bind_io (inner_read (\<lambda>s. unat (from_be [len_pt ! 0, len_pt ! 1] :: u16) + tag_len (ar_cipher s)))
              (decrypt_next P))"

definition fill_buf :: "aead_prims \<Rightarrow> (aead_reader, bool) action" where
  "fill_buf P s =
     (case inner_read (\<lambda>s. 2 + tag_len (ar_cipher s)) s of
        (Inl e, s1) \<Rightarrow> if e = Io UnexpectedEof then (Inr False, s1) else (Inl e, s1)
      | (Inr len_ct, s1) \<Rightarrow>
          bind_io (read_payload P len_ct) (\<lambda>pt s2. (Inr True, s2\<lparr>ar_buf := ar_buf s2 @ pt\<rparr>)) s1)"

definition take_buf :: "nat \<Rightarrow> (aead_reader, bytes) action" where
  "take_buf n s = (Inr (take n (ar_buf s)), s\<lparr>ar_buf := drop n (ar_buf s)\<rparr>)"

definition read_plain :: "aead_prims \<Rightarrow> nat \<Rightarrow> (aead_reader, bytes) action" where
  "read_plain P n s =
     (if ar_buf s = [] then
        bind_io (fill_buf P) (\<lambda>ok. if \<not> ok then return_io [] else take_buf n) s
      else take_buf n s)"

definition read_header_chunk :: "aead_prims \<Rightarrow> (aead_reader, bytes) action" where
  "read_header_chunk P = bind_io (inner_read (\<lambda>s. 2 + tag_len (ar_cipher s))) (read_payload P)"

subsection \<open>The writer\<close>

record aead_writer =
  aw_inner :: conn
  aw_cipher :: shadowsocks_cipher
  aw_subkey :: bytes
  aw_nonce :: bytes

definition writer_new :: "conn \<Rightarrow> shadowsocks_cipher \<Rightarrow> bytes \<Rightarrow> aead_writer" where
  "writer_new inner cipher subkey =
     \<lparr>aw_inner = inner, aw_cipher = cipher, aw_subkey = subkey, aw_nonce = replicate 12 0\<rparr>"

definition write_raw :: "bytes \<Rightarrow> (aead_writer, unit) action" where
  "write_raw data s = (case write_all data (aw_inner s) of (r, c) \<Rightarrow> (r, s\<lparr>aw_inner := c\<rparr>))"

definition reset_subkey :: "bytes \<Rightarrow> (aead_writer, unit) action" where
  "reset_subkey new_subkey s = (Inr (), s\<lparr>aw_subkey := new_subkey, aw_nonce := replicate 12 0\<rparr>)"

definition encrypt_next :: "aead_prims \<Rightarrow> bytes \<Rightarrow> (aead_writer, bytes) action" where
  "encrypt_next P pt s =
     (case aead_encrypt P (aw_cipher s) (aw_subkey s) (aw_nonce s) pt of
        Inl e \<Rightarrow> (Inl e, s)
      | Inr ct \<Rightarrow> (Inr ct, s\<lparr>aw_nonce := increment_nonce (aw_nonce s)\<rparr>))"

definition write_header_chunk :: "aead_prims \<Rightarrow> bytes \<Rightarrow> (aead_writer, unit) action" where
  "write_header_chunk P data =
     (let chunk_len = length data;
          len_pt = [of_nat (drop_bit 8 chunk_len), of_nat chunk_len]
      in bind_io (encrypt_next P len_pt) (\<lambda>len_ct.
         bind_io (encrypt_next P data) (\<lambda>payload_ct.
         bind_io (write_raw len_ct) (\<lambda>_.
           write_raw payload_ct))))"

function write_data :: "aead_prims \<Rightarrow> bytes \<Rightarrow> (aead_writer, unit) action" where
  "write_data P data =
     (if data = [] then return_io ()
      else let chunk_len = min (length data) MAX_CHUNK
           in bind_io (write_header_chunk P (take chunk_len data)) (\<lambda>_. write_data P (drop chunk_len data)))"
  by pat_completeness auto
termination
  by (relation "measure (\<lambda>(P, data). length data)") (auto simp: MAX_CHUNK_def)

declare write_data.simps [simp del]

section \<open>What the primitives promise\<close>

text \<open>
  For a key and a nonce of the right lengths: sealing succeeds on every text of a chunk's size and
  adds a 16-byte tag, and a text opens to a plaintext exactly when it is that plaintext's
  sealing (the tag is recomputed and compared).
\<close>

definition aead_pair :: "nat \<Rightarrow> aead_fun \<Rightarrow> aead_fun \<Rightarrow> bool" where
  "aead_pair klen sealing opening \<longleftrightarrow>
     (\<forall>k n. length k = klen \<and> length n = 12 \<longrightarrow>
        (\<forall>pt. length pt < 65536 \<longrightarrow> sealing k n pt \<noteq> None)
        \<and> (\<forall>pt ct. sealing k n pt = Some ct \<longrightarrow> length ct = length pt + 16)
        \<and> (\<forall>pt ct. opening k n ct = Some pt \<longleftrightarrow> sealing k n pt = Some ct))"

definition aead_laws :: "aead_prims \<Rightarrow> bool" where
  "aead_laws P \<longleftrightarrow>
     aead_pair 16 (aes128_encrypt P) (aes128_decrypt P)
     \<and> aead_pair 32 (aes256_encrypt P) (aes256_decrypt P)
     \<and> aead_pair 32 (chacha_encrypt P) (chacha_decrypt P)"

lemma aead_pick:
  assumes "aead_laws P" "length k = key_len ci"
  obtains E D where "aead_pair (key_len ci) E D"
    "\<And>n t. aead_encrypt P ci k n t = (case E k n t of Some ct \<Rightarrow> Inr ct | None \<Rightarrow> Inl (Bail ''AEAD encrypt failed''))"
    "\<And>n t. aead_decrypt P ci k n t = (case D k n t of Some pt \<Rightarrow> Inr pt | None \<Rightarrow> Inl (Bail ''AEAD decrypt failed''))"
proof (cases ci)
  case Blake3Aes128Gcm
  with assms show ?thesis
    by (intro that [of "aes128_encrypt P" "aes128_decrypt P"])
      (simp_all add: aead_laws_def aead_encrypt_def aead_decrypt_def run_aead_def)
next
  case Blake3Aes256Gcm
  with assms show ?thesis
    by (intro that [of "aes256_encrypt P" "aes256_decrypt P"])
      (simp_all add: aead_laws_def aead_encrypt_def aead_decrypt_def run_aead_def)
next
  case Blake3Chacha20Poly1305
  with assms show ?thesis
    by (intro that [of "chacha_encrypt P" "chacha_decrypt P"])
      (simp_all add: aead_laws_def aead_encrypt_def aead_decrypt_def run_aead_def)
qed

lemma aead_facts:
  assumes "aead_laws P" "length k = key_len ci" "length n = 12"
  shows aead_seals: "length pt < 65536 \<Longrightarrow> \<exists>ct. aead_encrypt P ci k n pt = Inr ct"
    and aead_tag: "aead_encrypt P ci k n pt = Inr ct \<Longrightarrow> length ct = length pt + 16"
    and aead_opens: "aead_decrypt P ci k n ct = Inr pt \<longleftrightarrow> aead_encrypt P ci k n pt = Inr ct"
proof -
  obtain E D where pair: "aead_pair (key_len ci) E D"
    and e: "\<And>n t. aead_encrypt P ci k n t = (case E k n t of Some ct \<Rightarrow> Inr ct | None \<Rightarrow> Inl (Bail ''AEAD encrypt failed''))"
    and d: "\<And>n t. aead_decrypt P ci k n t = (case D k n t of Some pt \<Rightarrow> Inr pt | None \<Rightarrow> Inl (Bail ''AEAD decrypt failed''))"
    by (rule aead_pick [OF assms(1,2)]) blast
  from pair assms(2,3) have
    p: "\<And>pt. length pt < 65536 \<Longrightarrow> E k n pt \<noteq> None"
      "\<And>pt ct. E k n pt = Some ct \<Longrightarrow> length ct = length pt + 16"
      "\<And>pt ct. D k n ct = Some pt \<longleftrightarrow> E k n pt = Some ct"
    unfolding aead_pair_def by blast+
  show "\<exists>ct. aead_encrypt P ci k n pt = Inr ct" if "length pt < 65536"
    using p(1) [OF that] by (auto simp: e)
  show "length ct = length pt + 16" if "aead_encrypt P ci k n pt = Inr ct"
    using that p(2) by (auto simp: e split: option.splits)
  show "aead_decrypt P ci k n ct = Inr pt \<longleftrightarrow> aead_encrypt P ci k n pt = Inr ct"
    using p(3) [of ct pt] by (auto simp: e d split: option.splits)
qed

text \<open>What a holder of the key puts on the wire for a list of chunks, from a given nonce on.\<close>

definition sealed_text :: "aead_prims \<Rightarrow> shadowsocks_cipher \<Rightarrow> bytes \<Rightarrow> bytes \<Rightarrow> bytes \<Rightarrow> bytes" where
  "sealed_text P ci k n pt = (case aead_encrypt P ci k n pt of Inr ct \<Rightarrow> ct | Inl _ \<Rightarrow> [])"

definition seal_chunk :: "aead_prims \<Rightarrow> shadowsocks_cipher \<Rightarrow> bytes \<Rightarrow> bytes \<Rightarrow> bytes \<Rightarrow> bytes" where
  "seal_chunk P ci k n d =
     sealed_text P ci k n (to_be 2 (of_nat (length d) :: u16)) @ sealed_text P ci k (increment_nonce n) d"

fun seal_chunks :: "aead_prims \<Rightarrow> shadowsocks_cipher \<Rightarrow> bytes \<Rightarrow> bytes \<Rightarrow> bytes list \<Rightarrow> bytes" where
  "seal_chunks P ci k n [] = []"
| "seal_chunks P ci k n (d # ds) =
     seal_chunk P ci k n d @ seal_chunks P ci k (increment_nonce (increment_nonce n)) ds"

section \<open>The nonce counter\<close>

fun le_val :: "bytes \<Rightarrow> nat" where
  "le_val [] = 0"
| "le_val (b # bs) = unat b + 256 * le_val bs"

lemma length_increment [simp]: "length (increment_nonce bs) = length bs"
  by (induction bs) (simp_all add: Let_def)

lemma le_val_less: "le_val bs < 256 ^ length bs"
proof (induction bs)
  case (Cons b bs)
  then show ?case using unat_u8_less [of b] by simp
qed simp

lemma le_val_inject: "length xs = length ys \<Longrightarrow> le_val xs = le_val ys \<Longrightarrow> xs = ys"
proof (induction xs ys rule: list_induct2)
  case (Cons x xs y ys)
  have digits: "unat b = le_val (b # bs) mod 256" "le_val bs = le_val (b # bs) div 256" for b bs
    using unat_u8_less [of b] by simp_all
  have "unat x = unat y" "le_val xs = le_val ys"
    using Cons.prems digits [where b = x and bs = xs] digits [where b = y and bs = ys] by argo+
  then show ?case using Cons.IH by (simp add: word_unat_eq_iff)
qed simp

lemma unat_u8_succ: "unat (b + 1 :: u8) = (if b + 1 = 0 then 0 else unat b + 1)"
proof -
  have u: "unat (b + 1) = (unat b + 1) mod 256" by (simp add: unat_word_ariths)
  show ?thesis
  proof (cases "b + 1 = 0")
    case False
    then have "(unat b + 1) mod 256 \<noteq> 0" using u by (metis unat_eq_zero)
    then have "unat b + 1 < 256" using unat_u8_less [of b] by (cases "unat b = 255") simp_all
    with u False show ?thesis by simp
  qed simp
qed

lemma le_val_increment: "le_val (increment_nonce bs) = (le_val bs + 1) mod 256 ^ length bs"
proof (induction bs)
  case (Cons b bs)
  show ?case
  proof (cases "b + 1 = 0")
    case True
    have "unat (b + 1) = (unat b + 1) mod 256" by (simp add: unat_word_ariths)
    with True have "(unat b + 1) mod 256 = 0" by simp
    with unat_u8_less [of b] have b: "unat b = 255" by (cases "unat b + 1 < 256") auto
    have "(256 + 256 * le_val bs) mod (256 * 256 ^ length bs) = 256 * ((le_val bs + 1) mod 256 ^ length bs)"
      using mult_mod_right [of 256 "le_val bs + 1" "256 ^ length bs"] by (simp add: algebra_simps)
    with True b Cons show ?thesis by (simp add: Let_def)
  next
    case False
    then have "le_val ((b + 1) # bs) = le_val (b # bs) + 1" using unat_u8_succ [of b] by simp
    with False le_val_less [of "(b + 1) # bs"] show ?thesis by (simp add: Let_def)
  qed
qed simp

lemma le_val_zeros [simp]: "le_val (replicate n 0) = 0"
  by (induction n) simp_all

definition nonce_at :: "nat \<Rightarrow> bytes" where
  "nonce_at i = (increment_nonce ^^ i) (replicate 12 0)"

lemma nonce_at_simps [simp]:
  "nonce_at 0 = replicate 12 0" "increment_nonce (nonce_at i) = nonce_at (Suc i)" "length (nonce_at i) = 12"
proof -
  show "length (nonce_at i) = 12" unfolding nonce_at_def by (induction i) simp_all
qed (simp_all add: nonce_at_def)

lemma nonce_at_val: "le_val (nonce_at i) = i mod 2 ^ 96"
proof (induction i)
  case 0
  then show ?case by (simp only: nonce_at_simps le_val_zeros mod_0)
next
  case (Suc i)
  have "le_val (nonce_at (Suc i)) = (le_val (nonce_at i) + 1) mod 256 ^ 12"
    using le_val_increment [of "nonce_at i"] by simp
  with Suc show ?case by (simp add: mod_Suc_eq)
qed

section \<open>Reading one chunk\<close>

abbreviation with_rx :: "aead_reader \<Rightarrow> bytes \<Rightarrow> aead_reader" where
  "with_rx s bs \<equiv> s\<lparr>ar_inner := (ar_inner s)\<lparr>rx := bs\<rparr>\<rparr>"

abbreviation two_on :: "bytes \<Rightarrow> bytes" where
  "two_on n \<equiv> increment_nonce (increment_nonce n)"

definition keyed :: "aead_prims \<Rightarrow> aead_reader \<Rightarrow> bool" where
  "keyed P s \<longleftrightarrow> aead_laws P \<and> length (ar_subkey s) = key_len (ar_cipher s) \<and> length (ar_nonce s) = 12"

lemma sealed_text_Inr: "aead_encrypt P ci k n pt = Inr ct \<Longrightarrow> sealed_text P ci k n pt = ct"
  by (simp add: sealed_text_def)

lemma inner_read_ok:
  "inner_read n s = (Inr a, s') \<longleftrightarrow>
     (\<exists>ys. rx (ar_inner s) = a @ ys \<and> length a = n s \<and> s' = with_rx s ys)"
proof
  assume "inner_read n s = (Inr a, s')"
  then show "\<exists>ys. rx (ar_inner s) = a @ ys \<and> length a = n s \<and> s' = with_rx s ys"
    by (auto simp: inner_read_def split: prod.splits dest!: read_exact_ok intro!: exI [of _ "drop (n s) (rx (ar_inner s))"])
next
  assume "\<exists>ys. rx (ar_inner s) = a @ ys \<and> length a = n s \<and> s' = with_rx s ys"
  then obtain ys where "rx (ar_inner s) = a @ ys" "length a = n s" "s' = with_rx s ys" by blast
  then show "inner_read n s = (Inr a, s')"
    by (simp add: inner_read_def read_exact_def)
qed

lemma decrypt_next_ok:
  assumes "keyed P s"
  shows "decrypt_next P ct s = (Inr pt, s') \<longleftrightarrow>
     aead_encrypt P (ar_cipher s) (ar_subkey s) (ar_nonce s) pt = Inr ct
     \<and> s' = s\<lparr>ar_nonce := increment_nonce (ar_nonce s)\<rparr>"
  using aead_opens [of P "ar_subkey s" "ar_cipher s" "ar_nonce s" ct pt] assms
  by (auto simp: decrypt_next_def keyed_def split: sum.splits)

text \<open>
  A chunk is read exactly when the wire starts with the sealing of that chunk under the current
  nonce and the next one.
\<close>

lemma read_chunk_iff:
  assumes "keyed P s"
  shows "read_header_chunk P s = (Inr d, s') \<longleftrightarrow>
    length d < 65536 \<and> (\<exists>ys. rx (ar_inner s) = seal_chunk P (ar_cipher s) (ar_subkey s) (ar_nonce s) d @ ys
      \<and> s' = (with_rx s ys)\<lparr>ar_nonce := two_on (ar_nonce s)\<rparr>)"
    (is "?L \<longleftrightarrow> ?R")
proof -
  let ?E = "aead_encrypt P (ar_cipher s) (ar_subkey s)" and ?n = "ar_nonce s"
  have laws: "aead_laws P" "length (ar_subkey s) = key_len (ar_cipher s)" "length ?n = 12"
    "length (increment_nonce ?n) = 12"
    using assms by (simp_all add: keyed_def)
  note tag = aead_tag [OF laws(1,2,3)] aead_tag [OF laws(1,2,4)]
  note seals = aead_seals [OF laws(1,2,3)] aead_seals [OF laws(1,2,4)]
  have k: "keyed P (with_rx s ys)" "keyed P ((with_rx s ys)\<lparr>ar_nonce := increment_nonce ?n\<rparr>)" for ys
    using assms by (simp_all add: keyed_def)
  show ?thesis
  proof
    assume ?L
    then obtain lc s1 where 1: "inner_read (\<lambda>s. 2 + tag_len (ar_cipher s)) s = (Inr lc, s1)"
      and 2: "read_payload P lc s1 = (Inr d, s')"
      by (auto simp: read_header_chunk_def bind_io_eq_Inr)
    from 1 obtain ys where ys: "rx (ar_inner s) = lc @ ys" "length lc = 18" "s1 = with_rx s ys"
      by (auto simp: inner_read_ok tag_len_def)
    from 2 obtain lp s2 where 3: "decrypt_next P lc s1 = (Inr lp, s2)" "\<not> length lp < 2"
      and 4: "bind_io (inner_read (\<lambda>s. unat (from_be [lp ! 0, lp ! 1] :: u16) + tag_len (ar_cipher s)))
        (decrypt_next P) s2 = (Inr d, s')"
      by (auto simp: read_payload_def bind_io_eq_Inr fail_io_def split: if_splits)
    from 3(1) have lp: "?E ?n lp = Inr lc" "s2 = (with_rx s ys)\<lparr>ar_nonce := increment_nonce ?n\<rparr>"
      using decrypt_next_ok [OF k(1)] by (auto simp: ys(3))
    from tag(1) [OF lp(1)] ys(2) have "length lp = 2" by simp
    then obtain a b where ab: "lp = [a, b]" by (auto simp: numeral_2_eq_2 length_Suc_conv)
    let ?w = "from_be [a, b] :: u16"
    from 4 obtain pc s3 where 5: "inner_read (\<lambda>s. unat ?w + tag_len (ar_cipher s)) s2 = (Inr pc, s3)"
      "decrypt_next P pc s3 = (Inr d, s')"
      by (auto simp: bind_io_eq_Inr ab)
    from 5(1) obtain zs where zs: "ys = pc @ zs" "length pc = unat ?w + 16"
      "s3 = (with_rx s zs)\<lparr>ar_nonce := increment_nonce ?n\<rparr>"
      by (auto simp: inner_read_ok tag_len_def lp(2))
    from 5(2) have d: "?E (increment_nonce ?n) d = Inr pc" "s' = (with_rx s zs)\<lparr>ar_nonce := two_on ?n\<rparr>"
      using decrypt_next_ok [OF k(2)] by (auto simp: zs(3))
    have len: "length d = unat ?w" using tag(2) [OF d(1)] zs(2) by simp
    then have "to_be 2 (of_nat (length d) :: u16) = [a, b]"
      using to_be_from_be_eq [of "[a, b]" 2, where 'a = 16] by simp
    with lp(1) d(1) ys(1) zs(1) have
      "rx (ar_inner s) = seal_chunk P (ar_cipher s) (ar_subkey s) ?n d @ zs"
      by (simp add: seal_chunk_def sealed_text_Inr ab)
    with d(2) len unat_u16_less [of ?w] show ?R by auto
  next
    assume ?R
    then obtain ys where d: "length d < 65536"
      and ys: "rx (ar_inner s) = seal_chunk P (ar_cipher s) (ar_subkey s) ?n d @ ys"
      "s' = (with_rx s ys)\<lparr>ar_nonce := two_on ?n\<rparr>" by blast
    let ?lp = "to_be 2 (of_nat (length d) :: u16)"
    obtain lc where lc: "?E ?n ?lp = Inr lc" using seals(1) [of ?lp] by auto
    obtain pc where pc: "?E (increment_nonce ?n) d = Inr pc" using seals(2) [OF d] by auto
    have len: "length lc = 18" "length pc = length d + 16" using tag(1) [OF lc] tag(2) [OF pc] by simp_all
    have w: "unat (from_be [?lp ! 0, ?lp ! 1] :: u16) = length d"
    proof -
      have "[?lp ! 0, ?lp ! 1] = ?lp" by (simp add: be_simps)
      then show ?thesis using d by (simp add: unat_u16_of_nat)
    qed
    have rx: "rx (ar_inner s) = lc @ pc @ ys" using ys(1) lc pc by (simp add: seal_chunk_def sealed_text_Inr)
    have 1: "inner_read (\<lambda>s. 2 + tag_len (ar_cipher s)) s = (Inr lc, with_rx s (pc @ ys))"
      using rx len by (simp add: inner_read_ok tag_len_def)
    have 2: "decrypt_next P lc (with_rx s (pc @ ys))
        = (Inr ?lp, (with_rx s (pc @ ys))\<lparr>ar_nonce := increment_nonce ?n\<rparr>)"
      using decrypt_next_ok [OF k(1)] lc by simp
    have 3: "inner_read (\<lambda>s. length d + tag_len (ar_cipher s)) ((with_rx s (pc @ ys))\<lparr>ar_nonce := increment_nonce ?n\<rparr>)
        = (Inr pc, (with_rx s ys)\<lparr>ar_nonce := increment_nonce ?n\<rparr>)"
      using len by (simp add: inner_read_ok tag_len_def)
    have 4: "decrypt_next P pc ((with_rx s ys)\<lparr>ar_nonce := increment_nonce ?n\<rparr>) = (Inr d, s')"
      using decrypt_next_ok [OF k(2)] pc ys(2) by simp
    show ?L
      unfolding read_header_chunk_def bind_io_Inr [where m = "inner_read _", OF 1] read_payload_def
        bind_io_Inr [where m = "decrypt_next P _", OF 2] w
      by (simp add: bind_io_Inr [where m = "inner_read _", OF 3] 4)
  qed
qed

section \<open>The reader is a byte source\<close>

lemma decrypt_next_inner: "decrypt_next P ct s = (r, s') \<Longrightarrow> ar_inner s' = ar_inner s \<and> ar_buf s' = ar_buf s"
  by (auto simp: decrypt_next_def split: sum.splits)

lemma inner_read_length: "inner_read n s = (Inr a, s') \<Longrightarrow>
    length (rx (ar_inner s')) + n s = length (rx (ar_inner s)) \<and> ar_buf s' = ar_buf s"
  by (auto simp: inner_read_ok)

lemma read_payload_length:
  "read_payload P ct s = (Inr pt, s') \<Longrightarrow> length (rx (ar_inner s')) \<le> length (rx (ar_inner s)) \<and> ar_buf s' = ar_buf s"
  by (fastforce simp: read_payload_def bind_io_eq_Inr fail_io_def split: if_splits
      dest!: decrypt_next_inner inner_read_length)

lemma read_chunk_length:
  assumes "read_header_chunk P s = (Inr pt, s')"
  shows "length (rx (ar_inner s')) < length (rx (ar_inner s)) \<and> ar_buf s' = ar_buf s"
proof -
  from assms obtain ct s1 where "inner_read (\<lambda>s. 2 + tag_len (ar_cipher s)) s = (Inr ct, s1)"
    "read_payload P ct s1 = (Inr pt, s')"
    by (auto simp: read_header_chunk_def bind_io_eq_Inr)
  from inner_read_length [OF this(1)] read_payload_length [OF this(2)] show ?thesis by simp
qed

text \<open>The non-empty chunks the reader still returns.\<close>

function plain_chunks :: "aead_prims \<Rightarrow> aead_reader \<Rightarrow> bytes list" where
  "plain_chunks P s =
     (case read_header_chunk P s of
        (Inr pt, s') \<Rightarrow> if pt = [] then [] else pt # plain_chunks P s'
      | (Inl _, _) \<Rightarrow> [])"
  by pat_completeness auto
termination
  by (relation "measure (\<lambda>(P, s). length (rx (ar_inner s)))")
    (auto dest!: sym [of "(Inr _, _)"] read_chunk_length)

declare plain_chunks.simps [simp del]

definition plain_avail :: "aead_prims \<Rightarrow> aead_reader \<Rightarrow> bytes" where
  "plain_avail P s = ar_buf s @ concat (plain_chunks P s)"

text \<open>How the uplink loop reads: an error ends it like the end of the stream.\<close>

definition read_or_stop :: "aead_prims \<Rightarrow> nat \<Rightarrow> aead_reader \<Rightarrow> bytes \<times> aead_reader" where
  "read_or_stop P n s = (case read_plain P n s of (Inr bs, s') \<Rightarrow> (bs, s') | (Inl _, s') \<Rightarrow> ([], s'))"

lemma fill_buf_chunk:
  assumes "read_header_chunk P s = (Inr pt, s')"
  shows "fill_buf P s = (Inr True, s'\<lparr>ar_buf := ar_buf s @ pt\<rparr>)"
proof -
  from assms obtain ct s1 where 1: "inner_read (\<lambda>s. 2 + tag_len (ar_cipher s)) s = (Inr ct, s1)"
    "read_payload P ct s1 = (Inr pt, s')"
    by (auto simp: read_header_chunk_def bind_io_eq_Inr)
  with inner_read_length [OF 1(1)] read_payload_length [OF 1(2)] show ?thesis
    unfolding fill_buf_def 1(1) by (simp add: bind_io_def)
qed

lemma fill_buf_no_chunk:
  "read_header_chunk P s = (Inl e, s') \<Longrightarrow> \<exists>s'. fill_buf P s = (Inr False, s') \<or> (\<exists>e. fill_buf P s = (Inl e, s'))"
  by (auto simp: read_header_chunk_def fill_buf_def bind_io_def split: prod.splits sum.splits)

lemma read_chunk_buf:
  "read_header_chunk P (s\<lparr>ar_buf := b\<rparr>)
     = (case read_header_chunk P s of (r, s') \<Rightarrow> (r, s'\<lparr>ar_buf := b\<rparr>))"
  by (auto simp: read_header_chunk_def read_payload_def bind_io_def inner_read_def decrypt_next_def fail_io_def
      split: prod.splits sum.splits)

lemma plain_chunks_buf: "plain_chunks P (s\<lparr>ar_buf := b\<rparr>) = plain_chunks P s"
proof (induction P s arbitrary: b rule: plain_chunks.induct)
  case (1 P s)
  obtain r s' where r: "read_header_chunk P s = (r, s')" by fastforce
  show ?case
  proof (cases r)
    case (Inl e)
    with r show ?thesis by (simp add: plain_chunks.simps read_chunk_buf)
  next
    case (Inr pt)
    with r "1.IH" [OF r [symmetric, unfolded Inr] refl] show ?thesis
      by (subst (1 2) plain_chunks.simps) (simp add: read_chunk_buf)
  qed
qed

lemma read_or_stop_buf:
  "ar_buf s \<noteq> [] \<Longrightarrow> read_or_stop P n s = (take n (ar_buf s), s\<lparr>ar_buf := drop n (ar_buf s)\<rparr>)"
  by (simp add: read_or_stop_def read_plain_def take_buf_def)

lemma read_or_stop_chunk:
  assumes "ar_buf s = []" "read_header_chunk P s = (Inr pt, s')"
  shows "read_or_stop P n s = (take n pt, s'\<lparr>ar_buf := drop n pt\<rparr>)"
  using assms fill_buf_chunk [OF assms(2)] by (simp add: read_or_stop_def read_plain_def bind_io_def take_buf_def)

lemma read_or_stop_none:
  assumes "ar_buf s = []" "read_header_chunk P s = (Inl e, s')"
  shows "fst (read_or_stop P n s) = []"
  using fill_buf_no_chunk [OF assms(2)] assms(1)
  by (auto simp: read_or_stop_def read_plain_def bind_io_def return_io_def)

lemma plain_avail_simps:
  assumes "ar_buf s = []"
  shows "read_header_chunk P s = (Inl e, s') \<Longrightarrow> plain_avail P s = []"
    and "read_header_chunk P s = (Inr [], s') \<Longrightarrow> plain_avail P s = []"
    and "read_header_chunk P s = (Inr pt, s') \<Longrightarrow> pt \<noteq> [] \<Longrightarrow> plain_avail P s = pt @ concat (plain_chunks P s')"
  using assms by (simp_all add: plain_avail_def plain_chunks.simps [of P s])

lemma read_or_stop_eof: "plain_avail P s = [] \<Longrightarrow> fst (read_or_stop P n s) = []"
proof -
  assume a: "plain_avail P s = []"
  then have b: "ar_buf s = []" by (simp add: plain_avail_def)
  obtain r s' where r: "read_header_chunk P s = (r, s')" by fastforce
  show ?thesis
  proof (cases r)
    case (Inl e)
    with r read_or_stop_none [OF b] show ?thesis by blast
  next
    case (Inr pt)
    with r a plain_avail_simps(3) [OF b, of P pt s'] have "pt = []" by (cases "pt = []") simp_all
    with r Inr read_or_stop_chunk [OF b, of P pt s'] show ?thesis by simp
  qed
qed

lemma read_or_stop_some:
  assumes "0 < n" "plain_avail P s \<noteq> []"
  shows "fst (read_or_stop P n s) \<noteq> [] \<and> length (fst (read_or_stop P n s)) \<le> n
    \<and> plain_avail P s = fst (read_or_stop P n s) @ plain_avail P (snd (read_or_stop P n s))"
proof (cases "ar_buf s = []")
  case b: True
  obtain r s' where r: "read_header_chunk P s = (r, s')" by fastforce
  obtain pt where r1: "r = Inr pt" using assms(2) r plain_avail_simps(1) [OF b] by (cases r) auto
  moreover have "pt \<noteq> []"
  proof
    assume "pt = []"
    with r r1 plain_avail_simps(2) [OF b, of P s'] assms(2) show False by simp
  qed
  ultimately have pt: "r = Inr pt" "pt \<noteq> []" by simp_all
  with r have "read_or_stop P n s = (take n pt, s'\<lparr>ar_buf := drop n pt\<rparr>)"
    "plain_avail P s = pt @ concat (plain_chunks P s')"
    using read_or_stop_chunk [OF b] plain_avail_simps(3) [OF b] by auto
  with pt assms(1) show ?thesis by (simp add: plain_avail_def plain_chunks_buf)
next
  case False
  with assms(1) show ?thesis by (simp add: read_or_stop_buf plain_avail_def plain_chunks_buf)
qed

interpretation aead_source: total_byte_source "read_or_stop P" "plain_avail P"
  by unfold_locales (erule read_or_stop_eof, erule (1) read_or_stop_some, rule TrueI)

section \<open>Writer and reader\<close>

lemma keyed_with [simp]:
  "keyed P (with_rx s bs) = keyed P s"
  "keyed P (s\<lparr>ar_nonce := two_on (ar_nonce s)\<rparr>) = keyed P s"
  "keyed P ((with_rx s bs)\<lparr>ar_nonce := two_on (ar_nonce s)\<rparr>) = keyed P s"
  by (simp_all add: keyed_def)

text \<open>Whatever is on the wire, the reader only returns what a holder of the key has sealed, in order.\<close>

lemma plain_chunks_sealed:
  "keyed P s \<Longrightarrow> \<exists>ys. rx (ar_inner s)
     = seal_chunks P (ar_cipher s) (ar_subkey s) (ar_nonce s) (plain_chunks P s) @ ys"
proof (induction P s rule: plain_chunks.induct)
  case (1 P s)
  obtain r s' where r: "read_header_chunk P s = (r, s')" by fastforce
  show ?case
  proof (cases "\<exists>pt. r = Inr pt \<and> pt \<noteq> []")
    case False
    with r have "plain_chunks P s = []" by (cases r) (simp_all add: plain_chunks.simps)
    then show ?thesis by simp
  next
    case True
    then obtain pt where pt: "r = Inr pt" "pt \<noteq> []" by blast
    with r have ch: "read_header_chunk P s = (Inr pt, s')" by simp
    then obtain ys where ys: "rx (ar_inner s) = seal_chunk P (ar_cipher s) (ar_subkey s) (ar_nonce s) pt @ ys"
      "s' = (with_rx s ys)\<lparr>ar_nonce := two_on (ar_nonce s)\<rparr>"
      using read_chunk_iff [OF "1.prems"] by blast
    from "1.IH" [OF ch [symmetric] refl pt(2)] "1.prems" ys(2) obtain zs where
      "ys = seal_chunks P (ar_cipher s) (ar_subkey s) (two_on (ar_nonce s)) (plain_chunks P s') @ zs"
      by auto
    with ys(1) ch pt(2) show ?thesis by (simp add: plain_chunks.simps [of P s])
  qed
qed

text \<open>What was sealed is returned, up to the first empty chunk, which ends the reads.\<close>

lemma plain_chunks_seal_any:
  assumes "keyed P s" "\<forall>d \<in> set ds. length d < 65536"
  shows "plain_chunks P (with_rx s (seal_chunks P (ar_cipher s) (ar_subkey s) (ar_nonce s) ds)) = takeWhile (\<lambda>d. d \<noteq> []) ds"
  using assms
proof (induction ds arbitrary: s)
  case Nil
  have "fst (inner_read (\<lambda>s. 2 + tag_len (ar_cipher s)) (with_rx s [])) = Inl (Io (rx_end (ar_inner s)))"
    by (simp add: inner_read_def read_exact_def)
  then have "\<exists>e s'. read_header_chunk P (with_rx s []) = (Inl e, s')"
    by (auto simp: read_header_chunk_def bind_io_def split: prod.splits)
  then show ?case by (auto simp: plain_chunks.simps)
next
  case (Cons d ds)
  let ?rest = "seal_chunks P (ar_cipher s) (ar_subkey s) (two_on (ar_nonce s)) ds"
  let ?s = "with_rx s (seal_chunks P (ar_cipher s) (ar_subkey s) (ar_nonce s) (d # ds))"
  let ?t = "(with_rx s ?rest)\<lparr>ar_nonce := two_on (ar_nonce s)\<rparr>"
  have "read_header_chunk P ?s = (Inr d, ?t)"
    using Cons.prems by (subst read_chunk_iff) simp_all
  moreover have "?t = with_rx (s\<lparr>ar_nonce := two_on (ar_nonce s)\<rparr>) ?rest" by (cases s) simp
  then have "plain_chunks P ?t = takeWhile (\<lambda>d. d \<noteq> []) ds"
    unfolding \<open>?t = _\<close> using Cons.IH [of "s\<lparr>ar_nonce := two_on (ar_nonce s)\<rparr>"] Cons.prems by simp
  ultimately show ?case by (subst plain_chunks.simps) simp
qed

lemma plain_chunks_seal:
  assumes "keyed P s" "\<forall>d \<in> set ds. d \<noteq> [] \<and> length d < 65536"
  shows "plain_chunks P (with_rx s (seal_chunks P (ar_cipher s) (ar_subkey s) (ar_nonce s) ds)) = ds"
proof -
  have "takeWhile (\<lambda>d. d \<noteq> []) ds = ds" using assms(2) by (simp add: takeWhile_eq_all_conv)
  with plain_chunks_seal_any [OF assms(1)] assms(2) show ?thesis by simp
qed

text \<open>The pieces that one call of \<open>write_data\<close> seals.\<close>

function data_chunks :: "bytes \<Rightarrow> bytes list" where
  "data_chunks data = (if data = [] then [] else take MAX_CHUNK data # data_chunks (drop MAX_CHUNK data))"
  by pat_completeness auto
termination
  by (relation "measure length") (auto simp: MAX_CHUNK_def)

declare data_chunks.simps [simp del]

lemma data_chunks_props:
  "concat (data_chunks data) = data \<and> (\<forall>d \<in> set (data_chunks data). d \<noteq> [] \<and> length d < 65536)"
proof (induction data rule: data_chunks.induct)
  case (1 data)
  show ?case
  proof (cases "data = []")
    case False
    have "take MAX_CHUNK data \<noteq> []" "length (take MAX_CHUNK data) < 65536"
      using False by (simp_all add: MAX_CHUNK_def)
    moreover have "data_chunks data = take MAX_CHUNK data # data_chunks (drop MAX_CHUNK data)"
      using False by (subst data_chunks.simps) simp
    ultimately show ?thesis using "1.IH" [OF False] by simp
  qed (simp add: data_chunks.simps)
qed

definition writes :: "aead_prims \<Rightarrow> aead_writer \<Rightarrow> bool" where
  "writes P w \<longleftrightarrow> aead_laws P \<and> length (aw_subkey w) = key_len (aw_cipher w) \<and> length (aw_nonce w) = 12
     \<and> tx_cap (aw_inner w) = None"

abbreviation after :: "aead_prims \<Rightarrow> bytes list \<Rightarrow> aead_writer \<Rightarrow> aead_writer" where
  "after P ds w \<equiv> w\<lparr>aw_inner := (aw_inner w)\<lparr>tx := tx (aw_inner w)
      @ seal_chunks P (aw_cipher w) (aw_subkey w) (aw_nonce w) ds\<rparr>,
    aw_nonce := (increment_nonce ^^ (2 * length ds)) (aw_nonce w)\<rparr>"

lemma seal_chunks_append:
  "seal_chunks P ci k n (xs @ ys)
     = seal_chunks P ci k n xs @ seal_chunks P ci k ((increment_nonce ^^ (2 * length xs)) n) ys"
  by (induction xs arbitrary: n) (simp_all add: funpow_swap1)

lemma length_increments [simp]: "length ((increment_nonce ^^ i) n) = length n"
  by (induction i) simp_all

lemma writes_after [simp]: "writes P (after P ds w) = writes P w"
  by (simp add: writes_def)

lemma to_be_two: "to_be 2 (of_nat n :: u16) = [of_nat (drop_bit 8 n), of_nat n]"
  by (simp add: be_simps del: unsigned_of_nat) (intro conjI bit_word_eqI; auto simp: bit_simps)

lemma write_chunk:
  assumes "writes P w" "length d < 65536"
  shows "write_header_chunk P d w = (Inr (), after P [d] w)"
proof -
  let ?E = "aead_encrypt P (aw_cipher w) (aw_subkey w)" and ?n = "aw_nonce w"
  let ?lp = "to_be 2 (of_nat (length d) :: u16)"
  have laws: "aead_laws P" "length (aw_subkey w) = key_len (aw_cipher w)" "length ?n = 12"
    "length (increment_nonce ?n) = 12" and cap: "tx_cap (aw_inner w) = None"
    using assms by (simp_all add: writes_def)
  obtain lc where lc: "?E ?n ?lp = Inr lc" using aead_seals [OF laws(1,2,3), of ?lp] by auto
  obtain pc where pc: "?E (increment_nonce ?n) d = Inr pc" using aead_seals [OF laws(1,2,4) assms(2)] by auto
  have lp: "[of_nat (drop_bit 8 (length d)), of_nat (length d)] = ?lp"
    by (simp add: to_be_two)
  show ?thesis
    unfolding write_header_chunk_def Let_def lp using lc pc cap
    by (simp add: bind_io_def encrypt_next_def write_raw_def write_all_def seal_chunk_def sealed_text_Inr
        numeral_2_eq_2)
qed

lemma after_append: "after P ys (after P xs w) = after P (xs @ ys) w"
  by (simp add: seal_chunks_append funpow_add [symmetric, THEN fun_cong, unfolded comp_def] ac_simps)

lemma write_data_seals: "writes P w \<Longrightarrow> write_data P data w = (Inr (), after P (data_chunks data) w)"
proof (induction data arbitrary: w rule: data_chunks.induct)
  case (1 data)
  show ?case
  proof (cases "data = []")
    case True
    then show ?thesis by (simp add: write_data.simps data_chunks.simps return_io_def)
  next
    case False
    let ?d = "take MAX_CHUNK data"
    have m: "take (min (length data) MAX_CHUNK) data = ?d" "drop (min (length data) MAX_CHUNK) data = drop MAX_CHUNK data"
      by (simp_all add: min_def)
    have c: "data_chunks data = [?d] @ data_chunks (drop MAX_CHUNK data)"
      using False by (subst data_chunks.simps) simp
    have "write_header_chunk P ?d w = (Inr (), after P [?d] w)"
      by (rule write_chunk [OF "1.prems"]) (simp add: MAX_CHUNK_def)
    then have "write_data P data w = write_data P (drop MAX_CHUNK data) (after P [?d] w)"
      using False by (subst write_data.simps) (simp add: Let_def m bind_io_def)
    also have "\<dots> = (Inr (), after P (data_chunks (drop MAX_CHUNK data)) (after P [?d] w))"
      using "1.prems" by (intro "1.IH" [OF False]) (simp add: writes_def)
    also have "after P (data_chunks (drop MAX_CHUNK data)) (after P [?d] w) = after P (data_chunks data) w"
      unfolding c by (rule after_append)
    finally show ?thesis .
  qed
qed

fun write_many :: "aead_prims \<Rightarrow> bytes list \<Rightarrow> (aead_writer, unit) action" where
  "write_many P [] = return_io ()"
| "write_many P (d # ds) = bind_io (write_data P d) (\<lambda>_. write_many P ds)"

lemma write_many_seals:
  "writes P w \<Longrightarrow> write_many P ds w = (Inr (), after P (concat (map data_chunks ds)) w)"
proof (induction ds arbitrary: w)
  case (Cons d ds)
  have "writes P (after P (data_chunks d) w)" using Cons.prems by simp
  from Cons.IH [OF this] write_data_seals [OF Cons.prems, of d] show ?case
    by (simp only: write_many.simps bind_io_Inr after_append concat.simps list.map)
qed (simp add: return_io_def)

section \<open>Properties\<close>

text \<open>
  C16.  The Shadowsocks stream is transparent: whatever sequence of writes, of whatever sizes, goes
  through the encrypting writer, all of them succeed, and a reader with the same key that is
  handed those wire bytes and read any number of bytes at a time returns exactly the
  concatenation of the written data before the end of the stream.
\<close>

theorem aead_stream_roundtrip:
  assumes "aead_laws P" "length key = key_len ci" "tx_cap c = None" "tx c = []" "0 < n"
  shows "\<exists>w. write_many P ds (writer_new c ci key) = (Inr (), w)
    \<and> drain (read_or_stop P) n (Suc (length (concat ds))) (reader_new (c'\<lparr>rx := tx (aw_inner w)\<rparr>) ci key)
      = Some (concat ds)"
proof -
  let ?cs = "concat (map data_chunks ds)" and ?w = "writer_new c ci key"
  let ?r = "reader_new (c'\<lparr>rx := []\<rparr>) ci key"
  have "writes P ?w" using assms by (simp add: writes_def writer_new_def)
  then have w: "write_many P ds ?w = (Inr (), after P ?cs ?w)" by (rule write_many_seals)
  have tx: "tx (aw_inner (after P ?cs ?w)) = seal_chunks P ci key (replicate 12 0) ?cs"
    using assms(4) by (simp add: writer_new_def)
  have k: "keyed P ?r" using assms by (simp add: keyed_def reader_new_def)
  have cs: "\<forall>d \<in> set ?cs. d \<noteq> [] \<and> length d < 65536" using data_chunks_props by auto
  have cat: "concat ?cs = concat ds"
    by (induction ds) (simp_all add: data_chunks_props)
  let ?s = "reader_new (c'\<lparr>rx := tx (aw_inner (after P ?cs ?w))\<rparr>) ci key"
  have "?s = with_rx ?r (seal_chunks P (ar_cipher ?r) (ar_subkey ?r) (ar_nonce ?r) ?cs)"
    unfolding tx by (simp add: reader_new_def)
  then have "plain_chunks P ?s = ?cs" using plain_chunks_seal [OF k cs] by simp
  then have "plain_avail P ?s = concat ds" using cat by (simp add: plain_avail_def reader_new_def)
  with aead_source.drain_avail [where P = P and n = n and s = ?s and fuel = "Suc (length (concat ds))"] assms(5) w show ?thesis by auto
qed

text \<open>
  C17.  Nothing else gets through: for every wire, whatever an attacker made of it, the bytes that
  a reader delivers before it stops are chunks that were sealed under its key with the
  successive counter values from zero, standing at the start of the wire in that order.
\<close>

theorem aead_stream_integrity:
  assumes "aead_laws P" "length key = key_len ci" "0 < n"
  shows "\<exists>chunks rest. rx c = seal_chunks P ci key (nonce_at 0) chunks @ rest
    \<and> drain (read_or_stop P) n (Suc (length (concat chunks))) (reader_new c ci key) = Some (concat chunks)"
proof -
  let ?s = "reader_new c ci key"
  have "keyed P ?s" using assms by (simp add: keyed_def reader_new_def)
  from plain_chunks_sealed [OF this] obtain ys where
    "rx c = seal_chunks P ci key (nonce_at 0) (plain_chunks P ?s) @ ys" by (auto simp: reader_new_def)
  moreover have "plain_avail P ?s = concat (plain_chunks P ?s)" by (simp add: plain_avail_def reader_new_def)
  with aead_source.drain_avail [where P = P and n = n and s = ?s and fuel = "Suc (length (concat (plain_chunks P ?s)))"] assms(3)
  have "drain (read_or_stop P) n (Suc (length (concat (plain_chunks P ?s)))) ?s = Some (concat (plain_chunks P ?s))"
    by simp
  ultimately show ?thesis by blast
qed

text \<open>
  The nonce counter is the little-endian encoding of the number of increments, so no two of
  the first \<open>2 ^ 96\<close> nonces of a session are equal.
\<close>

theorem nonce_never_repeats:
  assumes "i < 2 ^ 96" "j < 2 ^ 96"
  shows "(increment_nonce ^^ i) (replicate 12 0) = (increment_nonce ^^ j) (replicate 12 0) \<longleftrightarrow> i = j"
proof
  assume "(increment_nonce ^^ i) (replicate 12 0) = (increment_nonce ^^ j) (replicate 12 0)"
  then have "le_val (nonce_at i) = le_val (nonce_at j)" by (simp only: nonce_at_def)
  with assms show "i = j" by (simp only: nonce_at_val mod_less)
qed simp

theorem nonce_never_repeats_witness:
  "(increment_nonce ^^ 256) (replicate 12 0) \<noteq> (increment_nonce ^^ 0) (replicate 12 0)"
proof -
  have "(256 :: nat) < 2 ^ 96" "(0 :: nat) < 2 ^ 96" "(256 :: nat) \<noteq> 0" by simp_all
  with nonce_never_repeats [of 256 0] show ?thesis by blast
qed

text \<open>An instance of the primitives: the tag is the nonce with four zero bytes.\<close>

definition toy_encrypt :: aead_fun where
  "toy_encrypt k n pt = Some (pt @ n @ [0, 0, 0, 0])"

definition toy_decrypt :: aead_fun where
  "toy_decrypt k n ct =
     (if length n + 4 \<le> length ct \<and> drop (length ct - (length n + 4)) ct = n @ [0, 0, 0, 0]
      then Some (take (length ct - (length n + 4)) ct) else None)"

definition toy_prims :: aead_prims where
  "toy_prims =
     \<lparr>aes128_encrypt = toy_encrypt, aes128_decrypt = toy_decrypt,
      aes256_encrypt = toy_encrypt, aes256_decrypt = toy_decrypt,
      chacha_encrypt = toy_encrypt, chacha_decrypt = toy_decrypt\<rparr>"

lemma toy_pair: "aead_pair m toy_encrypt toy_decrypt"
  unfolding aead_pair_def toy_encrypt_def toy_decrypt_def
  by (auto split: if_splits) (metis append_take_drop_id)

lemma toy_laws: "aead_laws toy_prims"
  by (simp add: aead_laws_def toy_prims_def toy_pair)

definition demo_conn :: conn where
  "demo_conn = \<lparr>rx = [], rx_end = UnexpectedEof, tx = [], tx_cap = None, tx_shut = False\<rparr>"

theorem aead_stream_roundtrip_witness:
  "\<exists>w. write_many toy_prims [[1, 2], [], [3]] (writer_new demo_conn Blake3Aes128Gcm (replicate 16 7)) = (Inr (), w)
     \<and> drain (read_or_stop toy_prims) 1 4 (reader_new (demo_conn\<lparr>rx := tx (aw_inner w)\<rparr>) Blake3Aes128Gcm (replicate 16 7))
       = Some [1, 2, 3]"
proof -
  have e: "concat [[1, 2], [], [3]] = ([1, 2, 3] :: bytes)" "Suc (length ([1, 2, 3] :: bytes)) = 4" by simp_all
  have "length (replicate 16 7) = key_len Blake3Aes128Gcm" "tx_cap demo_conn = None" "tx demo_conn = []" "(0 :: nat) < 1"
    by (simp_all add: demo_conn_def)
  from aead_stream_roundtrip [OF toy_laws this, of "[[1, 2], [], [3]]" demo_conn] show ?thesis
    unfolding e .
qed

theorem aead_stream_integrity_witness:
  "\<exists>chunks rest. [1, 2, 3] = seal_chunks toy_prims Blake3Aes128Gcm (replicate 16 7) (nonce_at 0) chunks @ rest
     \<and> drain (read_or_stop toy_prims) 1 (Suc (length (concat chunks)))
        (reader_new \<lparr>rx = [1, 2, 3], rx_end = UnexpectedEof, tx = [], tx_cap = None, tx_shut = False\<rparr>
           Blake3Aes128Gcm (replicate 16 7)) = Some (concat chunks)"
  using aead_stream_integrity [OF toy_laws, of "replicate 16 7" Blake3Aes128Gcm 1
      "\<lparr>rx = [1, 2, 3], rx_end = UnexpectedEof, tx = [], tx_cap = None, tx_shut = False\<rparr>"]
  by (simp del: drain.simps nonce_at_simps)

end
