(* ===== verification/Shadowsocks.thy ===== *)
theory Shadowsocks
  imports Aead_Stream Wire_Addr
begin

text \<open>
  Shadowsocks 2022: session keys, header parsing and building (\<open>shadowsocks/protocol.rs\<close>) and the
  connection handler \<open>process\<close> of \<open>shadowsocks/server.rs\<close> over the encrypted stream of
  \<open>Aead_Stream\<close>.  BLAKE3, base64 decoding, the clock, the random response salt and the
  outcome of the dial are parameters.
\<close>

section \<open>The model\<close>

definition MAX_TIMESTAMP_DIFF :: u64 where "MAX_TIMESTAMP_DIFF = 30"
definition STREAM_TYPE_REQUEST :: u8 where "STREAM_TYPE_REQUEST = 0x00"
definition STREAM_TYPE_RESPONSE :: u8 where "STREAM_TYPE_RESPONSE = 0x01"
definition ATYP_IPV4 :: u8 where "ATYP_IPV4 = 0x01"
definition ATYP_DOMAIN :: u8 where "ATYP_DOMAIN = 0x03"
definition ATYP_IPV6 :: u8 where "ATYP_IPV6 = 0x04"

lemmas ss_consts = STREAM_TYPE_REQUEST_def STREAM_TYPE_RESPONSE_def ATYP_IPV4_def ATYP_DOMAIN_def ATYP_IPV6_def

definition derive_session_subkey :: "(rstring \<Rightarrow> bytes \<Rightarrow> bytes) \<Rightarrow> bytes \<Rightarrow> bytes \<Rightarrow> nat \<Rightarrow> bytes" where
  "derive_session_subkey blake3 master_key salt n =
     (let ikm = master_key @ salt;
          derived = blake3 (str ''shadowsocks 2022 session subkey'') ikm
      in take n derived)"

definition decode_master_key :: "(rstring \<Rightarrow> bytes option) \<Rightarrow> rstring \<Rightarrow> nat \<Rightarrow> bytes result" where
  "decode_master_key base64 password n =
     (case base64 (trim password) of
        None \<Rightarrow> Inl (Bail ''password must be base64-encoded key'')
      | Some key \<Rightarrow> if length key \<noteq> n then Inl (Bail ''key length mismatch'') else Inr key)"

definition abs_diff :: "u64 \<Rightarrow> u64 \<Rightarrow> u64" where
  "abs_diff a b = (if a < b then b - a else a - b)"

definition check_timestamp :: "u64 \<Rightarrow> u64 \<Rightarrow> unit result" where
  "check_timestamp now ts =
     (if abs_diff ts now > MAX_TIMESTAMP_DIFF then Inl (Bail ''timestamp diff exceeds limit'') else Inr ())"

definition parse_address :: "bytes \<Rightarrow> (rstring \<times> bytes) result" where
  "parse_address buf =
     (case buf of
        [] \<Rightarrow> Inl (Bail ''truncated address (no ATYP)'')
      | atyp # buf \<Rightarrow>
          and_then
            (if atyp = ATYP_IPV4 then
               (if length buf < 4 then Inl (Bail ''truncated IPv4'')
                else Inr (ipv4_to_string (from_be (take 4 buf)), drop 4 buf))
             else if atyp = ATYP_DOMAIN then
               (case buf of
                  [] \<Rightarrow> Inl (Bail ''truncated domain length'')
                | len # buf \<Rightarrow>
                    if length buf < unat len then Inl (Bail ''truncated domain'')
                    else and_then (from_utf8 (take (unat len) buf)) (\<lambda>h. Inr (h, drop (unat len) buf)))
             else if atyp = ATYP_IPV6 then
               (if length buf < 16 then Inl (Bail ''truncated IPv6'')
                else Inr (bracketed (from_be (take 16 buf)), drop 16 buf))
             else Inl (Bail ''unknown ATYP''))
            (\<lambda>(host, buf).
               if length buf < 2 then Inl (Bail ''truncated port'')
               else Inr (host_port host (from_be (take 2 buf)), drop 2 buf)))"

definition parse_request_header :: "u64 \<Rightarrow> bytes \<Rightarrow> u8 \<Rightarrow> rstring result" where
  "parse_request_header now data expected_type =
     (if length data < 18 then Inl (Bail ''request header too short'')
      else if data ! 0 \<noteq> expected_type then Inl (Bail ''wrong stream type'')
      else and_then (check_timestamp now (from_be (take 8 (drop 1 data)))) (\<lambda>_.
           and_then (parse_address (drop 9 data)) (\<lambda>(addr, remaining).
             if length remaining < 2 then Inl (Bail ''missing padding length'')
             else let padding_len = unat (from_be (take 2 remaining) :: u16); remaining = drop 2 remaining
                  in if length remaining < padding_len then Inl (Bail ''truncated padding'')
                     else Inr addr)))"

definition parse_response_header :: "u64 \<Rightarrow> bytes \<Rightarrow> nat \<Rightarrow> bytes result" where
  "parse_response_header now data n =
     (if length data < 1 + 8 + n then Inl (Bail ''response header too short'')
      else if data ! 0 \<noteq> STREAM_TYPE_RESPONSE then Inl (Bail ''wrong stream type in response'')
      else and_then (check_timestamp now (from_be (take 8 (drop 1 data)))) (\<lambda>_.
           Inr (take n (drop 9 data))))"

definition build_response_header :: "u64 \<Rightarrow> bytes \<Rightarrow> bytes" where
  "build_response_header now request_salt = [STREAM_TYPE_RESPONSE] @ to_be 8 now @ request_salt"

text \<open>
  The handler up to the dial, then the dial and the response header.  \<open>split\<close> hands the read half
  of the connection to the reader and the write half to the writer: the reader only changes
  \<open>rx\<close>, the writer only the \<open>tx\<close> fields, so the connection is threaded through both.
\<close>

definition ss_request ::
  "aead_prims \<Rightarrow> (rstring \<Rightarrow> bytes \<Rightarrow> bytes) \<Rightarrow> u64 \<Rightarrow> shadowsocks_cipher \<Rightarrow> bytes \<Rightarrow>
   (bytes \<times> rstring \<times> aead_reader) io" where
  "ss_request P blake3 now cipher master_key =
     bind_io (read_exact (salt_len cipher)) (\<lambda>client_salt c.
       let up_subkey = derive_session_subkey blake3 master_key client_salt (salt_len cipher)
       in case read_header_chunk P (reader_new c cipher up_subkey) of
            (Inl e, r) \<Rightarrow> (Inl e, ar_inner r)
          | (Inr header_data, r) \<Rightarrow>
              (case parse_request_header now header_data STREAM_TYPE_REQUEST of
                 Inl e \<Rightarrow> (Inl e, ar_inner r)
               | Inr target \<Rightarrow> (Inr (client_salt, target, r), ar_inner r)))"

definition ss_respond ::
  "aead_prims \<Rightarrow> bytes \<Rightarrow> bytes \<Rightarrow> bytes \<Rightarrow> (aead_writer, unit) action" where
  "ss_respond P resp_salt dn_subkey resp_header =
     bind_io (write_raw resp_salt) (\<lambda>_.
     bind_io (reset_subkey dn_subkey) (\<lambda>_.
       write_header_chunk P resp_header))"

definition ss_process ::
  "aead_prims \<Rightarrow> (rstring \<Rightarrow> bytes \<Rightarrow> bytes) \<Rightarrow> u64 \<Rightarrow> u64 \<Rightarrow> (rstring \<Rightarrow> dial) \<Rightarrow> bytes \<Rightarrow>
   shadowsocks_cipher \<Rightarrow> bytes \<Rightarrow> (rstring \<times> aead_reader \<times> aead_writer) io" where
  "ss_process P blake3 now now' connect resp_salt cipher master_key =
     bind_io (ss_request P blake3 now cipher master_key) (\<lambda>(client_salt, target, r) c.
       case connect target of
         TimedOut \<Rightarrow> (Inl (Bail ''connect timeout''), c)
       | Refused e \<Rightarrow> (Inl (Io e), c)
       | Connected \<Rightarrow>
           let dn_subkey = derive_session_subkey blake3 master_key resp_salt (salt_len cipher)
           in case ss_respond P resp_salt dn_subkey (build_response_header now' client_salt)
                     (writer_new c cipher (replicate (salt_len cipher) 0)) of
                (Inl e, w) \<Rightarrow> (Inl e, aw_inner w)
              | (Inr _, w) \<Rightarrow> (Inr (target, r, w), aw_inner w))"

text \<open>The uplink: reads of 32 KiB until the end or an error; \<open>fuel\<close> bounds the reads.\<close>

definition ss_uplink :: "aead_prims \<Rightarrow> nat \<Rightarrow> aead_reader \<Rightarrow> bytes option" where
  "ss_uplink P fuel r = drain (read_or_stop P) (32 * 1024) fuel r"

section \<open>Headers\<close>

definition enc_ss_header :: "u64 \<Rightarrow> host \<times> u16 \<Rightarrow> bytes \<Rightarrow> bytes" where
  "enc_ss_header ts d pad =
     [STREAM_TYPE_REQUEST] @ to_be 8 ts @ enc_socks_dest d @ to_be 2 (of_nat (length pad) :: u16) @ pad"

lemma parse_address_enc:
  assumes "host_ok (fst d)"
  shows "parse_address (enc_socks_dest d @ rest) = Inr (dest_text d, rest)"
proof -
  obtain h p where d: "d = (h, p)" by fastforce
  show ?thesis
    using assms
    by (cases h) (auto simp: d parse_address_def enc_socks_dest_def dest_text_def ss_consts unat_u8_of_nat)
qed

lemma length_enc_ss_header:
  "length (enc_ss_header ts d pad)
     = 13 + length pad + (case fst d of Host4 _ \<Rightarrow> 5 | HostName n \<Rightarrow> 2 + length n | Host6 _ \<Rightarrow> 17)"
  by (simp add: enc_ss_header_def enc_socks_dest_def length_enc_host)

lemma parse_request_header_enc:
  assumes "host_ok (fst d)" "length pad < 65536" "abs_diff ts now \<le> 30" "18 \<le> length (enc_ss_header ts d pad)"
  shows "parse_request_header now (enc_ss_header ts d pad) STREAM_TYPE_REQUEST = Inr (dest_text d)"
proof -
  let ?h = "enc_ss_header ts d pad"
  have f: "?h ! 0 = STREAM_TYPE_REQUEST" "from_be (take 8 (drop 1 ?h)) = ts"
    "drop 9 ?h = enc_socks_dest d @ to_be 2 (of_nat (length pad) :: u16) @ pad"
    by (simp_all add: enc_ss_header_def)
  have t: "check_timestamp now ts = Inr ()" using assms(3) by (simp add: check_timestamp_def MAX_TIMESTAMP_DIFF_def)
  show ?thesis
    unfolding parse_request_header_def f t using assms(2,4) parse_address_enc [OF assms(1)]
    by (simp add: unat_u16_of_nat)
qed

lemma parse_request_header_fresh:
  assumes "parse_request_header now data ty = Inr target"
  shows "18 \<le> length data \<and> data ! 0 = ty \<and> abs_diff (from_be (take 8 (drop 1 data))) now \<le> 30"
  using assms
  by (auto simp: parse_request_header_def check_timestamp_def MAX_TIMESTAMP_DIFF_def and_then_eq_Inr
      split: if_splits)

lemma parse_response_header_build:
  assumes "length salt = n" "abs_diff now now' \<le> 30"
  shows "parse_response_header now' (build_response_header now salt) n = Inr salt"
  using assms by (simp add: parse_response_header_def build_response_header_def check_timestamp_def MAX_TIMESTAMP_DIFF_def)

section \<open>The handler\<close>

definition blake3_laws :: "(rstring \<Rightarrow> bytes \<Rightarrow> bytes) \<Rightarrow> bool" where
  "blake3_laws blake3 \<longleftrightarrow> (\<forall>context ikm. length (blake3 context ikm) = 32)"

abbreviation session_key :: "(rstring \<Rightarrow> bytes \<Rightarrow> bytes) \<Rightarrow> bytes \<Rightarrow> shadowsocks_cipher \<Rightarrow> bytes \<Rightarrow> bytes" where
  "session_key blake3 master_key ci salt \<equiv> derive_session_subkey blake3 master_key salt (salt_len ci)"

lemma key_len_le: "key_len ci \<le> 32"
  by (cases ci) simp_all

lemma length_session_key: "blake3_laws blake3 \<Longrightarrow> length (session_key blake3 mk ci salt) = key_len ci"
  using key_len_le [of ci] by (simp add: derive_session_subkey_def blake3_laws_def salt_len_def Let_def min_def)

lemma keyed_reader_new:
  "aead_laws P \<Longrightarrow> blake3_laws blake3 \<Longrightarrow> keyed P (reader_new c ci (session_key blake3 mk ci salt))"
  using length_session_key by (simp add: keyed_def reader_new_def)

text \<open>A request is accepted exactly for a sealed, fresh and well-formed header.\<close>

lemma ss_request_iff:
  assumes "aead_laws P" "blake3_laws blake3"
  shows "ss_request P blake3 now ci mk c = (Inr (salt, target, r), c') \<longleftrightarrow>
    (\<exists>header rest. rx c = salt @ seal_chunk P ci (session_key blake3 mk ci salt) (nonce_at 0) header @ rest
       \<and> length salt = salt_len ci \<and> length header < 65536
       \<and> parse_request_header now header STREAM_TYPE_REQUEST = Inr target
       \<and> c' = c\<lparr>rx := rest\<rparr>
       \<and> r = (reader_new (c\<lparr>rx := rest\<rparr>) ci (session_key blake3 mk ci salt))\<lparr>ar_nonce := nonce_at 2\<rparr>)"
    (is "?L \<longleftrightarrow> ?R")
proof -
  let ?k = "session_key blake3 mk ci"
  have chunk: "read_header_chunk P (reader_new c1 ci (?k sa)) = (Inr header, r1) \<longleftrightarrow>
      length header < 65536 \<and> (\<exists>ys. rx c1 = seal_chunk P ci (?k sa) (nonce_at 0) header @ ys
        \<and> r1 = (reader_new (c1\<lparr>rx := ys\<rparr>) ci (?k sa))\<lparr>ar_nonce := nonce_at 2\<rparr>)" for c1 sa header r1
  proof -
    have n: "two_on (replicate 12 0) = nonce_at 2" using nonce_at_simps(2) [of 0] by (simp add: numeral_2_eq_2 del: increment_nonce.simps)
    have "read_header_chunk P (reader_new c1 ci (?k sa)) = (Inr header, r1) \<longleftrightarrow>
      length header < 65536 \<and> (\<exists>ys. rx c1 = seal_chunk P ci (?k sa) (replicate 12 0) header @ ys
        \<and> r1 = (reader_new (c1\<lparr>rx := ys\<rparr>) ci (?k sa))\<lparr>ar_nonce := two_on (replicate 12 0)\<rparr>)"
      by (subst read_chunk_iff [OF keyed_reader_new [OF assms]]) (simp add: reader_new_def)
    then show ?thesis by (simp only: n nonce_at_simps(1))
  qed
  show ?thesis
  proof
    assume ?L
    then obtain sa c1 where sa: "read_exact (salt_len ci) c = (Inr sa, c1)"
      and m: "(case read_header_chunk P (reader_new c1 ci (?k sa)) of
            (Inl e, r) \<Rightarrow> (Inl e, ar_inner r)
          | (Inr header_data, r) \<Rightarrow>
              (case parse_request_header now header_data STREAM_TYPE_REQUEST of
                 Inl e \<Rightarrow> (Inl e, ar_inner r)
               | Inr target \<Rightarrow> (Inr (sa, target, r), ar_inner r))) = (Inr (salt, target, r), c')"
      unfolding ss_request_def bind_io_eq_Inr Let_def by blast
    obtain x r1 where x: "read_header_chunk P (reader_new c1 ci (?k sa)) = (x, r1)" by fastforce
    with m obtain header where x1: "x = Inr header" by (cases x) auto
    with m x have 1: "read_exact (salt_len ci) c = (Inr sa, c1)"
      "read_header_chunk P (reader_new c1 ci (?k sa)) = (Inr header, r1)"
      "parse_request_header now header STREAM_TYPE_REQUEST = Inr target"
      "salt = sa" "r = r1" "c' = ar_inner r1"
      using sa by (cases "parse_request_header now header STREAM_TYPE_REQUEST"; simp)+
    from read_exact_split [OF 1(1)] read_exact_ok [OF 1(1)] have c1: "rx c = sa @ rx c1" "length sa = salt_len ci"
      "c1\<lparr>rx := ys\<rparr> = c\<lparr>rx := ys\<rparr>" for ys by auto
    from 1(2) obtain ys where "length header < 65536" "rx c1 = seal_chunk P ci (?k sa) (nonce_at 0) header @ ys"
      "r1 = (reader_new (c\<lparr>rx := ys\<rparr>) ci (?k sa))\<lparr>ar_nonce := nonce_at 2\<rparr>"
      unfolding chunk c1(3) by blast
    with 1 c1(1,2) show ?R by (intro exI [of _ header] exI [of _ ys]) (simp add: reader_new_def)
  next
    assume ?R
    then obtain header rest where h: "rx c = salt @ seal_chunk P ci (?k salt) (nonce_at 0) header @ rest"
      "length salt = salt_len ci" "length header < 65536"
      "parse_request_header now header STREAM_TYPE_REQUEST = Inr target" "c' = c\<lparr>rx := rest\<rparr>"
      "r = (reader_new (c\<lparr>rx := rest\<rparr>) ci (?k salt))\<lparr>ar_nonce := nonce_at 2\<rparr>" by blast
    let ?c1 = "c\<lparr>rx := seal_chunk P ci (?k salt) (nonce_at 0) header @ rest\<rparr>"
    have 1: "read_exact (salt_len ci) c = (Inr salt, ?c1)"
      using h(1,2) by (simp add: read_exact_def)
    have 2: "read_header_chunk P (reader_new ?c1 ci (?k salt)) = (Inr header, r)"
      unfolding chunk using h(3,6) by simp
    show ?L
      unfolding ss_request_def bind_io_Inr [where m = "read_exact _", OF 1] Let_def 2
      using h(4,5,6) by (simp add: reader_new_def)
  qed
qed

lemma ss_respond_ok:
  assumes "aead_laws P" "blake3_laws blake3" "tx_cap c = None" "length header < 65536"
  shows "ss_respond P salt (session_key blake3 mk ci salt) header (writer_new c ci key0)
    = (Inr (), (writer_new (c\<lparr>tx := tx c @ salt @ seal_chunk P ci (session_key blake3 mk ci salt) (nonce_at 0) header\<rparr>)
        ci (session_key blake3 mk ci salt))\<lparr>aw_nonce := nonce_at 2\<rparr>)"
proof -
  let ?k = "session_key blake3 mk ci salt" and ?c = "c\<lparr>tx := tx c @ salt\<rparr>"
  have "writes P (writer_new ?c ci ?k)"
    using assms length_session_key [OF assms(2)] by (simp add: writes_def writer_new_def)
  from write_chunk [OF this assms(4)] assms(3) show ?thesis
    by (simp add: ss_respond_def bind_io_def write_raw_def write_all_def reset_subkey_def writer_new_def
        nonce_at_def numeral_2_eq_2 del: increment_nonce.simps)
qed

lemma length_response_header: "length salt = salt_len ci \<Longrightarrow> length (build_response_header now salt) < 65536"
  using key_len_le [of ci] by (simp add: build_response_header_def salt_len_def)

section \<open>Properties\<close>

text \<open>A sealed header that the parser refuses ends the connection with the parser's error.\<close>

lemma ss_request_refused:
  assumes "aead_laws P" "blake3_laws blake3" "length salt = salt_len ci" "length header < 65536"
    and "parse_request_header now header STREAM_TYPE_REQUEST = Inl e"
  shows "fst (ss_request P blake3 now ci mk
    (c\<lparr>rx := salt @ seal_chunk P ci (session_key blake3 mk ci salt) (nonce_at 0) header @ rest\<rparr>)) = Inl e"
proof -
  let ?k = "session_key blake3 mk ci salt" and ?ys = "seal_chunk P ci (session_key blake3 mk ci salt) (nonce_at 0) header @ rest"
  have 1: "read_exact (salt_len ci) (c\<lparr>rx := salt @ ?ys\<rparr>) = (Inr salt, c\<lparr>rx := ?ys\<rparr>)"
    using assms(3) by (simp add: read_exact_def)
  have "\<exists>r. read_header_chunk P (reader_new (c\<lparr>rx := ?ys\<rparr>) ci ?k) = (Inr header, r)"
    using assms(4) by (subst read_chunk_iff [OF keyed_reader_new [OF assms(1,2)]]) (simp add: reader_new_def)
  then obtain r where "read_header_chunk P (reader_new (c\<lparr>rx := ?ys\<rparr>) ci ?k) = (Inr header, r)" ..
  with assms(5) show ?thesis
    unfolding ss_request_def bind_io_Inr [where m = "read_exact _", OF 1] Let_def by simp
qed

text \<open>
  C25.  The whole Shadowsocks exchange.  A client that seals a fresh request for a destination, in a header of at least 18 bytes,
  and then its data in chunks gets exactly that destination dialled; the answer is the response salt and, sealed under its
  key, a header that echoes the client's salt; and the uplink forwards exactly the chunks up to the first empty one, all of
  the data when there is none.  A header of less than 18 bytes, which is what a host name of one or two characters
  without padding makes, is refused without a dial.
\<close>

theorem ss_exchange:
  assumes "aead_laws P" "blake3_laws blake3" "length salt = salt_len ci" "host_ok (fst d)"
    and "length (enc_ss_header ts d pad) < 65536"
    and "abs_diff ts now \<le> 30" "tx_cap c = None" "connect (dest_text d) = Connected"
    and "\<forall>x \<in> set ds. length x < 65536" "sent = concat (takeWhile (\<lambda>x. x \<noteq> []) ds)"
    and "c' = c\<lparr>rx := salt @ seal_chunk P ci (session_key blake3 mk ci salt) (nonce_at 0) (enc_ss_header ts d pad)
           @ seal_chunks P ci (session_key blake3 mk ci salt) (nonce_at 2) ds\<rparr>"
  shows "if 18 \<le> length (enc_ss_header ts d pad)
    then \<exists>r w. ss_process P blake3 now now' connect resp_salt ci mk c' = (Inr (dest_text d, r, w), aw_inner w)
      \<and> tx (aw_inner w) = tx c @ resp_salt
          @ seal_chunk P ci (session_key blake3 mk ci resp_salt) (nonce_at 0) (build_response_header now' salt)
      \<and> parse_response_header now' (build_response_header now' salt) (key_len ci) = Inr salt
      \<and> ss_uplink P (Suc (length sent)) r = Some sent
    else fst (ss_process P blake3 now now' connect resp_salt ci mk c') = Inl (Bail ''request header too short'')"
proof (cases "18 \<le> length (enc_ss_header ts d pad)")
  case False
  then have "parse_request_header now (enc_ss_header ts d pad) STREAM_TYPE_REQUEST = Inl (Bail ''request header too short'')"
    by (simp add: parse_request_header_def)
  from ss_request_refused [OF assms(1-3,5) this] obtain c1 where
    "ss_request P blake3 now ci mk c' = (Inl (Bail ''request header too short''), c1)"
    unfolding assms(11) by (metis prod.collapse)
  with False show ?thesis by (simp add: ss_process_def bind_io_def)
next
  case True
  let ?k = "session_key blake3 mk ci" and ?h = "enc_ss_header ts d pad"
  let ?data = "seal_chunks P ci (?k salt) (nonce_at 2) ds"
  let ?r = "(reader_new (c\<lparr>rx := ?data\<rparr>) ci (?k salt))\<lparr>ar_nonce := nonce_at 2\<rparr>"
  have "length pad < 65536" using assms(5) by (simp add: length_enc_ss_header)
  from parse_request_header_enc [OF assms(4) this assms(6) True]
  have p: "parse_request_header now ?h STREAM_TYPE_REQUEST = Inr (dest_text d)" .
  have q: "ss_request P blake3 now ci mk c' = (Inr (salt, dest_text d, ?r), c\<lparr>rx := ?data\<rparr>)"
    unfolding ss_request_iff [OF assms(1,2)] using p assms(3,5,11) by auto
  let ?w = "(writer_new (c\<lparr>rx := ?data, tx := tx c @ resp_salt @ seal_chunk P ci (?k resp_salt) (nonce_at 0)
      (build_response_header now' salt)\<rparr>) ci (?k resp_salt))\<lparr>aw_nonce := nonce_at 2\<rparr>"
  have w: "ss_respond P resp_salt (?k resp_salt) (build_response_header now' salt)
      (writer_new (c\<lparr>rx := ?data\<rparr>) ci (replicate (salt_len ci) 0)) = (Inr (), ?w)"
    using ss_respond_ok [OF assms(1,2) _ length_response_header [OF assms(3)], of "c\<lparr>rx := ?data\<rparr>"] assms(7)
    by simp
  have 1: "ss_process P blake3 now now' connect resp_salt ci mk c' = (Inr (dest_text d, ?r, ?w), aw_inner ?w)"
    unfolding ss_process_def bind_io_Inr [where m = "ss_request _ _ _ _ _", OF q] using assms(8) w by (simp add: Let_def)
  have k: "keyed P ?r" using assms(1) length_session_key [OF assms(2)] by (simp add: keyed_def reader_new_def)
  have "plain_chunks P ?r = takeWhile (\<lambda>x. x \<noteq> []) ds" using plain_chunks_seal_any [OF k assms(9)] by (simp add: reader_new_def)
  then have "plain_avail P ?r = sent" using assms(10) by (simp add: plain_avail_def reader_new_def)
  with aead_source.drain_avail [where P = P and s = ?r and n = "32 * 1024" and fuel = "Suc (length sent)"]
  have 2: "ss_uplink P (Suc (length sent)) ?r = Some sent" by (simp add: ss_uplink_def)
  have 3: "parse_response_header now' (build_response_header now' salt) (key_len ci) = Inr salt"
    using assms(3) by (intro parse_response_header_build) (simp_all add: salt_len_def abs_diff_def)
  have 4: "tx (aw_inner ?w) = tx c @ resp_salt
      @ seal_chunk P ci (?k resp_salt) (nonce_at 0) (build_response_header now' salt)"
    by (simp add: writer_new_def)
  from 1 2 3 4 True show ?thesis by auto
qed

lemma ss_gate:
  assumes "aead_laws P" "blake3_laws blake3"
    and "ss_process P blake3 now now' connect resp_salt ci mk c \<noteq> ss_process P blake3 now now' connect' resp_salt ci mk c"
  shows "\<exists>salt header rest. rx c = salt @ seal_chunk P ci (session_key blake3 mk ci salt) (nonce_at 0) header @ rest
    \<and> length salt = salt_len ci \<and> header ! 0 = STREAM_TYPE_REQUEST
    \<and> abs_diff (from_be (take 8 (drop 1 header))) now \<le> 30"
proof -
  obtain x c1 where x: "ss_request P blake3 now ci mk c = (x, c1)" by fastforce
  show ?thesis
  proof (cases x)
    case (Inl e)
    with x assms(3) show ?thesis by (simp add: ss_process_def bind_io_def)
  next
    case (Inr y)
    obtain salt target r where y: "y = (salt, target, r)" by (cases y)
    from x [unfolded Inr y ss_request_iff [OF assms(1,2)]] show ?thesis
      using parse_request_header_fresh by blast
  qed
qed

text \<open>
  C26.  The outcome of a dial reaches a Shadowsocks connection only when the client's bytes are a
  salt and a request header sealed under the key derived from the master key and that salt,
  with a timestamp at most 30 seconds from the server's clock.
\<close>

theorem ss_dial_needs_key:
  assumes "aead_laws P" "blake3_laws blake3"
    and "ss_process P blake3 now now' connect resp_salt ci mk c \<noteq> ss_process P blake3 now now' connect' resp_salt ci mk c"
  shows "\<exists>salt header rest. rx c = salt @ seal_chunk P ci (session_key blake3 mk ci salt) (nonce_at 0) header @ rest
    \<and> length salt = salt_len ci \<and> header ! 0 = STREAM_TYPE_REQUEST
    \<and> abs_diff (from_be (take 8 (drop 1 header))) now \<le> 30"
  by (rule ss_gate [OF assms])

text \<open>
  The length check on request headers counts an IPv4 address: a request for a host name of
  at most two characters without padding is refused, although it is well formed.
\<close>

theorem ss_short_name_rejected:
  assumes "length name \<le> 2"
  shows "parse_request_header now (enc_ss_header ts (HostName name, port) []) STREAM_TYPE_REQUEST
      = Inl (Bail ''request header too short'')
    \<and> parse_address (enc_socks_dest (HostName name, port)) = (if utf8_valid name
        then Inr (host_port name port, []) else Inl Utf8Error)"
proof -
  have "length (enc_ss_header ts (HostName name, port) []) < 18"
    using assms by (simp add: length_enc_ss_header)
  moreover have "parse_address (enc_socks_dest (HostName name, port))
      = (if utf8_valid name then Inr (host_port name port, []) else Inl Utf8Error)"
    using assms by (simp add: parse_address_def enc_socks_dest_def ss_consts unat_u8_of_nat from_utf8_def)
  ultimately show ?thesis by (simp add: parse_request_header_def)
qed

section \<open>Instances\<close>

definition toy_blake3 :: "rstring \<Rightarrow> bytes \<Rightarrow> bytes" where
  "toy_blake3 context ikm = replicate 32 (foldr (+) ikm 0)"

lemma toy_blake3_laws: "blake3_laws toy_blake3"
  by (simp add: blake3_laws_def toy_blake3_def)

abbreviation demo_wire :: "bytes list \<Rightarrow> bytes" where
  "demo_wire ds \<equiv> replicate 16 1
     @ seal_chunk toy_prims Blake3Aes128Gcm (session_key toy_blake3 (replicate 16 7) Blake3Aes128Gcm (replicate 16 1))
         (nonce_at 0) (enc_ss_header 1000 (HostName (str ''a.b''), 443) [])
     @ seal_chunks toy_prims Blake3Aes128Gcm (session_key toy_blake3 (replicate 16 7) Blake3Aes128Gcm (replicate 16 1))
         (nonce_at 2) ds"

theorem ss_exchange_witness:
  "\<exists>r w. ss_process toy_prims toy_blake3 1010 1010 (\<lambda>_. Connected) (replicate 16 2) Blake3Aes128Gcm (replicate 16 7)
      (demo_conn\<lparr>rx := demo_wire [[5, 6], [7], [], [8]]\<rparr>) = (Inr (dest_text (HostName (str ''a.b''), 443), r, w), aw_inner w)
    \<and> ss_uplink toy_prims 4 r = Some [5, 6, 7]"
proof -
  have p: "length (replicate 16 (1 :: u8)) = salt_len Blake3Aes128Gcm" "host_ok (fst (HostName (str ''a.b''), 443 :: u16))"
    "length (enc_ss_header 1000 (HostName (str ''a.b''), 443) []) < 65536"
    "abs_diff 1000 1010 \<le> 30" "tx_cap demo_conn = None" "(\<lambda>_. Connected) (dest_text (HostName (str ''a.b''), 443)) = Connected"
    "\<forall>x \<in> set [[5, 6], [7], [], [8 :: u8]]. length x < 65536"
    "[5, 6, 7] = concat (takeWhile (\<lambda>x. x \<noteq> []) [[5, 6], [7], [], [8 :: u8]])"
    by (simp_all add: salt_len_def length_enc_ss_header abs_diff_def demo_conn_def)
  have "18 \<le> length (enc_ss_header 1000 (HostName (str ''a.b''), 443) [])" "Suc (length [5, 6, 7 :: u8]) = 4"
    by (simp_all add: length_enc_ss_header)
  with ss_exchange [OF toy_laws toy_blake3_laws p refl, of 1010 "replicate 16 2" "replicate 16 7"] show ?thesis by metis
qed

theorem ss_dial_needs_key_witness:
  "ss_process toy_prims toy_blake3 1010 1010 (\<lambda>_. Connected) (replicate 16 2) Blake3Aes128Gcm (replicate 16 7)
      (demo_conn\<lparr>rx := demo_wire []\<rparr>)
    \<noteq> ss_process toy_prims toy_blake3 1010 1010 (\<lambda>_. TimedOut) (replicate 16 2) Blake3Aes128Gcm (replicate 16 7)
      (demo_conn\<lparr>rx := demo_wire []\<rparr>)
   \<and> (\<exists>salt header rest. demo_wire [] = salt @ seal_chunk toy_prims Blake3Aes128Gcm
        (session_key toy_blake3 (replicate 16 7) Blake3Aes128Gcm salt) (nonce_at 0) header @ rest
      \<and> abs_diff (from_be (take 8 (drop 1 header))) 1010 \<le> 30)"
proof -
  let ?c = "demo_conn\<lparr>rx := demo_wire []\<rparr>"
  have p: "length (replicate 16 (1 :: u8)) = salt_len Blake3Aes128Gcm" "host_ok (fst (HostName (str ''a.b''), 443 :: u16))"
    "18 \<le> length (enc_ss_header 1000 (HostName (str ''a.b''), 443) [])"
    "length (enc_ss_header 1000 (HostName (str ''a.b''), 443) []) < 65536"
    "length ([] :: bytes) < 65536" "abs_diff 1000 1010 \<le> 30"
    by (simp_all add: salt_len_def length_enc_ss_header abs_diff_def)
  note h = parse_request_header_enc [OF p(2,5,6,3)]
  let ?r = "(reader_new (demo_conn\<lparr>rx := []\<rparr>) Blake3Aes128Gcm (session_key toy_blake3 (replicate 16 7) Blake3Aes128Gcm
      (replicate 16 1)))\<lparr>ar_nonce := nonce_at 2\<rparr>"
  have q: "ss_request toy_prims toy_blake3 1010 Blake3Aes128Gcm (replicate 16 7) ?c
      = (Inr (replicate 16 1, dest_text (HostName (str ''a.b''), 443), ?r), demo_conn\<lparr>rx := []\<rparr>)"
    unfolding ss_request_iff [OF toy_laws toy_blake3_laws]
    by (intro exI [of _ "enc_ss_header 1000 (HostName (str ''a.b''), 443) []"] exI [of _ "[]"])
      (use h p(1,4) in \<open>simp add: length_enc_ss_header\<close>)
  have cap: "tx_cap (demo_conn\<lparr>rx := []\<rparr>) = None" by (simp add: demo_conn_def)
  have ne: "ss_process toy_prims toy_blake3 1010 1010 (\<lambda>_. Connected) (replicate 16 2) Blake3Aes128Gcm (replicate 16 7) ?c
      \<noteq> ss_process toy_prims toy_blake3 1010 1010 (\<lambda>_. TimedOut) (replicate 16 2) Blake3Aes128Gcm (replicate 16 7) ?c"
    unfolding ss_process_def bind_io_Inr [where m = "ss_request _ _ _ _ _", OF q]
    using ss_respond_ok [OF toy_laws toy_blake3_laws cap length_response_header [OF p(1)], of "replicate 16 2" "replicate 16 7" Blake3Aes128Gcm]
    by (simp add: Let_def)
  from ss_dial_needs_key [OF toy_laws toy_blake3_laws ne] ne show ?thesis by auto
qed

theorem ss_short_name_rejected_witness:
  "parse_request_header 1010 (enc_ss_header 1000 (HostName (str ''ab''), 443) []) STREAM_TYPE_REQUEST
     = Inl (Bail ''request header too short'')"
  using ss_short_name_rejected [of "str ''ab''" 1010 1000 443] by simp

end
