(* ===== verification/Vmess_Body.thy ===== *)
theory Vmess_Body
  imports Aead_Stream
begin

text \<open>
  The chunked body of VMess (\<open>vmess/mod.rs\<close>): \<open>relay_up\<close> decodes what a client sends,
  \<open>relay_down\<close> encodes what the target sends.  Cipher, padding and masking of the size field depend
  on the request's options.  The ciphers, digests and the SHAKE128 output stream of the
  libraries are a record of functions; \<open>body_laws\<close> says what the code relies on.
\<close>

section \<open>The model\<close>

definition OPT_CHUNK_STREAM :: u8 where "OPT_CHUNK_STREAM = 0x01"
definition OPT_CHUNK_MASKING :: u8 where "OPT_CHUNK_MASKING = 0x04"
definition OPT_GLOBAL_PADDING :: u8 where "OPT_GLOBAL_PADDING = 0x08"
definition OPT_AUTH_LEN :: u8 where "OPT_AUTH_LEN = 0x10"
definition SEC_NONE :: u8 where "SEC_NONE = 0x00"
definition SEC_AES128_GCM :: u8 where "SEC_AES128_GCM = 0x03"
definition SEC_CHACHA20 :: u8 where "SEC_CHACHA20 = 0x04"
definition SEC_AUTO :: u8 where "SEC_AUTO = 0x05"
definition CHUNK_SIZE :: nat where "CHUNK_SIZE = 8192"

lemmas vmess_sec = SEC_NONE_def SEC_AES128_GCM_def SEC_CHACHA20_def SEC_AUTO_def

text \<open>
  The library functions: AES-128-GCM (key, nonce, associated data, text), ChaCha20-Poly1305
  (key, nonce, text), MD5, SHA-256, HMAC-SHA256 (key, message), CRC-32, one AES-128 block
  decryption (key, block), and the bytes of SHAKE128 for a seed.
\<close>

record vmess_crypto =
  gcm_seal :: "bytes \<Rightarrow> bytes \<Rightarrow> bytes \<Rightarrow> bytes \<Rightarrow> bytes option"
  gcm_open :: "bytes \<Rightarrow> bytes \<Rightarrow> bytes \<Rightarrow> bytes \<Rightarrow> bytes option"
  cc_seal :: aead_fun
  cc_open :: aead_fun
  md5 :: "bytes \<Rightarrow> bytes"
  sha256 :: "bytes \<Rightarrow> bytes"
  hmac_sha256 :: "bytes \<Rightarrow> bytes \<Rightarrow> bytes"
  crc32 :: "bytes \<Rightarrow> u32"
  aes_block :: "bytes \<Rightarrow> bytes \<Rightarrow> bytes"
  shake128 :: "bytes \<Rightarrow> nat \<Rightarrow> u8"

definition chunk_nonce :: "bytes \<Rightarrow> u16 \<Rightarrow> bytes" where
  "chunk_nonce iv count = to_be 2 count @ take 10 (drop 2 iv)"

definition chacha_key :: "vmess_crypto \<Rightarrow> bytes \<Rightarrow> bytes" where
  "chacha_key C key = (let h1 = md5 C key; h2 = md5 C h1 in h1 @ h2)"

record shake_reader =
  sr_seed :: bytes
  sr_pos :: nat

definition shake_new :: "bytes \<Rightarrow> shake_reader" where
  "shake_new seed = \<lparr>sr_seed = seed, sr_pos = 0\<rparr>"

definition next_u16 :: "vmess_crypto \<Rightarrow> shake_reader \<Rightarrow> u16 \<times> shake_reader" where
  "next_u16 C s =
     (from_be [shake128 C (sr_seed s) (sr_pos s), shake128 C (sr_seed s) (sr_pos s + 1)],
      s\<lparr>sr_pos := sr_pos s + 2\<rparr>)"

text \<open>
  \<open>vmess_kdf\<close>: a hash function is wrapped once per path element, each wrapping being the HMAC
  construction over the function so far.
\<close>

definition KDF_ROOT :: rstring where "KDF_ROOT = str ''VMess AEAD KDF''"

definition kdf_wrap :: "bytes \<Rightarrow> (bytes \<Rightarrow> bytes) \<Rightarrow> bytes \<Rightarrow> bytes" where
  "kdf_wrap salt prev msg =
     (let copy_len = min (length salt) 64;
          salt_padded = take copy_len salt @ replicate (64 - copy_len) 0;
          ipad = map (\<lambda>b. b XOR 0x36) salt_padded;
          opad = map (\<lambda>b. b XOR 0x5c) salt_padded
      in prev (opad @ prev (ipad @ msg)))"

definition vmess_kdf :: "vmess_crypto \<Rightarrow> bytes \<Rightarrow> bytes list \<Rightarrow> bytes" where
  "vmess_kdf C key path = fold kdf_wrap path (hmac_sha256 C KDF_ROOT) key"

definition kdf16 :: "vmess_crypto \<Rightarrow> bytes \<Rightarrow> bytes list \<Rightarrow> bytes" where
  "kdf16 C key path = take 16 (vmess_kdf C key path)"

definition kdf12 :: "vmess_crypto \<Rightarrow> bytes \<Rightarrow> bytes list \<Rightarrow> bytes" where
  "kdf12 C key path = take 12 (vmess_kdf C key path)"

text \<open>The state of a direction: the client's connection, the mask generator and the chunk counter.\<close>

record body_state =
  b_conn :: conn
  b_shake :: "shake_reader option"
  b_count :: u16

definition b_read :: "nat \<Rightarrow> (body_state, bytes) action" where
  "b_read n s = (case read_exact n (b_conn s) of (r, c) \<Rightarrow> (r, s\<lparr>b_conn := c\<rparr>))"

definition b_write :: "bytes \<Rightarrow> (body_state, unit) action" where
  "b_write bs s = (case write_all bs (b_conn s) of (r, c) \<Rightarrow> (r, s\<lparr>b_conn := c\<rparr>))"

definition b_tick :: "(body_state, u16) action" where
  "b_tick s = (Inr (b_count s), s\<lparr>b_count := b_count s + 1\<rparr>)"

definition b_mask :: "vmess_crypto \<Rightarrow> (body_state, u16) action" where
  "b_mask C s =
     (case b_shake s of
        None \<Rightarrow> (Inr 0, s)
      | Some sk \<Rightarrow> (case next_u16 C sk of (v, sk') \<Rightarrow> (Inr v, s\<lparr>b_shake := Some sk'\<rparr>)))"

definition pad_len :: "vmess_crypto \<Rightarrow> u8 \<Rightarrow> (body_state, nat) action" where
  "pad_len C opt =
     (if opt AND OPT_GLOBAL_PADDING \<noteq> 0 then bind_io (b_mask C) (\<lambda>v. return_io (unat (v mod 64)))
      else return_io 0)"

definition auth_len_key :: "vmess_crypto \<Rightarrow> bytes \<Rightarrow> bytes" where
  "auth_len_key C key = kdf16 C key [str ''auth_len'']"

definition read_size :: "vmess_crypto \<Rightarrow> bytes \<Rightarrow> bytes \<Rightarrow> u8 \<Rightarrow> (body_state, nat) action" where
  "read_size C key iv opt =
     (if opt AND OPT_AUTH_LEN \<noteq> 0 then
        bind_io (b_read 18) (\<lambda>buf s.
          case gcm_open C (auth_len_key C key) (chunk_nonce iv (b_count s)) [] buf of
            None \<Rightarrow> (Inl (Bail ''auth_len decrypt''), s)
          | Some plain \<Rightarrow>
              if length plain < 2 then (Inl (Panic ''index out of bounds''), s)
              else (Inr (unat (from_be [plain ! 0, plain ! 1] :: u16)), s\<lparr>b_count := b_count s + 1\<rparr>))
      else bind_io (b_read 2) (\<lambda>buf.
             bind_io (b_mask C) (\<lambda>m. return_io (unat ((from_be buf :: u16) XOR m)))))"

text \<open>The cipher of a chunk: which one is used, and what it makes of a text at a chunk number.\<close>

definition body_encrypt :: "vmess_crypto \<Rightarrow> u8 \<Rightarrow> bytes \<Rightarrow> bytes \<Rightarrow> u16 \<Rightarrow> bytes \<Rightarrow> bytes result" where
  "body_encrypt C sec key iv count plain =
     (if sec = SEC_NONE then Inr plain
      else if sec = SEC_AES128_GCM \<or> sec = SEC_AUTO then
        (case gcm_seal C key (chunk_nonce iv count) [] plain of
           None \<Rightarrow> Inl (Bail ''aes-gcm encrypt'') | Some ct \<Rightarrow> Inr ct)
      else if sec = SEC_CHACHA20 then
        (case cc_seal C (chacha_key C key) (chunk_nonce iv count) plain of
           None \<Rightarrow> Inl (Bail ''chacha encrypt'') | Some ct \<Rightarrow> Inr ct)
      else Inl (Bail ''unsupported security''))"

definition body_decrypt :: "vmess_crypto \<Rightarrow> u8 \<Rightarrow> bytes \<Rightarrow> bytes \<Rightarrow> u16 \<Rightarrow> bytes \<Rightarrow> bytes result" where
  "body_decrypt C sec key iv count ct =
     (if sec = SEC_NONE then Inr ct
      else if sec = SEC_AES128_GCM \<or> sec = SEC_AUTO then
        (case gcm_open C key (chunk_nonce iv count) [] ct of
           None \<Rightarrow> Inl (Bail ''aes-gcm decrypt'') | Some plain \<Rightarrow> Inr plain)
      else
        (case cc_open C (chacha_key C key) (chunk_nonce iv count) ct of
           None \<Rightarrow> Inl (Bail ''chacha decrypt'') | Some plain \<Rightarrow> Inr plain))"

definition read_chunk_body :: "vmess_crypto \<Rightarrow> u8 \<Rightarrow> bytes \<Rightarrow> bytes \<Rightarrow> nat \<Rightarrow> (body_state, bytes) action" where
  "read_chunk_body C sec key iv n =
     (if sec \<noteq> SEC_NONE \<and> sec \<noteq> SEC_AES128_GCM \<and> sec \<noteq> SEC_AUTO \<and> sec \<noteq> SEC_CHACHA20
      then fail_io (Bail ''unsupported security'')
      else if sec \<noteq> SEC_NONE \<and> n < 16 then fail_io (Bail ''chunk too small'')
      else bind_io (b_read n) (\<lambda>ct s. (body_decrypt C sec key iv (b_count s) ct, s)))"

text \<open>One turn of the uplink loop: \<open>None\<close> when the loop ends.\<close>

definition up_chunk :: "vmess_crypto \<Rightarrow> bytes \<Rightarrow> bytes \<Rightarrow> u8 \<Rightarrow> u8 \<Rightarrow> (body_state, bytes option) action" where
  "up_chunk C key iv opt sec =
     bind_io (pad_len C opt) (\<lambda>pad.
     bind_io (read_size C key iv opt) (\<lambda>total_len.
       let encrypted_len = total_len - pad in
       if encrypted_len = 0 then return_io None
       else bind_io (read_chunk_body C sec key iv encrypted_len) (\<lambda>plain.
            bind_io b_tick (\<lambda>_.
            bind_io (if pad > 0 then bind_io (b_read pad) (\<lambda>_. return_io ()) else return_io ()) (\<lambda>_.
              return_io (if plain = [] then None else Some plain))))))"

text \<open>One turn of the downlink loop; \<open>noise\<close> are the random padding bytes.\<close>

definition write_size :: "vmess_crypto \<Rightarrow> bytes \<Rightarrow> bytes \<Rightarrow> u8 \<Rightarrow> u16 \<Rightarrow> (body_state, unit) action" where
  "write_size C key iv opt total_size =
     (if opt AND OPT_AUTH_LEN \<noteq> 0 then
        bind_io b_tick (\<lambda>count.
          case gcm_seal C (auth_len_key C key) (chunk_nonce iv count) [] (to_be 2 total_size) of
            None \<Rightarrow> fail_io (Bail ''len encrypt'')
          | Some enc_len \<Rightarrow> b_write enc_len)
      else bind_io (b_mask C) (\<lambda>m. b_write (to_be 2 (total_size XOR m))))"

definition down_chunk ::
  "vmess_crypto \<Rightarrow> (u16 \<Rightarrow> nat \<Rightarrow> u8) \<Rightarrow> bytes \<Rightarrow> bytes \<Rightarrow> u8 \<Rightarrow> u8 \<Rightarrow> bytes \<Rightarrow> (body_state, unit) action" where
  "down_chunk C noise key iv opt sec plain =
     bind_io (pad_len C opt) (\<lambda>pad.
     bind_io (\<lambda>s. (body_encrypt C sec key iv (b_count s) plain, s)) (\<lambda>ct.
     bind_io b_tick (\<lambda>count.
     bind_io (write_size C key iv opt (of_nat (length ct + pad))) (\<lambda>_.
     bind_io (b_write ct) (\<lambda>_.
       if pad > 0 then b_write (map (noise count) [0..<pad]) else return_io ())))))"

definition raw_copy :: "u8 \<Rightarrow> u8 \<Rightarrow> bool" where
  "raw_copy opt sec \<longleftrightarrow> sec = SEC_NONE \<and> opt AND OPT_CHUNK_STREAM = 0"

definition body_start :: "bytes \<Rightarrow> u8 \<Rightarrow> conn \<Rightarrow> body_state" where
  "body_start iv opt c =
     \<lparr>b_conn = c, b_shake = (if opt AND OPT_CHUNK_MASKING \<noteq> 0 then Some (shake_new iv) else None), b_count = 0\<rparr>"

lemma b_read_length: "b_read n s = (Inr a, s') \<Longrightarrow> length (rx (b_conn s')) + n = length (rx (b_conn s))"
  by (auto simp: b_read_def split: prod.splits dest!: read_exact_ok)

lemma b_mask_conn: "b_mask C s = (r, s') \<Longrightarrow> b_conn s' = b_conn s"
  by (auto simp: b_mask_def next_u16_def split: option.splits)

lemma pad_len_conn: "pad_len C opt s = (r, s') \<Longrightarrow> b_conn s' = b_conn s"
  by (auto simp: pad_len_def bind_io_def return_io_def split: if_splits prod.splits sum.splits dest: b_mask_conn)

lemma read_size_length:
  "read_size C key iv opt s = (Inr n, s') \<Longrightarrow> length (rx (b_conn s')) < length (rx (b_conn s))"
  by (fastforce simp: read_size_def bind_io_eq_Inr return_io_def split: if_splits option.splits
      dest!: b_read_length b_mask_conn)

lemma read_chunk_body_length:
  "read_chunk_body C sec key iv n s = (Inr a, s') \<Longrightarrow> length (rx (b_conn s')) \<le> length (rx (b_conn s))"
  by (fastforce simp: read_chunk_body_def bind_io_eq_Inr fail_io_def split: if_splits dest!: b_read_length)

lemma up_chunk_length:
  "up_chunk C key iv opt sec s = (Inr (Some plain), s') \<Longrightarrow> length (rx (b_conn s')) < length (rx (b_conn s))"
  unfolding up_chunk_def Let_def
  by (fastforce simp: bind_io_eq_Inr return_io_def b_tick_def split: if_splits
      dest!: pad_len_conn read_size_length read_chunk_body_length b_read_length)

function up_loop :: "vmess_crypto \<Rightarrow> bytes \<Rightarrow> bytes \<Rightarrow> u8 \<Rightarrow> u8 \<Rightarrow> body_state \<Rightarrow> conn \<Rightarrow> unit result \<times> conn" where
  "up_loop C key iv opt sec s w =
     (case up_chunk C key iv opt sec s of
        (Inl e, s') \<Rightarrow> (Inl e, w)
      | (Inr None, s') \<Rightarrow> (Inr (), w)
      | (Inr (Some plain), s') \<Rightarrow>
          (case write_all plain w of
             (Inl e, w') \<Rightarrow> (Inl e, w')
           | (Inr _, w') \<Rightarrow> up_loop C key iv opt sec s' w'))"
  by pat_completeness auto
termination
  by (relation "measure (\<lambda>(C, key, iv, opt, sec, s, w). length (rx (b_conn s)))")
    (auto dest: up_chunk_length [OF sym])

declare up_loop.simps [simp del]

text \<open>
  \<open>relay_up\<close> from the client's connection \<open>r\<close> to the target's \<open>w\<close>; \<open>relay_down\<close> for the pieces
  that reads of the target return (each non-empty and at most \<open>CHUNK_SIZE\<close> bytes) and the way its
  stream ends, \<open>UnexpectedEof\<close> standing for a read that returns nothing.
\<close>

definition relay_up :: "vmess_crypto \<Rightarrow> bytes \<Rightarrow> bytes \<Rightarrow> u8 \<Rightarrow> u8 \<Rightarrow> conn \<Rightarrow> conn \<Rightarrow> unit result \<times> conn" where
  "relay_up C key iv opt sec r w =
     (if raw_copy opt sec then
        (case write_all (rx r) w of
           (Inl e, w') \<Rightarrow> (Inl e, w')
         | (Inr _, w') \<Rightarrow> (if rx_end r = UnexpectedEof then Inr () else Inl (Io (rx_end r)), w'))
      else up_loop C key iv opt sec (body_start iv opt r) w)"

fun down_loop ::
  "vmess_crypto \<Rightarrow> (u16 \<Rightarrow> nat \<Rightarrow> u8) \<Rightarrow> bytes \<Rightarrow> bytes \<Rightarrow> u8 \<Rightarrow> u8 \<Rightarrow> bytes list \<Rightarrow> io_kind \<Rightarrow> (body_state, unit) action" where
  "down_loop C noise key iv opt sec [] e =
     (if e = UnexpectedEof then down_chunk C noise key iv opt sec [] else fail_io (Io e))"
| "down_loop C noise key iv opt sec (d # ds) e =
     bind_io (down_chunk C noise key iv opt sec d) (\<lambda>_. down_loop C noise key iv opt sec ds e)"

definition relay_down ::
  "vmess_crypto \<Rightarrow> (u16 \<Rightarrow> nat \<Rightarrow> u8) \<Rightarrow> bytes \<Rightarrow> bytes \<Rightarrow> u8 \<Rightarrow> u8 \<Rightarrow> bytes list \<Rightarrow> io_kind \<Rightarrow> conn \<Rightarrow> unit result \<times> conn" where
  "relay_down C noise key iv opt sec reads e w =
     (if raw_copy opt sec then
        bind_io (write_all (concat reads)) (\<lambda>_. if e = UnexpectedEof then return_io () else fail_io (Io e)) w
      else (case down_loop C noise key iv opt sec reads e (body_start iv opt w) of (r, s) \<Rightarrow> (r, b_conn s)))"

section \<open>Encoder and decoder\<close>

definition body_laws :: "vmess_crypto \<Rightarrow> bool" where
  "body_laws C \<longleftrightarrow>
     (\<forall>aad. aead_pair 16 (\<lambda>k n. gcm_seal C k n aad) (\<lambda>k n. gcm_open C k n aad))
     \<and> aead_pair 32 (cc_seal C) (cc_open C)
     \<and> (\<forall>x. length (md5 C x) = 16) \<and> (\<forall>x. length (sha256 C x) = 32) \<and> (\<forall>k x. length (hmac_sha256 C k x) = 32)"

definition sec_ok :: "u8 \<Rightarrow> bool" where
  "sec_ok sec \<longleftrightarrow> sec = SEC_NONE \<or> sec = SEC_AES128_GCM \<or> sec = SEC_AUTO \<or> sec = SEC_CHACHA20"

lemma aead_pairD:
  assumes "aead_pair m E D" "length k = m" "length n = 12" "length pt < 65536"
  obtains ct where "E k n pt = Some ct" "length ct = length pt + 16" "D k n ct = Some pt"
  using assms unfolding aead_pair_def by blast

lemma length_chunk_nonce [simp]: "length iv = 16 \<Longrightarrow> length (chunk_nonce iv n) = 12"
  by (simp add: chunk_nonce_def)

lemma body_cipher:
  assumes "body_laws C" "sec_ok sec" "length key = 16" "length iv = 16" "length d < 65536"
  obtains ct where "body_encrypt C sec key iv n d = Inr ct" "body_decrypt C sec key iv n ct = Inr d"
    "length ct = length d + (if sec = SEC_NONE then 0 else 16)"
proof -
  have n: "length (chunk_nonce iv n) = 12" using assms(4) by simp
  from assms(1) have p: "aead_pair 16 (\<lambda>k n. gcm_seal C k n []) (\<lambda>k n. gcm_open C k n [])"
    "aead_pair 32 (cc_seal C) (cc_open C)" "length (chacha_key C key) = 32"
    by (simp_all add: body_laws_def chacha_key_def Let_def)
  from assms(2) consider "sec = SEC_NONE" | "sec = SEC_AES128_GCM \<or> sec = SEC_AUTO" | "sec = SEC_CHACHA20"
    unfolding sec_ok_def by blast
  then show ?thesis
  proof cases
    case 1
    then show ?thesis using that by (simp add: body_encrypt_def body_decrypt_def)
  next
    case 2
    obtain ct where "gcm_seal C key (chunk_nonce iv n) [] d = Some ct" "length ct = length d + 16"
      "gcm_open C key (chunk_nonce iv n) [] ct = Some d" by (rule aead_pairD [OF p(1) assms(3) n assms(5)])
    with 2 that show ?thesis by (auto simp: body_encrypt_def body_decrypt_def vmess_sec)
  next
    case 3
    obtain ct where "cc_seal C (chacha_key C key) (chunk_nonce iv n) d = Some ct" "length ct = length d + 16"
      "cc_open C (chacha_key C key) (chunk_nonce iv n) ct = Some d" by (rule aead_pairD [OF p(2,3) n assms(5)])
    with 3 that show ?thesis by (simp add: body_encrypt_def body_decrypt_def vmess_sec)
  qed
qed

text \<open>What the mask generator yields does not depend on the rest of the state.\<close>

definition mask_of :: "vmess_crypto \<Rightarrow> shake_reader option \<Rightarrow> u16 \<times> shake_reader option" where
  "mask_of C sh = (case sh of None \<Rightarrow> (0, None) | Some sk \<Rightarrow> map_prod id Some (next_u16 C sk))"

definition pad_of :: "vmess_crypto \<Rightarrow> u8 \<Rightarrow> shake_reader option \<Rightarrow> nat \<times> shake_reader option" where
  "pad_of C opt sh =
     (if opt AND OPT_GLOBAL_PADDING \<noteq> 0 then map_prod (\<lambda>v. unat (v mod 64)) id (mask_of C sh) else (0, sh))"

lemma b_mask_eq: "b_mask C s = (Inr (fst (mask_of C (b_shake s))), s\<lparr>b_shake := snd (mask_of C (b_shake s))\<rparr>)"
  by (cases s) (simp add: b_mask_def mask_of_def split: option.splits prod.splits)

lemma pad_len_eq: "pad_len C opt s = (Inr (fst (pad_of C opt (b_shake s))), s\<lparr>b_shake := snd (pad_of C opt (b_shake s))\<rparr>)"
  by (cases s) (simp add: pad_len_def pad_of_def bind_io_def return_io_def b_mask_eq)

lemma pad_of_less: "fst (pad_of C opt sh) < 64"
proof -
  have "unat (v mod 64 :: u16) < 64" for v using unat_mod [of v 64] by simp
  then show ?thesis by (simp add: pad_of_def)
qed

definition chunk_bytes ::
  "vmess_crypto \<Rightarrow> (u16 \<Rightarrow> nat \<Rightarrow> u8) \<Rightarrow> u8 \<Rightarrow> shake_reader option \<Rightarrow> u16 \<Rightarrow> bytes \<Rightarrow> bytes" where
  "chunk_bytes C noise opt sh n ct =
     (let p = pad_of C opt sh; m = mask_of C (snd p)
      in to_be 2 ((of_nat (length ct + fst p) :: u16) XOR fst m) @ ct @ map (noise n) [0..<fst p])"

definition next_shake :: "vmess_crypto \<Rightarrow> u8 \<Rightarrow> shake_reader option \<Rightarrow> shake_reader option" where
  "next_shake C opt sh = snd (mask_of C (snd (pad_of C opt sh)))"

lemma down_chunk_eq:
  assumes "opt AND OPT_AUTH_LEN = 0" "body_encrypt C sec key iv (b_count s) d = Inr ct" "tx_cap (b_conn s) = None"
  shows "down_chunk C noise key iv opt sec d s =
    (Inr (), s\<lparr>b_conn := (b_conn s)\<lparr>tx := tx (b_conn s) @ chunk_bytes C noise opt (b_shake s) (b_count s) ct\<rparr>,
       b_shake := next_shake C opt (b_shake s), b_count := b_count s + 1\<rparr>)"
  using assms
  by (cases s) (simp add: down_chunk_def bind_io_def pad_len_eq b_tick_def write_size_def b_mask_eq b_write_def
      write_all_def return_io_def chunk_bytes_def next_shake_def Let_def)

lemma b_read_append:
  "length xs = n \<Longrightarrow> rx (b_conn s) = xs @ ys \<Longrightarrow> b_read n s = (Inr xs, s\<lparr>b_conn := (b_conn s)\<lparr>rx := ys\<rparr>\<rparr>)"
  by (simp add: b_read_def read_exact_def)

lemma up_chunk_eq:
  assumes "opt AND OPT_AUTH_LEN = 0" "sec_ok sec" "body_decrypt C sec key iv (b_count s) ct = Inr d"
    and "length ct = length d + (if sec = SEC_NONE then 0 else 16)" "length ct < 65000"
    and "rx (b_conn s) = chunk_bytes C noise opt (b_shake s) (b_count s) ct @ rest"
  shows "if d = [] then \<exists>s'. up_chunk C key iv opt sec s = (Inr None, s')
    else up_chunk C key iv opt sec s = (Inr (Some d), s\<lparr>b_conn := (b_conn s)\<lparr>rx := rest\<rparr>,
       b_shake := next_shake C opt (b_shake s), b_count := b_count s + 1\<rparr>)"
proof -
  obtain p sh1 where p: "pad_of C opt (b_shake s) = (p, sh1)" by fastforce
  obtain m sh2 where m: "mask_of C sh1 = (m, sh2)" by fastforce
  have ns: "next_shake C opt (b_shake s) = sh2" by (simp add: next_shake_def p m)
  have p64: "p < 64" using pad_of_less [of C opt "b_shake s"] p by simp
  let ?sz = "of_nat (length ct + p) :: u16" and ?pad = "map (noise (b_count s)) [0..<p]"
  let ?s1 = "s\<lparr>b_shake := sh1\<rparr>"
  let ?s2 = "s\<lparr>b_shake := sh2, b_conn := (b_conn s)\<lparr>rx := ct @ ?pad @ rest\<rparr>\<rparr>"
  have rx: "rx (b_conn s) = to_be 2 (?sz XOR m) @ ct @ ?pad @ rest"
    using assms(6) by (simp add: chunk_bytes_def Let_def p m)
  have pl: "pad_len C opt s = (Inr p, ?s1)" by (simp add: pad_len_eq p)
  have sz: "unat ?sz = length ct + p" using p64 assms(5) by (intro unat_u16_of_nat) simp
  have rd: "b_read 2 ?s1 = (Inr (to_be 2 (?sz XOR m)), ?s1\<lparr>b_conn := (b_conn s)\<lparr>rx := ct @ ?pad @ rest\<rparr>\<rparr>)"
    by (subst b_read_append [where xs = "to_be 2 (?sz XOR m)" and ys = "ct @ ?pad @ rest"]) (simp_all add: rx)
  have mk: "b_mask C (?s1\<lparr>b_conn := (b_conn s)\<lparr>rx := ct @ ?pad @ rest\<rparr>\<rparr>) = (Inr m, ?s2)"
    by (cases s) (simp add: b_mask_eq m)
  have rs: "read_size C key iv opt ?s1 = (Inr (length ct + p), ?s2)"
    unfolding read_size_def using assms(1) sz
    by (simp add: bind_io_Inr [where m = "b_read 2", OF rd] bind_io_Inr [where m = "b_mask C", OF mk] return_io_def xor.assoc)
  have start: "up_chunk C key iv opt sec s =
      (if length ct = 0 then return_io None
       else bind_io (read_chunk_body C sec key iv (length ct)) (\<lambda>plain.
            bind_io b_tick (\<lambda>_.
            bind_io (if p > 0 then bind_io (b_read p) (\<lambda>_. return_io ()) else return_io ()) (\<lambda>_.
              return_io (if plain = [] then None else Some plain))))) ?s2"
    unfolding up_chunk_def bind_io_Inr [where m = "pad_len C opt", OF pl]
      bind_io_Inr [where m = "read_size C key iv opt", OF rs] Let_def by simp
  show ?thesis
  proof (cases "length ct = 0")
    case True
    then have "d = []" using assms(4) by simp
    then show ?thesis unfolding start by (simp add: True return_io_def)
  next
    case False
    let ?s3 = "?s2\<lparr>b_conn := (b_conn ?s2)\<lparr>rx := ?pad @ rest\<rparr>\<rparr>"
    have "\<not> (sec \<noteq> SEC_NONE \<and> length ct < 16)" using assms(4) by auto
    then have rp: "read_chunk_body C sec key iv (length ct) ?s2 = (Inr d, ?s3)"
      using assms(2,3) unfolding read_chunk_body_def sec_ok_def
      by (auto simp: bind_io_def b_read_append [where ys = "?pad @ rest"])
    have "b_read p (?s3\<lparr>b_count := b_count s + 1\<rparr>)
        = (Inr ?pad, ?s3\<lparr>b_count := b_count s + 1, b_conn := (b_conn ?s3)\<lparr>rx := rest\<rparr>\<rparr>)"
      by (subst b_read_append [where xs = ?pad and ys = rest]) simp_all
    then show ?thesis
      unfolding start using False rp
      by (cases s) (use ns in \<open>simp add: bind_io_def b_tick_def return_io_def\<close>)
  qed
qed

text \<open>The bytes of a whole body, as the encoder lays them out.\<close>

fun body_stream ::
  "vmess_crypto \<Rightarrow> (u16 \<Rightarrow> nat \<Rightarrow> u8) \<Rightarrow> bytes \<Rightarrow> bytes \<Rightarrow> u8 \<Rightarrow> u8 \<Rightarrow> bytes list \<Rightarrow> shake_reader option \<Rightarrow> u16 \<Rightarrow> bytes" where
  "body_stream C noise key iv opt sec [] sh n =
     chunk_bytes C noise opt sh n (case_sum (\<lambda>_. []) id (body_encrypt C sec key iv n []))"
| "body_stream C noise key iv opt sec (d # ds) sh n =
     chunk_bytes C noise opt sh n (case_sum (\<lambda>_. []) id (body_encrypt C sec key iv n d))
     @ body_stream C noise key iv opt sec ds (next_shake C opt sh) (n + 1)"

definition body_setting :: "vmess_crypto \<Rightarrow> bytes \<Rightarrow> bytes \<Rightarrow> u8 \<Rightarrow> u8 \<Rightarrow> bool" where
  "body_setting C key iv opt sec \<longleftrightarrow>
     body_laws C \<and> sec_ok sec \<and> length key = 16 \<and> length iv = 16 \<and> opt AND OPT_AUTH_LEN = 0"

lemma setting_cipher:
  assumes "body_setting C key iv opt sec" "length d \<le> CHUNK_SIZE"
  obtains ct where "body_encrypt C sec key iv n d = Inr ct" "body_decrypt C sec key iv n ct = Inr d"
    "length ct = length d + (if sec = SEC_NONE then 0 else 16)" "length ct < 65000"
proof -
  have "length d < 65536" using assms(2) by (simp add: CHUNK_SIZE_def)
  with assms(1) obtain ct where ct: "body_encrypt C sec key iv n d = Inr ct" "body_decrypt C sec key iv n ct = Inr d"
    "length ct = length d + (if sec = SEC_NONE then 0 else 16)"
    unfolding body_setting_def by (metis body_cipher)
  moreover have "length ct < 65000" using ct(3) assms(2) by (simp add: CHUNK_SIZE_def)
  ultimately show ?thesis by (rule that)
qed

lemma settingD: "body_setting C key iv opt sec \<Longrightarrow> sec_ok sec" "body_setting C key iv opt sec \<Longrightarrow> opt AND OPT_AUTH_LEN = 0"
  by (simp_all add: body_setting_def)

lemma down_loop_stream:
  assumes st: "body_setting C key iv opt sec" and "\<forall>d\<in>set ds. length d \<le> CHUNK_SIZE" "tx_cap (b_conn s) = None"
  shows "\<exists>s'. down_loop C noise key iv opt sec ds UnexpectedEof s = (Inr (), s')
    \<and> b_conn s' = (b_conn s)\<lparr>tx := tx (b_conn s) @ body_stream C noise key iv opt sec ds (b_shake s) (b_count s)\<rparr>"
  using assms(2-)
proof (induction ds arbitrary: s)
  case Nil
  obtain ct where "body_encrypt C sec key iv (b_count s) [] = Inr ct"
    by (rule setting_cipher [OF st, of "[]"]) simp_all
  from down_chunk_eq [OF st [THEN settingD(2)] this Nil.prems(2), of noise] this show ?case by simp
next
  case (Cons d ds)
  obtain ct where ct: "body_encrypt C sec key iv (b_count s) d = Inr ct"
    by (rule setting_cipher [OF st, of d]) (use Cons.prems in simp_all)
  let ?s = "s\<lparr>b_conn := (b_conn s)\<lparr>tx := tx (b_conn s) @ chunk_bytes C noise opt (b_shake s) (b_count s) ct\<rparr>,
       b_shake := next_shake C opt (b_shake s), b_count := b_count s + 1\<rparr>"
  from Cons.IH [of ?s] Cons.prems obtain s' where
    "down_loop C noise key iv opt sec ds UnexpectedEof ?s = (Inr (), s')"
    "b_conn s' = (b_conn ?s)\<lparr>tx := tx (b_conn ?s) @ body_stream C noise key iv opt sec ds (b_shake ?s) (b_count ?s)\<rparr>"
    by auto
  with ct down_chunk_eq [OF st [THEN settingD(2)] ct Cons.prems(2), of noise] show ?case by (simp add: bind_io_def)
qed

lemma up_loop_stream:
  assumes st: "body_setting C key iv opt sec" and "\<forall>d\<in>set ds. d \<noteq> [] \<and> length d \<le> CHUNK_SIZE" "tx_cap w = None"
    and "rx (b_conn s) = body_stream C noise key iv opt sec ds (b_shake s) (b_count s) @ rest"
  shows "up_loop C key iv opt sec s w = (Inr (), w\<lparr>tx := tx w @ concat ds\<rparr>)"
  using assms(2-)
proof (induction ds arbitrary: s w)
  case Nil
  obtain ct where ct: "body_encrypt C sec key iv (b_count s) [] = Inr ct" "body_decrypt C sec key iv (b_count s) ct = Inr []"
    "length ct = length ([] :: bytes) + (if sec = SEC_NONE then 0 else 16)" "length ct < 65000"
    by (rule setting_cipher [OF st, of "[]"]) simp_all
  from up_chunk_eq [OF st [THEN settingD(2)] st [THEN settingD(1)] ct(2-4), of noise rest] Nil.prems(3) ct
  obtain s' where "up_chunk C key iv opt sec s = (Inr None, s')" by (auto split: if_splits)
  then show ?case by (subst up_loop.simps) simp
next
  case (Cons d ds)
  have d: "d \<noteq> []" "length d \<le> CHUNK_SIZE" using Cons.prems(1) by simp_all
  obtain ct where ct: "body_encrypt C sec key iv (b_count s) d = Inr ct" "body_decrypt C sec key iv (b_count s) ct = Inr d"
    "length ct = length d + (if sec = SEC_NONE then 0 else 16)" "length ct < 65000"
    by (rule setting_cipher [OF st, of d]) (use Cons.prems in simp_all)
  let ?rest = "body_stream C noise key iv opt sec ds (next_shake C opt (b_shake s)) (b_count s + 1) @ rest"
  let ?s = "s\<lparr>b_conn := (b_conn s)\<lparr>rx := ?rest\<rparr>, b_shake := next_shake C opt (b_shake s), b_count := b_count s + 1\<rparr>"
  from up_chunk_eq [OF st [THEN settingD(2)] st [THEN settingD(1)] ct(2-4), of noise ?rest] Cons.prems(3) ct d
  have "up_chunk C key iv opt sec s = (Inr (Some d), ?s)" by (simp split: if_splits)
  moreover have "write_all d w = (Inr (), w\<lparr>tx := tx w @ d\<rparr>)" using Cons.prems(2) by (simp add: write_all_def)
  moreover have "up_loop C key iv opt sec ?s (w\<lparr>tx := tx w @ d\<rparr>) = (Inr (), w\<lparr>tx := tx w @ d @ concat ds\<rparr>)"
    using Cons.IH [of "w\<lparr>tx := tx w @ d\<rparr>" ?s] Cons.prems by simp
  ultimately show ?case by (subst up_loop.simps) simp
qed

definition vmess_body ::
  "vmess_crypto \<Rightarrow> (u16 \<Rightarrow> nat \<Rightarrow> u8) \<Rightarrow> bytes \<Rightarrow> bytes \<Rightarrow> u8 \<Rightarrow> u8 \<Rightarrow> bytes list \<Rightarrow> bytes" where
  "vmess_body C noise key iv opt sec ds =
     (if raw_copy opt sec then concat ds
      else body_stream C noise key iv opt sec ds (if opt AND OPT_CHUNK_MASKING \<noteq> 0 then Some (shake_new iv) else None) 0)"

lemma body_start_simps [simp]:
  "b_conn (body_start iv opt c) = c" "b_count (body_start iv opt c) = 0"
  "b_shake (body_start iv opt c) = (if opt AND OPT_CHUNK_MASKING \<noteq> 0 then Some (shake_new iv) else None)"
  by (simp_all add: body_start_def)

lemma relay_down_body:
  assumes "body_setting C key iv opt sec" "\<forall>d\<in>set ds. length d \<le> CHUNK_SIZE" "tx_cap w = None"
  shows "relay_down C noise key iv opt sec ds UnexpectedEof w
    = (Inr (), w\<lparr>tx := tx w @ vmess_body C noise key iv opt sec ds\<rparr>)"
  using down_loop_stream [OF assms(1,2), of "body_start iv opt w" noise] assms(3)
  by (auto simp: relay_down_def vmess_body_def bind_io_def return_io_def write_all_def)

lemma relay_up_body:
  assumes "body_setting C key iv opt sec" "\<forall>d\<in>set ds. d \<noteq> [] \<and> length d \<le> CHUNK_SIZE" "tx_cap w = None"
    and "rx r = vmess_body C noise key iv opt sec ds" "rx_end r = UnexpectedEof"
  shows "relay_up C key iv opt sec r w = (Inr (), w\<lparr>tx := tx w @ concat ds\<rparr>)"
  using up_loop_stream [OF assms(1-3), of "body_start iv opt r" noise "[]"] assms(3-5)
  by (auto simp: relay_up_def vmess_body_def write_all_def)

text \<open>
  VMess bodies round trip: for every cipher the server knows, with or without size masking and
  padding (the length field not being encrypted), what \<open>relay_down\<close> writes for the pieces it reads is decoded by \<open>relay_up\<close>,
  under the same key and initialisation vector, into exactly those bytes, both loops ending without an error.  The
  chunk counter wraps after 65536 chunks in both, so this holds for bodies of any length.
\<close>

theorem vmess_body_roundtrip:
  assumes "body_laws C" "sec_ok sec" "length key = 16" "length iv = 16" "opt AND OPT_AUTH_LEN = 0"
    and "\<forall>d\<in>set reads. d \<noteq> [] \<and> length d \<le> CHUNK_SIZE"
    and "tx_cap client = None" "tx client = []" "tx_cap target = None" "rx_end peer = UnexpectedEof"
  shows "\<exists>c. relay_down C noise key iv opt sec reads UnexpectedEof client = (Inr (), c)
    \<and> relay_up C key iv opt sec (peer\<lparr>rx := tx c\<rparr>) target = (Inr (), target\<lparr>tx := tx target @ concat reads\<rparr>)"
proof -
  have st: "body_setting C key iv opt sec" using assms(1-5) by (simp add: body_setting_def)
  have "\<forall>d\<in>set reads. length d \<le> CHUNK_SIZE" using assms(6) by blast
  from relay_down_body [OF st this assms(7), of noise] relay_up_body [OF st assms(6,9), of _ noise] assms(8,10)
  show ?thesis by simp
qed

section \<open>An instance of the library functions\<close>

definition toy_vmess :: vmess_crypto where
  "toy_vmess =
     \<lparr>gcm_seal = (\<lambda>k n aad. toy_encrypt k n), gcm_open = (\<lambda>k n aad. toy_decrypt k n),
      cc_seal = toy_encrypt, cc_open = toy_decrypt,
      md5 = (\<lambda>x. replicate 16 (foldr (+) x 0)), sha256 = (\<lambda>x. replicate 32 (foldr (+) x 1)),
      hmac_sha256 = (\<lambda>k x. replicate 32 (foldr (+) x 2)), crc32 = (\<lambda>_. 0), aes_block = (\<lambda>k b. b),
      shake128 = (\<lambda>seed i. of_nat (5 * i))\<rparr>"

lemma toy_body_laws: "body_laws toy_vmess"
  by (simp add: body_laws_def toy_vmess_def toy_pair)

theorem vmess_body_roundtrip_witness:
  "\<exists>c. relay_down toy_vmess (\<lambda>_ _. 9) (replicate 16 1) (replicate 16 2) 0x0D SEC_CHACHA20 [[1, 2], [3]] UnexpectedEof demo_conn
      = (Inr (), c)
    \<and> relay_up toy_vmess (replicate 16 1) (replicate 16 2) 0x0D SEC_CHACHA20 (demo_conn\<lparr>rx := tx c\<rparr>) demo_conn
      = (Inr (), demo_conn\<lparr>tx := tx demo_conn @ concat [[1, 2], [3]]\<rparr>)"
proof -
  have p: "sec_ok SEC_CHACHA20" "length (replicate 16 (1 :: u8)) = 16" "length (replicate 16 (2 :: u8)) = 16"
    "(0x0D :: u8) AND OPT_AUTH_LEN = 0"
    "\<forall>d\<in>set [[1, 2], [3 :: u8]]. d \<noteq> [] \<and> length d \<le> CHUNK_SIZE"
    "tx_cap demo_conn = None" "tx demo_conn = []" "tx_cap demo_conn = None" "rx_end demo_conn = UnexpectedEof"
    by (simp_all add: sec_ok_def OPT_AUTH_LEN_def CHUNK_SIZE_def demo_conn_def)
  show ?thesis by (rule vmess_body_roundtrip [OF toy_body_laws p])
qed

end
