(* ===== verification/Vmess_Header.thy ===== *)
theory Vmess_Header
  imports Vmess_Body Wire_Addr
begin

text \<open>
  The header of VMess and the connection handler (\<open>vmess/mod.rs\<close>): the time-stamped
  authentication id, the two sealed parts of the request header, the parser of the opened
  header, the sealed response header, and \<open>process\<close>, which runs the two body relays of
  \<open>Vmess_Body\<close> on the client's connection and the target's.
\<close>

section \<open>The model\<close>

definition KDF_AUTH_ID :: rstring where "KDF_AUTH_ID = str ''AES Auth ID Encryption''"
definition KDF_HDR_LEN_KEY :: rstring where "KDF_HDR_LEN_KEY = str ''VMess Header AEAD Key_Length''"
definition KDF_HDR_LEN_IV :: rstring where "KDF_HDR_LEN_IV = str ''VMess Header AEAD Nonce_Length''"
definition KDF_HDR_KEY :: rstring where "KDF_HDR_KEY = str ''VMess Header AEAD Key''"
definition KDF_HDR_IV :: rstring where "KDF_HDR_IV = str ''VMess Header AEAD Nonce''"
definition KDF_RESP_LEN_KEY :: rstring where "KDF_RESP_LEN_KEY = str ''AEAD Resp Header Len Key''"
definition KDF_RESP_LEN_IV :: rstring where "KDF_RESP_LEN_IV = str ''AEAD Resp Header Len IV''"
definition KDF_RESP_PAY_KEY :: rstring where "KDF_RESP_PAY_KEY = str ''AEAD Resp Header Key''"
definition KDF_RESP_PAY_IV :: rstring where "KDF_RESP_PAY_IV = str ''AEAD Resp Header IV''"

record vmess_request =
  vm_target :: rstring
  request_body_key :: bytes
  request_body_iv :: bytes
  response_body_key :: bytes
  response_body_iv :: bytes
  response_token :: u8
  vm_option :: u8
  vm_security :: u8

definition fnv1a32 :: "bytes \<Rightarrow> u32" where
  "fnv1a32 data = foldl (\<lambda>h b. (h XOR ucast b) * 16777619) 2166136261 data"

definition sha256_16 :: "vmess_crypto \<Rightarrow> bytes \<Rightarrow> bytes" where
  "sha256_16 C b = take 16 (sha256 C b)"

definition vmess_cmd_key :: "vmess_crypto \<Rightarrow> bytes \<Rightarrow> bytes" where
  "vmess_cmd_key C uuid = take 16 (md5 C (uuid @ str ''c48619fe-8f02-49e0-b9e9-edf763e17e21''))"

definition aead_open :: "vmess_crypto \<Rightarrow> bytes \<Rightarrow> bytes \<Rightarrow> bytes \<Rightarrow> bytes \<Rightarrow> bytes result" where
  "aead_open C ct key nonce aad =
     (case gcm_open C key nonce aad ct of None \<Rightarrow> Inl (Bail ''aead decrypt'') | Some pt \<Rightarrow> Inr pt)"

definition aead_seal :: "vmess_crypto \<Rightarrow> bytes \<Rightarrow> bytes \<Rightarrow> bytes \<Rightarrow> bytes \<Rightarrow> bytes result" where
  "aead_seal C pt key nonce aad =
     (case gcm_seal C key nonce aad pt of None \<Rightarrow> Inl (Bail ''aead encrypt'') | Some ct \<Rightarrow> Inr ct)"

text \<open>
  Signed 64-bit arithmetic of a release build: the difference wraps, and so does the absolute
  value of the least number.
\<close>

definition i64_abs :: "64 word \<Rightarrow> int" where
  "i64_abs w = (if sint w < 0 then sint (- w) else sint w)"

definition validate_auth_id :: "vmess_crypto \<Rightarrow> u64 \<Rightarrow> bytes \<Rightarrow> bytes \<Rightarrow> unit result" where
  "validate_auth_id C now auth_id cmd_key =
     (let auth_key = kdf16 C cmd_key [KDF_AUTH_ID];
          plain = aes_block C auth_key auth_id;
          ck = crc32 C (take 12 plain);
          stored = from_be (take 4 (drop 12 plain))
      in if ck \<noteq> stored then Inl (Bail ''auth id bad checksum'')
         else if i64_abs (from_be (take 8 plain) - now) > 120 then Inl (Bail ''auth id stale'')
         else Inr ())"

definition parse_host :: "bytes \<Rightarrow> (rstring \<times> nat) result" where
  "parse_host h =
     (if h ! 40 = 0x01 then and_then (get_slice h 41 4) (\<lambda>b. Inr (ipv4_to_string (from_be b), 45))
      else if h ! 40 = 0x02 then
        and_then (byte_at h 41) (\<lambda>l.
        and_then (get_slice h 42 (unat l)) (\<lambda>d.
        and_then (from_utf8 d) (\<lambda>s. Inr (s, 42 + unat l))))
      else if h ! 40 = 0x03 then and_then (get_slice h 41 16) (\<lambda>b. Inr (bracketed (from_be b), 57))
      else Inl (Bail ''unsupported atyp''))"

definition parse_plain_header :: "vmess_crypto \<Rightarrow> bytes \<Rightarrow> vmess_request result" where
  "parse_plain_header C h =
     (if length h < 41 then Inl (Bail ''header too short'')
      else if h ! 0 \<noteq> 1 then Inl (Bail ''unsupported version'')
      else
        let req_iv = take 16 (drop 1 h); req_key = take 16 (drop 17 h);
            response_token = h ! 33; option = h ! 34;
            pad_len = unat (drop_bit 4 (h ! 35)); security = (h ! 35) AND 0x0f
        in if h ! 37 \<noteq> 0x01 then Inl (Bail ''UDP not supported'')
        else let port = from_be [h ! 38, h ! 39] in
          and_then (parse_host h) (\<lambda>(host, idx0).
            let idx = idx0 + pad_len in
            if length h < idx + 4 then Inl (Bail ''missing fnv'')
            else if fnv1a32 (take idx h) \<noteq> from_be (take 4 (drop idx h)) then Inl (Bail ''fnv mismatch'')
            else Inr \<lparr>vm_target = host_port host port, request_body_key = req_key, request_body_iv = req_iv,
                      response_body_key = sha256_16 C req_key, response_body_iv = sha256_16 C req_iv,
                      response_token = response_token, vm_option = option, vm_security = security\<rparr>))"

definition decode_request_header :: "vmess_crypto \<Rightarrow> u64 \<Rightarrow> bytes \<Rightarrow> vmess_request io" where
  "decode_request_header C now cmd_key =
     bind_io (read_exact 16) (\<lambda>auth_id.
     bind_io (lift_io (validate_auth_id C now auth_id cmd_key)) (\<lambda>_.
     bind_io (read_exact 18) (\<lambda>enc_len.
     bind_io (read_exact 8) (\<lambda>nonce.
     bind_io (lift_io (aead_open C enc_len (kdf16 C cmd_key [KDF_HDR_LEN_KEY, auth_id, nonce])
                         (kdf12 C cmd_key [KDF_HDR_LEN_IV, auth_id, nonce]) auth_id)) (\<lambda>plen.
     bind_io (lift_io (byte_at plen 0)) (\<lambda>b0.
     bind_io (lift_io (byte_at plen 1)) (\<lambda>b1.
       let header_len = unat (from_be [b0, b1] :: u16) in
       if \<not> (41 \<le> header_len \<and> header_len \<le> 2048) then fail_io (Bail ''bad header len'')
       else bind_io (read_exact (header_len + 16)) (\<lambda>enc_hdr.
            bind_io (lift_io (aead_open C enc_hdr (kdf16 C cmd_key [KDF_HDR_KEY, auth_id, nonce])
                                (kdf12 C cmd_key [KDF_HDR_IV, auth_id, nonce]) auth_id)) (\<lambda>header.
              lift_io (parse_plain_header C header))))))))))"

definition encode_response_header :: "vmess_crypto \<Rightarrow> vmess_request \<Rightarrow> unit io" where
  "encode_response_header C req =
     (let rk = response_body_key req; ri = response_body_iv req;
          payload = [response_token req, vm_option req, 0x00, 0x00]
      in bind_io (lift_io (aead_seal C (to_be 2 (of_nat (length payload) :: u16))
                             (kdf16 C rk [KDF_RESP_LEN_KEY]) (kdf12 C ri [KDF_RESP_LEN_IV]) [])) (\<lambda>enc_len.
         bind_io (write_all enc_len) (\<lambda>_.
         bind_io (lift_io (aead_seal C payload (kdf16 C rk [KDF_RESP_PAY_KEY]) (kdf12 C ri [KDF_RESP_PAY_IV]) []))
           (\<lambda>enc_pay. write_all enc_pay))))"

text \<open>\<open>process\<close> up to the relays, and the whole of it; \<open>reads\<close> are what the target sends.\<close>

definition vmess_accept :: "vmess_crypto \<Rightarrow> u64 \<Rightarrow> (rstring \<Rightarrow> dial) \<Rightarrow> bytes \<Rightarrow> vmess_request io" where
  "vmess_accept C now connect cmd_key =
     bind_io (decode_request_header C now cmd_key) (\<lambda>req.
       case connect (vm_target req) of
         Connected \<Rightarrow> bind_io (encode_response_header C req) (\<lambda>_. return_io req)
       | Refused e \<Rightarrow> fail_io (Io e)
       | TimedOut \<Rightarrow> fail_io (Io Other))"

definition vmess_process ::
  "vmess_crypto \<Rightarrow> (u16 \<Rightarrow> nat \<Rightarrow> u8) \<Rightarrow> u64 \<Rightarrow> (rstring \<Rightarrow> dial) \<Rightarrow> bytes \<Rightarrow> bytes list \<Rightarrow> io_kind \<Rightarrow> conn \<Rightarrow> conn
     \<Rightarrow> unit result \<times> conn \<times> conn" where
  "vmess_process C noise now connect cmd_key reads e io outbound =
     (case vmess_accept C now connect cmd_key io of
        (Inl err, io') \<Rightarrow> (Inl err, io', outbound)
      | (Inr req, io') \<Rightarrow>
          let opt = vm_option req; sec = vm_security req;
              up = relay_up C (request_body_key req) (request_body_iv req) opt sec io' outbound;
              dn = relay_down C noise (response_body_key req) (response_body_iv req) opt sec reads e io'
          in (Inr (), snd (shutdown_io (snd dn)), snd (shutdown_io (snd up))))"

section \<open>Keys and sealing\<close>

lemma length_vmess_kdf: "body_laws C \<Longrightarrow> length (vmess_kdf C key path) = 32"
proof -
  assume "body_laws C"
  then have "\<forall>m. length (hmac_sha256 C KDF_ROOT m) = 32" by (simp add: body_laws_def)
  then have "\<forall>m. length (fold kdf_wrap path (hmac_sha256 C KDF_ROOT) m) = 32"
  proof (induction path arbitrary: C rule: rev_induct)
    case (snoc salt path)
    then show ?case by (simp add: kdf_wrap_def Let_def)
  qed simp
  then show ?thesis by (simp add: vmess_kdf_def)
qed

lemma length_kdf: "body_laws C \<Longrightarrow> length (kdf16 C key path) = 16" "body_laws C \<Longrightarrow> length (kdf12 C key path) = 12"
  by (simp_all add: kdf16_def kdf12_def length_vmess_kdf)

definition gcm_ct :: "vmess_crypto \<Rightarrow> bytes \<Rightarrow> bytes \<Rightarrow> bytes \<Rightarrow> bytes \<Rightarrow> bytes" where
  "gcm_ct C k n aad pt = the (gcm_seal C k n aad pt)"

lemma gcm_laws:
  assumes "body_laws C" "length k = 16" "length n = 12"
  shows "length pt < 65536 \<Longrightarrow> gcm_seal C k n aad pt = Some (gcm_ct C k n aad pt)"
    and "length pt < 65536 \<Longrightarrow> length (gcm_ct C k n aad pt) = length pt + 16"
    and "length ct < 65536 \<Longrightarrow> aead_open C ct k n aad = Inr pt \<longleftrightarrow> length pt < 65536 \<and> ct = gcm_ct C k n aad pt"
proof -
  from assms(1) have "aead_pair 16 (\<lambda>k n. gcm_seal C k n aad) (\<lambda>k n. gcm_open C k n aad)" by (simp add: body_laws_def)
  with assms(2,3) have a: "length pt < 65536 \<Longrightarrow> gcm_seal C k n aad pt \<noteq> None"
    "gcm_seal C k n aad pt = Some ct \<Longrightarrow> length ct = length pt + 16"
    "gcm_open C k n aad ct = Some pt \<longleftrightarrow> gcm_seal C k n aad pt = Some ct" for pt ct
    unfolding aead_pair_def by blast+
  show s: "length pt < 65536 \<Longrightarrow> gcm_seal C k n aad pt = Some (gcm_ct C k n aad pt)" for pt
    using a(1) [of pt] by (auto simp: gcm_ct_def)
  show "length pt < 65536 \<Longrightarrow> length (gcm_ct C k n aad pt) = length pt + 16" using a(2) s by blast
  assume "length ct < 65536"
  then have "gcm_seal C k n aad pt = Some ct \<longleftrightarrow> length pt < 65536 \<and> ct = gcm_ct C k n aad pt"
    using a(2) [of pt ct] s [of pt] by (auto simp: gcm_ct_def)
  then show "aead_open C ct k n aad = Inr pt \<longleftrightarrow> length pt < 65536 \<and> ct = gcm_ct C k n aad pt"
    unfolding a(3) [symmetric] by (cases "gcm_open C k n aad ct") (auto simp: aead_open_def)
qed

section \<open>The request header on the wire\<close>

text \<open>What a client sends in front of the body, for an authentication id and a nonce of its choice.\<close>

definition hdr_len_ct :: "vmess_crypto \<Rightarrow> bytes \<Rightarrow> bytes \<Rightarrow> bytes \<Rightarrow> bytes \<Rightarrow> bytes" where
  "hdr_len_ct C cmd_key auth_id nonce pt =
     gcm_ct C (kdf16 C cmd_key [KDF_HDR_LEN_KEY, auth_id, nonce]) (kdf12 C cmd_key [KDF_HDR_LEN_IV, auth_id, nonce]) auth_id pt"

definition hdr_ct :: "vmess_crypto \<Rightarrow> bytes \<Rightarrow> bytes \<Rightarrow> bytes \<Rightarrow> bytes \<Rightarrow> bytes" where
  "hdr_ct C cmd_key auth_id nonce pt =
     gcm_ct C (kdf16 C cmd_key [KDF_HDR_KEY, auth_id, nonce]) (kdf12 C cmd_key [KDF_HDR_IV, auth_id, nonce]) auth_id pt"

definition sealed_header :: "vmess_crypto \<Rightarrow> bytes \<Rightarrow> bytes \<Rightarrow> bytes \<Rightarrow> bytes \<Rightarrow> bytes" where
  "sealed_header C cmd_key auth_id nonce header =
     auth_id @ hdr_len_ct C cmd_key auth_id nonce (to_be 2 (of_nat (length header) :: u16)) @ nonce
     @ hdr_ct C cmd_key auth_id nonce header"

lemma read_exact_iff:
  "read_exact n c = (Inr a, c') \<longleftrightarrow> length a = n \<and> (\<exists>ys. rx c = a @ ys \<and> c' = c\<lparr>rx := ys\<rparr>)"
  by (auto simp: read_exact_def split: if_splits)

lemma lift_io_iff: "lift_io r c = (Inr a, c') \<longleftrightarrow> r = Inr a \<and> c' = c"
  by (auto simp: lift_io_def)

lemma byte_pair: "byte_at bs 0 = Inr x \<Longrightarrow> byte_at bs 1 = Inr y \<Longrightarrow> length bs = 2 \<Longrightarrow> bs = [x, y]"
  by (auto simp: byte_at_def numeral_2_eq_2 length_Suc_conv)

lemma decode_request_header_iff:
  assumes laws: "body_laws C"
  shows "decode_request_header C now cmd_key c = (Inr req, c') \<longleftrightarrow>
    (\<exists>auth_id nonce header rest. rx c = sealed_header C cmd_key auth_id nonce header @ rest
       \<and> length auth_id = 16 \<and> length nonce = 8 \<and> 41 \<le> length header \<and> length header \<le> 2048
       \<and> validate_auth_id C now auth_id cmd_key = Inr () \<and> parse_plain_header C header = Inr req \<and> c' = c\<lparr>rx := rest\<rparr>)"
    (is "?L \<longleftrightarrow> ?R")
proof
  assume ?L
  then obtain auth_id c1 c2 c3 c4 enc_len nonce plen b0 b1 enc_hdr header where
    r: "read_exact 16 c = (Inr auth_id, c1)" "read_exact 18 c1 = (Inr enc_len, c2)" "read_exact 8 c2 = (Inr nonce, c3)"
      "read_exact (unat (from_be [b0, b1] :: u16) + 16) c3 = (Inr enc_hdr, c4)"
    and v: "validate_auth_id C now auth_id cmd_key = Inr ()"
    and o: "aead_open C enc_len (kdf16 C cmd_key [KDF_HDR_LEN_KEY, auth_id, nonce])
                         (kdf12 C cmd_key [KDF_HDR_LEN_IV, auth_id, nonce]) auth_id = Inr plen"
      "aead_open C enc_hdr (kdf16 C cmd_key [KDF_HDR_KEY, auth_id, nonce])
                         (kdf12 C cmd_key [KDF_HDR_IV, auth_id, nonce]) auth_id = Inr header"
    and b: "byte_at plen 0 = Inr b0" "byte_at plen 1 = Inr b1"
    and l: "41 \<le> unat (from_be [b0, b1] :: u16)" "unat (from_be [b0, b1] :: u16) \<le> 2048"
    and p: "parse_plain_header C header = Inr req" "c' = c4"
    unfolding decode_request_header_def bind_io_eq_Inr lift_io_iff Let_def
    by (auto simp: fail_io_def bind_io_eq_Inr lift_io_iff split: if_splits)
  let ?w = "from_be [b0, b1] :: u16"
  have len: "length enc_len = 18" "length enc_hdr = unat ?w + 16" using r(2,4) by (simp_all add: read_exact_iff)
  have e1: "length plen < 65536" "enc_len = hdr_len_ct C cmd_key auth_id nonce plen"
    using o(1) gcm_laws(3) [OF laws length_kdf [OF laws]] len(1) by (simp_all add: hdr_len_ct_def)
  have e2: "length header < 65536" "enc_hdr = hdr_ct C cmd_key auth_id nonce header"
    using o(2) gcm_laws(3) [OF laws length_kdf [OF laws]] len(2) l(2) by (simp_all add: hdr_ct_def)
  have "length plen = 2" "length header = unat ?w"
    using e1 e2 len gcm_laws(2) [OF laws length_kdf [OF laws]] by (auto simp: hdr_len_ct_def hdr_ct_def)
  moreover have "plen = to_be 2 ?w" using byte_pair [OF b \<open>length plen = 2\<close>] by (simp add: to_be_from_be_eq)
  ultimately show ?R
    using r v l p e1 e2 unfolding read_exact_iff sealed_header_def
    by (intro exI [of _ auth_id] exI [of _ nonce] exI [of _ header] exI [of _ "rx c4"]) auto
next
  assume ?R
  then obtain auth_id nonce header rest where h: "rx c = sealed_header C cmd_key auth_id nonce header @ rest"
    "length auth_id = 16" "length nonce = 8" "41 \<le> length header" "length header \<le> 2048"
    "validate_auth_id C now auth_id cmd_key = Inr ()" "parse_plain_header C header = Inr req" "c' = c\<lparr>rx := rest\<rparr>"
    by blast
  let ?w = "of_nat (length header) :: u16" and ?k = "kdf16 C cmd_key" and ?n = "kdf12 C cmd_key"
  have w: "unat ?w = length header" using h(5) by (intro unat_u16_of_nat) simp
  have len: "length (hdr_len_ct C cmd_key auth_id nonce (to_be 2 ?w)) = 18" "length (hdr_ct C cmd_key auth_id nonce header) = length header + 16"
    using h(5) gcm_laws(2) [OF laws length_kdf [OF laws]] by (simp_all add: hdr_len_ct_def hdr_ct_def)
  have o: "aead_open C (hdr_len_ct C cmd_key auth_id nonce (to_be 2 ?w)) (?k [KDF_HDR_LEN_KEY, auth_id, nonce])
      (?n [KDF_HDR_LEN_IV, auth_id, nonce]) auth_id = Inr (to_be 2 ?w)"
    "aead_open C (hdr_ct C cmd_key auth_id nonce header) (?k [KDF_HDR_KEY, auth_id, nonce])
      (?n [KDF_HDR_IV, auth_id, nonce]) auth_id = Inr header"
    using h(5) len by (subst gcm_laws(3) [OF laws length_kdf [OF laws]]; simp add: hdr_len_ct_def hdr_ct_def)+
  have b: "byte_at (to_be 2 ?w) 0 = Inr (to_be 2 ?w ! 0)" "byte_at (to_be 2 ?w) 1 = Inr (to_be 2 ?w ! 1)"
    "from_be [to_be 2 ?w ! 0, to_be 2 ?w ! 1] = ?w"
  proof -
    obtain x y where xy: "to_be 2 ?w = [x, y]" "from_be [x, y] = ?w" by (rule to_be_pair)
    show "byte_at (to_be 2 ?w) 0 = Inr (to_be 2 ?w ! 0)" "byte_at (to_be 2 ?w) 1 = Inr (to_be 2 ?w ! 1)"
      "from_be [to_be 2 ?w ! 0, to_be 2 ?w ! 1] = ?w" by (simp_all add: xy byte_at_def)
  qed
  let ?E = "hdr_len_ct C cmd_key auth_id nonce (to_be 2 ?w)" and ?H = "hdr_ct C cmd_key auth_id nonce header"
  have r: "read_exact 16 c = (Inr auth_id, c\<lparr>rx := ?E @ nonce @ ?H @ rest\<rparr>)"
    "read_exact 18 (c\<lparr>rx := ?E @ nonce @ ?H @ rest\<rparr>) = (Inr ?E, c\<lparr>rx := nonce @ ?H @ rest\<rparr>)"
    "read_exact 8 (c\<lparr>rx := nonce @ ?H @ rest\<rparr>) = (Inr nonce, c\<lparr>rx := ?H @ rest\<rparr>)"
    "read_exact (length header + 16) (c\<lparr>rx := ?H @ rest\<rparr>) = (Inr ?H, c\<lparr>rx := rest\<rparr>)"
    using h(1-3) len unfolding read_exact_iff by (simp_all add: sealed_header_def)
  show ?L
    unfolding decode_request_header_def bind_io_Inr [where m = "read_exact 16", OF r(1)] h(6) lift_io_simps bind_return_io
      bind_io_Inr [where m = "read_exact 18", OF r(2)] bind_io_Inr [where m = "read_exact 8", OF r(3)] o(1) b Let_def w
    using h(4,5,7,8) by (simp add: bind_io_Inr [where m = "read_exact _", OF r(4)] o(2) return_io_def)
qed

section \<open>The plain header\<close>

text \<open>
  A request as a client writes it: the fields the server reads, a reserved byte and up to
  fifteen bytes of padding, followed by the checksum of all of it.
\<close>

record vmess_wire =
  vw_iv :: bytes
  vw_key :: bytes
  vw_token :: u8
  vw_option :: u8
  vw_security :: nat
  vw_reserved :: u8
  vw_dest :: "host \<times> u16"
  vw_padding :: bytes

definition vmess_wire_ok :: "vmess_wire \<Rightarrow> bool" where
  "vmess_wire_ok w \<longleftrightarrow> length (vw_iv w) = 16 \<and> length (vw_key w) = 16 \<and> vw_security w < 16
     \<and> length (vw_padding w) < 16 \<and> host_ok (fst (vw_dest w))"

definition header_front :: "vmess_wire \<Rightarrow> bytes" where
  "header_front w =
     [1] @ vw_iv w @ vw_key w
     @ [vw_token w, vw_option w, of_nat (16 * length (vw_padding w) + vw_security w), vw_reserved w, 1]
     @ to_be 2 (snd (vw_dest w))"

definition header_body :: "vmess_wire \<Rightarrow> bytes" where
  "header_body w = header_front w @ enc_host 1 2 3 (fst (vw_dest w)) @ vw_padding w"

definition enc_plain_header :: "vmess_wire \<Rightarrow> bytes" where
  "enc_plain_header w = header_body w @ to_be 4 (fnv1a32 (header_body w))"

definition request_of :: "vmess_crypto \<Rightarrow> vmess_wire \<Rightarrow> vmess_request" where
  "request_of C w =
     \<lparr>vm_target = dest_text (vw_dest w), request_body_key = vw_key w, request_body_iv = vw_iv w,
      response_body_key = sha256_16 C (vw_key w), response_body_iv = sha256_16 C (vw_iv w),
      response_token = vw_token w, vm_option = vw_option w, vm_security = of_nat (vw_security w)\<rparr>"

lemma nibbles_all:
  "\<forall>p \<in> set [0..<16]. \<forall>s \<in> set [0..<16]. unat (drop_bit 4 (of_nat (16 * p + s) :: u8)) = p
     \<and> (of_nat (16 * p + s) :: u8) AND 0x0f = of_nat s"
  by code_simp

lemma nibbles:
  assumes "p < 16" "s < 16"
  shows "unat (drop_bit 4 (of_nat (16 * p + s) :: u8)) = p" "(of_nat (16 * p + s) :: u8) AND 0x0f = of_nat s"
  using nibbles_all assms by simp_all

lemma parse_host_enc:
  assumes "length P = 40" "host_ok host"
  shows "parse_host (P @ enc_host 1 2 3 host @ ys) = Inr (host_text host, 40 + length (enc_host 1 2 3 host))"
  using assms
  by (cases host) (simp_all add: parse_host_def get_slice_def byte_at_def nth_append unat_u8_of_nat)

lemma length_header_front: "vmess_wire_ok w \<Longrightarrow> length (header_front w) = 40"
  by (simp add: header_front_def vmess_wire_ok_def)

lemma header_front_nth:
  assumes "vmess_wire_ok w"
  shows "header_front w ! 0 = 1" "take 16 (drop 1 (header_front w)) = vw_iv w" "take 16 (drop 17 (header_front w)) = vw_key w"
    "header_front w ! 33 = vw_token w" "header_front w ! 34 = vw_option w"
    "header_front w ! 35 = of_nat (16 * length (vw_padding w) + vw_security w)" "header_front w ! 37 = 1"
    "from_be [header_front w ! 38, header_front w ! 39] = snd (vw_dest w)"
proof -
  obtain x y where xy: "to_be 2 (snd (vw_dest w)) = [x, y]" "from_be [x, y] = snd (vw_dest w)" by (rule to_be_pair)
  with assms show "header_front w ! 0 = 1" "take 16 (drop 1 (header_front w)) = vw_iv w" "take 16 (drop 17 (header_front w)) = vw_key w"
    "header_front w ! 33 = vw_token w" "header_front w ! 34 = vw_option w"
    "header_front w ! 35 = of_nat (16 * length (vw_padding w) + vw_security w)" "header_front w ! 37 = 1"
    "from_be [header_front w ! 38, header_front w ! 39] = snd (vw_dest w)"
    by (simp_all add: header_front_def vmess_wire_ok_def nth_append xy)
qed

lemma parse_plain_header_enc:
  assumes "vmess_wire_ok w"
  shows "parse_plain_header C (enc_plain_header w @ ys) = Inr (request_of C w)"
proof -
  define h where "h = enc_plain_header w @ ys"
  define n where "n = length (header_body w)"
  let ?t = "enc_host 1 2 3 (fst (vw_dest w)) @ vw_padding w @ to_be 4 (fnv1a32 (header_body w)) @ ys"
  have h: "h = header_front w @ ?t" by (simp add: h_def enc_plain_header_def header_body_def)
  have f: "length (header_front w) = 40" by (rule length_header_front [OF assms])
  have nth: "h ! i = header_front w ! i" if "i < 40" for i using that f unfolding h by (simp add: nth_append)
  have td: "take 16 (drop i h) = take 16 (drop i (header_front w))" if "i + 16 \<le> 40" for i
    using that f unfolding h by simp
  have ph: "parse_host h = Inr (host_text (fst (vw_dest w)), 40 + length (enc_host 1 2 3 (fst (vw_dest w))))"
    unfolding h using assms by (intro parse_host_enc f) (simp add: vmess_wire_ok_def)
  have n: "40 + length (enc_host 1 2 3 (fst (vw_dest w))) + length (vw_padding w) = n"
    by (simp add: header_body_def f n_def)
  have nib: "length (vw_padding w) < 16" "vw_security w < 16" using assms by (simp_all add: vmess_wire_ok_def)
  have len: "41 \<le> length h" unfolding h using f by (cases "fst (vw_dest w)") simp_all
  have fin: "take n h = header_body w" "take 4 (drop n h) = to_be 4 (fnv1a32 (header_body w))" "n + 4 \<le> length h"
    by (simp_all add: enc_plain_header_def h_def n_def)
  have le: "\<not> length h < 44 + length (enc_host 1 2 3 (fst (vw_dest w))) + length (vw_padding w)"
    using fin(3) n by linarith
  show ?thesis
    using len le header_front_nth(2) [OF assms, unfolded One_nat_def] unfolding h_def [symmetric] parse_plain_header_def ph
    by (simp add: Let_def nth td add.assoc [symmetric] header_front_nth [OF assms] nibbles [OF nib] n fin request_of_def dest_text_def
        del: of_nat_add of_nat_mult)
qed

lemma length_enc_plain_header:
  assumes "vmess_wire_ok w"
  shows "41 \<le> length (enc_plain_header w)" "length (enc_plain_header w) \<le> 2048"
  using assms length_header_front [OF assms]
  by (cases "fst (vw_dest w)"; simp add: enc_plain_header_def header_body_def vmess_wire_ok_def)+

section \<open>The connection\<close>

definition fresh_auth_id :: "vmess_crypto \<Rightarrow> u64 \<Rightarrow> bytes \<Rightarrow> bytes \<Rightarrow> bool" where
  "fresh_auth_id C now cmd_key auth_id \<longleftrightarrow>
     (let plain = aes_block C (kdf16 C cmd_key [KDF_AUTH_ID]) auth_id
      in crc32 C (take 12 plain) = from_be (take 4 (drop 12 plain)) \<and> i64_abs (from_be (take 8 plain) - now) \<le> 120)"

lemma validate_auth_id_iff: "validate_auth_id C now auth_id cmd_key = Inr () \<longleftrightarrow> fresh_auth_id C now cmd_key auth_id"
  by (auto simp: validate_auth_id_def fresh_auth_id_def Let_def)

text \<open>The two sealed parts of the response header for a request.\<close>

definition response_header :: "vmess_crypto \<Rightarrow> vmess_request \<Rightarrow> bytes" where
  "response_header C req =
     gcm_ct C (kdf16 C (response_body_key req) [KDF_RESP_LEN_KEY]) (kdf12 C (response_body_iv req) [KDF_RESP_LEN_IV]) [] [0, 4]
     @ gcm_ct C (kdf16 C (response_body_key req) [KDF_RESP_PAY_KEY]) (kdf12 C (response_body_iv req) [KDF_RESP_PAY_IV]) []
         [response_token req, vm_option req, 0, 0]"

lemma encode_response_header_open:
  assumes "body_laws C" "tx_cap c = None"
  shows "encode_response_header C req c = (Inr (), c\<lparr>tx := tx c @ response_header C req\<rparr>)"
proof -
  have "to_be 2 (4 :: u16) = [0, 4]" by (simp add: be_simps)
  with assms gcm_laws(1) [OF assms(1) length_kdf [OF assms(1)]] show ?thesis
    by (simp add: encode_response_header_def aead_seal_def Let_def bind_io_def return_io_def write_all_def response_header_def)
qed

lemma vmess_accept_gate:
  assumes "body_laws C" "vmess_accept C now connect cmd_key io \<noteq> vmess_accept C now connect' cmd_key io"
  shows "\<exists>auth_id nonce header rest req. rx io = sealed_header C cmd_key auth_id nonce header @ rest
    \<and> length auth_id = 16 \<and> fresh_auth_id C now cmd_key auth_id
    \<and> parse_plain_header C header = Inr req \<and> connect (vm_target req) \<noteq> connect' (vm_target req)"
proof (cases "decode_request_header C now cmd_key io")
  case (Pair x io')
  show ?thesis
  proof (cases x)
    case (Inl err)
    with Pair assms(2) show ?thesis by (simp add: vmess_accept_def bind_io_def)
  next
    case (Inr req)
    with Pair assms(2) have "connect (vm_target req) \<noteq> connect' (vm_target req)"
      by (auto simp: vmess_accept_def bind_io_def)
    with Pair [unfolded Inr decode_request_header_iff [OF assms(1)] validate_auth_id_iff] show ?thesis by blast
  qed
qed

text \<open>
  C19.  A VMess connection dials only for a client that knows the key: when the outcome can depend on the network's answer,
  the connection began with an authentication id that decrypts to the right checksum and to a time stamp within two minutes of the
  server's clock, in the wrapping arithmetic of the code (which a time stamp 2^63 seconds away passes too), and with a header sealed under keys derived from the command key and
  bound to that id; the target is the one of that header.
\<close>

theorem vmess_dial_needs_key:
  assumes "body_laws C"
    and "vmess_process C noise now connect cmd_key reads e io out \<noteq> vmess_process C noise now connect' cmd_key reads e io out"
  shows "\<exists>auth_id nonce header rest req. rx io = sealed_header C cmd_key auth_id nonce header @ rest
    \<and> length auth_id = 16 \<and> fresh_auth_id C now cmd_key auth_id
    \<and> parse_plain_header C header = Inr req \<and> connect (vm_target req) \<noteq> connect' (vm_target req)"
proof (rule vmess_accept_gate [OF assms(1)])
  show "vmess_accept C now connect cmd_key io \<noteq> vmess_accept C now connect' cmd_key io"
    using assms(2) by (auto simp: vmess_process_def)
qed

text \<open>
  C18.  A whole VMess connection whose request does not ask for authenticated lengths (the option \<open>OPT_AUTH_LEN\<close>, on which the
  two directions of the server disagree): a client's sealed header and a body encoded in non-empty chunks of up to 8192 bytes,
  the empty chunk being the end mark, reach the target as the body's plain bytes; and the client gets the sealed response
  header and a body that decodes, under the response key and vector, to what reads of 1 to 8192 bytes returned from the
  target before its clean end.  Both writers are shut down.
\<close>

theorem vmess_exchange:
  assumes "body_laws C" "vmess_wire_ok w" "sec_ok (of_nat (vw_security w))" "vw_option w AND OPT_AUTH_LEN = 0"
    and "length auth_id = 16" "length nonce = 8" "fresh_auth_id C now cmd_key auth_id"
    and "connect (dest_text (vw_dest w)) = Connected"
    and "\<forall>d\<in>set ups. d \<noteq> [] \<and> length d \<le> CHUNK_SIZE" "\<forall>d\<in>set downs. d \<noteq> [] \<and> length d \<le> CHUNK_SIZE"
    and "rx io = sealed_header C cmd_key auth_id nonce (enc_plain_header w)
           @ vmess_body C noise (vw_key w) (vw_iv w) (vw_option w) (of_nat (vw_security w)) ups"
    and "rx_end io = UnexpectedEof" "tx io = []" "tx_cap io = None" "tx_cap out = None"
  shows "\<exists>io' body. vmess_process C noise' now connect cmd_key downs UnexpectedEof io out
      = (Inr (), io', out\<lparr>tx := tx out @ concat ups, tx_shut := True\<rparr>)
    \<and> tx io' = response_header C (request_of C w) @ body \<and> tx_shut io'
    \<and> relay_up C (sha256_16 C (vw_key w)) (sha256_16 C (vw_iv w)) (vw_option w) (of_nat (vw_security w))
        (demo_conn\<lparr>rx := body\<rparr>) demo_conn = (Inr (), demo_conn\<lparr>tx := concat downs\<rparr>)"
proof -
  let ?req = "request_of C w" and ?sec = "of_nat (vw_security w) :: u8"
  let ?up = "vmess_body C noise (vw_key w) (vw_iv w) (vw_option w) ?sec ups"
  let ?io1 = "io\<lparr>rx := ?up\<rparr>"
  let ?io2 = "?io1\<lparr>tx := tx ?io1 @ response_header C ?req\<rparr>"
  have sha: "length (sha256_16 C x) = 16" for x using assms(1) by (simp add: sha256_16_def body_laws_def)
  have st: "body_setting C (vw_key w) (vw_iv w) (vw_option w) ?sec"
    "body_setting C (sha256_16 C (vw_key w)) (sha256_16 C (vw_iv w)) (vw_option w) ?sec"
    using assms(1-4) by (simp_all add: body_setting_def vmess_wire_ok_def sha)
  have dec: "decode_request_header C now cmd_key io = (Inr ?req, ?io1)"
    unfolding decode_request_header_iff [OF assms(1)] validate_auth_id_iff
    using assms(5-7,11) length_enc_plain_header [OF assms(2)] parse_plain_header_enc [OF assms(2), of C "[]"]
    by (intro exI [of _ auth_id] exI [of _ nonce] exI [of _ "enc_plain_header w"] exI [of _ ?up]) simp
  have enc: "encode_response_header C ?req ?io1 = (Inr (), ?io2)"
    by (rule encode_response_header_open [OF assms(1)]) (simp add: assms(14))
  have acc: "vmess_accept C now connect cmd_key io = (Inr ?req, ?io2)"
    unfolding vmess_accept_def bind_io_Inr [where m = "decode_request_header C now cmd_key", OF dec]
    using assms(8) by (simp add: request_of_def [of C w] bind_io_def enc [unfolded request_of_def [of C w]] return_io_def)
  let ?down = "vmess_body C noise' (sha256_16 C (vw_key w)) (sha256_16 C (vw_iv w)) (vw_option w) ?sec downs"
  have upl: "relay_up C (vw_key w) (vw_iv w) (vw_option w) ?sec ?io2 out = (Inr (), out\<lparr>tx := tx out @ concat ups\<rparr>)"
    by (rule relay_up_body [OF st(1) assms(9,15), where noise = noise]) (simp_all add: assms(12))
  have "\<forall>d\<in>set downs. length d \<le> CHUNK_SIZE" using assms(10) by blast
  then have dn: "relay_down C noise' (sha256_16 C (vw_key w)) (sha256_16 C (vw_iv w)) (vw_option w) ?sec downs UnexpectedEof ?io2
      = (Inr (), ?io2\<lparr>tx := tx ?io2 @ ?down\<rparr>)"
    by (rule relay_down_body [OF st(2)]) (simp add: assms(14))
  have ret: "relay_up C (sha256_16 C (vw_key w)) (sha256_16 C (vw_iv w)) (vw_option w) ?sec
        (demo_conn\<lparr>rx := ?down\<rparr>) demo_conn = (Inr (), demo_conn\<lparr>tx := tx demo_conn @ concat downs\<rparr>)"
    by (rule relay_up_body [OF st(2) assms(10), where noise = noise']) (simp_all add: demo_conn_def)
  have f: "request_body_key ?req = vw_key w" "request_body_iv ?req = vw_iv w" "vm_option ?req = vw_option w"
    "vm_security ?req = ?sec" "response_body_key ?req = sha256_16 C (vw_key w)" "response_body_iv ?req = sha256_16 C (vw_iv w)"
    by (simp_all add: request_of_def)
  have "vmess_process C noise' now connect cmd_key downs UnexpectedEof io out
      = (Inr (), ?io2\<lparr>tx := tx ?io2 @ ?down, tx_shut := True\<rparr>, out\<lparr>tx := tx out @ concat ups, tx_shut := True\<rparr>)"
    unfolding vmess_process_def acc prod.case sum.case Let_def f upl dn by (simp add: shutdown_io_def)
  with ret assms(13) show ?thesis
    by (intro exI [of _ "?io2\<lparr>tx := tx ?io2 @ ?down, tx_shut := True\<rparr>"] exI [of _ ?down]) (simp add: demo_conn_def)
qed

text \<open>With authenticated lengths a chunk starts with its length, sealed under the counter after the one of its payload.\<close>

lemma down_chunk_auth:
  assumes "body_laws C" "sec_ok sec" "length key = 16" "length iv = 16" "opt AND OPT_AUTH_LEN \<noteq> 0" "length d \<le> CHUNK_SIZE"
    and "tx_cap (b_conn s) = None"
  shows "\<exists>s' x ct rest. down_chunk C noise key iv opt sec d s = (Inr (), s') \<and> tx_cap (b_conn s') = None
    \<and> gcm_seal C (auth_len_key C key) (chunk_nonce iv (b_count s + 1)) [] x = Some ct \<and> length ct = 18
    \<and> tx (b_conn s') = tx (b_conn s) @ ct @ rest"
proof -
  have "length d < 65536" using assms(6) by (simp add: CHUNK_SIZE_def)
  from body_cipher [OF assms(1-4) this] obtain payload where
    pl: "body_encrypt C sec key iv (b_count s) d = Inr payload" by metis
  obtain p sh where p: "pad_of C opt (b_shake s) = (p, sh)" by fastforce
  let ?x = "to_be 2 (of_nat (length payload + p) :: u16)"
  have "aead_pair 16 (\<lambda>k n. gcm_seal C k n []) (\<lambda>k n. gcm_open C k n [])" "length (auth_len_key C key) = 16"
    using assms(1) length_kdf(1) [OF assms(1)] by (simp_all add: body_laws_def auth_len_key_def)
  from aead_pairD [OF this, of "chunk_nonce iv (b_count s + 1)" ?x] assms(4) obtain ct where
    ct: "gcm_seal C (auth_len_key C key) (chunk_nonce iv (b_count s + 1)) [] ?x = Some ct" "length ct = 18" by auto
  let ?pad = "if p > 0 then map (noise (b_count s)) [0..<p] else []"
  let ?s = "s\<lparr>b_conn := (b_conn s)\<lparr>tx := tx (b_conn s) @ ct @ payload @ ?pad\<rparr>, b_shake := sh, b_count := b_count s + 1 + 1\<rparr>"
  have "down_chunk C noise key iv opt sec d s = (Inr (), ?s)"
    using assms(5,7) pl ct(1) p
    by (cases s) (simp add: down_chunk_def bind_io_def pad_len_eq b_tick_def write_size_def b_write_def write_all_def return_io_def)
  with assms(7) ct show ?thesis
    by (intro exI [of _ ?s] exI [of _ ?x] exI [of _ ct] exI [of _ "payload @ ?pad"]) simp
qed

lemma down_loop_auth:
  assumes "body_laws C" "sec_ok sec" "length key = 16" "length iv = 16" "opt AND OPT_AUTH_LEN \<noteq> 0"
  shows "\<forall>d\<in>set ds. length d \<le> CHUNK_SIZE \<Longrightarrow> tx_cap (b_conn s) = None \<Longrightarrow>
    \<exists>s' x ct rest. down_loop C noise key iv opt sec ds UnexpectedEof s = (Inr (), s')
      \<and> gcm_seal C (auth_len_key C key) (chunk_nonce iv (b_count s + 1)) [] x = Some ct \<and> length ct = 18
      \<and> tx (b_conn s') = tx (b_conn s) @ ct @ rest"
proof (induction ds arbitrary: s)
  case Nil
  then show ?case using down_chunk_auth [OF assms, of "[]" s noise] by simp blast
next
  case (Cons d ds)
  from down_chunk_auth [OF assms, of d s noise] Cons.prems obtain s1 x ct rest where
    s1: "down_chunk C noise key iv opt sec d s = (Inr (), s1)" "tx_cap (b_conn s1) = None"
    "gcm_seal C (auth_len_key C key) (chunk_nonce iv (b_count s + 1)) [] x = Some ct" "length ct = 18"
    "tx (b_conn s1) = tx (b_conn s) @ ct @ rest" by auto
  from Cons.IH [OF _ s1(2)] Cons.prems obtain s2 more2 where
    "down_loop C noise key iv opt sec ds UnexpectedEof s1 = (Inr (), s2)" "tx (b_conn s2) = tx (b_conn s1) @ more2" by auto
  with s1 show ?case by (intro exI [of _ s2] exI [of _ x] exI [of _ ct] exI [of _ "rest @ more2"]) (simp add: bind_io_def)
qed

text \<open>
  C40.  With authenticated lengths the two directions disagree: the length is sealed under the counter after the payload's and opened
  under the one before it.  Under a cipher that opens a text only with the nonce it was sealed with, what \<open>relay_down\<close> writes
  for any reply is refused by \<open>relay_up\<close> at its first chunk, under the same key and vector.
\<close>

theorem vmess_auth_len_diverges:
  assumes "body_laws C" "sec_ok sec" "length key = 16" "length iv = 16" "opt AND OPT_AUTH_LEN \<noteq> 0" "\<not> raw_copy opt sec"
    and "\<And>k n n' x ct. gcm_seal C k n [] x = Some ct \<Longrightarrow> length n = 12 \<Longrightarrow> length n' = 12 \<Longrightarrow> n' \<noteq> n \<Longrightarrow> gcm_open C k n' [] ct = None"
    and "\<forall>d\<in>set reads. length d \<le> CHUNK_SIZE" "tx_cap client = None" "tx client = []"
  shows "\<exists>c. relay_down C noise key iv opt sec reads UnexpectedEof client = (Inr (), c)
    \<and> relay_up C key iv opt sec (peer\<lparr>rx := tx c\<rparr>) target = (Inl (Bail ''auth_len decrypt''), target)"
proof -
  from down_loop_auth [OF assms(1-5,8), of "body_start iv opt client" noise] assms(9,10) obtain s x ct rest where
    d: "down_loop C noise key iv opt sec reads UnexpectedEof (body_start iv opt client) = (Inr (), s)"
    "gcm_seal C (auth_len_key C key) (chunk_nonce iv 1) [] x = Some ct" "length ct = 18" "tx (b_conn s) = ct @ rest" by auto
  have "chunk_nonce iv 0 \<noteq> chunk_nonce iv 1" by (simp add: chunk_nonce_def be_simps)
  from assms(7) [OF d(2) _ _ this] assms(4) have o: "gcm_open C (auth_len_key C key) (chunk_nonce iv 0) [] ct = None" by simp
  let ?b = "body_start iv opt (peer\<lparr>rx := ct @ rest\<rparr>)"
  obtain p sh where p: "pad_len C opt ?b = (Inr p, ?b\<lparr>b_shake := sh\<rparr>)" by (simp add: pad_len_eq)
  have "fst (read_size C key iv opt (?b\<lparr>b_shake := sh\<rparr>)) = Inl (Bail ''auth_len decrypt'')"
    using assms(5) d(3) o by (simp add: read_size_def bind_io_def b_read_def read_exact_def)
  then obtain b where "read_size C key iv opt (?b\<lparr>b_shake := sh\<rparr>) = (Inl (Bail ''auth_len decrypt''), b)" by (metis prod.collapse)
  with p have "up_chunk C key iv opt sec ?b = (Inl (Bail ''auth_len decrypt''), b)" by (simp add: up_chunk_def bind_io_def)
  then have "up_loop C key iv opt sec ?b target = (Inl (Bail ''auth_len decrypt''), target)" by (subst up_loop.simps) simp
  with d assms(6) show ?thesis by (simp add: relay_down_def relay_up_def)
qed

lemma parse_host_truncated:
  assumes "length P = 40" "host_ok host" "41 \<le> k" "k < 40 + length (enc_host 1 2 3 host)"
  shows "\<exists>m. parse_host (take k (P @ enc_host 1 2 3 host @ ys)) = Inl (Panic m)"
  using assms
  by (cases host; cases "k = 41") (auto simp: parse_host_def get_slice_def byte_at_def nth_append unat_u8_of_nat)

text \<open>
  Every truncation of a well-formed VMess header is refused, but not always by an error: a header cut
  inside the address panics, because the parser slices the address before it has compared the lengths.
\<close>

theorem vmess_header_truncated:
  assumes "vmess_wire_ok w" "k < length (enc_plain_header w)"
  shows "\<exists>e. parse_plain_header C (take k (enc_plain_header w)) = Inl e
    \<and> ((\<exists>m. e = Panic m) \<longleftrightarrow> 41 \<le> k \<and> k < 40 + length (enc_host 1 2 3 (fst (vw_dest w))))"
proof (cases "41 \<le> k")
  case False
  then have "length (take k (enc_plain_header w)) < 41" by simp
  with False show ?thesis unfolding parse_plain_header_def by (simp del: length_take)
next
  case True
  let ?t = "vw_padding w @ to_be 4 (fnv1a32 (header_body w))" and ?e = "enc_host 1 2 3 (fst (vw_dest w))"
  define h where "h = take k (enc_plain_header w)"
  have e: "enc_plain_header w = header_front w @ ?e @ ?t" by (simp add: enc_plain_header_def header_body_def)
  have f: "length (header_front w) = 40" by (rule length_header_front [OF assms(1)])
  have nth: "h ! i = header_front w ! i" if "i < 40" for i
    using that f True unfolding h_def e by (simp add: nth_append)
  have len: "length h = k" using assms(2) by (simp add: h_def)
  have ok: "host_ok (fst (vw_dest w))" using assms(1) by (simp add: vmess_wire_ok_def)
  have nib: "length (vw_padding w) < 16" "vw_security w < 16" using assms(1) by (simp_all add: vmess_wire_ok_def)
  have up: "parse_plain_header C h = (case parse_host h of Inl e \<Rightarrow> Inl e | Inr (host, idx) \<Rightarrow>
      if k < idx + length (vw_padding w) + 4 then Inl (Bail ''missing fnv'') else parse_plain_header C h)"
    using True len by (auto simp: parse_plain_header_def Let_def nth header_front_nth [OF assms(1)] nibbles [OF nib]
        simp del: of_nat_add of_nat_mult split: sum.splits)
  show ?thesis
  proof (cases "k < 40 + length ?e")
    case cut: True
    with parse_host_truncated [OF f ok True, of ?t] obtain m where "parse_host h = Inl (Panic m)"
      unfolding h_def e by blast
    with up True cut show ?thesis by (simp add: h_def)
  next
    case False
    then have "h = header_front w @ ?e @ take (k - 40 - length ?e) ?t" using f unfolding h_def e by simp
    then have "parse_host h = Inr (host_text (fst (vw_dest w)), 40 + length ?e)"
      using parse_host_enc [OF f ok] by simp
    with up False assms(2) show ?thesis unfolding h_def by (simp add: e f split: if_splits)
  qed
qed

section \<open>Instances\<close>

definition demo_vmess :: vmess_wire where
  "demo_vmess = \<lparr>vw_iv = replicate 16 2, vw_key = replicate 16 1, vw_token = 5, vw_option = 0x0D, vw_security = 3,
     vw_reserved = 0, vw_dest = (HostName (str ''a.b''), 443), vw_padding = [9, 9]\<rparr>"

definition demo_auth_id :: bytes where
  "demo_auth_id = to_be 8 (1000 :: u64) @ [7, 7, 7, 7, 0, 0, 0, 0]"

definition demo_key :: bytes where "demo_key = vmess_cmd_key toy_vmess (replicate 16 3)"

lemma demo_vmess_ok: "vmess_wire_ok demo_vmess" "sec_ok (of_nat (vw_security demo_vmess))" "vw_option demo_vmess AND OPT_AUTH_LEN = 0"
  by (simp_all add: vmess_wire_ok_def demo_vmess_def sec_ok_def vmess_sec OPT_AUTH_LEN_def)

lemma demo_auth_ok: "length demo_auth_id = 16" "length (replicate 8 4 :: bytes) = 8" "fresh_auth_id toy_vmess 1010 demo_key demo_auth_id"
proof -
  have "i64_abs ((1000 :: u64) - 1010) \<le> 120" by (simp add: i64_abs_def)
  then show "length demo_auth_id = 16" "length (replicate 8 4 :: bytes) = 8" "fresh_auth_id toy_vmess 1010 demo_key demo_auth_id"
    by (simp_all add: demo_auth_id_def fresh_auth_id_def toy_vmess_def from_be_Cons)
qed

abbreviation demo_vmess_conn :: "bytes \<Rightarrow> conn" where
  "demo_vmess_conn body \<equiv> demo_conn\<lparr>rx := sealed_header toy_vmess demo_key demo_auth_id (replicate 8 4) (enc_plain_header demo_vmess) @ body\<rparr>"

theorem vmess_exchange_witness:
  "\<exists>io' body. vmess_process toy_vmess (\<lambda>_ _. 9) 1010 (\<lambda>_. Connected) demo_key [[4], [5, 6]] UnexpectedEof
      (demo_vmess_conn (vmess_body toy_vmess (\<lambda>_ _. 8) (vw_key demo_vmess) (vw_iv demo_vmess) (vw_option demo_vmess)
         (of_nat (vw_security demo_vmess)) [[1, 2], [3]])) demo_conn
      = (Inr (), io', demo_conn\<lparr>tx := tx demo_conn @ concat [[1, 2], [3]], tx_shut := True\<rparr>)
    \<and> tx io' = response_header toy_vmess (request_of toy_vmess demo_vmess) @ body \<and> tx_shut io'"
proof -
  let ?body = "vmess_body toy_vmess (\<lambda>_ _. 8) (vw_key demo_vmess) (vw_iv demo_vmess) (vw_option demo_vmess)
         (of_nat (vw_security demo_vmess)) [[1, 2], [3]]"
  have p: "(\<lambda>_. Connected) (dest_text (vw_dest demo_vmess)) = Connected"
    "\<forall>d\<in>set [[1, 2], [3 :: u8]]. d \<noteq> [] \<and> length d \<le> CHUNK_SIZE" "\<forall>d\<in>set [[4], [5, 6 :: u8]]. d \<noteq> [] \<and> length d \<le> CHUNK_SIZE"
    "rx (demo_vmess_conn ?body) = sealed_header toy_vmess demo_key demo_auth_id (replicate 8 4) (enc_plain_header demo_vmess) @ ?body"
    "rx_end (demo_vmess_conn ?body) = UnexpectedEof" "tx (demo_vmess_conn ?body) = []" "tx_cap (demo_vmess_conn ?body) = None"
    "tx_cap demo_conn = None"
    by (simp_all add: CHUNK_SIZE_def demo_conn_def)
  from vmess_exchange [OF toy_body_laws demo_vmess_ok demo_auth_ok p, of "\<lambda>_ _. 9"] show ?thesis by blast
qed

theorem vmess_auth_len_diverges_witness:
  "\<exists>c. relay_down toy_vmess (\<lambda>_ _. 9) (replicate 16 1) (replicate 16 2) 0x11 SEC_AES128_GCM [[1, 2]] UnexpectedEof demo_conn = (Inr (), c)
    \<and> relay_up toy_vmess (replicate 16 1) (replicate 16 2) 0x11 SEC_AES128_GCM (demo_conn\<lparr>rx := tx c\<rparr>) demo_conn
      = (Inl (Bail ''auth_len decrypt''), demo_conn)"
proof (rule vmess_auth_len_diverges [OF toy_body_laws])
  show "gcm_open toy_vmess k n' [] ct = None"
    if "gcm_seal toy_vmess k n [] x = Some ct" "length n = 12" "length n' = 12" "n' \<noteq> n" for k n n' x ct
    using that by (auto simp: toy_vmess_def toy_encrypt_def toy_decrypt_def)
qed (simp_all add: sec_ok_def vmess_sec OPT_AUTH_LEN_def raw_copy_def CHUNK_SIZE_def demo_conn_def)

theorem vmess_dial_needs_key_witness:
  "\<exists>auth_id nonce header rest req. rx (demo_vmess_conn []) = sealed_header toy_vmess demo_key auth_id nonce header @ rest
    \<and> length auth_id = 16 \<and> fresh_auth_id toy_vmess 1010 demo_key auth_id
    \<and> parse_plain_header toy_vmess header = Inr req
    \<and> (\<lambda>_ :: rstring. Connected) (vm_target req) \<noteq> (\<lambda>_. TimedOut) (vm_target req)"
proof (rule vmess_dial_needs_key [OF toy_body_laws])
  have dec: "decode_request_header toy_vmess 1010 demo_key (demo_vmess_conn []) = (Inr (request_of toy_vmess demo_vmess), demo_conn\<lparr>rx := []\<rparr>)"
    unfolding decode_request_header_iff [OF toy_body_laws] validate_auth_id_iff
    using demo_auth_ok length_enc_plain_header [OF demo_vmess_ok(1)] parse_plain_header_enc [OF demo_vmess_ok(1), of toy_vmess "[]"]
    by (intro exI [of _ demo_auth_id] exI [of _ "replicate 8 4"] exI [of _ "enc_plain_header demo_vmess"] exI [of _ "[]"]) simp
  have "tx_cap (demo_conn\<lparr>rx := []\<rparr>) = None" by (simp add: demo_conn_def)
  note enc = encode_response_header_open [OF toy_body_laws this]
  have a: "\<exists>c. vmess_accept toy_vmess 1010 (\<lambda>_. Connected) demo_key (demo_vmess_conn []) = (Inr (request_of toy_vmess demo_vmess), c)"
    unfolding vmess_accept_def bind_io_Inr [where m = "decode_request_header toy_vmess 1010 demo_key", OF dec]
    by (simp add: bind_io_def enc return_io_def)
  have b: "\<exists>e c. vmess_accept toy_vmess 1010 (\<lambda>_. TimedOut) demo_key (demo_vmess_conn []) = (Inl e, c)"
    unfolding vmess_accept_def bind_io_Inr [where m = "decode_request_header toy_vmess 1010 demo_key", OF dec]
    by (simp add: fail_io_def)
  from a b show "vmess_process toy_vmess (\<lambda>_ _. 9) 1010 (\<lambda>_. Connected) demo_key [] UnexpectedEof (demo_vmess_conn []) demo_conn
    \<noteq> vmess_process toy_vmess (\<lambda>_ _. 9) 1010 (\<lambda>_. TimedOut) demo_key [] UnexpectedEof (demo_vmess_conn []) demo_conn"
    by (auto simp: vmess_process_def Let_def)
qed

theorem vmess_header_truncated_witness:
  "\<exists>e. parse_plain_header toy_vmess (take 43 (enc_plain_header demo_vmess)) = Inl e \<and> (\<exists>m. e = Panic m)"
proof -
  have "43 < length (enc_plain_header demo_vmess)" "(43 :: nat) < 40 + length (enc_host 1 2 3 (fst (vw_dest demo_vmess)))"
    using length_header_front [OF demo_vmess_ok(1)] by (simp_all add: enc_plain_header_def header_body_def demo_vmess_def)
  with vmess_header_truncated [OF demo_vmess_ok(1), of 43 toy_vmess] show ?thesis by auto
qed

end
