(* ===== verification/Listeners.thy ===== *)
theory Listeners
  imports Transport_Stack Proxy_Handlers Shadowsocks Vmess_Header
begin

text \<open>
  The listeners of VLESS, Trojan, Shadowsocks and VMess: what \<open>run\<close> prepares at start-up, what it does with each
  accepted connection, and the choice of TLS, REALITY and WebSocket in front of the protocol
  handler.  Accepting sockets and spawning tasks is the runtime's.
\<close>

section \<open>The model\<close>

text \<open>
  What a started listener holds: the TLS configuration, and the XHTTP server's when the transport is
  \<open>xhttp\<close>; then connections are fed to that server instead of being handled one by one.  \<open>bind\<close> parses the address and
  opens the socket.
\<close>

record listener =
  li_acceptor :: "server_config option"
  li_xhttp :: "xhttp_config option"

datatype 'a turn = Handled 'a | Fed xhttp_config "conn result"

definition start_listener ::
  "(rstring \<Rightarrow> unit result) \<Rightarrow> rstring \<Rightarrow> transport_config \<Rightarrow> server_config option \<Rightarrow> listener result" where
  "start_listener bind listen tr acceptor =
     and_then (bind listen) (\<lambda>_.
       Inr \<lparr>li_acceptor = acceptor,
            li_xhttp = (if tr_type tr = str ''xhttp'' then Some \<lparr>xh_path = xhttp_path tr, xh_host = xhttp_host tr\<rparr> else None)\<rparr>)"

definition build_tls :: "net_lib \<Rightarrow> standard_tls_config option \<Rightarrow> server_config option result" where
  "build_tls N tls =
     (case tls of None \<Rightarrow> Inr None | Some t \<Rightarrow> and_then (standard_build N t) (\<lambda>sc. Inr (Some sc)))"

text \<open>Runs a handler on the stream the layers produce.\<close>

definition on_layers :: "conn result \<Rightarrow> conn \<Rightarrow> 'a io \<Rightarrow> 'a result \<times> conn" where
  "on_layers layers stream handler = (case layers of Inl e \<Rightarrow> (Inl e, stream) | Inr io \<Rightarrow> handler io)"

section \<open>Trojan\<close>

record trojan_config =
  tj_listen :: rstring
  tj_password :: rstring
  tj_transport :: transport_config
  tj_tls :: "standard_tls_config option"

definition trojan_layers :: "net_lib \<Rightarrow> transport_config \<Rightarrow> server_config option \<Rightarrow> conn \<Rightarrow> conn result" where
  "trojan_layers N tr tls_acceptor stream =
     (let transport = tr_type tr in
      if transport = str ''tcp'' then
        (case tls_acceptor of None \<Rightarrow> Inr stream | Some acc \<Rightarrow> tls_handshake N acc stream)
      else if transport = str ''ws'' then
        (case tls_acceptor of
           None \<Rightarrow> and_then (accept_plain N (ws_path tr) (ws_host tr) stream) (\<lambda>ws. Inr (ws_conn ws))
         | Some acc \<Rightarrow>
             and_then (tls_handshake N acc stream) (\<lambda>tls.
             and_then (accept_tls N (ws_path tr) (ws_host tr) tls) (\<lambda>ws. Inr (ws_conn ws))))
      else Inl (Bail ''trojan: unknown transport''))"

definition trojan_handle ::
  "net_lib \<Rightarrow> (rstring \<Rightarrow> rstring) \<Rightarrow> trojan_config \<Rightarrow> server_config option \<Rightarrow> (rstring \<Rightarrow> dial) \<Rightarrow> rstring io" where
  "trojan_handle N hex_digest cfg tls_acceptor connect stream =
     on_layers (trojan_layers N (tj_transport cfg) tls_acceptor stream) stream
       (trojan_process hex_digest connect (tj_password cfg))"

definition trojan_run :: "net_lib \<Rightarrow> (rstring \<Rightarrow> unit result) \<Rightarrow> trojan_config \<Rightarrow> listener result" where
  "trojan_run N bind cfg =
     and_then (build_tls N (tj_tls cfg)) (\<lambda>acceptor.
       start_listener bind (tj_listen cfg) (tj_transport cfg) acceptor)"

text \<open>
  The body of the accept loop.  Under XHTTP the XHTTP server is fed what the TLS layer yields; a connection whose handshake
  fails is dropped.
\<close>

definition trojan_turn ::
  "net_lib \<Rightarrow> (rstring \<Rightarrow> rstring) \<Rightarrow> trojan_config \<Rightarrow> listener \<Rightarrow> (rstring \<Rightarrow> dial) \<Rightarrow> conn \<Rightarrow> (rstring result \<times> conn) turn" where
  "trojan_turn N hex_digest cfg l connect stream =
     (case li_xhttp l of
        Some xc \<Rightarrow>
          Fed xc (case li_acceptor l of None \<Rightarrow> Inr stream | Some acc \<Rightarrow> tls_handshake N acc stream)
      | None \<Rightarrow> Handled (trojan_handle N hex_digest cfg (li_acceptor l) connect stream))"

section \<open>Shadowsocks\<close>

record ss_config =
  ss_listen :: rstring
  ss_password :: rstring
  ss_method :: shadowsocks_cipher
  ss_transport :: transport_config
  ss_tls :: "standard_tls_config option"

text \<open>The environment of one handler: primitives, key derivation, the two clock readings and the random salt.\<close>

record ss_env =
  se_prims :: aead_prims
  se_blake3 :: "rstring \<Rightarrow> bytes \<Rightarrow> bytes"
  se_now :: u64
  se_now' :: u64
  se_salt :: bytes

definition ss_run_process ::
  "ss_env \<Rightarrow> ss_config \<Rightarrow> bytes \<Rightarrow> (rstring \<Rightarrow> dial) \<Rightarrow> (rstring \<times> aead_reader \<times> aead_writer) io" where
  "ss_run_process E cfg master_key connect =
     ss_process (se_prims E) (se_blake3 E) (se_now E) (se_now' E) connect (se_salt E) (ss_method cfg) master_key"

definition ss_handle_conn ::
  "net_lib \<Rightarrow> ss_env \<Rightarrow> ss_config \<Rightarrow> bytes \<Rightarrow> server_config option \<Rightarrow> (rstring \<Rightarrow> dial)
     \<Rightarrow> (rstring \<times> aead_reader \<times> aead_writer) io" where
  "ss_handle_conn N E cfg master_key tls_acceptor connect stream =
     (let tr = ss_transport cfg; transport = tr_type tr; process = ss_run_process E cfg master_key connect in
      if transport = str ''tcp'' then
        (case tls_acceptor of
           None \<Rightarrow> process stream
         | Some acc \<Rightarrow> (case tls_handshake N acc stream of Inl e \<Rightarrow> (Inl e, stream) | Inr tls \<Rightarrow> process tls))
      else if transport = str ''ws'' then
        (case tls_acceptor of
           None \<Rightarrow>
             (case accept_plain N (ws_path tr) (ws_host tr) stream of
                Inl e \<Rightarrow> (Inl e, stream) | Inr ws \<Rightarrow> process (ws_conn ws))
         | Some acc \<Rightarrow>
             (case tls_handshake N acc stream of
                Inl e \<Rightarrow> (Inl e, stream)
              | Inr tls \<Rightarrow>
                  (case accept_tls N (ws_path tr) (ws_host tr) tls of
                     Inl e \<Rightarrow> (Inl e, stream) | Inr ws \<Rightarrow> process (ws_conn ws))))
      else (Inl (Bail ''shadowsocks: unknown transport type''), stream))"

definition ss_run ::
  "net_lib \<Rightarrow> (rstring \<Rightarrow> bytes option) \<Rightarrow> (rstring \<Rightarrow> unit result) \<Rightarrow> ss_config \<Rightarrow> (bytes \<times> listener) result" where
  "ss_run N base64 bind cfg =
     and_then (decode_master_key base64 (ss_password cfg) (key_len (ss_method cfg))) (\<lambda>master_key.
     and_then (build_tls N (ss_tls cfg)) (\<lambda>acceptor.
     and_then (start_listener bind (ss_listen cfg) (ss_transport cfg) acceptor) (\<lambda>l. Inr (master_key, l))))"

definition ss_turn ::
  "net_lib \<Rightarrow> ss_env \<Rightarrow> ss_config \<Rightarrow> bytes \<times> listener \<Rightarrow> (rstring \<Rightarrow> dial) \<Rightarrow> conn
     \<Rightarrow> ((rstring \<times> aead_reader \<times> aead_writer) result \<times> conn) turn" where
  "ss_turn N E cfg started connect stream =
     (case started of (master_key, l) \<Rightarrow>
      (case li_xhttp l of
         Some xc \<Rightarrow>
           Fed xc (case li_acceptor l of None \<Rightarrow> Inr stream | Some acc \<Rightarrow> tls_handshake N acc stream)
       | None \<Rightarrow> Handled (ss_handle_conn N E cfg master_key (li_acceptor l) connect stream)))"

section \<open>VMess\<close>

record vmess_config =
  vm_listen :: rstring
  vm_uuid :: rstring
  vm_transport :: transport_config
  vm_tls :: "standard_tls_config option"

definition vmess_layers :: "net_lib \<Rightarrow> transport_config \<Rightarrow> server_config option \<Rightarrow> conn \<Rightarrow> conn result" where
  "vmess_layers N tr tls stream =
     (if tr_type tr = str ''tcp'' then
        (case tls of None \<Rightarrow> Inr stream | Some a \<Rightarrow> tls_handshake N a stream)
      else if tr_type tr = str ''ws'' then
        (case tls of
           None \<Rightarrow> and_then (accept_plain N (ws_path tr) (ws_host tr) stream) (\<lambda>ws. Inr (ws_conn ws))
         | Some a \<Rightarrow>
             and_then (tls_handshake N a stream) (\<lambda>t.
             and_then (accept_tls N (ws_path tr) (ws_host tr) t) (\<lambda>ws. Inr (ws_conn ws))))
      else Inl (Bail ''unknown transport''))"

text \<open>The handler up to its relay loops: the header, the dial and the response header.\<close>

definition vmess_handle ::
  "net_lib \<Rightarrow> vmess_crypto \<Rightarrow> u64 \<Rightarrow> vmess_config \<Rightarrow> bytes \<Rightarrow> server_config option \<Rightarrow> (rstring \<Rightarrow> dial) \<Rightarrow> vmess_request io" where
  "vmess_handle N C now cfg cmd_key tls connect stream =
     on_layers (vmess_layers N (vm_transport cfg) tls stream) stream (vmess_accept C now connect cmd_key)"

definition vmess_run ::
  "net_lib \<Rightarrow> vmess_crypto \<Rightarrow> (rstring \<Rightarrow> unit result) \<Rightarrow> vmess_config \<Rightarrow> (bytes \<times> listener) result" where
  "vmess_run N C bind cfg =
     and_then (parse_uuid (vm_uuid cfg)) (\<lambda>uuid.
     and_then (build_tls N (vm_tls cfg)) (\<lambda>acceptor.
     and_then (start_listener bind (vm_listen cfg) (vm_transport cfg) acceptor) (\<lambda>l. Inr (vmess_cmd_key C uuid, l))))"

definition vmess_turn ::
  "net_lib \<Rightarrow> vmess_crypto \<Rightarrow> u64 \<Rightarrow> vmess_config \<Rightarrow> bytes \<times> listener \<Rightarrow> (rstring \<Rightarrow> dial) \<Rightarrow> conn
     \<Rightarrow> (vmess_request result \<times> conn) turn" where
  "vmess_turn N C now cfg started connect stream =
     (case started of (cmd_key, l) \<Rightarrow>
      (case li_xhttp l of
         Some xc \<Rightarrow>
           Fed xc (case li_acceptor l of None \<Rightarrow> Inr stream | Some a \<Rightarrow> tls_handshake N a stream)
       | None \<Rightarrow> Handled (vmess_handle N C now cfg cmd_key (li_acceptor l) connect stream)))"

section \<open>VLESS\<close>

datatype vless_tls_config = Tls standard_tls_config | Reality reality_config

record vless_config =
  vl_listen :: rstring
  vl_uuid :: rstring
  vl_transport :: transport_config
  vl_tls :: "vless_tls_config option"

text \<open>The environment of REALITY on one connection: its libraries, the camouflage destination, and what has arrived at the peek.\<close>

record reality_env =
  re_lib :: reality_lib
  re_certs :: cert_lib
  re_connect :: "rstring \<Rightarrow> dial"
  re_arrived :: "nat option"
  re_outbound :: conn

definition vless_acceptor :: "net_lib \<Rightarrow> reality_lib \<Rightarrow> vless_config \<Rightarrow> server_config option result" where
  "vless_acceptor N L cfg =
     (case vl_tls cfg of
        None \<Rightarrow> Inr None
      | Some (Tls tls_cfg) \<Rightarrow> and_then (standard_build N tls_cfg) (\<lambda>sc. Inr (Some sc))
      | Some (Reality reality_cfg) \<Rightarrow>
          and_then (reality_build L (simple_self_signed N) (single_cert N) reality_cfg) (\<lambda>sc. Inr (Some sc)))"

definition vless_run ::
  "net_lib \<Rightarrow> reality_lib \<Rightarrow> (rstring \<Rightarrow> unit result) \<Rightarrow> vless_config \<Rightarrow> (bytes \<times> listener) result" where
  "vless_run N L bind cfg =
     and_then (parse_uuid (vl_uuid cfg)) (\<lambda>uuid_bytes.
     and_then (vless_acceptor N L cfg) (\<lambda>acceptor.
     and_then (start_listener bind (vl_listen cfg) (vl_transport cfg) acceptor) (\<lambda>l. Inr (uuid_bytes, l))))"

definition vless_reality :: "net_lib \<Rightarrow> reality_env \<Rightarrow> reality_config \<Rightarrow> conn \<Rightarrow> conn result \<times> relay option" where
  "vless_reality N R rc stream =
     accept (re_lib R) (re_certs R) (tls_handshake N) (re_connect R) (re_arrived R) rc stream (re_outbound R)"

definition vless_handle_conn ::
  "net_lib \<Rightarrow> reality_env \<Rightarrow> vless_config \<Rightarrow> bytes \<Rightarrow> server_config option \<Rightarrow> (rstring \<Rightarrow> dial) \<Rightarrow> conn
     \<Rightarrow> (rstring result \<times> conn) \<times> relay option" where
  "vless_handle_conn N R cfg uuid_bytes tls_acceptor connect stream =
     (let tr = vl_transport cfg; transport_type = tr_type tr;
          process = process_vless_stream connect uuid_bytes;
          upgrade = (\<lambda>acc io. case acc N (ws_path tr) (ws_host tr) io of
                        Inl e \<Rightarrow> (Inl e, stream) | Inr ws \<Rightarrow> process (ws_conn ws))
      in if transport_type = str ''tcp'' then
           (case vl_tls cfg of
              None \<Rightarrow> (process stream, None)
            | Some (Tls _) \<Rightarrow>
                (case tls_acceptor of
                   None \<Rightarrow> ((Inl (Bail ''TLS acceptor missing''), stream), None)
                 | Some acceptor \<Rightarrow>
                     (case tls_handshake N acceptor stream of
                        Inl e \<Rightarrow> ((Inl e, stream), None) | Inr tls_stream \<Rightarrow> (process tls_stream, None)))
            | Some (Reality reality_cfg) \<Rightarrow>
                (case vless_reality N R reality_cfg stream of
                   (Inl e, fwd) \<Rightarrow> ((Inl e, stream), fwd) | (Inr reality_stream, fwd) \<Rightarrow> (process reality_stream, fwd)))
         else if transport_type = str ''ws'' then
           (case vl_tls cfg of
              None \<Rightarrow> (upgrade accept_plain stream, None)
            | Some (Tls _) \<Rightarrow>
                (case tls_acceptor of
                   None \<Rightarrow> ((Inl (Bail ''TLS acceptor missing''), stream), None)
                 | Some acceptor \<Rightarrow>
                     (case tls_handshake N acceptor stream of
                        Inl e \<Rightarrow> ((Inl e, stream), None) | Inr tls_stream \<Rightarrow> (upgrade accept_tls tls_stream, None)))
            | Some (Reality reality_cfg) \<Rightarrow>
                (case vless_reality N R reality_cfg stream of
                   (Inl e, fwd) \<Rightarrow> ((Inl e, stream), fwd) | (Inr reality_stream, fwd) \<Rightarrow> (upgrade accept_tls reality_stream, fwd)))
         else ((Inl (Bail ''vless: unknown transport type''), stream), None))"

text \<open>
  The body of the accept loop.  Under XHTTP the TLS layer alone decides what the XHTTP server is fed; a connection without
  an acceptor, or whose handshake fails, is dropped.
\<close>

definition vless_turn ::
  "net_lib \<Rightarrow> reality_env \<Rightarrow> vless_config \<Rightarrow> bytes \<times> listener \<Rightarrow> (rstring \<Rightarrow> dial) \<Rightarrow> conn
     \<Rightarrow> (rstring result \<times> conn) turn \<times> relay option" where
  "vless_turn N R cfg started connect stream =
     (case started of (uuid_bytes, l) \<Rightarrow>
      (case li_xhttp l of
         Some xc \<Rightarrow>
           (case vl_tls cfg of
              None \<Rightarrow> (Fed xc (Inr stream), None)
            | Some (Tls _) \<Rightarrow>
                (case li_acceptor l of
                   None \<Rightarrow> (Fed xc (Inl (Bail ''TLS acceptor missing'')), None)
                 | Some a \<Rightarrow> (Fed xc (tls_handshake N a stream), None))
            | Some (Reality reality_cfg) \<Rightarrow>
                (case vless_reality N R reality_cfg stream of (r, fwd) \<Rightarrow> (Fed xc r, fwd)))
       | None \<Rightarrow>
           (case vless_handle_conn N R cfg uuid_bytes (li_acceptor l) connect stream of
              (r, fwd) \<Rightarrow> (Handled r, fwd))))"

section \<open>The layers of every listener\<close>

text \<open>The reference: an unknown transport is an error at once, then TLS, then the transport.\<close>

definition layers :: "net_lib \<Rightarrow> err \<Rightarrow> transport_config \<Rightarrow> conn result \<Rightarrow> conn result" where
  "layers N unknown tr secured =
     (if tr_type tr \<in> {str ''tcp'', str ''ws''} then and_then secured (transport_layer N unknown tr) else Inl unknown)"

lemma layers_ok: "layers N unknown tr secured = Inr io \<Longrightarrow> \<exists>s. secured = Inr s \<and> transport_layer N unknown tr s = Inr io"
  by (auto simp: layers_def and_then_eq_Inr split: if_splits)

lemma trojan_layers_eq: "trojan_layers N tr acc stream = layers N (Bail ''trojan: unknown transport'') tr (tls_layer N acc stream)"
  by (simp add: trojan_layers_def layers_def transport_layer_def tls_layer_def accept_tls_plain Let_def and_then_def split: option.splits sum.splits)

lemma vmess_layers_eq: "vmess_layers N tr acc stream = layers N (Bail ''unknown transport'') tr (tls_layer N acc stream)"
  by (simp add: vmess_layers_def layers_def transport_layer_def tls_layer_def accept_tls_plain Let_def and_then_def split: option.splits sum.splits)

lemma ss_handle_eq:
  "ss_handle_conn N E cfg master_key acc connect stream
     = on_layers (layers N (Bail ''shadowsocks: unknown transport type'') (ss_transport cfg) (tls_layer N acc stream)) stream
         (ss_run_process E cfg master_key connect)"
  by (simp add: ss_handle_conn_def on_layers_def layers_def transport_layer_def tls_layer_def accept_tls_plain Let_def
      and_then_def split: option.splits sum.splits)

text \<open>What secures a VLESS connection, and what was forwarded instead.\<close>

definition vless_secured :: "net_lib \<Rightarrow> reality_env \<Rightarrow> vless_config \<Rightarrow> server_config option \<Rightarrow> conn \<Rightarrow> conn result \<times> relay option" where
  "vless_secured N R cfg acceptor stream =
     (case vl_tls cfg of
        None \<Rightarrow> (Inr stream, None)
      | Some (Tls _) \<Rightarrow>
          (case acceptor of None \<Rightarrow> Inl (Bail ''TLS acceptor missing'') | Some a \<Rightarrow> tls_handshake N a stream, None)
      | Some (Reality rc) \<Rightarrow> vless_reality N R rc stream)"

lemma vless_handle_eq:
  "fst (vless_handle_conn N R cfg uuid acc connect stream)
     = on_layers (layers N (Bail ''vless: unknown transport type'') (vl_transport cfg) (fst (vless_secured N R cfg acc stream))) stream
         (process_vless_stream connect uuid)"
proof -
  note defs = vless_handle_conn_def vless_secured_def on_layers_def layers_def transport_layer_def accept_tls_plain Let_def and_then_def
  show ?thesis
  proof (cases "vl_tls cfg")
    case None
    then show ?thesis by (simp add: defs split: sum.splits)
  next
    case (Some t)
    show ?thesis
    proof (cases t)
      case (Tls tc)
      with Some show ?thesis
        by (cases acc; cases "tls_handshake N (the acc) stream") (simp_all add: defs split: sum.splits)
    next
      case (Reality rc)
      obtain r fwd where "vless_reality N R rc stream = (r, fwd)" by fastforce
      with Some Reality show ?thesis by (cases r) (simp_all add: defs split: sum.splits)
    qed
  qed
qed

lemma vless_handle_fwd:
  "snd (vless_handle_conn N R cfg uuid acc connect stream) = snd (vless_handle_conn N R cfg uuid acc connect' stream)"
  by (auto simp: vless_handle_conn_def Let_def split: option.splits vless_tls_config.splits sum.splits prod.splits)

section \<open>Listeners as guards\<close>

text \<open>
  A handler whose outcome can depend on the network's answer to a dial only on admitted connections.  Behind any layers it is
  still guarded, by the connection that the layers yield.
\<close>

locale guarded_handler =
  fixes handler :: "(rstring \<Rightarrow> dial) \<Rightarrow> 'a io" and admitted :: "conn \<Rightarrow> bool"
  assumes gate: "handler connect c \<noteq> handler connect' c \<Longrightarrow> admitted c"
begin

lemma through_layers:
  assumes "on_layers lay stream (handler connect) \<noteq> on_layers lay stream (handler connect')"
  shows "\<exists>io. lay = Inr io \<and> admitted io"
  using assms gate by (auto simp: on_layers_def split: sum.splits)

end

interpretation vless_guard: guarded_handler "\<lambda>connect. process_vless_stream connect uuid" "\<lambda>c. take 17 (rx c) = VLESS_VERSION # uuid"
  for uuid
  by unfold_locales (rule vless_gate)

interpretation trojan_guard: guarded_handler "\<lambda>connect. trojan_process H connect pw"
  "\<lambda>c. digest_laws H \<longrightarrow> take 58 (rx c) = H pw @ [13, 10]" for H pw
  by unfold_locales (auto intro: trojan_gate)

interpretation vmess_guard: guarded_handler "\<lambda>connect. vmess_accept C now connect cmd_key"
  "\<lambda>c. body_laws C \<longrightarrow> (\<exists>auth_id nonce header rest. rx c = sealed_header C cmd_key auth_id nonce header @ rest
      \<and> length auth_id = 16 \<and> fresh_auth_id C now cmd_key auth_id)" for C now cmd_key
  by unfold_locales (use vmess_accept_gate in blast)

interpretation ss_guard: guarded_handler "ss_run_process E cfg master_key"
  "\<lambda>c. aead_laws (se_prims E) \<and> blake3_laws (se_blake3 E) \<longrightarrow> (\<exists>salt header rest. rx c = salt
      @ seal_chunk (se_prims E) (ss_method cfg) (session_key (se_blake3 E) master_key (ss_method cfg) salt) (nonce_at 0) header @ rest
      \<and> length salt = salt_len (ss_method cfg))" for E cfg master_key
  unfolding ss_run_process_def by unfold_locales (use ss_gate in blast)

section \<open>Properties\<close>

lemma fst_neqD: "fst p \<noteq> fst q \<Longrightarrow> p \<noteq> q"
  by auto

text \<open>
  C12.  Both gates of a VLESS listener with REALITY, over TCP and over WebSocket: a dial can only happen for a connection whose
  peeked ClientHello passes the REALITY check, which then completes TLS with the certificate made for its key, and whose first 17 bytes
  inside that TLS connection (and inside the WebSocket, when that is the transport) are the version and the configured UUID.
\<close>

theorem vless_reality_gate:
  assumes "vl_tls cfg = Some (Reality rc)"
    and "fst (vless_handle_conn N R cfg uuid acc connect stream) \<noteq> fst (vless_handle_conn N R cfg uuid acc connect' stream)"
  shows "\<exists>n key sc tls io. re_arrived R = Some n \<and> verify_reality_client (re_lib R) rc (take (min n 2048) (rx stream)) = Inr key
    \<and> build_per_connection_config (re_certs R) rc key = Inr sc \<and> tls_handshake N sc stream = Inr tls
    \<and> layers N (Bail ''vless: unknown transport type'') (vl_transport cfg) (Inr tls) = Inr io
    \<and> take 17 (rx io) = VLESS_VERSION # uuid"
proof -
  from vless_guard.through_layers [OF assms(2) [unfolded vless_handle_eq]] obtain io where
    io: "layers N (Bail ''vless: unknown transport type'') (vl_transport cfg) (fst (vless_secured N R cfg acc stream)) = Inr io"
    and v: "take 17 (rx io) = VLESS_VERSION # uuid" by blast
  from layers_ok [OF io] obtain tls where t: "fst (vless_secured N R cfg acc stream) = Inr tls" by blast
  then obtain fwd where "accept (re_lib R) (re_certs R) (tls_handshake N) (re_connect R) (re_arrived R) rc stream (re_outbound R) = (Inr tls, fwd)"
    using assms(1) by (cases "vless_reality N R rc stream") (simp add: vless_secured_def vless_reality_def)
  from accept_needs_secret [OF this] io v show ?thesis unfolding t by blast
qed

text \<open>
  A Trojan listener, from its configuration to the dial: a started listener dials only for connections that completed TLS under exactly the
  configured certificate (when TLS is configured) and began, inside it, with the digest of the configured password; under XHTTP
  it never dials from the accept loop.
\<close>

theorem trojan_listener_gate:
  assumes "digest_laws H" "trojan_run N bind cfg = Inr l"
    and "trojan_turn N H cfg l connect stream \<noteq> trojan_turn N H cfg l connect' stream"
  shows "tr_type (tj_transport cfg) \<in> {str ''tcp'', str ''ws''}
    \<and> (\<exists>secured io. (case tj_tls cfg of None \<Rightarrow> secured = stream
            | Some t \<Rightarrow> \<exists>sc. standard_build N t = Inr sc \<and> tls_handshake N sc stream = Inr secured)
        \<and> transport_layer N (Bail ''trojan: unknown transport'') (tj_transport cfg) secured = Inr io
        \<and> take 58 (rx io) = H (tj_password cfg) @ [13, 10])"
proof -
  have l: "li_acceptor l = (case tj_tls cfg of None \<Rightarrow> None | Some t \<Rightarrow> (case standard_build N t of Inr sc \<Rightarrow> Some sc | Inl e \<Rightarrow> None))"
    "tj_tls cfg = Some t \<Longrightarrow> \<exists>sc. standard_build N t = Inr sc" for t
    using assms(2) by (auto simp: trojan_run_def build_tls_def start_listener_def and_then_eq_Inr split: option.splits)
  from assms(3) have "on_layers (trojan_layers N (tj_transport cfg) (li_acceptor l) stream) stream (trojan_process H connect (tj_password cfg))
      \<noteq> on_layers (trojan_layers N (tj_transport cfg) (li_acceptor l) stream) stream (trojan_process H connect' (tj_password cfg))"
    by (auto simp: trojan_turn_def trojan_handle_def split: option.splits)
  from trojan_guard.through_layers [OF this] obtain io where
    io: "layers N (Bail ''trojan: unknown transport'') (tj_transport cfg) (tls_layer N (li_acceptor l) stream) = Inr io"
    and pw: "take 58 (rx io) = H (tj_password cfg) @ [13, 10]" using assms(1) by (auto simp: trojan_layers_eq)
  from layers_ok [OF io] obtain s where
    s: "tls_layer N (li_acceptor l) stream = Inr s" "transport_layer N (Bail ''trojan: unknown transport'') (tj_transport cfg) s = Inr io" by blast
  have "case tj_tls cfg of None \<Rightarrow> s = stream | Some t \<Rightarrow> \<exists>sc. standard_build N t = Inr sc \<and> tls_handshake N sc stream = Inr s"
    using s(1) l by (auto simp: tls_layer_def split: option.splits sum.splits)
  with s(2) pw transport_layer_ok [OF s(2)] show ?thesis by blast
qed

text \<open>
  C38.  A started VLESS listener is well formed and is what the configuration says: its address could be bound; its UUID is the
  configured one, 16 bytes; its TLS configuration is none without TLS, the one built from the configured certificates, or the one
  built for REALITY, whose private key then decodes to 32 bytes and whose short ids all decode to at most 8 bytes; and it has an XHTTP server, with
  exactly the configured XHTTP path and host, when that is the transport and none otherwise.  So the error for a missing
  TLS acceptor cannot occur: what secures a connection is the plain stream, the handshake with the acceptor built from the
  configuration, or REALITY.
\<close>

theorem vless_listener_started:
  assumes "vless_run N L bind cfg = Inr (uuid, l)"
  shows "bind (vl_listen cfg) = Inr () \<and> parse_uuid (vl_uuid cfg) = Inr uuid \<and> length uuid = 16
    \<and> li_xhttp l = (if tr_type (vl_transport cfg) = str ''xhttp''
         then Some \<lparr>xh_path = xhttp_path (vl_transport cfg), xh_host = xhttp_host (vl_transport cfg)\<rparr> else None)
    \<and> (case vl_tls cfg of
         None \<Rightarrow> li_acceptor l = None \<and> vless_secured N R cfg (li_acceptor l) stream = (Inr stream, None)
       | Some (Tls t) \<Rightarrow> \<exists>sc. standard_build N t = Inr sc \<and> li_acceptor l = Some sc
           \<and> vless_secured N R cfg (li_acceptor l) stream = (tls_handshake N sc stream, None)
       | Some (Reality rc) \<Rightarrow> \<exists>sc key. reality_build L (simple_self_signed N) (single_cert N) rc = Inr sc \<and> li_acceptor l = Some sc
           \<and> base64_url_decode L (private_key rc) = Inr key \<and> length key = 32
           \<and> (\<forall>x \<in> set (short_ids rc). \<exists>b. hex_decode L x = Some b \<and> length b \<le> 8)
           \<and> vless_secured N R cfg (li_acceptor l) stream = vless_reality N R rc stream)"
proof -
  from assms obtain a where u: "parse_uuid (vl_uuid cfg) = Inr uuid" and a: "vless_acceptor N L cfg = Inr a"
    and l: "start_listener bind (vl_listen cfg) (vl_transport cfg) a = Inr l"
    by (auto simp: vless_run_def and_then_eq_Inr)
  from l have li: "bind (vl_listen cfg) = Inr ()" "li_acceptor l = a"
    "li_xhttp l = (if tr_type (vl_transport cfg) = str ''xhttp''
         then Some \<lparr>xh_path = xhttp_path (vl_transport cfg), xh_host = xhttp_host (vl_transport cfg)\<rparr> else None)"
    by (auto simp: start_listener_def and_then_eq_Inr)
  show ?thesis
  proof (cases "vl_tls cfg")
    case None
    with a u li parse_uuid_length [OF u] show ?thesis by (simp add: vless_acceptor_def vless_secured_def)
  next
    case (Some t)
    show ?thesis
    proof (cases t)
      case (Tls tc)
      with Some a obtain sc where "standard_build N tc = Inr sc" "a = Some sc" by (auto simp: vless_acceptor_def and_then_eq_Inr)
      with Some Tls u li parse_uuid_length [OF u] show ?thesis by (simp add: vless_secured_def)
    next
      case (Reality rc)
      with Some a obtain sc where sc: "reality_build L (simple_self_signed N) (single_cert N) rc = Inr sc" "a = Some sc"
        by (auto simp: vless_acceptor_def and_then_eq_Inr)
      obtain key where "base64_url_decode L (private_key rc) = Inr key" "length key = 32"
        "\<forall>x \<in> set (short_ids rc). \<exists>b. hex_decode L x = Some b \<and> length b \<le> 8"
        by (rule reality_build_ok [OF sc(1)])
      with sc Some Reality u li parse_uuid_length [OF u] show ?thesis by (simp add: vless_secured_def)
    qed
  qed
qed

text \<open>
  The name of the transport is not checked at start-up: all four listeners start with any name exactly when they would with plain TCP, and for
  a name other than \<open>tcp\<close>, \<open>ws\<close> and \<open>xhttp\<close> then refuse every connection, whatever it sends, without touching it.
\<close>

theorem unknown_transport_refused:
  assumes "tr_type tr \<notin> {str ''tcp'', str ''ws'', str ''xhttp''}"
  shows "trojan_run N bind (tc\<lparr>tj_transport := tr\<rparr>) = trojan_run N bind (tc\<lparr>tj_transport := tr\<lparr>tr_type := str ''tcp''\<rparr>\<rparr>)
    \<and> vless_run N L bind (vc\<lparr>vl_transport := tr\<rparr>) = vless_run N L bind (vc\<lparr>vl_transport := tr\<lparr>tr_type := str ''tcp''\<rparr>\<rparr>)
    \<and> ss_run N base64 bind (sc\<lparr>ss_transport := tr\<rparr>) = ss_run N base64 bind (sc\<lparr>ss_transport := tr\<lparr>tr_type := str ''tcp''\<rparr>\<rparr>)
    \<and> vmess_run N C bind (mc\<lparr>vm_transport := tr\<rparr>) = vmess_run N C bind (mc\<lparr>vm_transport := tr\<lparr>tr_type := str ''tcp''\<rparr>\<rparr>)
    \<and> trojan_handle N H (tc\<lparr>tj_transport := tr\<rparr>) acc connect stream = (Inl (Bail ''trojan: unknown transport''), stream)
    \<and> vless_handle_conn N R (vc\<lparr>vl_transport := tr\<rparr>) uuid acc connect stream
        = ((Inl (Bail ''vless: unknown transport type''), stream), None)
    \<and> ss_handle_conn N E (sc\<lparr>ss_transport := tr\<rparr>) mk acc connect stream = (Inl (Bail ''shadowsocks: unknown transport type''), stream)
    \<and> vmess_handle N C now (mc\<lparr>vm_transport := tr\<rparr>) ck acc connect stream = (Inl (Bail ''unknown transport''), stream)"
proof -
  have x: "tr_type tr \<noteq> str ''tcp''" "tr_type tr \<noteq> str ''ws''" "tr_type tr \<noteq> str ''xhttp''" "str ''tcp'' \<noteq> str ''xhttp''"
    using assms by auto
  have start: "start_listener bind addr (tr\<lparr>tr_type := str ''tcp''\<rparr>) = start_listener bind addr tr" for addr
    using x by (simp add: start_listener_def fun_eq_iff)
  show ?thesis
    using x(1,2)
    by (simp add: trojan_run_def vless_run_def ss_run_def vmess_run_def start [simplified] vless_acceptor_def
        trojan_handle_def trojan_layers_eq vless_handle_conn_def Let_def ss_handle_eq vmess_handle_def vmess_layers_eq layers_def on_layers_def)
qed

section \<open>Instances\<close>

definition demo_transport :: "rstring \<Rightarrow> transport_config" where
  "demo_transport ty = default_transport\<lparr>tr_type := ty\<rparr>"

definition demo_trojan :: "rstring \<Rightarrow> trojan_config" where
  "demo_trojan ty = \<lparr>tj_listen = str ''l'', tj_password = str ''pw'', tj_transport = demo_transport ty,
     tj_tls = Some \<lparr>cert_path = None, key_path = None, self_signed_domain = None\<rparr>\<rparr>"

definition demo_trojan_stream :: conn where
  "demo_trojan_stream = demo_conn\<lparr>rx := enc_trojan (\<lambda>_. replicate 56 97) (str ''pw'') (HostName (str ''a.b''), 443) @ []\<rparr>"

definition demo_vless :: vless_config where
  "demo_vless = \<lparr>vl_listen = str ''l'', vl_uuid = [], vl_transport = demo_transport (str ''tcp''), vl_tls = Some (Reality demo_reality)\<rparr>"

definition demo_vless_conn :: conn where
  "demo_vless_conn = demo_conn\<lparr>rx := enc_request (replicate 16 7)
     \<lparr>w_addons = [], w_command = 1, w_port = 443, w_host = HostName (str ''a.b'')\<rparr> @ []\<rparr>"

definition demo_env :: reality_env where
  "demo_env = \<lparr>re_lib = toy_reality, re_certs = toy_certs, re_connect = \<lambda>_. TimedOut, re_arrived = Some 139, re_outbound = demo_conn\<rparr>"

text \<open>TLS that always opens onto the VLESS request.\<close>

definition demo_net :: net_lib where
  "demo_net = toy_net\<lparr>tls_handshake := \<lambda>_ _. Inr demo_vless_conn\<rparr>"

lemma demo_trojan_dials:
  "trojan_process (\<lambda>_. replicate 56 97) (\<lambda>_. Connected) (str ''pw'') demo_trojan_stream
     \<noteq> trojan_process (\<lambda>_. replicate 56 97) (\<lambda>_. TimedOut) (str ''pw'') demo_trojan_stream"
proof -
  let ?H = "\<lambda>_. replicate 56 97" and ?d = "(HostName (str ''a.b''), 443 :: u16)"
  have "digest_laws ?H" by (simp add: digest_laws_def)
  from decode_trojan_enc [OF this, of ?d "str ''pw''" "[]" demo_conn] show ?thesis
    unfolding trojan_process_def bind_io_def demo_trojan_stream_def by (simp add: return_io_def fail_io_def)
qed

lemma demo_vless_dials:
  "process_vless_stream (\<lambda>_. Connected) (replicate 16 7) demo_vless_conn
     \<noteq> process_vless_stream (\<lambda>_. TimedOut) (replicate 16 7) demo_vless_conn"
proof -
  let ?u = "replicate 16 7 :: bytes"
  let ?w = "\<lparr>w_addons = [], w_command = 1, w_port = 443, w_host = HostName (str ''a.b'')\<rparr>"
  have w: "length ?u = 16" "wire_ok ?w" by (simp_all add: wire_ok_def vless_consts)
  from decode_request_enc [OF this, of "[]" demo_conn] show ?thesis
    unfolding process_vless_stream_def bind_io_def demo_vless_conn_def
    by (simp add: wire_request_def encode_response_def write_all_def demo_conn_def return_io_def fail_io_def vless_consts)
qed

theorem vless_reality_gate_witness:
  "\<exists>key sc io. verify_reality_client toy_reality demo_reality (take 139 (rx demo_stream)) = Inr key
     \<and> build_per_connection_config toy_certs demo_reality key = Inr sc \<and> tls_handshake demo_net sc demo_stream = Inr io
     \<and> take 17 (rx io) = VLESS_VERSION # replicate 16 7"
proof -
  have v: "verify_reality_client toy_reality demo_reality (hello_bytes demo_hello demo_sid)
      = Inr (reality_key toy_reality (ch_random demo_hello) [5] (replicate 32 3))"
    by (rule verify_accepts [OF toy_reality_laws demo_hello_ok demo_reality_ok refl demo_sid_def])
  obtain sc where sc: "build_per_connection_config toy_certs demo_reality (reality_key toy_reality (ch_random demo_hello) [5] (replicate 32 3)) = Inr sc"
    using build_per_connection_ok [OF toy_cert_laws] by blast
  have peek: "peek_client_hello (Some 139) demo_stream = Inr (hello_bytes demo_hello demo_sid)"
    using length_demo_hello by (simp add: peek_client_hello_def demo_stream_def)
  have "fst (vless_handle_conn demo_net demo_env demo_vless (replicate 16 7) None (\<lambda>_. Connected) demo_stream)
      \<noteq> fst (vless_handle_conn demo_net demo_env demo_vless (replicate 16 7) None (\<lambda>_. TimedOut) demo_stream)"
    using demo_vless_dials
    by (simp add: vless_handle_eq vless_secured_def demo_vless_def vless_reality_def demo_env_def accept_def peek v sc demo_net_def
        layers_def transport_layer_def demo_transport_def default_transport_def on_layers_def)
  from vless_reality_gate [OF _ this, of demo_reality] show ?thesis
    by (auto simp: demo_vless_def demo_env_def layers_def transport_layer_def demo_transport_def default_transport_def min_def)
qed

theorem trojan_listener_gate_witness:
  "\<exists>l sc io. trojan_run toy_net (\<lambda>_. Inr ()) (demo_trojan (str ''tcp'')) = Inr l
     \<and> tls_handshake toy_net sc demo_trojan_stream = Inr io \<and> take 58 (rx io) = replicate 56 97 @ [13, 10]"
proof -
  let ?H = "\<lambda>_. replicate 56 97 :: rstring" and ?cfg = "demo_trojan (str ''tcp'')"
  have H: "digest_laws ?H" by (simp add: digest_laws_def)
  obtain l where l: "trojan_run toy_net (\<lambda>_. Inr ()) ?cfg = Inr l" and x: "li_xhttp l = None" "li_acceptor l \<noteq> None"
    by (simp add: trojan_run_def demo_trojan_def build_tls_def standard_build_def toy_net_def start_listener_def demo_transport_def default_transport_def)
  have "trojan_turn toy_net ?H ?cfg l (\<lambda>_. Connected) demo_trojan_stream \<noteq> trojan_turn toy_net ?H ?cfg l (\<lambda>_. TimedOut) demo_trojan_stream"
    using x demo_trojan_dials
    by (auto simp: trojan_turn_def trojan_handle_def on_layers_def trojan_layers_def demo_trojan_def demo_transport_def
        default_transport_def toy_net_def)
  from trojan_listener_gate [OF H l this] l show ?thesis
    by (auto simp: demo_trojan_def transport_layer_def demo_transport_def default_transport_def)
qed

theorem vless_listener_started_witness:
  "\<exists>l. vless_run toy_net toy_reality (\<lambda>_. Inr ()) (demo_vless\<lparr>vl_uuid := uuid_text (replicate 16 7)\<rparr>) = Inr (replicate 16 7, l)
     \<and> li_acceptor l \<noteq> None \<and> li_xhttp l = None"
proof -
  let ?cfg = "demo_vless\<lparr>vl_uuid := uuid_text (replicate 16 7)\<rparr>"
  have "\<exists>l. vless_run toy_net toy_reality (\<lambda>_. Inr ()) ?cfg = Inr (replicate 16 7, l)"
    by (simp add: vless_run_def parse_uuid_text demo_vless_def vless_acceptor_def reality_build_def demo_reality_ok(1) ensure_def
        build_placeholder_config_def toy_net_def start_listener_def) (simp add: demo_reality_def toy_reality_def)
  then obtain l where l: "vless_run toy_net toy_reality (\<lambda>_. Inr ()) ?cfg = Inr (replicate 16 7, l)" ..
  with vless_listener_started [OF l, where R = demo_env and stream = demo_conn] show ?thesis
    by (auto simp: demo_vless_def demo_transport_def default_transport_def)
qed

theorem unknown_transport_refused_witness:
  "trojan_run toy_net (\<lambda>_. Inr ()) (demo_trojan (str ''grpc'')) = trojan_run toy_net (\<lambda>_. Inr ()) (demo_trojan (str ''tcp''))
     \<and> trojan_handle toy_net (\<lambda>_. []) (demo_trojan (str ''grpc'')) None (\<lambda>_. Connected) demo_trojan_stream
         = (Inl (Bail ''trojan: unknown transport''), demo_trojan_stream)"
  using unknown_transport_refused [of "demo_transport (str ''grpc'')" toy_net "\<lambda>_. Inr ()" "demo_trojan (str ''x'')"]
  by (simp add: demo_trojan_def demo_transport_def default_transport_def)

end
