(* ===== verification/Startup.thy ===== *)
theory Startup
  imports Listeners
begin

text \<open>
  The start of the program (\<open>main.rs\<close> and the checks of \<open>config.rs\<close>): the command line, the checks on the nodes, and the tasks
  that are spawned.  Reading and parsing the file are the libraries'.
\<close>

section \<open>The model\<close>

text \<open>
  The nodes of a configuration; those of the four protocols whose listeners are modelled elsewhere in the development are
  parameters of the type.
\<close>

record socks_config =
  sk_listen :: rstring
  sk_users :: "socks_user list"

datatype ('h, 't, 'w, 'a) node_inner =
    Hysteria2 'h
  | Vless vless_config
  | Vmess vmess_config
  | Trojan trojan_config
  | Shadowsocks ss_config
  | Tuic 't
  | Wireguard 'w
  | Anytls 'a
  | Socks socks_config

record ('h, 't, 'w, 'a) node_config =
  tag :: rstring
  inner :: "('h, 't, 'w, 'a) node_inner"

fun find_duplicate :: "rstring set \<Rightarrow> ('h, 't, 'w, 'a) node_config list \<Rightarrow> rstring option" where
  "find_duplicate seen [] = None"
| "find_duplicate seen (n # ns) = (if tag n \<in> seen then Some (tag n) else find_duplicate (insert (tag n) seen) ns)"

definition check_duplicate_tags :: "('h, 't, 'w, 'a) node_config list \<Rightarrow> rstring option" where
  "check_duplicate_tags nodes = find_duplicate {} nodes"

text \<open>The configuration path: the argument after the first \<open>-c\<close> that has one.\<close>

function config_arg_loop :: "rstring list \<Rightarrow> nat \<Rightarrow> rstring" where
  "config_arg_loop args i =
     (if i < length args then
        (if args ! i = str ''-c'' \<and> i + 1 < length args then args ! (i + 1) else config_arg_loop args (i + 1))
      else str ''config.toml'')"
  by pat_completeness auto
termination by (relation "measure (\<lambda>(args, i). length args - i)") auto

declare config_arg_loop.simps [simp del]

definition parse_config_arg :: "rstring list \<Rightarrow> rstring" where
  "parse_config_arg args = config_arg_loop args 1"

text \<open>The \<open>generate\<close> subcommands.\<close>

datatype generate = WireguardKeypair | RealityKeypair | Uuid | Password nat

datatype ('h, 't, 'w, 'a) action =
    Generate generate
  | UsageExit
  | Fail err
  | Serve "(rstring \<times> ('h, 't, 'w, 'a) node_inner) list"

definition arg :: "rstring list \<Rightarrow> nat \<Rightarrow> rstring option" where
  "arg args i = (if i < length args then Some (args ! i) else None)"

definition generate_command :: "rstring list \<Rightarrow> ('h, 't, 'w, 'a) action" where
  "generate_command args =
     (if arg args 2 = Some (str ''wireguard-keypair'') then Generate WireguardKeypair
      else if arg args 2 = Some (str ''reality-keypair'') then Generate RealityKeypair
      else if arg args 2 = Some (str ''uuid'') then Generate Uuid
      else if arg args 2 = Some (str ''password'') then
        Generate (Password (case arg args 3 of
            None \<Rightarrow> 16
          | Some s \<Rightarrow> (case parse_unsigned (2 ^ 64 - 1) s of None \<Rightarrow> 16 | Some n \<Rightarrow> n)))
      else UsageExit)"

text \<open>
  The whole of \<open>main\<close> up to the wait for the signal: \<open>load\<close> reads and parses a file into its nodes, and one task is spawned for
  each node.
\<close>

definition main ::
  "(rstring \<Rightarrow> ('h, 't, 'w, 'a) node_config list result) \<Rightarrow> rstring list
     \<Rightarrow> ('h, 't, 'w, 'a) action" where
  "main load args =
     (if arg args 1 = Some (str ''generate'') then generate_command args
      else
        let config_path = parse_config_arg args in
        case load config_path of
          Inl e \<Rightarrow> Fail e
        | Inr nodes \<Rightarrow>
            if nodes = [] then Fail (Bail ''no nodes configured'')
            else (case check_duplicate_tags nodes of
                    Some dup \<Rightarrow> Fail (Bail ''duplicate node tag'')
                  | None \<Rightarrow> Serve (map (\<lambda>n. (tag n, inner n)) nodes)))"

section \<open>Tags and arguments\<close>

lemma find_duplicate_None: "find_duplicate seen ns = None \<longleftrightarrow> distinct (map tag ns) \<and> tag ` set ns \<inter> seen = {}"
  by (induction seen ns rule: find_duplicate.induct) auto

lemma find_duplicate_append:
  "find_duplicate seen (pre @ ns) = (case find_duplicate seen pre of Some t \<Rightarrow> Some t | None \<Rightarrow> find_duplicate (tag ` set pre \<union> seen) ns)"
  by (induction seen pre rule: find_duplicate.induct) (auto split: option.split)

lemma find_duplicate_Some:
  "find_duplicate seen ns = Some t \<Longrightarrow> \<exists>pre n post. ns = pre @ n # post \<and> tag n = t \<and> find_duplicate seen pre = None
     \<and> (t \<in> seen \<or> t \<in> tag ` set pre)"
proof (induction seen ns rule: find_duplicate.induct)
  case (2 seen n ns)
  show ?case
  proof (cases "tag n \<in> seen")
    case True
    with 2(2) have "n # ns = [] @ n # ns" "tag n = t" "find_duplicate seen [] = None" "t \<in> seen" by auto
    then show ?thesis by blast
  next
    case False
    with 2 obtain pre m post where "ns = pre @ m # post" "tag m = t" "find_duplicate (insert (tag n) seen) pre = None"
      "t \<in> insert (tag n) seen \<or> t \<in> tag ` set pre" by auto
    with False have "n # ns = (n # pre) @ m # post" "tag m = t" "find_duplicate seen (n # pre) = None"
      "t \<in> seen \<or> t \<in> tag ` set (n # pre)" by auto
    then show ?thesis by blast
  qed
qed simp

lemma check_duplicate_None: "check_duplicate_tags nodes = None \<longleftrightarrow> distinct (map tag nodes)"
  by (simp add: check_duplicate_tags_def find_duplicate_None)

lemma check_duplicate_Some:
  "check_duplicate_tags nodes = Some t \<longleftrightarrow>
     (\<exists>pre n post. nodes = pre @ n # post \<and> tag n = t \<and> distinct (map tag pre) \<and> t \<in> tag ` set pre)"
proof
  assume "check_duplicate_tags nodes = Some t"
  then show "\<exists>pre n post. nodes = pre @ n # post \<and> tag n = t \<and> distinct (map tag pre) \<and> t \<in> tag ` set pre"
    using find_duplicate_Some [of "{}" nodes t] by (auto simp: check_duplicate_tags_def find_duplicate_None)
next
  assume "\<exists>pre n post. nodes = pre @ n # post \<and> tag n = t \<and> distinct (map tag pre) \<and> t \<in> tag ` set pre"
  then obtain pre n post where n: "nodes = pre @ n # post" "tag n = t" "distinct (map tag pre)" "t \<in> tag ` set pre" by blast
  then have "find_duplicate {} pre = None" by (simp add: find_duplicate_None)
  with n show "check_duplicate_tags nodes = Some t" by (simp add: check_duplicate_tags_def find_duplicate_append)
qed

lemma config_arg_none:
  assumes "\<And>j. i \<le> j \<Longrightarrow> j < k \<Longrightarrow> args ! j \<noteq> str ''-c''" "i \<le> k" "k \<le> length args"
  shows "config_arg_loop args i = config_arg_loop args k"
  using assms
proof (induction "k - i" arbitrary: i)
  case (Suc d)
  from Suc.hyps(2) have "i < k" by simp
  with Suc.prems(1) [of i] Suc.prems(3) have "args ! i \<noteq> str ''-c''" "i < length args" by auto
  then have "config_arg_loop args i = config_arg_loop args (i + 1)" by (subst config_arg_loop.simps) presburger
  moreover have "config_arg_loop args (i + 1) = config_arg_loop args k"
  proof (rule Suc.hyps(1))
    show "d = k - (i + 1)" using Suc.hyps(2) by simp
    show "args ! j \<noteq> str ''-c''" if "i + 1 \<le> j" "j < k" for j using that Suc.prems(1) by simp
  qed (use \<open>i < k\<close> Suc.prems(3) in simp_all)
  ultimately show ?case by simp
qed simp

section \<open>Properties\<close>

text \<open>
  The program serves exactly when it is not a \<open>generate\<close> command, the file loads, and its nodes are not empty and have distinct tags;
  then every node of the file is started, once, in order.  A repeated tag is reported for the first node that
  repeats an earlier one.
\<close>

theorem main_serves_iff:
  "(main load args = Serve spawned \<longleftrightarrow>
     arg args 1 \<noteq> Some (str ''generate'') \<and> (\<exists>nodes. load (parse_config_arg args) = Inr nodes \<and> nodes \<noteq> []
       \<and> distinct (map tag nodes) \<and> spawned = map (\<lambda>n. (tag n, inner n)) nodes))
   \<and> (check_duplicate_tags nodes' = Some t \<longleftrightarrow>
       (\<exists>pre n post. nodes' = pre @ n # post \<and> tag n = t \<and> distinct (map tag pre) \<and> t \<in> tag ` set pre))"
proof (intro conjI check_duplicate_Some)
  have g: "generate_command args \<noteq> Serve spawned"
    unfolding generate_command_def by (simp only: action.distinct simp_thms split: if_split)
  show "main load args = Serve spawned \<longleftrightarrow>
     arg args 1 \<noteq> Some (str ''generate'') \<and> (\<exists>nodes. load (parse_config_arg args) = Inr nodes \<and> nodes \<noteq> []
       \<and> distinct (map tag nodes) \<and> spawned = map (\<lambda>n. (tag n, inner n)) nodes)"
  proof (cases "load (parse_config_arg args)")
    case (Inr nodes)
    show ?thesis
      by (cases "check_duplicate_tags nodes"; use g Inr check_duplicate_None [of nodes] in \<open>auto simp: main_def\<close>)
  qed (use g in \<open>simp add: main_def\<close>)
qed

text \<open>
  The configuration file: the path after the first \<open>-c\<close> that is not the last argument, and \<open>config.toml\<close> when there is
  no \<open>-c\<close> or only a trailing one.
\<close>

theorem config_path_selected:
  assumes "str ''-c'' \<notin> set pre"
  shows "parse_config_arg (prog # pre @ str ''-c'' # path # rest) = path
    \<and> parse_config_arg (prog # pre @ [str ''-c'']) = str ''config.toml''
    \<and> parse_config_arg (prog # pre) = str ''config.toml''"
proof -
  have skip: "parse_config_arg (prog # pre @ xs) = config_arg_loop (prog # pre @ xs) (length pre + 1)" for xs
    unfolding parse_config_arg_def
  proof (rule config_arg_none)
    fix j
    assume "1 \<le> j" "j < length pre + 1"
    then have "(prog # pre @ xs) ! j = pre ! (j - 1)" "j - 1 < length pre" by (auto simp: nth_append nth_Cons')
    with assms show "(prog # pre @ xs) ! j \<noteq> str ''-c''" by (metis nth_mem)
  qed simp_all
  have "parse_config_arg (prog # pre @ str ''-c'' # path # rest) = path"
    unfolding skip by (subst config_arg_loop.simps) (simp add: nth_append)
  moreover have "parse_config_arg (prog # pre @ [str ''-c'']) = str ''config.toml''"
    unfolding skip by (subst config_arg_loop.simps, subst config_arg_loop.simps) (simp add: nth_append)
  moreover have "parse_config_arg (prog # pre) = str ''config.toml''"
    using skip [of "[]"] by (subst (asm) config_arg_loop.simps) simp
  ultimately show ?thesis by blast
qed

theorem config_path_selected_witness:
  "parse_config_arg [str ''ruproxy'', str ''-v'', str ''-c'', str ''a.toml'', str ''-c'', str ''b.toml''] = str ''a.toml''"
  using config_path_selected [of "[str ''-v'']" "str ''ruproxy''" "str ''a.toml''" "[str ''-c'', str ''b.toml'']"] by simp

end
