(* ===== verification/F64.thy ===== *)
theory F64
  imports Complex_Main
begin

text \<open>
  The floating-point type \<open>f64\<close> as the code uses it: every operation is the exact one on reals, rounded to the nearest binary64 number with
  ties to even.  The locale states what code may rely on of a rounding; \<open>rnd\<close> meets it.
\<close>

section \<open>Rounding\<close>

definition round_even :: "real \<Rightarrow> int" where
  "round_even y =
     (let f = \<lfloor>y\<rfloor> in
      if y - of_int f < 1 / 2 then f
      else if 1 / 2 < y - of_int f then f + 1
      else if even f then f else f + 1)"

text \<open>The exponent of the last place: 53 bits of precision, with gradual underflow.\<close>

definition ulp_exp :: "real \<Rightarrow> int" where
  "ulp_exp x = max (\<lfloor>log 2 \<bar>x\<bar>\<rfloor> - 52) (- 1074)"

definition rnd :: "real \<Rightarrow> real" where
  "rnd x = (if x = 0 then 0 else of_int (round_even (x * 2 powr - of_int (ulp_exp x))) * 2 powr of_int (ulp_exp x))"

section \<open>Casts\<close>

definition U64_MAX :: nat where "U64_MAX = 2 ^ 64 - 1"

text \<open>\<open>as u64\<close> truncates and saturates.\<close>

definition real_as_u64 :: "real \<Rightarrow> nat" where
  "real_as_u64 x = min U64_MAX (nat \<lfloor>x\<rfloor>)"

section \<open>What a rounding promises\<close>

locale rounding =
  fixes round_to :: "real \<Rightarrow> real"
  assumes mono: "0 \<le> x \<Longrightarrow> x \<le> y \<Longrightarrow> round_to x \<le> round_to y"
    and exact: "n < 2 ^ 53 \<Longrightarrow> round_to (real n) = real n"
begin

lemma zero: "round_to 0 = 0"
  using exact [of 0] by simp

lemma nonneg: "0 \<le> x \<Longrightarrow> 0 \<le> round_to x"
  using mono [of 0 x] zero by simp

text \<open>A quotient of two exact integers that is at most a constant stays at most the rounded constant.\<close>

lemma ratio_le:
  assumes "a < 2 ^ 53" "b < 2 ^ 53" "0 < b" "real a \<le> c * real b"
  shows "round_to (round_to (real a) / round_to (real b)) \<le> round_to c"
proof -
  have "real a / real b \<le> c" using assms(3,4) by (simp add: divide_le_eq)
  then show ?thesis using assms(1,2) by (simp add: exact mono)
qed

text \<open>A product that is at least an exact integer stays so.\<close>

lemma at_least: "n < 2 ^ 53 \<Longrightarrow> real n \<le> x \<Longrightarrow> real n \<le> round_to x"
  using mono [of "real n" x] exact by fastforce

lemma at_most: "n < 2 ^ 53 \<Longrightarrow> 0 \<le> x \<Longrightarrow> x \<le> real n \<Longrightarrow> round_to x \<le> real n"
  using mono [of x "real n"] exact by fastforce

end

section \<open>Binary64 is such a rounding\<close>

lemma round_even_bounds: "of_int (round_even y) \<le> y + 1 / 2" "y - 1 / 2 \<le> of_int (round_even y)"
  unfolding round_even_def Let_def by (auto) linarith+

lemma round_even_int: "round_even (of_int i) = i"
  by (simp add: round_even_def)

lemma round_even_mono:
  assumes "x \<le> y"
  shows "round_even x \<le> round_even y"
proof -
  have f: "\<lfloor>x\<rfloor> \<le> \<lfloor>y\<rfloor>" using assms by (rule floor_mono)
  show ?thesis
  proof (cases "\<lfloor>x\<rfloor> = \<lfloor>y\<rfloor>")
    case True
    with assms show ?thesis by (auto simp: round_even_def Let_def)
  next
    case False
    with f have "\<lfloor>x\<rfloor> + 1 \<le> \<lfloor>y\<rfloor>" by linarith
    moreover have "round_even x \<le> \<lfloor>x\<rfloor> + 1" "\<lfloor>y\<rfloor> \<le> round_even y" by (simp_all add: round_even_def Let_def)
    ultimately show ?thesis by linarith
  qed
qed

lemma below_binade:
  assumes "0 < x"
  shows "x < 2 powr of_int (ulp_exp x + 53)"
proof -
  have "log 2 x < of_int (\<lfloor>log 2 x\<rfloor> + 1)" by linarith
  also have "\<dots> \<le> of_int (ulp_exp x + 53)" using assms by (simp add: ulp_exp_def)
  finally show ?thesis using assms by (simp add: log_less_iff)
qed

lemma above_binade:
  assumes "0 < x" "- 1074 < ulp_exp x"
  shows "2 powr of_int (ulp_exp x + 52) \<le> x"
proof -
  have "ulp_exp x + 52 = \<lfloor>log 2 x\<rfloor>" using assms by (simp add: ulp_exp_def split: if_splits)
  then have "of_int (ulp_exp x + 52) \<le> log 2 x" by linarith
  then show ?thesis using assms(1) by (simp add: le_log_iff)
qed

lemma binade_split: "(2 :: real) powr of_int (e + int k) = 2 ^ k * 2 powr of_int e"
  by (simp add: powr_add powr_realpow)

lemma binade_scaled: "(2 :: real) powr of_int (e + int k) * 2 powr - of_int e = of_int (2 ^ k)"
  unfolding binade_split by (simp add: powr_minus)

lemma rnd_below_binade: "0 < x \<Longrightarrow> rnd x \<le> 2 powr of_int (ulp_exp x + 53)"
proof -
  assume x: "0 < x"
  let ?e = "ulp_exp x"
  have "x * 2 powr - of_int ?e \<le> 2 powr of_int (?e + int 53) * 2 powr - of_int ?e"
    using below_binade [OF x] by (intro mult_right_mono) simp_all
  also have "\<dots> = of_int (2 ^ 53)" by (rule binade_scaled)
  finally have "round_even (x * 2 powr - of_int ?e) \<le> 2 ^ 53" using round_even_mono round_even_int by metis
  then have "of_int (round_even (x * 2 powr - of_int ?e)) * 2 powr of_int ?e \<le> (2 ^ 53 :: real) * 2 powr of_int ?e"
    by (intro mult_right_mono) (metis of_int_le_iff of_int_numeral of_int_power, simp)
  also have "\<dots> = 2 powr of_int (?e + int 53)" by (rule binade_split [symmetric])
  finally show ?thesis using x by (simp add: rnd_def)
qed

lemma rnd_above_binade: "0 < x \<Longrightarrow> - 1074 < ulp_exp x \<Longrightarrow> 2 powr of_int (ulp_exp x + 52) \<le> rnd x"
proof -
  assume x: "0 < x" "- 1074 < ulp_exp x"
  let ?e = "ulp_exp x"
  have "of_int (2 ^ 52) = (2 :: real) powr of_int (?e + int 52) * 2 powr - of_int ?e" by (rule binade_scaled [symmetric])
  also have "\<dots> \<le> x * 2 powr - of_int ?e" using above_binade [OF x] by (intro mult_right_mono) simp_all
  finally have "2 ^ 52 \<le> round_even (x * 2 powr - of_int ?e)" using round_even_mono round_even_int by metis
  then have "(2 ^ 52 :: real) * 2 powr of_int ?e \<le> of_int (round_even (x * 2 powr - of_int ?e)) * 2 powr of_int ?e"
    by (intro mult_right_mono) (metis of_int_le_iff of_int_numeral of_int_power, simp)
  moreover have "2 powr of_int (?e + int 52) = (2 ^ 52 :: real) * 2 powr of_int ?e" by (rule binade_split)
  ultimately have "2 powr of_int (?e + int 52) \<le> rnd x" using x(1) unfolding rnd_def by simp
  then show ?thesis by simp
qed

lemma rnd_mono:
  assumes "0 \<le> x" "x \<le> y"
  shows "rnd x \<le> rnd y"
proof (cases "x = 0")
  case True
  have "0 \<le> round_even (y * 2 powr - of_int (ulp_exp y))"
    using round_even_mono [of 0 "y * 2 powr - of_int (ulp_exp y)"] round_even_int [of 0] assms by simp
  with True show ?thesis by (simp add: rnd_def)
next
  case False
  with assms have p: "0 < x" "0 < y" by linarith+
  have e: "ulp_exp x \<le> ulp_exp y"
    unfolding ulp_exp_def using p assms(2) by (intro max.mono diff_mono floor_mono) simp_all
  show ?thesis
  proof (cases "ulp_exp x = ulp_exp y")
    case True
    have "round_even (x * 2 powr - of_int (ulp_exp y)) \<le> round_even (y * 2 powr - of_int (ulp_exp y))"
      using assms(2) by (intro round_even_mono mult_right_mono) simp_all
    with True p show ?thesis by (simp add: rnd_def)
  next
    case False
    with e have lt: "ulp_exp x + 53 \<le> ulp_exp y + 52" "- 1074 < ulp_exp y"
      using max.cobounded2 [of "- 1074" "\<lfloor>log 2 \<bar>x\<bar>\<rfloor> - 52"] unfolding ulp_exp_def by linarith+
    have "rnd x \<le> 2 powr of_int (ulp_exp x + 53)" by (rule rnd_below_binade [OF p(1)])
    also have "\<dots> \<le> 2 powr of_int (ulp_exp y + 52)" using lt(1) by (intro powr_mono) simp_all
    also have "\<dots> \<le> rnd y" by (rule rnd_above_binade [OF p(2) lt(2)])
    finally show ?thesis .
  qed
qed

lemma rnd_exact:
  assumes "n < 2 ^ 53"
  shows "rnd (real n) = real n"
proof (cases "n = 0")
  case False
  let ?e = "ulp_exp (real n)"
  have "real n < real (2 ^ 53)" using assms by (simp only: of_nat_less_iff)
  then have "log 2 (real n) < 53" using False by (simp add: log_less_iff)
  then have "\<lfloor>log 2 (real n)\<rfloor> \<le> 52" by linarith
  then have e: "?e \<le> 0" by (simp add: ulp_exp_def)
  then obtain k where k: "?e = - int k" by (metis nonpos_int_cases)
  have "real n * 2 powr - of_int ?e = of_int (int n * 2 ^ k)" unfolding k by (simp add: powr_realpow)
  then have "round_even (real n * 2 powr - of_int ?e) = int n * 2 ^ k" using round_even_int by metis
  then show ?thesis using False unfolding rnd_def k by (simp add: powr_minus powr_realpow)
qed (simp add: rnd_def)

interpretation f64: rounding rnd
  by unfold_locales (erule (1) rnd_mono, erule rnd_exact)

end
