(* ===== verification/Hysteria2_Congestion.thy ===== *)
theory Hysteria2_Congestion
  imports Rust_Std F64
begin

text \<open>
  The Brutal congestion controller of Hysteria2 (\<open>hysteria2/congestion.rs\<close>) and the bandwidth texts that configure it
  (\<open>BandwidthConfig\<close> in \<open>config.rs\<close>), with their floating-point arithmetic rounded as the code rounds it.  Times and durations are
  nanoseconds.  A clone of a controller shares its statistics, so a system is a list of controllers over one record of
  statistics.
\<close>

section \<open>The controller\<close>

definition RTT_WINDOW :: nat where "RTT_WINDOW = 16"
definition GAIN :: real where "GAIN = rnd (3 / 2)"
definition MAX_LOSS_RATIO :: real where "MAX_LOSS_RATIO = rnd (1 / 10)"

definition clamp :: "nat \<Rightarrow> nat \<Rightarrow> nat \<Rightarrow> nat" where
  "clamp lo hi x = (if x < lo then lo else if hi < x then hi else x)"

record brutal_config =
  send_bps :: u64

record stats =
  ack_count :: nat
  loss_count :: nat
  window_start :: nat
  rtt_samples :: "nat list"

definition stats_new :: "nat \<Rightarrow> stats" where
  "stats_new now = \<lparr>ack_count = 0, loss_count = 0, window_start = now, rtt_samples = []\<rparr>"

definition loss_ratio :: "stats \<Rightarrow> real" where
  "loss_ratio st =
     (let total = ack_count st + loss_count st
      in if total = 0 then 0 else rnd (rnd (real (loss_count st)) / rnd (real total)))"

definition avg_rtt :: "stats \<Rightarrow> nat" where
  "avg_rtt st =
     (if rtt_samples st = [] then 50 * 10 ^ 6 else sum_list (rtt_samples st) div length (rtt_samples st))"

definition push_rtt :: "nat \<Rightarrow> stats \<Rightarrow> stats" where
  "push_rtt rtt st =
     (let samples = (if RTT_WINDOW \<le> length (rtt_samples st) then tl (rtt_samples st) else rtt_samples st)
      in st\<lparr>rtt_samples := samples @ [rtt]\<rparr>)"

definition maybe_reset :: "nat \<Rightarrow> stats \<Rightarrow> stats" where
  "maybe_reset now st =
     (if 10 ^ 9 \<le> now - window_start st then st\<lparr>ack_count := 0, loss_count := 0, window_start := now\<rparr> else st)"

record brutal =
  bc_config :: brutal_config
  bc_window :: nat

definition brutal_new :: "brutal_config \<Rightarrow> brutal" where
  "brutal_new config =
     (let initial_window = real_as_u64 (rnd (rnd (rnd (real (unat (send_bps config))) * rnd (5 / 100)) * GAIN))
      in \<lparr>bc_config = config, bc_window = clamp (32 * 1024) (16 * 1024 * 1024) initial_window\<rparr>)"

text \<open>\<open>Duration::as_secs_f64\<close>.\<close>

definition as_secs_f64 :: "nat \<Rightarrow> real" where
  "as_secs_f64 d = rnd (rnd (real (d div 10 ^ 9)) + rnd (rnd (real (d mod 10 ^ 9)) / rnd (10 ^ 9)))"

definition recalculate_window :: "stats \<Rightarrow> brutal \<Rightarrow> brutal" where
  "recalculate_window st c =
     (let rtt = avg_rtt st;
          loss = loss_ratio st;
          rtt_secs = max (as_secs_f64 rtt) (rnd (1 / 1000));
          target_bps = rnd (real (unat (send_bps (bc_config c))));
          base_window = rnd (target_bps * rtt_secs);
          loss_factor = (if loss > MAX_LOSS_RATIO then max (rnd (1 - loss)) (rnd (1 / 2)) else GAIN)
      in c\<lparr>bc_window := clamp (32 * 1024) (32 * 1024 * 1024) (real_as_u64 (rnd (base_window * loss_factor)))\<rparr>)"

definition on_ack :: "nat \<Rightarrow> nat \<Rightarrow> nat \<Rightarrow> brutal \<times> stats \<Rightarrow> brutal \<times> stats" where
  "on_ack now bytes rtt s =
     (case s of (c, st) \<Rightarrow>
        let st = maybe_reset now (push_rtt rtt (st\<lparr>ack_count := ack_count st + bytes\<rparr>))
        in (recalculate_window st c, st))"

text \<open>The number of lost bytes is an argument the code ignores.\<close>

definition on_congestion_event :: "nat \<Rightarrow> nat \<Rightarrow> brutal \<times> stats \<Rightarrow> brutal \<times> stats" where
  "on_congestion_event now lost_bytes s =
     (case s of (c, st) \<Rightarrow>
        let st = maybe_reset now (st\<lparr>loss_count := loss_count st + 1\<rparr>)
        in (recalculate_window st c, st))"

definition clone_box :: "brutal \<Rightarrow> brutal" where
  "clone_box c = \<lparr>bc_config = bc_config c, bc_window = bc_window c\<rparr>"

text \<open>The system: what the QUIC library does with the controllers of one connection.\<close>

record brutal_system =
  controllers :: "brutal list"
  shared :: stats

definition brutal_start :: "nat \<Rightarrow> brutal_config \<Rightarrow> brutal_system" where
  "brutal_start now config = \<lparr>controllers = [brutal_new config], shared = stats_new now\<rparr>"

definition update_controller :: "nat \<Rightarrow> (brutal \<times> stats \<Rightarrow> brutal \<times> stats) \<Rightarrow> brutal_system \<Rightarrow> brutal_system" where
  "update_controller i f s =
     (case f (controllers s ! i, shared s) of (c, st) \<Rightarrow> \<lparr>controllers = (controllers s)[i := c], shared = st\<rparr>)"

inductive brutal_step :: "brutal_system \<Rightarrow> brutal_system \<Rightarrow> bool" where
  ack: "i < length (controllers s) \<Longrightarrow> brutal_step s (update_controller i (on_ack now bytes rtt) s)"
| loss: "i < length (controllers s) \<Longrightarrow> brutal_step s (update_controller i (on_congestion_event now lost) s)"
| clone: "i < length (controllers s) \<Longrightarrow> brutal_step s (s\<lparr>controllers := controllers s @ [clone_box (controllers s ! i)]\<rparr>)"

section \<open>Bandwidth texts\<close>

text \<open>Parsed numbers can leave the reals.\<close>

datatype f64_val = Finite real | Infinite bool | NaN

definition f64_of_real :: "real \<Rightarrow> f64_val" where
  "f64_of_real x = (if 2 ^ 1024 \<le> \<bar>rnd x\<bar> then Infinite (x < 0) else Finite (rnd x))"

text \<open>Multiplication and division by a positive constant, and \<open>as u64\<close>.\<close>

definition f64_mul :: "f64_val \<Rightarrow> real \<Rightarrow> f64_val" where
  "f64_mul v c = (case v of Finite x \<Rightarrow> f64_of_real (x * c) | w \<Rightarrow> w)"

definition f64_div :: "f64_val \<Rightarrow> real \<Rightarrow> f64_val" where
  "f64_div v c = (case v of Finite x \<Rightarrow> f64_of_real (x / c) | w \<Rightarrow> w)"

definition f64_as_u64 :: "f64_val \<Rightarrow> nat" where
  "f64_as_u64 v =
     (case v of Finite x \<Rightarrow> real_as_u64 x | Infinite negative \<Rightarrow> if negative then 0 else U64_MAX | NaN \<Rightarrow> 0)"

definition is_digit :: "u8 \<Rightarrow> bool" where
  "is_digit b \<longleftrightarrow> 48 \<le> b \<and> b \<le> 57"

definition digits_nat :: "rstring \<Rightarrow> nat" where
  "digits_nat s = (case digits_val 10 0 s of Some n \<Rightarrow> n | None \<Rightarrow> 0)"

definition parse_exponent :: "rstring \<Rightarrow> int option" where
  "parse_exponent s =
     (case s of
        [] \<Rightarrow> Some 0
      | b # t \<Rightarrow>
          if b = 101 \<or> b = 69 then
            (let neg = (t \<noteq> [] \<and> hd t = 45); t = (if t \<noteq> [] \<and> (hd t = 43 \<or> hd t = 45) then tl t else t)
             in if t \<noteq> [] \<and> list_all is_digit t then Some (if neg then - int (digits_nat t) else int (digits_nat t)) else None)
          else None)"

definition pow10 :: "int \<Rightarrow> real" where
  "pow10 e = (if 0 \<le> e then 10 ^ nat e else 1 / 10 ^ nat (- e))"

text \<open>\<open>str::parse::<f64>\<close> on a text already in lower case: digits with an optional fraction and exponent, or a named value.\<close>

definition parse_unsigned_f64 :: "bool \<Rightarrow> rstring \<Rightarrow> f64_val option" where
  "parse_unsigned_f64 neg s =
     (if s = str ''inf'' \<or> s = str ''infinity'' then Some (Infinite neg)
      else if s = str ''nan'' then Some NaN
      else
        let ip = takeWhile is_digit s; r = dropWhile is_digit s;
            fp = (if r \<noteq> [] \<and> hd r = 46 then takeWhile is_digit (tl r) else []);
            r = (if r \<noteq> [] \<and> hd r = 46 then dropWhile is_digit (tl r) else r)
        in if ip = [] \<and> fp = [] then None
           else map_option (\<lambda>e.
             let x = real (digits_nat (ip @ fp)) * pow10 (e - int (length fp))
             in f64_of_real (if neg then - x else x)) (parse_exponent r))"

definition parse_f64 :: "rstring \<Rightarrow> f64_val option" where
  "parse_f64 s =
     (case s of
        b # t \<Rightarrow> if b = 43 then parse_unsigned_f64 False t else if b = 45 then parse_unsigned_f64 True t else parse_unsigned_f64 False s
      | [] \<Rightarrow> None)"

definition strip_suffix :: "rstring \<Rightarrow> rstring \<Rightarrow> rstring option" where
  "strip_suffix p s =
     (if length p \<le> length s \<and> drop (length s - length p) s = p then Some (take (length s - length p) s) else None)"

text \<open>\<open>to_lowercase\<close> is the Unicode mapping of the standard library, a parameter here.\<close>

definition parse_bps :: "(rstring \<Rightarrow> rstring) \<Rightarrow> rstring \<Rightarrow> nat option" where
  "parse_bps to_lowercase s =
     (let s = filter (\<lambda>b. b \<noteq> 32) (to_lowercase (trim s));
          scaled = (\<lambda>unit n. map_option (\<lambda>v. f64_as_u64 (f64_div (f64_mul v unit) 8)) (parse_f64 n))
      in case strip_suffix (str ''gbps'') s of Some n \<Rightarrow> scaled (10 ^ 9) n
      | None \<Rightarrow> (case strip_suffix (str ''mbps'') s of Some n \<Rightarrow> scaled (10 ^ 6) n
      | None \<Rightarrow> (case strip_suffix (str ''kbps'') s of Some n \<Rightarrow> scaled (10 ^ 3) n
      | None \<Rightarrow> (case strip_suffix (str ''bps'') s of Some n \<Rightarrow> parse_unsigned U64_MAX n
      | None \<Rightarrow> None))))"

record bandwidth_config =
  bw_up :: "rstring option"
  bw_down :: "rstring option"

definition up_bps :: "(rstring \<Rightarrow> rstring) \<Rightarrow> bandwidth_config \<Rightarrow> nat option" where
  "up_bps lower b = (case bw_up b of None \<Rightarrow> None | Some s \<Rightarrow> parse_bps lower s)"

definition down_bps :: "(rstring \<Rightarrow> rstring) \<Rightarrow> bandwidth_config \<Rightarrow> nat option" where
  "down_bps lower b = (case bw_down b of None \<Rightarrow> None | Some s \<Rightarrow> parse_bps lower s)"

section \<open>The windows\<close>

lemma clamp_range: "lo \<le> hi \<Longrightarrow> lo \<le> clamp lo hi x \<and> clamp lo hi x \<le> hi"
  by (simp add: clamp_def)

lemma rnd_zero [simp]: "rnd 0 = 0"
  by (rule f64.zero)

text \<open>A controller within its bounds; one configured with rate zero is stuck at the lower one.\<close>

definition controller_ok :: "brutal_config \<Rightarrow> brutal \<Rightarrow> bool" where
  "controller_ok cfg c \<longleftrightarrow>
     bc_config c = cfg \<and> 32 * 1024 \<le> bc_window c \<and> bc_window c \<le> 32 * 1024 * 1024
     \<and> (send_bps cfg = 0 \<longrightarrow> bc_window c = 32 * 1024)"

lemma clamp_zero: "clamp (32 * 1024) hi (real_as_u64 0) = 32 * 1024"
  by (simp add: clamp_def real_as_u64_def)

lemma controller_ok_new: "controller_ok cfg (brutal_new cfg)"
proof -
  have "bc_window (brutal_new cfg) = 32 * 1024" if "send_bps cfg = 0"
    using that by (simp add: brutal_new_def clamp_zero [simplified])
  moreover have "32 * 1024 \<le> bc_window (brutal_new cfg) \<and> bc_window (brutal_new cfg) \<le> 16 * 1024 * 1024"
    unfolding brutal_new_def Let_def brutal.simps by (rule clamp_range) simp
  moreover have "bc_config (brutal_new cfg) = cfg" by (simp add: brutal_new_def Let_def)
  ultimately show ?thesis unfolding controller_ok_def by auto
qed

lemma bc_window_set: "bc_window (c\<lparr>bc_window := w\<rparr>) = w"
  by simp

lemma controller_ok_recalculate:
  assumes "controller_ok cfg c"
  shows "controller_ok cfg (recalculate_window st c)"
proof -
  have "bc_window (recalculate_window st c) = 32 * 1024" if "send_bps cfg = 0"
    using that assms by (simp add: recalculate_window_def controller_ok_def Let_def clamp_zero [simplified])
  moreover have "32 * 1024 \<le> bc_window (recalculate_window st c) \<and> bc_window (recalculate_window st c) \<le> 32 * 1024 * 1024"
    unfolding recalculate_window_def Let_def bc_window_set by (rule clamp_range) simp
  moreover have "bc_config (recalculate_window st c) = cfg"
    using assms by (simp add: recalculate_window_def controller_ok_def Let_def)
  ultimately show ?thesis unfolding controller_ok_def by blast
qed

definition system_ok :: "brutal_config \<Rightarrow> brutal_system \<Rightarrow> bool" where
  "system_ok cfg s \<longleftrightarrow> (\<forall>c \<in> set (controllers s). controller_ok cfg c) \<and> length (rtt_samples (shared s)) \<le> RTT_WINDOW"

lemma samples_bounded:
  "length (rtt_samples st) \<le> RTT_WINDOW \<Longrightarrow> length (rtt_samples (push_rtt r st)) \<le> RTT_WINDOW"
  "rtt_samples (maybe_reset now st) = rtt_samples st"
  by (simp_all add: push_rtt_def maybe_reset_def Let_def RTT_WINDOW_def)

lemma system_ok_update:
  assumes "i < length (controllers s)" "system_ok cfg s" "length (rtt_samples st) \<le> RTT_WINDOW"
    and "f (controllers s ! i, shared s) = (recalculate_window st (controllers s ! i), st)"
  shows "system_ok cfg (update_controller i f s)"
proof -
  have "controller_ok cfg (recalculate_window st (controllers s ! i))"
    using assms(1,2) by (intro controller_ok_recalculate) (simp add: system_ok_def)
  with assms set_update_subset_insert [of "controllers s" i "recalculate_window st (controllers s ! i)"]
  show ?thesis by (auto simp: system_ok_def update_controller_def)
qed

lemma system_ok_step: "brutal_step s s' \<Longrightarrow> system_ok cfg s \<Longrightarrow> system_ok cfg s'"
proof (induction rule: brutal_step.induct)
  case (ack i s now bytes rtt)
  show ?case
    by (rule system_ok_update [OF ack])
      (use ack(2) in \<open>simp_all add: on_ack_def Let_def samples_bounded system_ok_def\<close>)
next
  case (loss i s now lost)
  show ?case
    by (rule system_ok_update [OF loss])
      (use loss(2) in \<open>simp_all add: on_congestion_event_def Let_def samples_bounded system_ok_def\<close>)
next
  case (clone i s)
  then show ?case by (auto simp: system_ok_def clone_box_def controller_ok_def)
qed

lemma system_ok_reach:
  assumes "brutal_step\<^sup>*\<^sup>* (brutal_start now cfg) s"
  shows "system_ok cfg s"
  using assms
proof (induction rule: rtranclp_induct)
  case base
  show ?case by (simp add: system_ok_def brutal_start_def stats_new_def controller_ok_new)
qed (rule system_ok_step)

section \<open>Loss\<close>

lemma low_loss:
  assumes "ack_count st + loss_count st < 2 ^ 53" "9 * loss_count st \<le> ack_count st"
  shows "\<not> loss_ratio st > MAX_LOSS_RATIO"
proof (cases "ack_count st + loss_count st = 0")
  case True
  then show ?thesis using f64.nonneg [of "1 / 10"] by (simp add: loss_ratio_def MAX_LOSS_RATIO_def)
next
  case False
  have "rnd (rnd (real (loss_count st)) / rnd (real (ack_count st + loss_count st))) \<le> rnd (1 / 10)"
    using assms False by (intro f64.ratio_le) auto
  then have "\<not> rnd (rnd (real (loss_count st)) / rnd (real (ack_count st + loss_count st))) > rnd (1 / 10)" by linarith
  with False show ?thesis unfolding loss_ratio_def MAX_LOSS_RATIO_def Let_def by (simp only: if_False) blast
qed

section \<open>Properties\<close>

text \<open>
  C32.  In every state that acknowledgements, losses and clonings of controllers can reach, in any order and at any
  times, every congestion window lies between 32 KiB and 32 MiB and at most 16 round-trip samples are kept; a
  configured rate of zero pins every window to 32 KiB for ever, the slowest the controller can be.
\<close>

theorem brutal_window_bounds:
  assumes "brutal_step\<^sup>*\<^sup>* (brutal_start now cfg) s" "c \<in> set (controllers s)"
  shows "32 * 1024 \<le> bc_window c \<and> bc_window c \<le> 32 * 1024 * 1024 \<and> length (rtt_samples (shared s)) \<le> 16
    \<and> (send_bps cfg \<noteq> 0 \<or> bc_window c = 32 * 1024)"
  using system_ok_reach [OF assms(1)] assms(2) by (auto simp: system_ok_def controller_ok_def RTT_WINDOW_def)

text \<open>
  Losses are counted as events and acknowledgements as bytes: while the loss events of a second are at most a ninth of the
  bytes acknowledged in it, the window is computed exactly as if nothing had been lost, however many bytes each event lost.  One
  acknowledged packet of 1200 bytes hides 133 loss events.
\<close>

theorem brutal_ignores_loss:
  assumes "ack_count st + loss_count st < 2 ^ 53" "9 * loss_count st \<le> ack_count st"
  shows "recalculate_window st c = recalculate_window (st\<lparr>loss_count := 0\<rparr>) c"
proof -
  have "\<not> loss_ratio (st\<lparr>loss_count := 0\<rparr>) > MAX_LOSS_RATIO" using assms(1) by (intro low_loss) simp_all
  with low_loss [OF assms] show ?thesis by (simp add: recalculate_window_def avg_rtt_def)
qed

section \<open>Reading bandwidths\<close>

definition ascii_lower :: "u8 \<Rightarrow> u8" where
  "ascii_lower b = (if 65 \<le> b \<and> b \<le> 90 then b + 32 else b)"

definition lowercase_laws :: "(rstring \<Rightarrow> rstring) \<Rightarrow> bool" where
  "lowercase_laws lower \<longleftrightarrow> (\<forall>s. ascii s \<longrightarrow> lower s = map ascii_lower s)"

lemma ascii_lower_letter: "97 \<le> ascii_lower b \<Longrightarrow> ascii_lower b \<le> 122 \<Longrightarrow> 65 \<le> b \<and> b \<le> 122"
  by (auto simp: ascii_lower_def split: if_splits intro: order_trans [of 65 97] order_trans [of _ 90])

lemma no_white_space:
  assumes "33 \<le> b" "b < 0x80"
  shows "ws_len (b # s) = 0" "ws_rlen (b # s) = 0"
proof -
  have "b \<noteq> 9 \<and> b \<noteq> 10 \<and> b \<noteq> 11 \<and> b \<noteq> 12 \<and> b \<noteq> 13 \<and> b \<noteq> 32 \<and> b \<noteq> 0xC2 \<and> b \<noteq> 0xE1 \<and> b \<noteq> 0xE2 \<and> b \<noteq> 0xE3
      \<and> b \<noteq> 0x85 \<and> b \<noteq> 0xA0 \<and> b \<noteq> 0x80 \<and> b \<noteq> 0x9F \<and> \<not> 0x81 \<le> b"
    using assms by (auto simp: word_le_nat_alt word_less_nat_alt)
  then show "ws_len (b # s) = 0" "ws_rlen (b # s) = 0"
    unfolding ws_len_def ws_rlen_def ws_list_def by auto
qed

lemma trim_printable:
  assumes "s \<noteq> []" "33 \<le> hd s" "hd s < 0x80" "33 \<le> last s" "last s < 0x80"
  shows "trim s = s"
proof -
  have "trim_by ws_len s = s" using no_white_space(1) [OF assms(2,3), of "tl s"] assms(1) by (subst trim_by.simps) simp
  moreover have "trim_by ws_rlen (rev s) = rev s"
    using no_white_space(2) [OF assms(4,5), of "tl (rev s)"] assms(1) by (subst trim_by.simps) (simp add: hd_rev [symmetric])
  ultimately show ?thesis by (simp add: trim_def)
qed

lemma strip_suffix_append [simp]: "strip_suffix p (s @ p) = Some s"
  by (simp add: strip_suffix_def)

lemma f64_of_nat: "n < 2 ^ 53 \<Longrightarrow> f64_of_real (real n) = Finite (real n)"
proof -
  assume n: "n < 2 ^ 53"
  then have "real n < 2 ^ 53" by (metis of_nat_less_iff of_nat_numeral of_nat_power)
  moreover have "(2 :: real) ^ 53 \<le> 2 ^ 1024" by (rule power_increasing) simp_all
  ultimately have "\<not> 2 ^ 1024 \<le> real n" by linarith
  with f64.exact [OF n] show ?thesis by (simp add: f64_of_real_def del: power_numeral)
qed

lemma digits_all: "list_all is_digit (dec n)"
  using dec_digit_range by (auto simp: list_all_iff is_digit_def)

lemma parse_f64_dec:
  assumes "n < 2 ^ 53"
  shows "parse_f64 (dec n) = Some (Finite (real n))"
proof -
  obtain b t where bt: "dec n = b # t" by (cases "dec n") simp_all
  have b: "48 \<le> b" "b \<le> 57" using dec_digit_range [of b n] bt by auto
  then have ne: "b \<noteq> 43" "b \<noteq> 45" "b \<noteq> 105" "b \<noteq> 110" by auto
  have d: "takeWhile is_digit (dec n) = dec n" "dropWhile is_digit (dec n) = []"
    using digits_all [of n] by (auto simp: list_all_iff takeWhile_eq_all_conv dropWhile_eq_Nil_conv)
  have "parse_f64 (dec n) = parse_unsigned_f64 False (dec n)" using ne by (simp add: parse_f64_def bt)
  also have "\<dots> = Some (f64_of_real (real n))"
  proof -
    have named: "dec n \<noteq> str ''inf''" "dec n \<noteq> str ''infinity''" "dec n \<noteq> str ''nan''" using ne bt by auto
    have v: "digits_nat (dec n) = n" by (simp add: digits_nat_def digits_val_dec)
    have "parse_exponent [] = Some 0" "pow10 0 = 1" by (simp_all add: parse_exponent_def pow10_def)
    then show ?thesis
      unfolding parse_unsigned_f64_def Let_def d using named by (simp del: str_def) (simp add: v)
  qed
  finally show ?thesis by (simp add: f64_of_nat [OF assms])
qed

lemma scaled_exact:
  assumes "n * (8 * k) < 2 ^ 53" "0 < k"
  shows "f64_as_u64 (f64_div (f64_mul (Finite (real n)) (real (8 * k))) 8) = n * k"
proof -
  have a: "real n * real (8 * k) = real (n * (8 * k))" "real (n * (8 * k)) / 8 = real (n * k)" by simp_all
  have k: "n * k < 2 ^ 53" using assms(1) by (simp add: mult.commute)
  have "f64_mul (Finite (real n)) (real (8 * k)) = Finite (real (n * (8 * k)))"
    unfolding f64_mul_def f64_val.case a(1) by (rule f64_of_nat [OF assms(1)])
  then have "f64_div (f64_mul (Finite (real n)) (real (8 * k))) 8 = Finite (real (n * k))"
    unfolding f64_div_def f64_val.case a(2) using f64_of_nat [OF k] a(2) by simp
  moreover have "real_as_u64 (real (n * k)) = n * k"
    using k unfolding real_as_u64_def U64_MAX_def floor_of_nat nat_int by (intro min_absorb2) simp
  ultimately show ?thesis by (simp add: f64_as_u64_def)
qed

lemma parse_bps_exact:
  assumes "lowercase_laws lower" "(u, k) \<in> {(str ''kbps'', 125), (str ''mbps'', 125000), (str ''gbps'', 125000000)}"
    and "map ascii_lower unit = u" "sp \<in> {[], [32]}" "n * (8 * k) < 2 ^ 53"
  shows "parse_bps lower (dec n @ sp @ unit) = Some (n * k)"
proof -
  have u: "length u = 4" "\<forall>b \<in> set u. 97 \<le> b \<and> b \<le> 122" "filter (\<lambda>b. b \<noteq> 32) u = u" "0 < k" using assms(2) by auto
  have unit: "length unit = 4" "\<forall>b \<in> set unit. 65 \<le> b \<and> b \<le> 122"
    using u(1,2) assms(3) ascii_lower_letter by auto
  let ?s = "dec n @ sp @ unit"
  have range: "b \<in> set ?s \<Longrightarrow> b < 0x80" for b
    using unit(2) assms(4) dec_digit_range [of b n] by (auto intro: order.strict_trans1)
  have "unit \<noteq> []" using unit(1) by auto
  then have "last ?s \<in> set unit" "hd ?s \<in> set (dec n)" by (simp_all add: hd_append)
  moreover have "hd ?s < 0x80" "last ?s < 0x80" by (rule range, simp add: hd_append \<open>unit \<noteq> []\<close>)+
  moreover have "33 \<le> hd ?s"
    using dec_digit_range [OF calculation(2)] order_trans [of 33 48 "hd ?s"] by simp
  moreover have "33 \<le> last ?s"
    using unit(2) calculation(1) order_trans [of 33 65 "last ?s"] by auto
  ultimately have "trim ?s = ?s" by (intro trim_printable) simp_all
  moreover have "lower ?s = dec n @ sp @ u"
  proof -
    have "ascii ?s" using range by (simp add: ascii_def)
    moreover have "map ascii_lower (dec n) = dec n"
    proof (rule map_idI)
      fix b
      assume "b \<in> set (dec n)"
      then have "b \<le> 57" using dec_digit_range by blast
      then have "\<not> 65 \<le> b" by (auto simp: word_le_nat_alt)
      then show "ascii_lower b = b" by (simp add: ascii_lower_def)
    qed
    moreover have "map ascii_lower sp = sp" using assms(4) by (auto simp: ascii_lower_def)
    ultimately show ?thesis using assms(1,3) by (simp add: lowercase_laws_def)
  qed
  moreover have "filter (\<lambda>b. b \<noteq> 32) (dec n @ sp @ u) = dec n @ u"
    using u(3) assms(4) dec_no_sign [of 32 n] by (auto simp: filter_id_conv)
  moreover have "strip_suffix v (dec n @ u) = (if v = u then Some (dec n) else None)" if "length v = 4" for v
    using that u(1) by (simp add: strip_suffix_def)
  moreover have "n < 2 ^ 53"
  proof -
    have "n * 1 \<le> n * (8 * k)" using u(4) by (intro mult_le_mono2) simp
    with assms(5) show ?thesis by linarith
  qed
  ultimately show ?thesis
    using assms(2) scaled_exact [OF assms(5) u(4)] parse_f64_dec [of n] by (auto simp: parse_bps_def Let_def)
qed

text \<open>
  A bandwidth written as a decimal integer and a unit is read exactly: with \<open>Kbps\<close>, \<open>Mbps\<close> or \<open>Gbps\<close>, in any mix of cases and with a space
  or without, the rate in bytes per second is the number times the unit divided by eight, although it is computed in floating point, as long as
  the number of bits per second is below 2^53.
\<close>

theorem bandwidth_exact:
  assumes "lowercase_laws lower" "(u, k) \<in> {(str ''kbps'', 125), (str ''mbps'', 125000), (str ''gbps'', 125000000)}"
    and "map ascii_lower unit = u" "sp \<in> {[], [32]}" "n * (8 * k) < 2 ^ 53"
  shows "parse_bps lower (dec n @ sp @ unit) = Some (n * k)"
  by (rule parse_bps_exact [OF assms])

theorem bandwidth_exact_witness: "parse_bps (map ascii_lower) (str ''100 Mbps'') = Some 12500000"
proof -
  have "lowercase_laws (map ascii_lower)" by (simp add: lowercase_laws_def)
  moreover have "map ascii_lower (str ''Mbps'') = str ''mbps''" by (simp add: ascii_lower_def)
  ultimately have "parse_bps (map ascii_lower) (dec 100 @ [32] @ str ''Mbps'') = Some (100 * 125000)"
    by (intro bandwidth_exact [where u = "str ''mbps''"]) simp_all
  then show ?thesis by (simp add: dec.simps)
qed

theorem brutal_window_bounds_witness:
  "\<exists>s c. brutal_step\<^sup>*\<^sup>* (brutal_start 0 \<lparr>send_bps = 0\<rparr>) s \<and> c \<in> set (controllers s) \<and> ack_count (shared s) = 1200
     \<and> bc_window c = 32768"
proof -
  let ?cfg = "\<lparr>send_bps = 0\<rparr>" and ?s = "brutal_start 0 \<lparr>send_bps = 0\<rparr>"
  let ?t = "update_controller 0 (on_ack 5 1200 1000000) ?s"
  have "0 < length (controllers ?s)" by (simp add: brutal_start_def)
  then have r: "brutal_step\<^sup>*\<^sup>* ?s ?t" by (intro r_into_rtranclp ack)
  have a: "ack_count (shared ?t) = 1200"
    by (simp add: update_controller_def brutal_start_def on_ack_def Let_def maybe_reset_def push_rtt_def stats_new_def RTT_WINDOW_def)
  obtain c where c: "c \<in> set (controllers ?t)"
    by (simp add: update_controller_def brutal_start_def on_ack_def Let_def)
  from brutal_window_bounds [OF r c] r a c show ?thesis by auto
qed

theorem brutal_ignores_loss_witness:
  "recalculate_window \<lparr>ack_count = 1200, loss_count = 133, window_start = 0, rtt_samples = [1000000]\<rparr> (brutal_new \<lparr>send_bps = 1000000\<rparr>)
     = recalculate_window \<lparr>ack_count = 1200, loss_count = 0, window_start = 0, rtt_samples = [1000000]\<rparr> (brutal_new \<lparr>send_bps = 1000000\<rparr>)"
  using brutal_ignores_loss [of "\<lparr>ack_count = 1200, loss_count = 133, window_start = 0, rtt_samples = [1000000]\<rparr>"] by simp

end
