(* ===== verification/Varint.thy ===== *)
theory Varint
  imports Stream_IO
begin

text \<open>
  QUIC variable-length integers as Hysteria2 uses them: the stream reader that
  \<open>hysteria2/auth.rs\<close> and \<open>hysteria2/server.rs\<close> both have, the writer that \<open>auth.rs\<close> and
  \<open>proxy.rs\<close> both have, and the reader on datagrams of \<open>proxy.rs\<close>, which counts the bytes
  after the first one differently.
\<close>

section \<open>The model\<close>

fun varint_tail :: "nat \<Rightarrow> u64 \<Rightarrow> u64 io" where
  "varint_tail 0 val = return_io val"
| "varint_tail (Suc n) val =
     bind_io read_u8 (\<lambda>b. varint_tail n (push_bit 8 val OR ucast b))"

definition read_varint :: "u64 io" where
  "read_varint =
     bind_io read_u8 (\<lambda>first.
       let len = push_bit (unat (drop_bit 6 first)) (1 :: nat);
           val = ucast (first AND 0x3f)
       in varint_tail (len - 1) val)"

definition write_varint :: "u64 \<Rightarrow> bytes" where
  "write_varint val =
     (if val < 64 then [ucast val]
      else if val < 16384 then to_be 2 (0x4000 OR ucast val :: u16)
      else if val < 1073741824 then to_be 4 (0x80000000 OR ucast val :: u32)
      else to_be 8 (0xc000000000000000 OR val))"

fun varint_bytes_tail :: "nat \<Rightarrow> u64 \<Rightarrow> bytes \<Rightarrow> (u64 \<times> bytes) result" where
  "varint_bytes_tail 0 val data = Inr (val, data)"
| "varint_bytes_tail (Suc n) val [] = Inl (Bail ''varint: truncated'')"
| "varint_bytes_tail (Suc n) val (b # data) = varint_bytes_tail n (push_bit 8 val OR ucast b) data"

fun read_varint_bytes :: "bytes \<Rightarrow> (u64 \<times> bytes) result" where
  "read_varint_bytes [] = Inl (Bail ''varint: no data'')"
| "read_varint_bytes (first # data) =
     (let extra = unat (drop_bit 6 first); val = ucast (first AND 0x3f)
      in varint_bytes_tail extra val data)"

section \<open>Encodings\<close>

lemma streaming_varint_tail: "streaming (varint_tail n val)"
  by (induction n val rule: varint_tail.induct) (auto intro: streaming_intros)

lemma streaming_read_varint [streaming_intros]: "streaming read_varint"
  unfolding read_varint_def Let_def by (intro streaming_intros streaming_varint_tail)

lemma varint_tail_append:
  "length bs = n \<Longrightarrow>
   varint_tail n val (c\<lparr>rx := bs @ rest\<rparr>) = (Inr (foldl (\<lambda>a b. push_bit 8 a OR ucast b) val bs), c\<lparr>rx := rest\<rparr>)"
proof (induction bs arbitrary: n val)
  case (Cons b bs)
  then show ?case by (cases n) (simp_all add: io_simps)
qed (simp add: io_simps)

lemma varint_bytes_tail_append:
  "length bs = n \<Longrightarrow>
   varint_bytes_tail n val (bs @ rest) = Inr (foldl (\<lambda>a b. push_bit 8 a OR ucast b) val bs, rest)"
proof (induction bs arbitrary: n val)
  case (Cons b bs)
  then show ?case by (cases n) simp_all
qed simp

lemma not_bit_ge:
  fixes v :: "'a::len word"
  assumes "unat v < 2 ^ k" "k \<le> i"
  shows "\<not> bit v i"
proof -
  have "take_bit k v = v"
    using assms(1) by (intro word_unat_eq_iff [THEN iffD2]) (simp add: unsigned_take_bit_eq take_bit_nat_eq_self)
  then show ?thesis using assms(2) by (metis bit_take_bit_iff leD)
qed

lemma and_3f: "(b :: u8) AND 0x3f = take_bit 6 b"
  by (simp add: take_bit_eq_mask mask_eq_exp_minus_1)

text \<open>
  The first byte of a tagged word: its two high bits are the tag and its six low bits the
  leading bits of the value.
\<close>

lemma tagged_first:
  fixes v :: u64 and t :: "'a::len word"
  assumes v: "unat v < 2 ^ k" and t: "unat t < 4" and k: "LENGTH('a) = k + 2" and m: "LENGTH('a) = m + 8"
  defines "w \<equiv> push_bit k t OR ucast v :: 'a word"
  shows "drop_bit 6 (ucast (drop_bit m w) :: u8) = ucast t"
    and "ucast (take_bit 6 (ucast (drop_bit m w) :: u8)) = drop_bit m v"
proof -
  have nv: "i < k" if "bit v i" for i using not_bit_ge [OF v, of i] that by force
  have nt: "i < 2" if "bit t i" for i using not_bit_ge [of t 2 i] t that by force
  have km: "k = m + 6" using k m by simp
  show "drop_bit 6 (ucast (drop_bit m w) :: u8) = ucast t"
    by (rule bit_word_eqI) (auto simp: w_def bit_simps km k dest: nv nt)
  show "ucast (take_bit 6 (ucast (drop_bit m w) :: u8)) = drop_bit m v"
    by (rule bit_word_eqI) (auto simp: w_def bit_simps km k dest: nv)
qed

lemma tagged_rest:
  fixes v :: u64 and t :: "'a::len word"
  assumes "8 * n \<le> k" "8 * n \<le> LENGTH('a)"
  shows "to_be n (push_bit k t OR ucast v :: 'a word) = to_be n v"
proof (rule nth_equalityI)
  fix i assume "i < length (to_be n (push_bit k t OR ucast v :: 'a word))"
  then have i: "i < n" by simp
  have "(ucast (drop_bit (8 * (n - Suc i)) (push_bit k t OR ucast v :: 'a word)) :: u8)
      = ucast (drop_bit (8 * (n - Suc i)) v)"
    using i assms by (intro bit_word_eqI) (auto simp: bit_simps)
  with i show "to_be n (push_bit k t OR ucast v :: 'a word) ! i = to_be n v ! i"
    by (simp add: bit_to_be_nth)
qed simp

lemma tagged_bytes:
  fixes v :: u64 and t :: "'a::len word"
  assumes "unat v < 2 ^ k" "unat t < 4" "LENGTH('a) = k + 2" "LENGTH('a) = 8 * Suc n"
  shows "\<exists>f. to_be (Suc n) (push_bit k t OR ucast v :: 'a word) = f # to_be n v
    \<and> drop_bit 6 f = ucast t
    \<and> foldl (\<lambda>a b. push_bit 8 a OR ucast b) (ucast (f AND 0x3f)) (to_be n v) = v"
proof -
  let ?w = "push_bit k t OR ucast v :: 'a word" and ?f = "ucast (drop_bit (8 * n) (push_bit k t OR ucast v :: 'a word)) :: u8"
  have f: "drop_bit 6 ?f = ucast t" "ucast (take_bit 6 ?f) = drop_bit (8 * n) v"
    using tagged_first [of v k t "8 * n"] assms by simp_all
  have "push_bit (8 * n) (drop_bit (8 * n) v) OR take_bit (8 * n) v = v"
    by (rule bit_word_eqI) (auto simp: bit_simps dest: bit_imp_le_length)
  then have "foldl (\<lambda>a b. push_bit 8 a OR ucast b) (ucast (?f AND 0x3f)) (to_be n v) = v"
    by (simp only: and_3f f(2) foldl_from_be from_be_to_be_take length_to_be)
  moreover have "to_be n ?w = to_be n v"
    using assms by (intro tagged_rest) simp_all
  ultimately show ?thesis using f(1) by simp
qed

text \<open>What \<open>write_varint\<close> produces: a first byte with the length code, then the low bytes.\<close>

lemma write_varint_shape:
  assumes "unat v < 2 ^ 62"
  shows "\<exists>f n. write_varint v = f # to_be n v \<and> n = 2 ^ unat (drop_bit 6 f) - 1
    \<and> foldl (\<lambda>a b. push_bit 8 a OR ucast b) (ucast (f AND 0x3f)) (to_be n v) = v
    \<and> (unat v < 16384 \<longrightarrow> n = unat (drop_bit 6 f))"
proof -
  consider "v < 64" | "\<not> v < 64" "v < 16384" | "\<not> v < 64" "\<not> v < 16384" "v < 1073741824"
    | "\<not> v < 64" "\<not> v < 16384" "\<not> v < 1073741824" by blast
  then show ?thesis
  proof cases
    case 1
    then have v: "unat v < 2 ^ 6" by (simp add: word_less_nat_alt)
    have nv: "i < 6" if "bit v i" for i using not_bit_ge [OF v, of i] that by force
    have "drop_bit 6 (ucast v :: u8) = 0"
      by (rule bit_word_eqI) (auto simp: bit_simps dest: nv)
    moreover have "ucast (take_bit 6 (ucast v :: u8)) = v"
      by (rule bit_word_eqI) (auto simp: bit_simps dest: nv)
    ultimately show ?thesis
      using 1 by (intro exI [of _ "ucast v"] exI [of _ 0]) (simp add: write_varint_def and_3f)
  next
    case 2
    then have v: "unat v < 2 ^ 14" by (simp add: word_less_nat_alt)
    have w: "write_varint v = to_be (Suc 1) (push_bit 14 1 OR ucast v :: u16)"
      using 2 by (simp add: write_varint_def numeral_2_eq_2)
    from tagged_bytes [of v 14 "1 :: u16" 1] v obtain f where
      "to_be (Suc 1) (push_bit 14 1 OR ucast v :: u16) = f # to_be 1 v" "drop_bit 6 f = 1"
      "foldl (\<lambda>a b. push_bit 8 a OR ucast b) (ucast (f AND 0x3f)) (to_be 1 v) = v" by auto
    with w show ?thesis by (intro exI [of _ f] exI [of _ 1]) simp
  next
    case 3
    then have v: "unat v < 2 ^ 30" "\<not> unat v < 16384" by (simp_all add: word_less_nat_alt)
    have w: "write_varint v = to_be (Suc 3) (push_bit 30 2 OR ucast v :: u32)"
      using 3 by (simp add: write_varint_def numeral_eq_Suc)
    from tagged_bytes [of v 30 "2 :: u32" 3] v obtain f where
      "to_be (Suc 3) (push_bit 30 2 OR ucast v :: u32) = f # to_be 3 v" "drop_bit 6 f = 2"
      "foldl (\<lambda>a b. push_bit 8 a OR ucast b) (ucast (f AND 0x3f)) (to_be 3 v) = v" by auto
    with w v show ?thesis by (intro exI [of _ f] exI [of _ 3]) simp
  next
    case 4
    then have v: "\<not> unat v < 16384" by (simp_all add: word_less_nat_alt)
    have w: "write_varint v = to_be (Suc 7) (push_bit 62 3 OR ucast v :: u64)"
      using 4 by (simp add: write_varint_def numeral_eq_Suc)
    from tagged_bytes [of v 62 "3 :: u64" 7] assms obtain f where
      "to_be (Suc 7) (push_bit 62 3 OR ucast v :: u64) = f # to_be 7 v" "drop_bit 6 f = 3"
      "foldl (\<lambda>a b. push_bit 8 a OR ucast b) (ucast (f AND 0x3f)) (to_be 7 v) = v" by auto
    with w v show ?thesis by (intro exI [of _ f] exI [of _ 7]) simp
  qed
qed

lemma read_varint_write:
  assumes "unat v < 2 ^ 62"
  shows "read_varint (c\<lparr>rx := write_varint v @ rest\<rparr>) = (Inr v, c\<lparr>rx := rest\<rparr>)"
proof -
  obtain f n where w: "write_varint v = f # to_be n v" "n = 2 ^ unat (drop_bit 6 f) - 1"
    "foldl (\<lambda>a b. push_bit 8 a OR ucast b) (ucast (f AND 0x3f)) (to_be n v) = v"
    using write_varint_shape [OF assms] by blast
  then show ?thesis
    using varint_tail_append [of "to_be n v" n "ucast (f AND 0x3f)" rest c]
    by (simp add: read_varint_def io_simps Let_def push_bit_eq_mult)
qed

lemma read_varint_bytes_write:
  assumes "unat v < 16384"
  shows "read_varint_bytes (write_varint v @ rest) = Inr (v, rest)"
proof -
  obtain f n where w: "write_varint v = f # to_be n v" "n = unat (drop_bit 6 f)"
    "foldl (\<lambda>a b. push_bit 8 a OR ucast b) (ucast (f AND 0x3f)) (to_be n v) = v"
    using write_varint_shape [of v] assms by fastforce
  then show ?thesis
    using varint_bytes_tail_append [of "to_be n v" n "ucast (f AND 0x3f)" rest] by simp
qed

text \<open>The stream reader meets the contract of a header parser on all 62-bit values.\<close>

interpretation varint: header_parser read_varint write_varint "\<lambda>v. v" "\<lambda>v. unat v < 2 ^ 62"
  by unfold_locales (simp_all add: streaming_read_varint read_varint_write)

section \<open>Properties\<close>

text \<open>
  Every value below \<open>2 ^ 62\<close> that Hysteria2 writes as a variable-length integer is read back
  by the stream reader, which stops right after it and reports every truncation; the datagram
  reader reads back every value below 16384 (one- and two-byte encodings).
\<close>

theorem varint_roundtrip:
  assumes "unat v < 2 ^ 62"
  shows "read_varint (c\<lparr>rx := write_varint v @ rest\<rparr>) = (Inr v, c\<lparr>rx := rest\<rparr>)
    \<and> (\<forall>k < length (write_varint v).
         read_varint (c\<lparr>rx := take k (write_varint v)\<rparr>) = (Inl (Io (rx_end c)), c\<lparr>rx := []\<rparr>))
    \<and> (unat v < 16384 \<longrightarrow> read_varint_bytes (write_varint v @ rest) = Inr (v, rest))"
  using assms varint.parse_enc varint.truncated read_varint_bytes_write by blast

theorem varint_roundtrip_witness:
  "write_varint 1025 = [0x44, 0x01] \<and> read_varint_bytes ([0x44, 0x01] @ [9]) = Inr (1025, [9])"
proof -
  have "write_varint 1025 = [0x44, 0x01]" by (simp add: write_varint_def be_simps)
  with varint_roundtrip [of 1025 "[9]"] show ?thesis by simp
qed

text \<open>
  The datagram reader takes the two high bits for the number of further bytes instead of its
  logarithm: it reads the four-byte encoding of 16384 as a three-byte number, 64, and leaves
  the last byte in the data, whereas the stream reader reads 16384.
\<close>

theorem varint_bytes_four_byte_form:
  "write_varint 16384 = [0x80, 0x00, 0x40, 0x00]
   \<and> read_varint_bytes (write_varint 16384 @ rest) = Inr (64, 0x00 # rest)
   \<and> read_varint (c\<lparr>rx := write_varint 16384 @ rest\<rparr>) = (Inr 16384, c\<lparr>rx := rest\<rparr>)"
proof (intro conjI)
  show w: "write_varint 16384 = [0x80, 0x00, 0x40, 0x00]" by (simp add: write_varint_def be_simps)
  show "read_varint_bytes (write_varint 16384 @ rest) = Inr (64, 0x00 # rest)"
  proof -
    have "varint_bytes_tail 2 0 (0 # 64 # 0 # rest) = Inr (64, 0 # rest)"
      by (simp only: numeral_2_eq_2 varint_bytes_tail.simps) simp
    then show ?thesis unfolding w by simp
  qed
  show "read_varint (c\<lparr>rx := write_varint 16384 @ rest\<rparr>) = (Inr 16384, c\<lparr>rx := rest\<rparr>)"
    by (rule read_varint_write) simp
qed

end
