(* ===== verification/Hysteria2_Udp.thy ===== *)
theory Hysteria2_Udp
  imports Varint "HOL-Library.Multiset"
begin

text \<open>
  The UDP half of \<open>hysteria2/proxy.rs\<close>: frames on QUIC datagrams, the fragmentation of replies,
  the reassembly of client packets in \<open>FragBuffer\<close>, and the session loop that forwards frames.
\<close>

section \<open>The model\<close>

definition UDP_MAX_PKT :: nat where "UDP_MAX_PKT = 65507"
definition DATAGRAM_MAX_PAYLOAD :: nat where "DATAGRAM_MAX_PAYLOAD = 1100"

record udp_frame =
  uf_session_id :: u32
  uf_packet_id :: u16
  uf_frag_id :: u8
  uf_frag_total :: u8
  uf_addr :: rstring
  uf_port :: u16
  uf_payload :: bytes

definition write_varint_bytes :: "u64 \<Rightarrow> bytes" where
  "write_varint_bytes val =
     (if val < 64 then [ucast val]
      else if val < 16384 then to_be 2 (0x4000 OR ucast val :: u16)
      else if val < 1073741824 then to_be 4 (0x80000000 OR ucast val :: u32)
      else to_be 8 (0xc000000000000000 OR val))"

definition split_host_port :: "rstring \<Rightarrow> (rstring \<times> u16) result" where
  "split_host_port s =
     (case rsplit_once 58 s of
        None \<Rightarrow> Inl (Bail ''invalid addr (no port)'')
      | Some (host, port_str) \<Rightarrow>
          (case parse_unsigned 65535 port_str of
             None \<Rightarrow> Inl ParseError
           | Some port \<Rightarrow> Inr (trim_brackets host, of_nat port)))"

definition parse_udp_frame :: "bytes \<Rightarrow> udp_frame result" where
  "parse_udp_frame data =
     and_then (ensure (8 \<le> length data) (Bail ''UDP frame too short'')) (\<lambda>_.
     let session_id = from_be (take 4 data);
         packet_id = from_be (take 2 (drop 4 data));
         frag_id = data ! 6;
         frag_total = data ! 7
     in and_then (read_varint_bytes (drop 8 data)) (\<lambda>(v, data).
        let addr_len = unat v in
        and_then (ensure (0 < addr_len \<and> addr_len \<le> 2048) (Bail ''invalid addr_len'')) (\<lambda>_.
        and_then (ensure (addr_len \<le> length data) (Bail ''UDP frame: addr truncated'')) (\<lambda>_.
        and_then (from_utf8 (take addr_len data)) (\<lambda>addr_str.
        and_then (split_host_port addr_str) (\<lambda>(addr, port).
          Inr \<lparr>uf_session_id = session_id, uf_packet_id = packet_id, uf_frag_id = frag_id,
               uf_frag_total = frag_total, uf_addr = addr, uf_port = port,
               uf_payload = drop addr_len data\<rparr>))))))"

definition build_single_udp_frame :: "u32 \<Rightarrow> u16 \<Rightarrow> u8 \<Rightarrow> u8 \<Rightarrow> rstring \<Rightarrow> bytes \<Rightarrow> bytes" where
  "build_single_udp_frame session_id packet_id frag_id frag_total addr_str payload =
     to_be 4 session_id @ to_be 2 packet_id @ [frag_id] @ [frag_total]
     @ write_varint_bytes (of_nat (length addr_str)) @ addr_str @ payload"

text \<open>\<open>slice::chunks\<close>: pieces of length \<open>Suc n\<close>, the last one possibly shorter.\<close>

function chunks :: "nat \<Rightarrow> bytes \<Rightarrow> bytes list" where
  "chunks n xs = (if xs = [] then [] else take (Suc n) xs # chunks n (drop (Suc n) xs))"
  by pat_completeness auto
termination
  by (relation "measure (\<lambda>(n, xs). length xs)") auto

declare chunks.simps [simp del]

definition build_udp_frames :: "u32 \<Rightarrow> u16 \<Rightarrow> socket_addr \<Rightarrow> bytes \<Rightarrow> bytes list" where
  "build_udp_frames session_id packet_id src_addr payload =
     (let addr_str = (case src_addr of
                        SockV4 a p \<Rightarrow> host_port (ipv4_to_string a) p
                      | SockV6 a p \<Rightarrow> host_port (bracketed a) p)
      in if length payload \<le> DATAGRAM_MAX_PAYLOAD then
           [build_single_udp_frame session_id packet_id 0 1 addr_str payload]
         else
           (let cs = chunks (DATAGRAM_MAX_PAYLOAD - 1) payload;
                frag_total = of_nat (length cs)
            in map (\<lambda>(i, chunk).
                 build_single_udp_frame session_id packet_id (of_nat i) frag_total addr_str chunk)
                 (enumerate 0 cs)))"

record frag_buffer =
  fb_total :: u8
  fb_received :: u8
  fb_frags :: "u8 \<rightharpoonup> bytes"
  fb_addr :: rstring
  fb_port :: u16

definition frag_new :: "u8 \<Rightarrow> rstring \<Rightarrow> u16 \<Rightarrow> frag_buffer" where
  "frag_new n a p =
     \<lparr>fb_total = n, fb_received = 0, fb_frags = Map.empty, fb_addr = a, fb_port = p\<rparr>"

text \<open>The keys of the fragment map in increasing order.\<close>

definition frag_ids :: "(u8 \<rightharpoonup> bytes) \<Rightarrow> u8 list" where
  "frag_ids m = filter (\<lambda>i. m i \<noteq> None) (map of_nat [0..<256])"

definition gather :: "(u8 \<rightharpoonup> bytes) \<Rightarrow> bytes" where
  "gather m = concat (map (\<lambda>i. the (m i)) (frag_ids m))"

definition frag_insert :: "u8 \<Rightarrow> bytes \<Rightarrow> frag_buffer \<Rightarrow> (bytes \<times> rstring \<times> u16) option \<times> frag_buffer" where
  "frag_insert i payload b =
     (let b = b\<lparr>fb_frags := (case fb_frags b i of
                               None \<Rightarrow> (fb_frags b)(i \<mapsto> payload)
                             | Some _ \<Rightarrow> fb_frags b)\<rparr>;
          b = b\<lparr>fb_received := fb_received b + 1\<rparr>
      in if fb_total b \<le> fb_received b then
           (Some (gather (fb_frags b), fb_addr b, fb_port b), b)
         else (None, b))"

type_synonym frag_table = "u16 \<rightharpoonup> frag_buffer"

text \<open>\<open>relay_frame\<close> returns what it sends, a target and a packet, and the next table.\<close>

definition relay_frame :: "udp_frame \<Rightarrow> frag_table \<Rightarrow> (rstring \<times> bytes) option \<times> frag_table" where
  "relay_frame frame table =
     (let target = host_port (uf_addr frame) (uf_port frame)
      in if uf_frag_total frame \<le> 1 then (Some (target, uf_payload frame), table)
         else
           (let buf = (case table (uf_packet_id frame) of
                         Some b \<Rightarrow> b
                       | None \<Rightarrow> frag_new (uf_frag_total frame) (uf_addr frame) (uf_port frame))
            in case frag_insert (uf_frag_id frame) (uf_payload frame) buf of
                 (Some (reassembled, a, p), _) \<Rightarrow>
                   (Some (host_port a p, reassembled), table(uf_packet_id frame := None))
               | (None, buf) \<Rightarrow> (None, table(uf_packet_id frame \<mapsto> buf))))"

text \<open>
  \<open>handle_udp_session\<close>: the forwarding loop over the frames of the session's channel, the first
  frame included, and one round of the receiving task, which numbers the replies.
\<close>

fun relay_frames :: "frag_table \<Rightarrow> udp_frame list \<Rightarrow> (udp_frame \<times> (rstring \<times> bytes) option) list" where
  "relay_frames table [] = []"
| "relay_frames table (f # fs) =
     (let (r, table') = relay_frame f table in (f, r) # relay_frames table' fs)"

definition handle_udp_session :: "udp_frame \<Rightarrow> udp_frame list \<Rightarrow> (udp_frame \<times> (rstring \<times> bytes) option) list" where
  "handle_udp_session first_frame frames = relay_frames Map.empty (first_frame # frames)"

definition session_reply :: "u32 \<Rightarrow> u16 \<Rightarrow> socket_addr \<Rightarrow> bytes \<Rightarrow> bytes list \<times> u16" where
  "session_reply session_id counter src dgram =
     (build_udp_frames session_id counter src (take UDP_MAX_PKT dgram), counter + 1)"

section \<open>One frame\<close>

lemma write_varint_bytes_eq: "write_varint_bytes = write_varint"
  by (simp add: write_varint_bytes_def write_varint_def fun_eq_iff)

lemma split_host_port_print:
  "split_host_port (host_port h p) = Inr (trim_brackets h, p)"
  by (simp add: split_host_port_def rsplit_host_port parse_port)

lemma unat_u64_of_nat: "n < 2 ^ 64 \<Longrightarrow> unat (of_nat n :: u64) = n"
  by (simp add: unat_of_nat take_bit_eq_mod)

lemma parse_build_single:
  assumes "0 < length a" "length a \<le> 2048" "utf8_valid a" "split_host_port a = Inr (h, p)"
  shows "parse_udp_frame (build_single_udp_frame sid pid i n a payload)
    = Inr \<lparr>uf_session_id = sid, uf_packet_id = pid, uf_frag_id = i, uf_frag_total = n,
           uf_addr = h, uf_port = p, uf_payload = payload\<rparr>"
proof -
  let ?v = "of_nat (length a) :: u64"
  have v: "unat ?v = length a" using assms(2) by (intro unat_u64_of_nat) simp
  have d: "build_single_udp_frame sid pid i n a payload
      = (to_be 4 sid @ to_be 2 pid @ [i, n]) @ write_varint ?v @ a @ payload"
    by (simp add: build_single_udp_frame_def write_varint_bytes_eq)
  have l: "length (to_be 4 sid @ to_be 2 pid @ [i, n]) = 8" by simp
  have r: "read_varint_bytes (write_varint ?v @ a @ payload) = Inr (?v, a @ payload)"
    using assms(2) v by (intro read_varint_bytes_write) simp
  show ?thesis
    unfolding parse_udp_frame_def d
    using assms by (simp add: nth_append r v)
qed

section \<open>Fragmentation\<close>

lemma concat_chunks: "concat (chunks n xs) = xs"
  by (induction n xs rule: chunks.induct) (subst chunks.simps, simp)

lemma chunk_bound: "c \<in> set (chunks n xs) \<Longrightarrow> 0 < length c \<and> length c \<le> Suc n"
proof (induction n xs rule: chunks.induct)
  case (1 n xs)
  then show ?case by (subst (asm) (2) chunks.simps) (auto split: if_splits)
qed

lemma length_chunks: "length (chunks n xs) = (length xs + n) div Suc n"
proof (induction n xs rule: chunks.induct)
  case (1 n xs)
  show ?case
  proof (cases "xs = []")
    case False
    with 1 have "length (chunks n xs) = Suc ((length xs - Suc n + n) div Suc n)"
      by (subst chunks.simps) simp
    also have "\<dots> = (length xs + n) div Suc n"
    proof (cases "Suc n \<le> length xs")
      case True
      then have "length xs + n = (length xs - Suc n + n) + Suc n" by simp
      then show ?thesis by (metis div_add_self2 Suc_eq_plus1 nat.simps(3))
    next
      case f: False
      have "(length xs + n) div Suc n = 1"
        using False f by (intro div_nat_eqI) (simp_all add: Suc_le_eq)
      with f show ?thesis by simp
    qed
    finally show ?thesis .
  qed (simp add: chunks.simps)
qed

lemma chunks_total:
  assumes "length payload \<le> UDP_MAX_PKT"
  shows "length (chunks (DATAGRAM_MAX_PAYLOAD - 1) payload) \<le> 60"
proof -
  have "(length payload + 1099) div 1100 \<le> (65507 + 1099) div 1100"
    using assms by (intro div_le_mono) (simp add: UDP_MAX_PKT_def)
  then show ?thesis by (simp add: length_chunks DATAGRAM_MAX_PAYLOAD_def)
qed


text \<open>The host of a source address as it comes back out of a frame: without brackets.\<close>

fun src_host :: "socket_addr \<Rightarrow> rstring" where
  "src_host (SockV4 a p) = ipv4_to_string a"
| "src_host (SockV6 a p) = ipv6_to_string a"

definition src_text :: "socket_addr \<Rightarrow> rstring" where
  "src_text src = (case src of SockV4 a p \<Rightarrow> host_port (ipv4_to_string a) p
                             | SockV6 a p \<Rightarrow> host_port (bracketed a) p)"

lemma src_text_ok:
  "0 < length (src_text src)" "length (src_text src) \<le> 2048" "utf8_valid (src_text src)"
  "split_host_port (src_text src) = Inr (src_host src, sock_port src)"
proof -
  show "0 < length (src_text src)"
    by (simp add: src_text_def host_port_def split: socket_addr.splits)
  show "length (src_text src) \<le> 2048"
  proof (cases src)
    case (SockV4 a p)
    with length_ipv4 [of a] length_dec_port [of p] show ?thesis by (simp add: src_text_def host_port_def)
  next
    case (SockV6 a p)
    with length_ipv6 [of a] length_dec_port [of p] show ?thesis
      by (simp add: src_text_def host_port_def bracketed_def)
  qed
  show "utf8_valid (src_text src)"
    by (auto simp: src_text_def host_port_utf8 bracketed_utf8 split: socket_addr.splits)
  show "split_host_port (src_text src) = Inr (src_host src, sock_port src)"
    using trim_brackets_inner(1) [OF ipv4_chars] trim_brackets_inner(2) [OF ipv6_chars]
    by (cases src) (simp_all add: src_text_def split_host_port_print bracketed_def)
qed

definition frame_of :: "u32 \<Rightarrow> u16 \<Rightarrow> rstring \<Rightarrow> u16 \<Rightarrow> nat \<Rightarrow> u8 \<times> bytes \<Rightarrow> udp_frame" where
  "frame_of sid pid h p n ic =
     \<lparr>uf_session_id = sid, uf_packet_id = pid, uf_frag_id = fst ic, uf_frag_total = of_nat n,
      uf_addr = h, uf_port = p, uf_payload = snd ic\<rparr>"

definition pieces :: "bytes \<Rightarrow> bytes list" where
  "pieces payload = (if length payload \<le> DATAGRAM_MAX_PAYLOAD then [payload]
                     else chunks (DATAGRAM_MAX_PAYLOAD - 1) payload)"

definition numbered :: "bytes list \<Rightarrow> (u8 \<times> bytes) list" where
  "numbered cs = map (\<lambda>i. (of_nat i, cs ! i)) [0..<length cs]"

lemma pieces_facts:
  assumes "length payload \<le> UDP_MAX_PKT"
  shows "concat (pieces payload) = payload" "0 < length (pieces payload)" "length (pieces payload) \<le> 60"
    "c \<in> set (pieces payload) \<Longrightarrow> length c \<le> DATAGRAM_MAX_PAYLOAD"
proof -
  show "concat (pieces payload) = payload" by (simp add: pieces_def concat_chunks)
  show "0 < length (pieces payload)"
    by (auto simp: pieces_def chunks.simps [of _ payload] DATAGRAM_MAX_PAYLOAD_def)
  show "length (pieces payload) \<le> 60" using chunks_total [OF assms] by (simp add: pieces_def)
  show "c \<in> set (pieces payload) \<Longrightarrow> length c \<le> DATAGRAM_MAX_PAYLOAD"
    using chunk_bound [of c "DATAGRAM_MAX_PAYLOAD - 1" payload]
    by (auto simp: pieces_def DATAGRAM_MAX_PAYLOAD_def split: if_splits)
qed

lemma build_udp_frames_pieces:
  "build_udp_frames sid pid src payload
   = map (\<lambda>(i, c). build_single_udp_frame sid pid i (of_nat (length (pieces payload))) (src_text src) c)
       (numbered (pieces payload))"
proof -
  have en: "enumerate 0 cs = map (\<lambda>i. (i, cs ! i)) [0..<length cs]" for cs :: "bytes list"
    by (intro nth_equalityI) (simp_all add: nth_enumerate_eq)
  show ?thesis
    unfolding build_udp_frames_def src_text_def [symmetric] Let_def pieces_def numbered_def
    by (simp add: en split_beta)
qed

lemma parse_build_frames:
  "map parse_udp_frame (build_udp_frames sid pid src payload)
   = map (Inr \<circ> frame_of sid pid (src_host src) (sock_port src) (length (pieces payload)))
       (numbered (pieces payload))"
  by (auto simp: build_udp_frames_pieces frame_of_def parse_build_single [OF src_text_ok])

section \<open>Reassembly\<close>

lemma of_nat_u8_inject: "i < 256 \<Longrightarrow> j < 256 \<Longrightarrow> (of_nat i :: u8) = of_nat j \<longleftrightarrow> i = j"
  by (metis unat_u8_of_nat)

lemma frag_ids_initial:
  assumes "dom m = of_nat ` {..<n}" "n \<le> 256"
  shows "frag_ids m = map of_nat [0..<n]"
proof -
  have m: "m (of_nat i) \<noteq> None \<longleftrightarrow> i < n" if "i < 256" for i
  proof -
    have "m (of_nat i) \<noteq> None \<longleftrightarrow> of_nat i \<in> dom m" by auto
    also have "\<dots> \<longleftrightarrow> i < n" using assms that by (auto simp: of_nat_u8_inject)
    finally show ?thesis .
  qed
  have "[0..<256] = [0..<n] @ [n..<256]" using assms(2) upt_add_eq_append [of 0 n "256 - n"] by simp
  moreover have "filter (\<lambda>i. m (of_nat i) \<noteq> None) [0..<n] = [0..<n]"
    using m assms(2) by (auto simp: filter_id_conv)
  moreover have "filter (\<lambda>i. m (of_nat i) \<noteq> None) [n..<256] = []"
    using m by (auto simp: filter_empty_conv)
  ultimately show ?thesis by (simp add: frag_ids_def filter_map comp_def)
qed

lemma distinct_numbered: "length cs \<le> 256 \<Longrightarrow> distinct (map fst (numbered cs))"
  by (auto simp: numbered_def comp_def distinct_map of_nat_u8_inject intro!: inj_onI)

lemma map_of_numbered:
  assumes "length cs \<le> 256" "i < length cs"
  shows "map_of (numbered cs) (of_nat i) = Some (cs ! i)"
  using assms(2) by (intro map_of_is_SomeI distinct_numbered assms(1)) (auto simp: numbered_def)

lemma reassembled:
  assumes "length cs \<le> 256"
  shows "gather (map_of (numbered cs)) = concat cs"
proof -
  have "dom (map_of (numbered cs)) = of_nat ` {..<length cs}"
    by (force simp: dom_map_of_conv_image_fst numbered_def)
  then have "frag_ids (map_of (numbered cs)) = map of_nat [0..<length cs]"
    using assms by (rule frag_ids_initial)
  moreover have "map (\<lambda>i. the (map_of (numbered cs) (of_nat i))) [0..<length cs] = map ((!) cs) [0..<length cs]"
    using assms by (simp add: map_of_numbered)
  ultimately show ?thesis by (simp add: gather_def comp_def map_nth)
qed

text \<open>\<open>holds\<close>: what a buffer contains after the distinct fragments \<open>got\<close> of an \<open>n\<close>-fragment packet.\<close>

definition holds :: "nat \<Rightarrow> rstring \<Rightarrow> u16 \<Rightarrow> (u8 \<times> bytes) list \<Rightarrow> frag_buffer \<Rightarrow> bool" where
  "holds n h p got b \<longleftrightarrow>
     fb_total b = of_nat n \<and> fb_received b = of_nat (length got) \<and> fb_frags b = map_of got
     \<and> fb_addr b = h \<and> fb_port b = p"

lemma frag_insert_fresh:
  assumes "holds n h p got b" "i \<notin> fst ` set got" "length got < n" "n \<le> 255"
  shows "holds n h p ((i, c) # got) (snd (frag_insert i c b))"
    and "fst (frag_insert i c b) =
      (if Suc (length got) = n
       then Some (gather (map_of ((i, c) # got)), h, p)
       else None)"
proof -
  have none: "map_of got i = None" using assms(2) by (simp add: map_of_eq_None_iff)
  have le: "(of_nat n :: u8) \<le> of_nat (Suc (length got)) \<longleftrightarrow> n \<le> Suc (length got)"
    using assms(3,4) by (simp add: word_le_nat_alt unat_u8_of_nat del: of_nat_Suc)
  show "holds n h p ((i, c) # got) (snd (frag_insert i c b))"
    using assms(1) none by (simp add: holds_def frag_insert_def Let_def add.commute)
  show "fst (frag_insert i c b) =
      (if Suc (length got) = n
       then Some (gather (map_of ((i, c) # got)), h, p)
       else None)"
    using assms(1,3) none le
    by (auto simp: holds_def frag_insert_def Let_def add.commute)
qed


lemma frame_of_simps [simp]:
  "uf_packet_id (frame_of sid pid h p n ic) = pid" "uf_frag_id (frame_of sid pid h p n ic) = fst ic"
  "uf_payload (frame_of sid pid h p n ic) = snd ic" "uf_frag_total (frame_of sid pid h p n ic) = of_nat n"
  "uf_addr (frame_of sid pid h p n ic) = h" "uf_port (frame_of sid pid h p n ic) = p"
  by (simp_all add: frame_of_def)

lemma relay_frame_fresh:
  assumes n: "2 \<le> n" "n \<le> 255" "length got < n" and i: "i \<notin> fst ` set got"
    and T: "if got = [] then T pid = None else \<exists>b. T pid = Some b \<and> holds n h p got b"
  shows "fst (relay_frame (frame_of sid pid h p n (i, c)) T)
      = (if Suc (length got) = n then Some (host_port h p, gather (map_of ((i, c) # got))) else None)"
    and "Suc (length got) < n \<Longrightarrow>
      \<exists>b. snd (relay_frame (frame_of sid pid h p n (i, c)) T) pid = Some b \<and> holds n h p ((i, c) # got) b"
proof -
  let ?b = "case T pid of Some b \<Rightarrow> b | None \<Rightarrow> frag_new (of_nat n) h p"
  have b: "holds n h p got ?b"
    using T by (cases "got = []") (auto simp: holds_def frag_new_def)
  have g: "\<not> (of_nat n :: u8) \<le> 1"
    using n(1,2) by (simp add: word_le_nat_alt unat_u8_of_nat)
  obtain r b' where ins: "frag_insert i c ?b = (r, b')" by fastforce
  note f = frag_insert_fresh [OF b i n(3,2), of c, unfolded ins]
  have eq: "relay_frame (frame_of sid pid h p n (i, c)) T
      = (case (r, b') of (Some (re, a, q), _) \<Rightarrow> (Some (host_port a q, re), T(pid := None))
                       | (None, buf) \<Rightarrow> (None, T(pid \<mapsto> buf)))"
    using g by (simp only: relay_frame_def Let_def frame_of_simps fst_conv snd_conv ins if_False)
  show "fst (relay_frame (frame_of sid pid h p n (i, c)) T)
      = (if Suc (length got) = n then Some (host_port h p, gather (map_of ((i, c) # got))) else None)"
    using f(2) by (simp add: eq split: if_splits)
  show "\<exists>b. snd (relay_frame (frame_of sid pid h p n (i, c)) T) pid = Some b \<and> holds n h p ((i, c) # got) b"
    if "Suc (length got) < n"
    using f that by (simp add: eq split: if_splits)
qed

lemma relay_remaining:
  assumes "2 \<le> n" "n \<le> 255" "length got + length todo = n" "todo \<noteq> []" "distinct (map fst (got @ todo))"
    and "if got = [] then T pid = None else \<exists>b. T pid = Some b \<and> holds n h p got b"
  shows "map snd (relay_frames T (map (frame_of sid pid h p n) todo))
    = replicate (length todo - 1) None @ [Some (host_port h p, gather (map_of (rev todo @ got)))]"
  using assms
proof (induction todo arbitrary: got T)
  case (Cons x todo)
  obtain i c where x: "x = (i, c)" by fastforce
  have i: "i \<notin> fst ` set got" using Cons.prems x by auto
  have len: "length got < n" using Cons.prems by simp
  note f = relay_frame_fresh [where T = T and pid = pid and sid = sid and c = c, OF Cons.prems(1,2) len i Cons.prems(6)]
  let ?R = "relay_frame (frame_of sid pid h p n x) T"
  have step: "map snd (relay_frames T (map (frame_of sid pid h p n) (x # todo)))
      = fst ?R # map snd (relay_frames (snd ?R) (map (frame_of sid pid h p n) todo))"
    by (simp add: split_beta Let_def)
  show ?case
  proof (cases "todo = []")
    case True
    with Cons.prems(3) step f(1) x show ?thesis by (simp add: fun_upd_def)
  next
    case False
    then have more: "Suc (length got) < n" using Cons.prems(3) by (cases todo) auto
    have "map snd (relay_frames (snd ?R) (map (frame_of sid pid h p n) todo))
      = replicate (length todo - 1) None @ [Some (host_port h p, gather (map_of (rev todo @ x # got)))]"
      using Cons.prems f(2) [OF more] False x by (intro Cons.IH) auto
    with step f(1) more False x show ?thesis
      by (cases todo) simp_all
  qed
qed simp

text \<open>Frames of other packets do not disturb a packet's reassembly.\<close>

lemma relay_frame_local:
  "uf_packet_id f = pid \<Longrightarrow> T pid = T' pid \<Longrightarrow>
     fst (relay_frame f T) = fst (relay_frame f T') \<and> snd (relay_frame f T) pid = snd (relay_frame f T') pid"
  "uf_packet_id f \<noteq> pid \<Longrightarrow> snd (relay_frame f T) pid = T pid"
  by (auto simp: relay_frame_def Let_def split: prod.splits option.splits)

lemma relay_frames_filter:
  "T pid = T' pid \<Longrightarrow>
   filter (\<lambda>(f, _). uf_packet_id f = pid) (relay_frames T fs)
   = relay_frames T' (filter (\<lambda>f. uf_packet_id f = pid) fs)"
proof (induction fs arbitrary: T T')
  case (Cons f fs)
  show ?case
  proof (cases "uf_packet_id f = pid")
    case True
    with relay_frame_local(1) [where T = T and T' = T', OF True Cons.prems] Cons.IH [of "snd (relay_frame f T)" "snd (relay_frame f T')"]
    show ?thesis by (simp add: split_beta Let_def)
  next
    case False
    with relay_frame_local(2) [OF False] Cons show ?thesis by (simp add: split_beta Let_def)
  qed
qed simp

lemma relay_permuted:
  assumes n: "length cs \<le> 255" "cs \<noteq> []"
    and perm: "mset fs = mset (map (frame_of sid pid h p (length cs)) (numbered cs))"
  shows "map snd (relay_frames Map.empty fs)
    = replicate (length cs - 1) None @ [Some (host_port h p, concat cs)]"
proof -
  let ?mk = "frame_of sid pid h p (length cs)"
  define todo where "todo = map (\<lambda>f. (uf_frag_id f, uf_payload f)) fs"
  have fs: "fs = map ?mk todo"
  proof -
    have "set fs = ?mk ` set (numbered cs)" using arg_cong [OF perm, of set_mset] by simp
    then have "?mk (uf_frag_id f, uf_payload f) = f" if "f \<in> set fs" for f
      using that by auto
    then show ?thesis by (simp add: todo_def map_idI)
  qed
  have m: "mset todo = mset (numbered cs)"
    using arg_cong [OF perm, of "image_mset (\<lambda>f. (uf_frag_id f, uf_payload f))"]
    by (simp add: todo_def multiset.map_comp comp_def)
  have len: "length todo = length cs"
    using mset_eq_length [OF m] by (simp add: numbered_def)
  have d: "distinct (map fst todo)"
  proof -
    have "distinct (map fst (numbered cs))" by (rule distinct_numbered) (use n in simp)
    moreover have "mset (map fst todo) = mset (map fst (numbered cs))" by (simp add: m)
    ultimately show ?thesis using mset_eq_imp_distinct_iff by blast
  qed
  show ?thesis
  proof (cases "length cs = 1")
    case True
    then obtain c where c: "cs = [c]" by (cases cs) auto
    then have "todo = [(0, c)]" using m by (simp add: numbered_def)
    then show ?thesis by (simp add: fs c relay_frame_def)
  next
    case False
    have two: "2 \<le> length cs" using n(2) False by (cases cs; cases "tl cs") auto
    have "map_of (rev todo) = map_of (numbered cs)"
      using d m distinct_numbered [of cs] n
      by (subst map_of_inject_set) (auto simp: rev_map [symmetric] dest: mset_eq_setD)
    moreover have "map snd (relay_frames Map.empty (map ?mk todo))
      = replicate (length todo - 1) None @ [Some (host_port h p, gather (map_of (rev todo @ [])))]"
      using n d len two by (intro relay_remaining) auto
    ultimately show ?thesis using n len by (simp add: fs reassembled)
  qed
qed

lemma filter_single: "distinct xs \<Longrightarrow> x \<in> set xs \<Longrightarrow> filter (\<lambda>y. y = x) xs = [x]"
  by (induction xs) (auto simp: filter_empty_conv)

lemma frag_ids_single: "frag_ids [i \<mapsto> c] = [i]"
proof -
  have "frag_ids [i \<mapsto> c] = filter (\<lambda>j. j = i) (map of_nat [0..<256])"
    by (auto simp: frag_ids_def intro: filter_cong)
  moreover have "distinct (map of_nat [0..<256] :: u8 list)"
    by (auto simp: distinct_map of_nat_u8_inject intro!: inj_onI)
  moreover have "i \<in> set (map of_nat [0..<256])"
    using unat_u8_less [of i] by (force intro: image_eqI [of _ _ "unat i"])
  ultimately show ?thesis by (simp only: filter_single)
qed

section \<open>Properties\<close>

text \<open>
  C2.  A UDP packet survives fragmentation and reassembly whatever happens to its fragments on the
  way: for every packet of up to 65507 bytes, the frames the server builds parse back without
  error to between 1 and 60 frames with payloads of at most 1100 bytes (no truncation of the
  8-bit fragment count), and when a session receives those fragments in any order, interleaved
  with frames of other packets in any way, it sends nothing for that packet before its last
  fragment, and then exactly the original payload, once, to the address in the frames.
\<close>

theorem hy2_udp_reassembly:
  assumes len: "length payload \<le> UDP_MAX_PKT"
    and arr: "mset (filter (\<lambda>f. uf_packet_id f = pid) (first # frames))
         = mset (map (projr \<circ> parse_udp_frame) (build_udp_frames sid pid src payload))"
  shows "\<exists>n \<le> 60. length (build_udp_frames sid pid src payload) = Suc n
    \<and> (\<forall>d \<in> set (build_udp_frames sid pid src payload).
         \<exists>f. parse_udp_frame d = Inr f \<and> length (uf_payload f) \<le> 1100 \<and> unat (uf_frag_total f) = Suc n)
    \<and> map snd (filter (\<lambda>(f, _). uf_packet_id f = pid) (handle_udp_session first frames))
        = replicate n None @ [Some (host_port (src_host src) (sock_port src), payload)]"
proof -
  let ?cs = "pieces payload" and ?fs = "filter (\<lambda>f. uf_packet_id f = pid) (first # frames)"
  let ?mk = "frame_of sid pid (src_host src) (sock_port src) (length ?cs)"
  note cs = pieces_facts [OF len]
  have pm: "map (projr \<circ> parse_udp_frame) (build_udp_frames sid pid src payload) = map ?mk (numbered ?cs)"
    using arg_cong [OF parse_build_frames, of "map projr"] by simp
  have "map snd (relay_frames Map.empty ?fs)
      = replicate (length ?cs - 1) None @ [Some (host_port (src_host src) (sock_port src), concat ?cs)]"
    using cs arr pm by (intro relay_permuted) auto
  moreover have "filter (\<lambda>(f, _). uf_packet_id f = pid) (handle_udp_session first frames)
      = relay_frames Map.empty ?fs"
    unfolding handle_udp_session_def by (rule relay_frames_filter) simp
  moreover have "\<exists>f. parse_udp_frame d = Inr f \<and> length (uf_payload f) \<le> 1100
      \<and> unat (uf_frag_total f) = Suc (length ?cs - 1)"
    if "d \<in> set (build_udp_frames sid pid src payload)" for d
  proof -
    have "parse_udp_frame d \<in> set (map (Inr \<circ> ?mk) (numbered ?cs))"
      using that parse_build_frames [of sid pid src payload] by (metis image_eqI list.set_map)
    then obtain ic where "parse_udp_frame d = Inr (?mk ic)" "snd ic \<in> set ?cs"
      by (auto simp: numbered_def)
    moreover have "unat (of_nat (length ?cs) :: u8) = length ?cs" using cs(3) by (simp add: unat_u8_of_nat)
    ultimately show ?thesis using cs(2,4) by (auto simp: DATAGRAM_MAX_PAYLOAD_def)
  qed
  moreover have "length (build_udp_frames sid pid src payload) = length ?cs"
    by (simp add: build_udp_frames_pieces numbered_def)
  ultimately show ?thesis using cs(1-3) by (intro exI [of _ "length ?cs - 1"]) auto
qed

theorem hy2_udp_reassembly_witness:
  "map snd (filter (\<lambda>(f, _). uf_packet_id f = 3)
      (handle_udp_session (frame_of 9 3 (str ''1.2.3.4'') 53 2 (1, replicate 900 6))
        [frame_of 9 4 (str ''x'') 1 1 (0, [1]),
         frame_of 9 3 (str ''1.2.3.4'') 53 2 (0, replicate 1100 5)]))
   = [None, Some (str ''1.2.3.4:53'', replicate 1100 5 @ replicate 900 6)]"
proof -
  let ?p = "replicate 1100 5 @ replicate 900 6 :: bytes" and ?s = "SockV4 0x01020304 53"
  let ?a = "frame_of 9 3 (str ''1.2.3.4'') 53 2 (0, replicate 1100 5)"
  let ?b = "frame_of 9 3 (str ''1.2.3.4'') 53 2 (1, replicate 900 6)"
  let ?x = "frame_of 9 4 (str ''x'') 1 1 (0, [1])"
  have ch: "pieces ?p = [replicate 1100 5, replicate 900 6]"
    by (simp add: pieces_def DATAGRAM_MAX_PAYLOAD_def chunks.simps)
  have h: "src_host ?s = str ''1.2.3.4''"
    by (simp add: ipv4_to_string_def octets4_def be_simps dec.simps)
  have nm: "numbered [replicate 1100 5, replicate 900 6] = [(0, replicate 1100 5), (1, replicate 900 6)]"
    by (simp add: numbered_def)
  have pm: "map (projr \<circ> parse_udp_frame) (build_udp_frames 9 3 ?s ?p) = [?a, ?b]"
    using arg_cong [OF parse_build_frames [of 9 3 ?s ?p], of "map projr"] by (simp only: ch h nm) (simp add: numeral_2_eq_2)
  have "mset (filter (\<lambda>f. uf_packet_id f = 3) [?b, ?x, ?a])
      = mset (map (projr \<circ> parse_udp_frame) (build_udp_frames 9 3 ?s ?p))"
    unfolding pm by (simp add: add_mset_commute)
  from hy2_udp_reassembly [OF _ this] ch h show ?thesis
    by (auto simp: UDP_MAX_PKT_def build_udp_frames_pieces numbered_def host_port_def dec.simps)
qed

text \<open>
  A repeated fragment counts as a new one: when one fragment of a two-fragment packet arrives
  twice, the session sends that fragment alone as if it were the whole packet.
\<close>

theorem hy2_duplicate_fragment:
  assumes "uf_frag_total f = 2"
  shows "map snd (handle_udp_session f [f])
    = [None, Some (host_port (uf_addr f) (uf_port f), uf_payload f)]"
  using assms
  by (simp add: handle_udp_session_def relay_frame_def frag_insert_def frag_new_def gather_def
      frag_ids_single word_le_nat_alt)

theorem hy2_duplicate_fragment_witness:
  "map snd (handle_udp_session (frame_of 9 3 (str ''h'') 53 2 (0, [1, 2])) [frame_of 9 3 (str ''h'') 53 2 (0, [1, 2])])
   = [None, Some (str ''h:53'', [1, 2])]"
  using hy2_duplicate_fragment [of "frame_of 9 3 (str ''h'') 53 2 (0, [1, 2])"]
  by (simp add: host_port_def dec.simps)

end
