(* ===== verification/Hysteria2_Server.thy ===== *)
theory Hysteria2_Server
  imports Hysteria2_Udp
begin

text \<open>
  The Hysteria2 server (\<open>hysteria2/server.rs\<close>, \<open>hysteria2/auth.rs\<close> and the TCP half of
  \<open>hysteria2/proxy.rs\<close>): the authentication phase on HTTP/3, TCP requests on bidirectional streams,
  and the dispatch of datagrams to UDP sessions.  Random padding is an argument of the operations
  that write it; what the HTTP/3 and QUIC libraries deliver are the events of a step relation.
\<close>

section \<open>The model\<close>

definition AUTH_HOST :: rstring where "AUTH_HOST = str ''hysteria''"
definition AUTH_PATH :: rstring where "AUTH_PATH = str ''/auth''"
definition FRAME_TYPE_TCP :: u64 where "FRAME_TYPE_TCP = 0x401"
definition H3_FRAME_SETTINGS :: u64 where "H3_FRAME_SETTINGS = 0x4"
definition H3_FRAME_HEADERS :: u64 where "H3_FRAME_HEADERS = 0x1"

subsection \<open>TCP requests and responses\<close>

text \<open>Padding of up to 4096 bytes is read and dropped, and a failure to read it is ignored.\<close>

definition discard_padding :: "nat \<Rightarrow> unit io" where
  "discard_padding pad_len c =
     (if 0 < pad_len \<and> pad_len \<le> 4096 then (Inr (), snd (read_exact pad_len c)) else (Inr (), c))"

definition read_tcp_request :: "rstring io" where
  "read_tcp_request =
     bind_io read_varint (\<lambda>v.
       let addr_len = unat v in
       bind_io (lift_io (ensure (0 < addr_len \<and> addr_len \<le> 2048) (Bail ''invalid addr_len''))) (\<lambda>_.
       bind_io (read_exact addr_len) (\<lambda>addr_buf.
       bind_io (lift_io (from_utf8 addr_buf)) (\<lambda>addr.
       bind_io read_varint (\<lambda>p.
       bind_io (discard_padding (unat p)) (\<lambda>_. return_io addr))))))"

definition tcp_response :: "bool \<Rightarrow> rstring \<Rightarrow> rstring \<Rightarrow> bytes" where
  "tcp_response ok message padding =
     [if ok then 0x00 else 0x01] @ write_varint (of_nat (length message)) @ message
     @ write_varint (of_nat (length padding)) @ padding"

definition write_tcp_response :: "bool \<Rightarrow> rstring \<Rightarrow> rstring \<Rightarrow> unit io" where
  "write_tcp_response ok message padding = write_all (tcp_response ok message padding)"

text \<open>
  \<open>handle_tcp_stream\<close> up to its relay: \<open>Some target\<close> when it goes on to relay, \<open>None\<close> when it has
  answered with an error and finished the stream.  \<open>show\<close> prints an I/O error.
\<close>

definition handle_tcp_stream ::
  "(io_kind \<Rightarrow> rstring) \<Rightarrow> (rstring \<Rightarrow> dial) \<Rightarrow> rstring \<Rightarrow> rstring \<Rightarrow> rstring option io" where
  "handle_tcp_stream show connect padding target =
     (case connect target of
        Refused e \<Rightarrow>
          bind_io (write_tcp_response False (show e) padding) (\<lambda>_.
          bind_io shutdown_io (\<lambda>_. return_io None))
      | TimedOut \<Rightarrow>
          bind_io (write_tcp_response False (str ''connection timeout'') padding) (\<lambda>_.
          bind_io shutdown_io (\<lambda>_. return_io None))
      | Connected \<Rightarrow>
          bind_io (write_tcp_response True (str ''Connected'') padding) (\<lambda>_. return_io (Some target)))"

definition handle_tcp_bidi ::
  "(io_kind \<Rightarrow> rstring) \<Rightarrow> (rstring \<Rightarrow> dial) \<Rightarrow> rstring \<Rightarrow> rstring option io" where
  "handle_tcp_bidi show connect padding =
     bind_io read_varint (\<lambda>frame_type.
       if frame_type = FRAME_TYPE_TCP then
         bind_io read_tcp_request (\<lambda>target. handle_tcp_stream show connect padding target)
       else if frame_type = H3_FRAME_SETTINGS \<or> frame_type = H3_FRAME_HEADERS then return_io None
       else return_io None)"

subsection \<open>Datagram dispatch\<close>

text \<open>
  A session task is running, has returned from \<open>handle_udp_session\<close> (its receiver is gone), or has
  also removed its session id from the map.  \<open>ch_frames\<close> lists the frames its channel was given.
\<close>

datatype task = Running | Returned | Removed

record channel =
  ch_sid :: u32
  ch_frames :: "udp_frame list"
  ch_task :: task

record dispatch =
  dg_map :: "u32 \<rightharpoonup> nat"
  dg_chans :: "nat \<rightharpoonup> channel"
  dg_next :: nat

definition dispatch_new :: dispatch where
  "dispatch_new = \<lparr>dg_map = Map.empty, dg_chans = Map.empty, dg_next = 0\<rparr>"

definition channel_send :: "udp_frame \<Rightarrow> nat \<Rightarrow> dispatch \<Rightarrow> bool \<times> dispatch" where
  "channel_send frame k d =
     (case dg_chans d k of
        Some ch \<Rightarrow>
          if ch_task ch = Running
          then (True, d\<lparr>dg_chans := (dg_chans d)(k \<mapsto> ch\<lparr>ch_frames := ch_frames ch @ [frame]\<rparr>)\<rparr>)
          else (False, d)
      | None \<Rightarrow> (False, d))"

definition datagram_round :: "bytes \<Rightarrow> dispatch \<Rightarrow> dispatch" where
  "datagram_round datagram d =
     (case parse_udp_frame datagram of
        Inl _ \<Rightarrow> d
      | Inr frame \<Rightarrow>
          (let session_id = uf_session_id frame in
           case dg_map d session_id of
             Some k \<Rightarrow>
               (case channel_send frame k d of
                  (True, d) \<Rightarrow> d
                | (False, d) \<Rightarrow> d\<lparr>dg_map := (dg_map d)(session_id := None)\<rparr>)
           | None \<Rightarrow>
               d\<lparr>dg_map := (dg_map d)(session_id \<mapsto> dg_next d),
                 dg_chans := (dg_chans d)(dg_next d \<mapsto>
                   \<lparr>ch_sid = session_id, ch_frames = [frame], ch_task = Running\<rparr>),
                 dg_next := dg_next d + 1\<rparr>))"

definition session_return :: "nat \<Rightarrow> dispatch \<Rightarrow> dispatch" where
  "session_return k d =
     (case dg_chans d k of
        Some ch \<Rightarrow> d\<lparr>dg_chans := (dg_chans d)(k \<mapsto> ch\<lparr>ch_task := Returned\<rparr>)\<rparr>
      | None \<Rightarrow> d)"

definition session_remove :: "nat \<Rightarrow> dispatch \<Rightarrow> dispatch" where
  "session_remove k d =
     (case dg_chans d k of
        Some ch \<Rightarrow> d\<lparr>dg_map := (dg_map d)(ch_sid ch := None),
                    dg_chans := (dg_chans d)(k \<mapsto> ch\<lparr>ch_task := Removed\<rparr>)\<rparr>
      | None \<Rightarrow> d)"

subsection \<open>The connection\<close>

datatype auth_config = Password rstring | NoAuth

record http_request =
  rq_method :: rstring
  rq_host :: "rstring option"
  rq_path :: rstring
  rq_auth :: "rstring option"

datatype h3_event = Request http_request bool | ResolveError | H3Closed

datatype phase = WaitAuth | Proxying | Closed

datatype hy2_effect = Masquerade http_request | AuthOk rstring | AuthFail | Stream "rstring option"

record hy2_state =
  hs_phase :: phase
  hs_log :: "hy2_effect list"
  hs_dispatch :: dispatch

definition hy2_new :: hy2_state where
  "hy2_new = \<lparr>hs_phase = WaitAuth, hs_log = [], hs_dispatch = dispatch_new\<rparr>"

definition is_auth_request :: "http_request \<Rightarrow> bool" where
  "is_auth_request req \<longleftrightarrow>
     rq_method req = str ''POST'' \<and> (case rq_host req of Some h \<Rightarrow> h | None \<Rightarrow> []) = AUTH_HOST
     \<and> rq_path req = AUTH_PATH"

definition auth_accepts :: "auth_config \<Rightarrow> http_request \<Rightarrow> bool" where
  "auth_accepts cfg req =
     (let auth_val = (case rq_auth req of Some v \<Rightarrow> v | None \<Rightarrow> []) in
      case cfg of Password password \<Rightarrow> auth_val = password | NoAuth \<Rightarrow> True)"

text \<open>
  One turn of the authentication loop.  The flag of \<open>Request\<close> says whether the answer could be
  sent; when the success answer cannot, the handler returns and the connection is dropped.
\<close>

definition auth_turn :: "auth_config \<Rightarrow> nat option \<Rightarrow> h3_event \<Rightarrow> hy2_state \<Rightarrow> hy2_state" where
  "auth_turn cfg down_bps ev s =
     (case ev of
        ResolveError \<Rightarrow> s
      | H3Closed \<Rightarrow> s\<lparr>hs_phase := Closed\<rparr>
      | Request req sent \<Rightarrow>
          if is_auth_request req then
            (if auth_accepts cfg req then
               (let cc_rx = (case down_bps of Some bps \<Rightarrow> dec bps | None \<Rightarrow> str ''0'') in
                if sent then s\<lparr>hs_log := hs_log s @ [AuthOk cc_rx], hs_phase := Proxying\<rparr>
                else s\<lparr>hs_phase := Closed\<rparr>)
             else s\<lparr>hs_log := hs_log s @ [AuthFail], hs_phase := Closed\<rparr>)
          else s\<lparr>hs_log := hs_log s @ [Masquerade req]\<rparr>)"

definition tcp_turn ::
  "(io_kind \<Rightarrow> rstring) \<Rightarrow> (rstring \<Rightarrow> dial) \<Rightarrow> rstring \<Rightarrow> conn \<Rightarrow> hy2_state \<Rightarrow> hy2_state" where
  "tcp_turn show connect padding recv s =
     (case handle_tcp_bidi show connect padding recv of
        (Inl _, _) \<Rightarrow> s
      | (Inr t, _) \<Rightarrow> s\<lparr>hs_log := hs_log s @ [Stream t]\<rparr>)"

inductive hy2_step :: "auth_config \<Rightarrow> nat option \<Rightarrow> hy2_state \<Rightarrow> hy2_state \<Rightarrow> bool" for cfg down_bps where
  h3: "hs_phase s = WaitAuth \<Longrightarrow> hy2_step cfg down_bps s (auth_turn cfg down_bps ev s)"
| bidi: "hs_phase s = Proxying \<Longrightarrow> hy2_step cfg down_bps s (tcp_turn show connect padding recv s)"
| datagram: "hs_phase s = Proxying \<Longrightarrow>
    hy2_step cfg down_bps s (s\<lparr>hs_dispatch := datagram_round dg (hs_dispatch s)\<rparr>)"
| returned: "dg_chans (hs_dispatch s) k = Some ch \<Longrightarrow> ch_task ch = Running \<Longrightarrow>
    hy2_step cfg down_bps s (s\<lparr>hs_dispatch := session_return k (hs_dispatch s)\<rparr>)"
| removed: "dg_chans (hs_dispatch s) k = Some ch \<Longrightarrow> ch_task ch = Returned \<Longrightarrow>
    hy2_step cfg down_bps s (s\<lparr>hs_dispatch := session_remove k (hs_dispatch s)\<rparr>)"
| loop_ended: "hs_phase s = Proxying \<Longrightarrow> hy2_step cfg down_bps s (s\<lparr>hs_phase := Closed\<rparr>)"

inductive_cases hy2_stepE: "hy2_step cfg down_bps s t"

section \<open>TCP exchanges\<close>

definition enc_tcp_request :: "rstring \<Rightarrow> bytes \<Rightarrow> bytes" where
  "enc_tcp_request target pad =
     write_varint FRAME_TYPE_TCP @ write_varint (of_nat (length target)) @ target
     @ write_varint (of_nat (length pad)) @ pad"

lemma unat_u64_small: "n < 2 ^ 62 \<Longrightarrow> unat (of_nat n :: u64) = n \<and> unat (of_nat n :: u64) < 2 ^ 62"
  using unat_u64_of_nat [of n] by simp

lemma read_tcp_request_enc:
  assumes "0 < length target" "length target \<le> 2048" "utf8_valid target" "length pad < 2 ^ 62"
  shows "read_tcp_request (c\<lparr>rx := write_varint (of_nat (length target)) @ target
        @ write_varint (of_nat (length pad)) @ pad @ rest\<rparr>)
    = (Inr target, c\<lparr>rx := (if length pad \<le> 4096 then rest else pad @ rest)\<rparr>)"
proof -
  have l: "unat (of_nat (length target) :: u64) = length target"
    "unat (of_nat (length target) :: u64) < 2 ^ 62"
    using assms(2) unat_u64_small [of "length target"] by simp_all
  have p: "unat (of_nat (length pad) :: u64) = length pad" "unat (of_nat (length pad) :: u64) < 2 ^ 62"
    using assms(4) unat_u64_small [of "length pad"] by simp_all
  have d: "discard_padding (length pad) (c\<lparr>rx := pad @ rest\<rparr>)
      = (Inr (), c\<lparr>rx := (if length pad \<le> 4096 then rest else pad @ rest)\<rparr>)"
    by (auto simp: discard_padding_def io_simps)
  show ?thesis
    using assms by (simp add: read_tcp_request_def Let_def io_simps read_varint_write l p d)
qed

text \<open>What a client reads back from a response.\<close>

definition client_read_response :: "(bool \<times> rstring) io" where
  "client_read_response =
     bind_io read_u8 (\<lambda>status.
     bind_io read_varint (\<lambda>n.
     bind_io (read_exact (unat n)) (\<lambda>message.
     bind_io read_varint (\<lambda>p.
     bind_io (read_exact (unat p)) (\<lambda>_. return_io (status = 0, message))))))"

lemma client_reads_response:
  assumes "length message < 2 ^ 62" "length padding < 2 ^ 62"
  shows "client_read_response (c\<lparr>rx := tcp_response ok message padding @ rest\<rparr>)
    = (Inr (ok, message), c\<lparr>rx := rest\<rparr>)"
  using unat_u64_small [OF assms(1)] unat_u64_small [OF assms(2)]
  by (simp add: client_read_response_def tcp_response_def io_simps read_varint_write)

section \<open>The authentication gate\<close>

definition hy2_reach :: "auth_config \<Rightarrow> nat option \<Rightarrow> hy2_state \<Rightarrow> hy2_state \<Rightarrow> bool" where
  "hy2_reach cfg down_bps = (hy2_step cfg down_bps)\<^sup>*\<^sup>*"

lemma hy2_reach_refl [simp]: "hy2_reach cfg bps s s"
  by (simp add: hy2_reach_def)

lemma hy2_reach_step: "hy2_reach cfg bps s t \<Longrightarrow> hy2_step cfg bps t u \<Longrightarrow> hy2_reach cfg bps s u"
  unfolding hy2_reach_def by (rule rtranclp.rtrancl_into_rtrancl)

definition idle :: "hy2_state \<Rightarrow> bool" where
  "idle s \<longleftrightarrow> hs_phase s \<noteq> Proxying \<and> (\<forall>t. Stream t \<notin> set (hs_log s)) \<and> hs_dispatch s = dispatch_new"

definition hy2_admitted :: "auth_config \<Rightarrow> nat option \<Rightarrow> hy2_state \<Rightarrow> bool" where
  "hy2_admitted cfg bps s \<longleftrightarrow>
     (\<exists>s1 req. hy2_reach cfg bps hy2_new s1 \<and> hs_phase s1 = WaitAuth \<and> is_auth_request req
        \<and> auth_accepts cfg req \<and> hy2_reach cfg bps (auth_turn cfg bps (Request req True) s1) s)"

lemma auth_turn_cases:
  assumes "idle s"
  shows "idle (auth_turn cfg bps ev s)
    \<or> (\<exists>req. ev = Request req True \<and> is_auth_request req \<and> auth_accepts cfg req)"
  using assms by (cases ev) (auto simp: auth_turn_def idle_def Let_def)

lemma hy2_gate:
  assumes "hy2_reach cfg bps hy2_new s"
  shows "idle s \<or> hy2_admitted cfg bps s"
  using assms [unfolded hy2_reach_def]
proof (induction rule: rtranclp_induct)
  case base
  show ?case by (simp add: idle_def hy2_new_def)
next
  case (step s t)
  note r = step.hyps(1) [folded hy2_reach_def]
  show ?case
  proof (cases "idle s")
    case False
    with step hy2_reach_step show ?thesis unfolding hy2_admitted_def by blast
  next
    case True
    from step.hyps(2) show ?thesis
    proof (cases rule: hy2_step.cases)
      case (h3 ev)
      have "hy2_admitted cfg bps t"
        if "ev = Request req True" "is_auth_request req" "auth_accepts cfg req" for req
        unfolding hy2_admitted_def
        by (rule exI [of _ s], rule exI [of _ req]) (use that h3 r in simp)
      with auth_turn_cases [OF True, of cfg bps ev] h3 show ?thesis by blast
    qed (use True in \<open>auto simp: idle_def dispatch_new_def\<close>)
  qed
qed

section \<open>Datagram dispatch\<close>

definition dispatch_inv :: "dispatch \<Rightarrow> bool" where
  "dispatch_inv d \<longleftrightarrow>
     (\<forall>sid k. dg_map d sid = Some k \<longrightarrow> (\<exists>ch. dg_chans d k = Some ch \<and> ch_sid ch = sid))
     \<and> (\<forall>k ch. dg_chans d k = Some ch \<longrightarrow>
          k < dg_next d \<and> (\<forall>f \<in> set (ch_frames ch). uf_session_id f = ch_sid ch))"

lemma dispatch_inv_mapD:
  "dispatch_inv d \<Longrightarrow> dg_map d sid = Some k \<Longrightarrow> \<exists>ch. dg_chans d k = Some ch \<and> ch_sid ch = sid"
  by (simp add: dispatch_inv_def)

lemma dispatch_inv_framesD:
  "dispatch_inv d \<Longrightarrow> dg_chans d k = Some ch \<Longrightarrow>
   k < dg_next d \<and> (\<forall>f \<in> set (ch_frames ch). uf_session_id f = ch_sid ch)"
  by (simp add: dispatch_inv_def)

lemma dispatch_inv_chan:
  assumes "dispatch_inv d" "dg_chans d k = Some ch" "ch_sid ch' = ch_sid ch"
    and "\<forall>f \<in> set (ch_frames ch'). uf_session_id f = ch_sid ch"
  shows "dispatch_inv (d\<lparr>dg_chans := (dg_chans d)(k \<mapsto> ch')\<rparr>)"
  using assms by (fastforce simp: dispatch_inv_def)

lemma dispatch_inv_forget: "dispatch_inv d \<Longrightarrow> dispatch_inv (d\<lparr>dg_map := (dg_map d)(sid := None)\<rparr>)"
  by (simp add: dispatch_inv_def)

lemma dispatch_inv_fresh:
  assumes "dispatch_inv d" "uf_session_id f = sid"
  shows "dispatch_inv (d\<lparr>dg_map := (dg_map d)(sid \<mapsto> dg_next d),
      dg_chans := (dg_chans d)(dg_next d \<mapsto> \<lparr>ch_sid = sid, ch_frames = [f], ch_task = Running\<rparr>),
      dg_next := dg_next d + 1\<rparr>)"
  using assms by (fastforce simp: dispatch_inv_def)

lemma dispatch_inv_send:
  assumes "dispatch_inv d" "dg_map d (uf_session_id f) = Some k"
  shows "dispatch_inv (snd (channel_send f k d))"
proof -
  obtain ch where ch: "dg_chans d k = Some ch" "ch_sid ch = uf_session_id f"
    using dispatch_inv_mapD [OF assms] by blast
  with dispatch_inv_framesD [OF assms(1) ch(1)] assms(1) show ?thesis
    by (auto simp: channel_send_def intro!: dispatch_inv_chan)
qed

lemma dispatch_inv_round:
  assumes inv: "dispatch_inv d"
  shows "dispatch_inv (datagram_round dg d)"
proof (cases "parse_udp_frame dg")
  case (Inr f)
  show ?thesis
  proof (cases "dg_map d (uf_session_id f)")
    case None
    with Inr dispatch_inv_fresh [OF inv refl, of f] show ?thesis by (simp add: datagram_round_def Let_def)
  next
    case (Some k)
    obtain b d' where s: "channel_send f k d = (b, d')" by fastforce
    with dispatch_inv_send [OF inv Some] have "dispatch_inv d'" by simp
    with Inr Some s show ?thesis
      by (cases b) (simp_all add: datagram_round_def Let_def dispatch_inv_forget)
  qed
qed (simp add: datagram_round_def inv)

lemma dispatch_inv_tasks:
  assumes inv: "dispatch_inv d"
  shows "dispatch_inv (session_return k d)" "dispatch_inv (session_remove k d)"
proof -
  show "dispatch_inv (session_return k d)"
  proof (cases "dg_chans d k")
    case (Some ch)
    with dispatch_inv_chan [OF inv Some, of "ch\<lparr>ch_task := Returned\<rparr>"] dispatch_inv_framesD [OF inv Some]
    show ?thesis by (simp add: session_return_def)
  qed (simp add: session_return_def inv)
  show "dispatch_inv (session_remove k d)"
  proof (cases "dg_chans d k")
    case (Some ch)
    have "dg_chans (d\<lparr>dg_map := (dg_map d)(ch_sid ch := None)\<rparr>) k = Some ch" using Some by simp
    from dispatch_inv_chan [OF dispatch_inv_forget [OF inv] this, of "ch\<lparr>ch_task := Removed\<rparr>"]
      dispatch_inv_framesD [OF inv Some] Some
    show ?thesis by (simp add: session_remove_def)
  qed (simp add: session_remove_def inv)
qed

lemma dispatch_inv_reach:
  assumes "hy2_reach cfg bps hy2_new s"
  shows "dispatch_inv (hs_dispatch s)"
  using assms [unfolded hy2_reach_def]
proof (induction rule: rtranclp_induct)
  case base
  show ?case by (simp add: hy2_new_def dispatch_new_def dispatch_inv_def)
next
  case (step s t)
  from step.hyps(2) step.IH show ?case
    by (cases rule: hy2_step.cases)
      (auto simp: dispatch_inv_round dispatch_inv_tasks auth_turn_def tcp_turn_def Let_def
        split: h3_event.splits prod.splits sum.splits)
qed

section \<open>Properties\<close>

text \<open>
  C15.  A Hysteria2 connection handles a proxy stream or a UDP datagram only after an HTTP/3 request
  POST to host \<open>hysteria\<close>, path \<open>/auth\<close>, whose credential the configuration accepts, was answered
  with success on that same connection.
\<close>

theorem hy2_auth_gate:
  assumes "hy2_reach cfg bps hy2_new s"
    and "hs_phase s = Proxying \<or> Stream t \<in> set (hs_log s) \<or> hs_dispatch s \<noteq> dispatch_new"
  shows "\<exists>s1 req. hy2_reach cfg bps hy2_new s1 \<and> hs_phase s1 = WaitAuth \<and> is_auth_request req
    \<and> auth_accepts cfg req \<and> hy2_reach cfg bps (auth_turn cfg bps (Request req True) s1) s"
  using hy2_gate [OF assms(1)] assms(2) by (auto simp: idle_def hy2_admitted_def)

theorem hy2_auth_gate_witness:
  "\<exists>s. hy2_reach (Password (str ''pw'')) None hy2_new s \<and> hs_phase s = Proxying
     \<and> (\<exists>req. is_auth_request req \<and> rq_auth req = Some (str ''pw''))"
proof -
  let ?q = "\<lparr>rq_method = str ''POST'', rq_host = Some (str ''hysteria''), rq_path = str ''/auth'',
    rq_auth = Some (str ''pw'')\<rparr>"
  let ?s = "auth_turn (Password (str ''pw'')) None (Request ?q True) hy2_new"
  have q: "is_auth_request ?q" "auth_accepts (Password (str ''pw'')) ?q"
    by (simp_all add: is_auth_request_def auth_accepts_def AUTH_HOST_def AUTH_PATH_def)
  have r: "hy2_reach (Password (str ''pw'')) None hy2_new ?s"
    by (rule hy2_reach_step [OF hy2_reach_refl hy2_step.h3]) (simp add: hy2_new_def)
  have p: "hs_phase ?s = Proxying" using q by (simp add: auth_turn_def)
  from hy2_auth_gate [OF r] p obtain s1 req where
    "is_auth_request req" "auth_accepts (Password (str ''pw'')) req" by blast
  with r p q show ?thesis by (intro exI [of _ ?s]) auto
qed

text \<open>
  C30.  A TCP proxy stream: the target a client asks for is dialled, the answer (success, or the
  error text) is what the client's reader recovers, and after a success with padding of at most
  4096 bytes the stream stands exactly at the first payload byte.
\<close>

theorem hy2_tcp_exchange:
  assumes "0 < length target" "length target \<le> 2048" "utf8_valid target"
    and "length pad \<le> 4096" "tx_cap c = None" "length (show e) < 2 ^ 62" "length padding < 2 ^ 62"
    and "connect target = Refused e \<or> connect target = Connected"
  shows "\<exists>msg. handle_tcp_bidi show connect padding (c\<lparr>rx := enc_tcp_request target pad @ rest\<rparr>)
      = (Inr (if connect target = Connected then Some target else None),
         c\<lparr>rx := rest, tx := tx c @ tcp_response (connect target = Connected) msg padding,
           tx_shut := (connect target \<noteq> Connected \<or> tx_shut c)\<rparr>)
    \<and> msg = (if connect target = Connected then str ''Connected'' else show e)
    \<and> client_read_response (c'\<lparr>rx := tcp_response (connect target = Connected) msg padding @ tail\<rparr>)
      = (Inr (connect target = Connected, msg), c'\<lparr>rx := tail\<rparr>)"
proof -
  let ?msg = "if connect target = Connected then str ''Connected'' else show e"
  have f: "read_varint (c\<lparr>rx := enc_tcp_request target pad @ rest\<rparr>)
      = (Inr FRAME_TYPE_TCP, c\<lparr>rx := write_varint (of_nat (length target)) @ target
          @ write_varint (of_nat (length pad)) @ pad @ rest\<rparr>)"
    using read_varint_write [of FRAME_TYPE_TCP _ c] by (simp add: enc_tcp_request_def FRAME_TYPE_TCP_def)
  have q: "read_tcp_request (c\<lparr>rx := write_varint (of_nat (length target)) @ target
          @ write_varint (of_nat (length pad)) @ pad @ rest\<rparr>) = (Inr target, c\<lparr>rx := rest\<rparr>)"
    using read_tcp_request_enc [OF assms(1-3), of pad rest c] assms(4) by simp
  have h: "handle_tcp_bidi show connect padding (c\<lparr>rx := enc_tcp_request target pad @ rest\<rparr>)
      = handle_tcp_stream show connect padding target (c\<lparr>rx := rest\<rparr>)"
    unfolding handle_tcp_bidi_def bind_io_def f by (simp add: q)
  have "client_read_response (c'\<lparr>rx := tcp_response (connect target = Connected) ?msg padding @ tail\<rparr>)
      = (Inr (connect target = Connected, ?msg), c'\<lparr>rx := tail\<rparr>)"
    using assms(6,7) by (intro client_reads_response) auto
  then show ?thesis
    using assms(5,8)
    by (auto simp: h handle_tcp_stream_def write_tcp_response_def bind_io_def write_all_def
        shutdown_io_def return_io_def)
qed

theorem hy2_tcp_exchange_witness:
  "\<exists>c'. handle_tcp_bidi (\<lambda>_. str ''no'') (\<lambda>_. Connected) (str ''pad'')
      \<lparr>rx = enc_tcp_request (str ''a:1'') [] @ [9], rx_end = UnexpectedEof, tx = [], tx_cap = None,
       tx_shut = False\<rparr> = (Inr (Some (str ''a:1'')), c') \<and> rx c' = [9]"
  using hy2_tcp_exchange [of "str ''a:1''" "[]"
      "\<lparr>rx = [], rx_end = UnexpectedEof, tx = [], tx_cap = None, tx_shut = False\<rparr>"
      "\<lambda>_. str ''no''" Other "str ''pad''" "\<lambda>_. Connected" "[9]"]
  by simp

text \<open>
  Padding of more than 4096 bytes is announced but not skipped: it stays in the stream and
  is relayed to the target in front of the client's payload.
\<close>

theorem hy2_long_padding_leaks:
  assumes "0 < length target" "length target \<le> 2048" "utf8_valid target"
    and "4096 < length pad" "length pad < 2 ^ 62" "tx_cap c = None" "connect target = Connected"
  shows "\<exists>reply. handle_tcp_bidi show connect padding (c\<lparr>rx := enc_tcp_request target pad @ payload\<rparr>)
      = (Inr (Some target), c\<lparr>rx := pad @ payload, tx := tx c @ reply\<rparr>)"
proof -
  have f: "read_varint (c\<lparr>rx := enc_tcp_request target pad @ payload\<rparr>)
      = (Inr FRAME_TYPE_TCP, c\<lparr>rx := write_varint (of_nat (length target)) @ target
          @ write_varint (of_nat (length pad)) @ pad @ payload\<rparr>)"
    using read_varint_write [of FRAME_TYPE_TCP _ c] by (simp add: enc_tcp_request_def FRAME_TYPE_TCP_def)
  have q: "read_tcp_request (c\<lparr>rx := write_varint (of_nat (length target)) @ target
          @ write_varint (of_nat (length pad)) @ pad @ payload\<rparr>) = (Inr target, c\<lparr>rx := pad @ payload\<rparr>)"
    using read_tcp_request_enc [OF assms(1-3,5), of payload c] assms(4) by simp
  show ?thesis
    unfolding handle_tcp_bidi_def bind_io_def f using assms(6,7)
    by (auto simp: q handle_tcp_stream_def write_tcp_response_def bind_io_def write_all_def return_io_def)
qed

theorem hy2_long_padding_leaks_witness:
  "\<exists>reply. handle_tcp_bidi (\<lambda>_. []) (\<lambda>_. Connected) []
      \<lparr>rx = enc_tcp_request (str ''a:1'') (replicate 5000 0) @ [9], rx_end = UnexpectedEof, tx = [],
       tx_cap = None, tx_shut = False\<rparr>
    = (Inr (Some (str ''a:1'')),
       \<lparr>rx = replicate 5000 0 @ [9], rx_end = UnexpectedEof, tx = reply, tx_cap = None, tx_shut = False\<rparr>)"
  using hy2_long_padding_leaks [of "str ''a:1''" "replicate 5000 0"
      "\<lparr>rx = [], rx_end = UnexpectedEof, tx = [], tx_cap = None, tx_shut = False\<rparr>"
      "\<lambda>_. Connected" "\<lambda>_. []" "[]" "[9]"]
  by simp

text \<open>
  In every reachable state each UDP session has been given frames of its own session id only,
  and a well-formed datagram for a session that is running goes to that session, at the end of
  its frames, and to no other.
\<close>

theorem hy2_dispatch_correct:
  assumes "hy2_reach cfg bps hy2_new s"
  shows "(\<forall>k ch. dg_chans (hs_dispatch s) k = Some ch \<longrightarrow>
            (\<forall>f \<in> set (ch_frames ch). uf_session_id f = ch_sid ch))
    \<and> (\<forall>dg f k ch. parse_udp_frame dg = Inr f \<longrightarrow> dg_map (hs_dispatch s) (uf_session_id f) = Some k \<longrightarrow>
         dg_chans (hs_dispatch s) k = Some ch \<longrightarrow> ch_task ch = Running \<longrightarrow>
         ch_sid ch = uf_session_id f
         \<and> dg_chans (datagram_round dg (hs_dispatch s))
           = (dg_chans (hs_dispatch s))(k \<mapsto> ch\<lparr>ch_frames := ch_frames ch @ [f]\<rparr>))"
proof -
  note inv = dispatch_inv_reach [OF assms]
  have "\<forall>k ch. dg_chans (hs_dispatch s) k = Some ch \<longrightarrow>
      (\<forall>f \<in> set (ch_frames ch). uf_session_id f = ch_sid ch)"
    using dispatch_inv_framesD [OF inv] by blast
  moreover have "ch_sid ch = uf_session_id f
      \<and> dg_chans (datagram_round dg (hs_dispatch s))
        = (dg_chans (hs_dispatch s))(k \<mapsto> ch\<lparr>ch_frames := ch_frames ch @ [f]\<rparr>)"
    if "parse_udp_frame dg = Inr f" "dg_map (hs_dispatch s) (uf_session_id f) = Some k"
      "dg_chans (hs_dispatch s) k = Some ch" "ch_task ch = Running" for dg f k ch
    using that dispatch_inv_mapD [OF inv that(2)] by (auto simp: datagram_round_def channel_send_def Let_def)
  ultimately show ?thesis by blast
qed

text \<open>A sample run: one session is started by a datagram, and its task returns.\<close>

definition demo_dgram :: bytes where
  "demo_dgram = build_single_udp_frame 7 1 0 1 (str ''1.2.3.4:53'') [42]"

definition demo_frame :: udp_frame where
  "demo_frame = frame_of 7 1 (str ''1.2.3.4'') 53 1 (0, [42])"

lemma demo_parse: "parse_udp_frame demo_dgram = Inr demo_frame"
proof -
  have t: "str ''1.2.3.4:53'' = src_text (SockV4 0x01020304 53)"
    by (simp add: src_text_def host_port_def ipv4_to_string_def octets4_def be_simps dec.simps)
  have h: "src_host (SockV4 0x01020304 53) = str ''1.2.3.4''"
    by (simp add: ipv4_to_string_def octets4_def be_simps dec.simps)
  show ?thesis
    unfolding demo_dgram_def t using parse_build_single [OF src_text_ok [of "SockV4 0x01020304 53"]] h
    by (simp add: demo_frame_def frame_of_def)
qed

definition demo_admitted :: hy2_state where
  "demo_admitted = \<lparr>hs_phase = Proxying, hs_log = [AuthOk (str ''0'')], hs_dispatch = dispatch_new\<rparr>"

lemma demo_admitted_reach: "hy2_reach NoAuth None hy2_new demo_admitted"
proof -
  let ?q = "\<lparr>rq_method = str ''POST'', rq_host = Some (str ''hysteria''), rq_path = str ''/auth'',
    rq_auth = None\<rparr>"
  have "auth_turn NoAuth None (Request ?q True) hy2_new = demo_admitted"
    by (simp add: auth_turn_def is_auth_request_def auth_accepts_def AUTH_HOST_def AUTH_PATH_def
        hy2_new_def demo_admitted_def)
  with hy2_reach_step [OF hy2_reach_refl hy2_step.h3 [of hy2_new NoAuth None "Request ?q True"]]
  show ?thesis by (simp add: hy2_new_def)
qed

lemma demo_frame_sid [simp]: "uf_session_id demo_frame = 7"
  by (simp add: demo_frame_def frame_of_def)

abbreviation demo_chan :: "task \<Rightarrow> channel" where
  "demo_chan t \<equiv> \<lparr>ch_sid = 7, ch_frames = [demo_frame], ch_task = t\<rparr>"

abbreviation demo_disp :: "(u32 \<rightharpoonup> nat) \<Rightarrow> (nat \<rightharpoonup> channel) \<Rightarrow> nat \<Rightarrow> hy2_state" where
  "demo_disp m c n \<equiv> demo_admitted\<lparr>hs_dispatch := \<lparr>dg_map = m, dg_chans = c, dg_next = n\<rparr>\<rparr>"

lemma demo_round:
  "hy2_reach NoAuth None hy2_new (demo_disp m c n) \<Longrightarrow>
   hy2_reach NoAuth None hy2_new
     (demo_admitted\<lparr>hs_dispatch := datagram_round demo_dgram \<lparr>dg_map = m, dg_chans = c, dg_next = n\<rparr>\<rparr>)"
  using hy2_reach_step [OF _ hy2_step.datagram [of "demo_disp m c n" NoAuth None demo_dgram]]
  by (simp add: demo_admitted_def)

lemma demo_run:
  "hy2_reach NoAuth None hy2_new (demo_disp [7 \<mapsto> 0] [0 \<mapsto> demo_chan Running] 1)"
  "hy2_reach NoAuth None hy2_new
     (demo_disp [7 \<mapsto> 1] [0 \<mapsto> demo_chan Returned, 1 \<mapsto> demo_chan Running] 2)"
proof -
  have "hy2_reach NoAuth None hy2_new (demo_disp Map.empty Map.empty 0)"
    using demo_admitted_reach by (simp add: demo_admitted_def dispatch_new_def)
  from demo_round [OF this]
  show 1: "hy2_reach NoAuth None hy2_new (demo_disp [7 \<mapsto> 0] [0 \<mapsto> demo_chan Running] 1)"
    by (simp add: datagram_round_def demo_parse)
  have 2: "hy2_reach NoAuth None hy2_new (demo_disp [7 \<mapsto> 0] [0 \<mapsto> demo_chan Returned] 1)"
    using hy2_reach_step [OF 1 hy2_step.returned [of "demo_disp [7 \<mapsto> 0] [0 \<mapsto> demo_chan Running] 1" 0 "demo_chan Running"]]
    by (simp add: session_return_def demo_admitted_def)
  have 3: "hy2_reach NoAuth None hy2_new (demo_disp Map.empty [0 \<mapsto> demo_chan Returned] 1)"
    using demo_round [OF 2] by (simp add: datagram_round_def demo_parse channel_send_def)
  from demo_round [OF 3] show "hy2_reach NoAuth None hy2_new
     (demo_disp [7 \<mapsto> 1] [0 \<mapsto> demo_chan Returned, 1 \<mapsto> demo_chan Running] 2)"
    by (simp add: datagram_round_def demo_parse numeral_2_eq_2)
qed

theorem hy2_dispatch_correct_witness:
  "dg_chans (datagram_round demo_dgram
      \<lparr>dg_map = [7 \<mapsto> 0], dg_chans = [0 \<mapsto> demo_chan Running], dg_next = 1\<rparr>) 0
   = Some \<lparr>ch_sid = 7, ch_frames = [demo_frame, demo_frame], ch_task = Running\<rparr>"
  using hy2_dispatch_correct [OF demo_run(1)] demo_parse
  by (simp add: demo_admitted_def)

text \<open>
  A finished session task removes its session id from the map even when a newer session has
  taken that id over: the newer session keeps running but is no longer reachable, so the next
  datagram of that id starts another session beside it.
\<close>

theorem hy2_stale_removal:
  assumes "dg_chans d k = Some old" "ch_task old = Returned" "ch_sid old = sid"
    and "dg_map d sid = Some k'" "dg_chans d k' = Some new" "ch_task new = Running" "k' < dg_next d"
    and "parse_udp_frame dg = Inr f" "uf_session_id f = sid"
  shows "dg_map (session_remove k d) sid = None \<and> dg_chans (session_remove k d) k' = Some new
    \<and> dg_map (datagram_round dg (session_remove k d)) sid = Some (dg_next d)
    \<and> dg_chans (datagram_round dg (session_remove k d)) k' = Some new"
proof -
  have "k \<noteq> k'" using assms by auto
  with assms show ?thesis by (auto simp: session_remove_def datagram_round_def)
qed

theorem hy2_stale_removal_witness:
  "\<exists>s. hy2_reach NoAuth None hy2_new s
     \<and> dg_chans (session_remove 0 (hs_dispatch s)) 1 = Some (demo_chan Running)
     \<and> dg_map (session_remove 0 (hs_dispatch s)) 7 = None"
  using hy2_stale_removal [of
      "\<lparr>dg_map = [7 \<mapsto> 1], dg_chans = [0 \<mapsto> demo_chan Returned, 1 \<mapsto> demo_chan Running], dg_next = 2\<rparr>"
      0 "demo_chan Returned" 7 1 "demo_chan Running" demo_dgram demo_frame] demo_run(2) demo_parse
  by (intro exI [of _ "demo_disp [7 \<mapsto> 1] [0 \<mapsto> demo_chan Returned, 1 \<mapsto> demo_chan Running] 2"]) simp

end
