(* ===== verification/Hysteria2_Masquerade.thy ===== *)
theory Hysteria2_Masquerade
  imports Hysteria2_Server
begin

text \<open>
  The answers of a Hysteria2 server on HTTP/3 (\<open>hysteria2/server.rs\<close>): the two authentication responses, and the masquerade that any
  other request meets, a fixed error page or the response of another web server.  Header names are in lower case, as the \<open>http\<close> crate keeps them; a header map is
  the list of its entries in the order of its iterator.  URIs, the HTTP client and the limits of the header map are the libraries'
  and are fields of \<open>masq_lib\<close>.
\<close>

section \<open>The model\<close>

type_synonym header = "rstring \<times> rstring"

datatype h3_frame = H3Headers nat "header list" | H3Data bytes | H3Finish

record uri =
  uri_text :: rstring
  uri_host :: "rstring option"
  uri_port :: "u16 option"

text \<open>A request as the masquerade sees it, and the one it sends on, whose body is empty by its type.\<close>

record masq_request = http_request +
  rq_path_and_query :: "rstring option"
  rq_headers :: "header list"

record outgoing =
  og_method :: rstring
  og_uri :: uri
  og_headers :: "header list"

text \<open>The body is \<open>None\<close> when reading it fails.\<close>

record upstream =
  us_status :: nat
  us_headers :: "header list"
  us_body :: "bytes option"

record masq_lib =
  ml_parse_uri :: "rstring \<Rightarrow> uri option"
  ml_request_ok :: "outgoing \<Rightarrow> bool"
  ml_request :: "outgoing \<Rightarrow> upstream option"
  ml_response_ok :: "nat \<Rightarrow> header list \<Rightarrow> bool"

record masquerade_proxy_config =
  mp_url :: rstring
  mp_rewrite_host :: bool

record masquerade_config =
  mq_type :: rstring
  mq_proxy :: "masquerade_proxy_config option"

record masq_response =
  ms_status :: nat
  ms_headers :: "header list"
  ms_body :: bytes

definition HOST :: rstring where "HOST = str ''host''"
definition LOCATION :: rstring where "LOCATION = str ''location''"
definition CONTENT_TYPE :: rstring where "CONTENT_TYPE = str ''content-type''"
definition CONTENT_LENGTH :: rstring where "CONTENT_LENGTH = str ''content-length''"
definition TRANSFER_ENCODING :: rstring where "TRANSFER_ENCODING = str ''transfer-encoding''"

text \<open>\<open>HeaderMap::get\<close> is the first of the values of a name.\<close>

definition header_values :: "rstring \<Rightarrow> header list \<Rightarrow> rstring list" where
  "header_values name hs = map snd (filter (\<lambda>h. fst h = name) hs)"

definition header_get :: "rstring \<Rightarrow> header list \<Rightarrow> rstring option" where
  "header_get name hs = (case header_values name hs of [] \<Rightarrow> None | v # _ \<Rightarrow> Some v)"

definition error_page :: "nat \<Rightarrow> bytes \<Rightarrow> masq_response" where
  "error_page status page =
     \<lparr>ms_status = status,
      ms_headers = [(str ''server'', str ''nginx/1.24.0''), (CONTENT_TYPE, str ''text/html; charset=utf-8''),
        (CONTENT_LENGTH, dec (length page))],
      ms_body = page\<rparr>"

definition masquerade_404 :: masq_response where
  "masquerade_404 = error_page 404 (str ''<html><body><h1>404 Not Found</h1></body></html>'')"

definition masquerade_502 :: masq_response where
  "masquerade_502 = error_page 502 (str ''<html><body><h1>502 Bad Gateway</h1></body></html>'')"

definition target_url :: "rstring \<Rightarrow> 'a masq_request_scheme \<Rightarrow> rstring" where
  "target_url target_base req =
     trim_end_byte 47 target_base @ (case rq_path_and_query req of Some p \<Rightarrow> p | None \<Rightarrow> str ''/'')"

definition host_value :: "uri \<Rightarrow> rstring option" where
  "host_value u =
     map_option (\<lambda>host. case uri_port u of Some port \<Rightarrow> host @ str '':'' @ dec (unat port) | None \<Rightarrow> host) (uri_host u)"

definition outgoing_request :: "bool \<Rightarrow> uri \<Rightarrow> 'a masq_request_scheme \<Rightarrow> outgoing" where
  "outgoing_request rewrite_host u req =
     \<lparr>og_method = rq_method req, og_uri = u,
      og_headers = filter (\<lambda>h. \<not> (fst h = HOST \<and> rewrite_host)) (rq_headers req)
        @ (if rewrite_host then (case host_value u of Some v \<Rightarrow> [(HOST, v)] | None \<Rightarrow> []) else [])\<rparr>"

definition is_redirection :: "nat \<Rightarrow> bool" where
  "is_redirection status \<longleftrightarrow> 300 \<le> status \<and> status < 400"

text \<open>When the headers cannot be built those of the error page are sent, with the body that was to be sent.\<close>

definition built :: "masq_lib \<Rightarrow> nat \<Rightarrow> header list \<Rightarrow> bytes \<Rightarrow> masq_response" where
  "built L status hs page =
     (if ml_response_ok L status hs then \<lparr>ms_status = status, ms_headers = hs, ms_body = page\<rparr>
      else masquerade_404\<lparr>ms_body := page\<rparr>)"

definition redirect_headers :: "header list \<Rightarrow> header list" where
  "redirect_headers hs = (case header_get LOCATION hs of Some loc \<Rightarrow> [(LOCATION, loc)] | None \<Rightarrow> [])"

definition response_headers :: "header list \<Rightarrow> bytes \<Rightarrow> header list" where
  "response_headers hs page =
     filter (\<lambda>h. \<not> (fst h = TRANSFER_ENCODING \<or> fst h = CONTENT_LENGTH)) hs
     @ (if header_get CONTENT_TYPE hs = None then [(CONTENT_TYPE, str ''application/octet-stream'')] else [])
     @ [(CONTENT_LENGTH, dec (length page))]"

definition masquerade_proxy :: "masq_lib \<Rightarrow> rstring \<Rightarrow> bool \<Rightarrow> 'a masq_request_scheme \<Rightarrow> masq_response" where
  "masquerade_proxy L target_base rewrite_host req =
     (case ml_parse_uri L (target_url target_base req) of
        None \<Rightarrow> masquerade_404
      | Some target_uri \<Rightarrow>
          let outgoing_req = outgoing_request rewrite_host target_uri req in
          if \<not> ml_request_ok L outgoing_req then masquerade_404
          else case ml_request L outgoing_req of
              None \<Rightarrow> masquerade_502
            | Some resp \<Rightarrow>
                if is_redirection (us_status resp) then built L (us_status resp) (redirect_headers (us_headers resp)) []
                else case us_body resp of
                    None \<Rightarrow> masquerade_502
                  | Some page \<Rightarrow> built L (us_status resp) (response_headers (us_headers resp) page) page)"

definition masquerade_response :: "masq_lib \<Rightarrow> masquerade_config \<Rightarrow> 'a masq_request_scheme \<Rightarrow> masq_response" where
  "masquerade_response L cfg req =
     (if mq_type cfg = str ''proxy'' then
        (case mq_proxy cfg of
           Some proxy_cfg \<Rightarrow> masquerade_proxy L (mp_url proxy_cfg) (mp_rewrite_host proxy_cfg) req
         | None \<Rightarrow> masquerade_404)
      else masquerade_404)"

text \<open>The frames given to the stream; a failure to send one is ignored and the next is tried.\<close>

definition masquerade :: "masq_lib \<Rightarrow> masquerade_config \<Rightarrow> 'a masq_request_scheme \<Rightarrow> h3_frame list" where
  "masquerade L cfg req =
     (let resp = masquerade_response L cfg req
      in [H3Headers (ms_status resp) (ms_headers resp)] @ (if ms_body resp = [] then [] else [H3Data (ms_body resp)]) @ [H3Finish])"

definition send_auth_ok :: "rstring \<Rightarrow> rstring \<Rightarrow> h3_frame list" where
  "send_auth_ok cc_rx padding =
     [H3Headers 233 [(str ''hysteria-udp'', str ''true''), (str ''hysteria-cc-rx'', cc_rx), (str ''hysteria-padding'', padding)], H3Finish]"

definition send_auth_fail :: "rstring \<Rightarrow> h3_frame list" where
  "send_auth_fail padding = [H3Headers 403 [(str ''hysteria-padding'', padding)], H3Finish]"

section \<open>Headers\<close>

lemma header_values_append [simp]: "header_values n (hs @ hs') = header_values n hs @ header_values n hs'"
  by (simp add: header_values_def)

lemma header_values_nil [simp]: "header_values n [] = []"
  by (simp add: header_values_def)

lemma header_values_cons [simp]:
  "header_values n ((m, v) # hs) = (if m = n then [v] else []) @ header_values n hs"
  by (simp add: header_values_def)

lemma header_values_filter:
  "header_values n (filter (\<lambda>h. P (fst h)) hs) = (if P n then header_values n hs else [])"
  by (induction hs) (auto simp: header_values_def)

lemma header_get_none: "header_get n hs = None \<longleftrightarrow> header_values n hs = []"
  by (simp add: header_get_def split: list.split)

lemma header_names:
  "CONTENT_TYPE \<noteq> CONTENT_LENGTH" "CONTENT_TYPE \<noteq> TRANSFER_ENCODING" "CONTENT_LENGTH \<noteq> TRANSFER_ENCODING"
  "LOCATION \<noteq> CONTENT_LENGTH" "LOCATION \<noteq> TRANSFER_ENCODING"
  by (simp_all add: CONTENT_TYPE_def CONTENT_LENGTH_def TRANSFER_ENCODING_def LOCATION_def)

lemmas header_names_simps = header_names header_names [symmetric]

lemma response_header_values:
  "header_values n (response_headers hs page) =
     (if n = CONTENT_LENGTH then [dec (length page)]
      else if n = TRANSFER_ENCODING then []
      else if n = CONTENT_TYPE \<and> header_values n hs = [] then [str ''application/octet-stream'']
      else header_values n hs)"
  unfolding response_headers_def
  using header_values_filter [of n "\<lambda>m. \<not> (m = TRANSFER_ENCODING \<or> m = CONTENT_LENGTH)" hs]
  by (auto simp: header_get_none header_names_simps simp del: str_def)

text \<open>A response whose declared length is its length.\<close>

definition consistent :: "masq_response \<Rightarrow> bool" where
  "consistent r \<longleftrightarrow>
     header_values CONTENT_LENGTH (ms_headers r) = [dec (length (ms_body r))]
     \<or> header_values CONTENT_LENGTH (ms_headers r) = [] \<and> ms_body r = [] \<and> is_redirection (ms_status r)"

lemma consistent_error_page: "consistent (error_page status page)"
  by (simp add: consistent_def error_page_def CONTENT_LENGTH_def CONTENT_TYPE_def)

lemma consistent_redirect:
  "is_redirection status \<Longrightarrow> consistent \<lparr>ms_status = status, ms_headers = redirect_headers hs, ms_body = []\<rparr>"
  by (simp add: consistent_def redirect_headers_def header_names_simps split: option.split)

lemma consistent_response:
  "consistent \<lparr>ms_status = status, ms_headers = response_headers hs page, ms_body = page\<rparr>"
  by (simp add: consistent_def response_header_values)

lemma consistent_pages: "consistent masquerade_404" "consistent masquerade_502"
  unfolding masquerade_404_def masquerade_502_def by (rule consistent_error_page)+

lemma consistent_built:
  assumes "\<And>status hs. ml_response_ok L status hs"
  shows "built L status hs page = \<lparr>ms_status = status, ms_headers = hs, ms_body = page\<rparr>"
  using assms by (simp add: built_def)

lemma masquerade_consistent:
  assumes "\<And>status hs. ml_response_ok L status hs"
  shows "consistent (masquerade_response L cfg req)"
  unfolding masquerade_response_def masquerade_proxy_def Let_def
  by (auto simp: consistent_built [OF assms] consistent_pages consistent_redirect consistent_response
      split: option.split)

lemma masquerade_proxied:
  assumes "mq_type cfg = str ''proxy''" "mq_proxy cfg = Some p"
    and "ml_parse_uri L (target_url (mp_url p) req) = Some u"
    and "ml_request_ok L (outgoing_request (mp_rewrite_host p) u req)"
    and "ml_request L (outgoing_request (mp_rewrite_host p) u req) = Some resp"
  shows "masquerade_response L cfg req =
    (if is_redirection (us_status resp) then built L (us_status resp) (redirect_headers (us_headers resp)) []
     else case us_body resp of
         None \<Rightarrow> masquerade_502
       | Some page \<Rightarrow> built L (us_status resp) (response_headers (us_headers resp) page) page)"
  using assms by (simp add: masquerade_response_def masquerade_proxy_def Let_def del: str_def)

lemma outgoing_host_values:
  "header_values n (og_headers (outgoing_request rewrite_host u req)) =
     (if rewrite_host \<and> n = HOST then (case host_value u of Some v \<Rightarrow> [v] | None \<Rightarrow> []) else header_values n (rq_headers req))"
  using header_values_filter [of n "\<lambda>m. \<not> (m = HOST \<and> rewrite_host)" "rq_headers req"]
  by (auto simp: outgoing_request_def split: option.split)

section \<open>Properties\<close>

text \<open>
  C33.  What a prober gets from the masquerade when the site behind it answers.  Outside redirections the site's status and body come
  back as they are, as one header frame, one data frame unless the body is empty, and the end of the stream; every header
  keeps its values in their order, except that there is exactly one \<open>content-length\<close>, the true length of the body, no
  \<open>transfer-encoding\<close>, and a \<open>content-type\<close> where the site sent none; a body that breaks off gives the error page of status 502.
  Of a redirection (every status 3xx, also 304) only the status and the first \<open>location\<close> come back, and no body.
\<close>

theorem masquerade_faithful:
  assumes "mq_type cfg = str ''proxy''" "mq_proxy cfg = Some p"
    and "ml_parse_uri L (target_url (mp_url p) req) = Some u"
    and "ml_request_ok L (outgoing_request (mp_rewrite_host p) u req)"
    and "ml_request L (outgoing_request (mp_rewrite_host p) u req) = Some resp"
    and "\<And>hs. ml_response_ok L (us_status resp) hs"
  shows "if is_redirection (us_status resp) then
      masquerade L cfg req = [H3Headers (us_status resp)
        (case header_values LOCATION (us_headers resp) of [] \<Rightarrow> [] | loc # _ \<Rightarrow> [(LOCATION, loc)]), H3Finish]
    else case us_body resp of
      None \<Rightarrow> masquerade L cfg req = [H3Headers 502 (ms_headers masquerade_502), H3Data (ms_body masquerade_502), H3Finish]
    | Some page \<Rightarrow>
        \<exists>hs. masquerade L cfg req = [H3Headers (us_status resp) hs] @ (if page = [] then [] else [H3Data page]) @ [H3Finish]
        \<and> header_values CONTENT_LENGTH hs = [dec (length page)] \<and> header_values TRANSFER_ENCODING hs = []
        \<and> header_values CONTENT_TYPE hs =
            (case header_values CONTENT_TYPE (us_headers resp) of [] \<Rightarrow> [str ''application/octet-stream''] | vs \<Rightarrow> vs)
        \<and> (\<forall>n. n \<in> {CONTENT_LENGTH, TRANSFER_ENCODING, CONTENT_TYPE} \<or> header_values n hs = header_values n (us_headers resp))"
proof (cases "is_redirection (us_status resp)")
  case True
  then have "masquerade_response L cfg req =
      \<lparr>ms_status = us_status resp, ms_headers = redirect_headers (us_headers resp), ms_body = []\<rparr>"
    using assms(6) by (simp add: masquerade_proxied [OF assms(1-5)] built_def)
  with True show ?thesis
    by (auto simp: masquerade_def Let_def redirect_headers_def header_get_def split: list.split)
next
  case False
  show ?thesis
  proof (cases "us_body resp")
    case None
    with False have "masquerade_response L cfg req = masquerade_502" by (simp add: masquerade_proxied [OF assms(1-5)])
    with False None show ?thesis by (simp add: masquerade_def Let_def masquerade_502_def error_page_def)
  next
    case (Some page)
    have "masquerade_response L cfg req =
        \<lparr>ms_status = us_status resp, ms_headers = response_headers (us_headers resp) page, ms_body = page\<rparr>"
      using False Some assms(6) by (simp add: masquerade_proxied [OF assms(1-5)] built_def)
    then have "\<exists>hs. masquerade L cfg req = [H3Headers (us_status resp) hs] @ (if page = [] then [] else [H3Data page]) @ [H3Finish]
        \<and> header_values CONTENT_LENGTH hs = [dec (length page)] \<and> header_values TRANSFER_ENCODING hs = []
        \<and> header_values CONTENT_TYPE hs =
            (case header_values CONTENT_TYPE (us_headers resp) of [] \<Rightarrow> [str ''application/octet-stream''] | vs \<Rightarrow> vs)
        \<and> (\<forall>n. n \<in> {CONTENT_LENGTH, TRANSFER_ENCODING, CONTENT_TYPE} \<or> header_values n hs = header_values n (us_headers resp))"
      by (intro exI [of _ "response_headers (us_headers resp) page"])
        (auto simp: masquerade_def Let_def response_header_values header_names_simps simp del: str_def split: list.split)
    with False Some show ?thesis by simp
  qed
qed

text \<open>
  Whatever a request is and whatever happens to it, an invalid address, an unreachable site, a body that breaks off, exactly one
  well-formed response goes out: one header frame, at most one data frame which is not empty, and the end of the stream, with one
  \<open>content-length\<close> equal to the length of the data, or none and no data in a redirection.
\<close>

theorem masquerade_well_framed:
  assumes "\<And>status hs. ml_response_ok L status hs"
  shows "\<exists>status hs page. masquerade L cfg req = H3Headers status hs # (if page = [] then [H3Finish] else [H3Data page, H3Finish])
    \<and> (header_values CONTENT_LENGTH hs = [dec (length page)]
       \<or> header_values CONTENT_LENGTH hs = [] \<and> page = [] \<and> is_redirection status)"
  using masquerade_consistent [OF assms, of cfg req] unfolding masquerade_def consistent_def Let_def
  by (intro exI [of _ "ms_status (masquerade_response L cfg req)"] exI [of _ "ms_headers (masquerade_response L cfg req)"]
      exI [of _ "ms_body (masquerade_response L cfg req)"]) auto

section \<open>Witnesses\<close>

definition example_lib :: masq_lib where
  "example_lib = \<lparr>ml_parse_uri = \<lambda>s. Some \<lparr>uri_text = s, uri_host = Some (str ''site''), uri_port = None\<rparr>,
     ml_request_ok = \<lambda>_. True,
     ml_request = \<lambda>_. Some \<lparr>us_status = 200, us_headers = [(str ''etag'', str ''x''), (TRANSFER_ENCODING, str ''chunked'')],
       us_body = Some (str ''hello'')\<rparr>,
     ml_response_ok = \<lambda>_ _. True\<rparr>"

definition example_request :: masq_request where
  "example_request = \<lparr>rq_method = str ''GET'', rq_host = None, rq_path = str ''/'', rq_auth = None,
     rq_path_and_query = Some (str ''/''), rq_headers = []\<rparr>"

definition example_cfg :: masquerade_config where
  "example_cfg = \<lparr>mq_type = str ''proxy'', mq_proxy = Some \<lparr>mp_url = str ''http://site/'', mp_rewrite_host = True\<rparr>\<rparr>"

theorem masquerade_faithful_witness:
  "\<exists>hs. masquerade example_lib example_cfg example_request = [H3Headers 200 hs, H3Data (str ''hello''), H3Finish]
     \<and> header_values CONTENT_LENGTH hs = [dec 5] \<and> header_values TRANSFER_ENCODING hs = []"
proof -
  let ?resp = "\<lparr>us_status = 200, us_headers = [(str ''etag'', str ''x''), (TRANSFER_ENCODING, str ''chunked'')],
           us_body = Some (str ''hello'')\<rparr>"
  have h: "mq_type example_cfg = str ''proxy''" "mq_proxy example_cfg = Some \<lparr>mp_url = str ''http://site/'', mp_rewrite_host = True\<rparr>"
    by (simp_all add: example_cfg_def)
  have "\<exists>hs. masquerade example_lib example_cfg example_request
      = [H3Headers (us_status ?resp) hs] @ (if str ''hello'' = [] then [] else [H3Data (str ''hello'')]) @ [H3Finish]
    \<and> header_values CONTENT_LENGTH hs = [dec (length (str ''hello''))] \<and> header_values TRANSFER_ENCODING hs = []"
    using masquerade_faithful [OF h, where L = example_lib and req = example_request
        and u = "\<lparr>uri_text = target_url (str ''http://site/'') example_request, uri_host = Some (str ''site''), uri_port = None\<rparr>"
        and resp = ?resp]
    by (simp add: example_lib_def is_redirection_def del: str_def) blast
  then show ?thesis by (simp add: eval_nat_numeral)
qed

theorem masquerade_well_framed_witness:
  "\<exists>status hs page. masquerade example_lib \<lparr>mq_type = str ''proxy'', mq_proxy = None\<rparr> example_request
     = H3Headers status hs # (if page = [] then [H3Finish] else [H3Data page, H3Finish])"
proof -
  have "\<And>status hs. ml_response_ok example_lib status hs" by (simp add: example_lib_def)
  from masquerade_well_framed [OF this] show ?thesis by blast
qed

end
