(* ===== verification/Tuic_Proto.thy ===== *)
theory Tuic_Proto
  imports Stream_IO
begin

text \<open>
  The TUIC v5 wire format of \<open>tuic/proto.rs\<close>: addresses with their asynchronous and
  synchronous readers and their encoder, the commands with the datagram parser, the prefix
  test and the header of a relayed packet.  \<open>parse_command_with_prefix\<close> is the stream-side
  parser of \<open>tuic/connection.rs\<close>, which starts after the two prefix bytes were consumed.
\<close>

section \<open>The model\<close>

definition VERSION :: u8 where "VERSION = 0x05"
definition CMD_AUTHENTICATE :: u8 where "CMD_AUTHENTICATE = 0x00"
definition CMD_CONNECT :: u8 where "CMD_CONNECT = 0x01"
definition CMD_PACKET :: u8 where "CMD_PACKET = 0x02"
definition CMD_DISSOCIATE :: u8 where "CMD_DISSOCIATE = 0x03"
definition CMD_HEARTBEAT :: u8 where "CMD_HEARTBEAT = 0x04"

lemmas tuic_consts = VERSION_def CMD_AUTHENTICATE_def CMD_CONNECT_def CMD_PACKET_def
  CMD_DISSOCIATE_def CMD_HEARTBEAT_def

datatype address = NoAddress | DomainAddress rstring u16 | SocketAddress socket_addr

record auth_info =
  uuid :: bytes
  token :: bytes

record packet_info =
  assoc_id :: u16
  pkt_id :: u16
  frag_total :: u8
  frag_id :: u8
  size_field :: u16
  addr :: address

datatype tuic_command =
    Authenticate auth_info
  | Connect address
  | Packet packet_info
  | Dissociate u16
  | Heartbeat

text \<open>\<open>Address::read_from\<close>: the asynchronous reader used on QUIC streams.\<close>

definition address_read_from :: "address io" where
  "address_read_from =
     bind_io (read_exact 1) (\<lambda>buf.
       if hd buf = 0xff then return_io NoAddress
       else if hd buf = 0x00 then
         bind_io (read_exact 1) (\<lambda>buf.
           let len = unat (hd buf) in
           bind_io (read_exact (len + 2)) (\<lambda>domain_buf.
             let port = from_be [domain_buf ! len, domain_buf ! (len + 1)] in
             case from_utf8 (take len domain_buf) of
               Inl _ \<Rightarrow> fail_io (Io InvalidData)
             | Inr domain \<Rightarrow> return_io (DomainAddress domain port)))
       else if hd buf = 0x01 then
         bind_io (read_exact 6) (\<lambda>b.
           let port = from_be [b ! 4, b ! 5] in
           return_io (SocketAddress (SockV4 (from_be [b ! 0, b ! 1, b ! 2, b ! 3]) port)))
       else if hd buf = 0x02 then
         bind_io (read_exact 18) (\<lambda>b.
           let port = from_be [b ! 16, b ! 17] in
           return_io (SocketAddress (SockV6 (from_be (take 16 b)) port)))
       else fail_io (Io InvalidData))"

text \<open>\<open>Address::to_bytes\<close>.  The length byte is the name's length truncated to eight bits.\<close>

fun address_to_bytes :: "address \<Rightarrow> bytes" where
  "address_to_bytes NoAddress = [0xff]"
| "address_to_bytes (DomainAddress domain port) =
     [0x00] @ [of_nat (length domain)] @ domain @ to_be 2 port"
| "address_to_bytes (SocketAddress (SockV4 a p)) = [0x01] @ octets4 a @ to_be 2 p"
| "address_to_bytes (SocketAddress (SockV6 a p)) =
     [0x02] @ concat (map (to_be 2) (segments a)) @ to_be 2 p"

fun address_to_string :: "address \<Rightarrow> rstring" where
  "address_to_string NoAddress = str ''none''"
| "address_to_string (DomainAddress d p) = host_port d p"
| "address_to_string (SocketAddress a) = socket_addr_to_string a"

text \<open>\<open>Command::read_address_sync\<close>: the synchronous reader used on datagrams.\<close>

definition read_address_sync :: "address io" where
  "read_address_sync =
     bind_io (read_exact 1) (\<lambda>buf.
       if hd buf = 0xff then return_io NoAddress
       else if hd buf = 0x00 then
         bind_io (read_exact 1) (\<lambda>buf.
           let len = unat (hd buf) in
           bind_io (read_exact (len + 2)) (\<lambda>domain_buf.
             let port = from_be [domain_buf ! len, domain_buf ! (len + 1)] in
             case from_utf8 (take len domain_buf) of
               Inl _ \<Rightarrow> fail_io (Io InvalidData)
             | Inr domain \<Rightarrow> return_io (DomainAddress domain port)))
       else if hd buf = 0x01 then
         bind_io (read_exact 6) (\<lambda>b.
           let port = from_be [b ! 4, b ! 5] in
           return_io (SocketAddress (SockV4 (from_be [b ! 0, b ! 1, b ! 2, b ! 3]) port)))
       else if hd buf = 0x02 then
         bind_io (read_exact 18) (\<lambda>b.
           let port = from_be [b ! 16, b ! 17] in
           return_io (SocketAddress (SockV6 (from_be (take 16 b)) port)))
       else fail_io (Io InvalidData))"

definition read_packet_info :: "address io \<Rightarrow> tuic_command io" where
  "read_packet_info rd =
     bind_io (read_exact 8) (\<lambda>buf.
       bind_io rd (\<lambda>a.
         return_io (Packet \<lparr>assoc_id = from_be [buf ! 0, buf ! 1], pkt_id = from_be [buf ! 2, buf ! 3],
           frag_total = buf ! 4, frag_id = buf ! 5, size_field = from_be [buf ! 6, buf ! 7],
           addr = a\<rparr>)))"

definition read_auth_info :: "tuic_command io" where
  "read_auth_info =
     bind_io (read_exact 48) (\<lambda>buf.
       return_io (Authenticate \<lparr>uuid = take 16 buf, token = take 32 (drop 16 buf)\<rparr>))"

definition read_dissociate :: "tuic_command io" where
  "read_dissociate = bind_io (read_exact 2) (\<lambda>buf. return_io (Dissociate (from_be buf)))"

definition read_from_sync :: "tuic_command io" where
  "read_from_sync =
     bind_io (read_exact 2) (\<lambda>hdr.
       let ver = hdr ! 0; cmd = hdr ! 1 in
       if ver \<noteq> VERSION then fail_io (Io InvalidData)
       else if cmd = CMD_AUTHENTICATE then read_auth_info
       else if cmd = CMD_PACKET then read_packet_info read_address_sync
       else if cmd = CMD_HEARTBEAT then return_io Heartbeat
       else if cmd = CMD_DISSOCIATE then read_dissociate
       else fail_io (Io InvalidData))"

text \<open>A cursor over a datagram is a stream that ends with the datagram.\<close>

definition cursor :: "bytes \<Rightarrow> conn" where
  "cursor data = \<lparr>rx = data, rx_end = UnexpectedEof, tx = [], tx_cap = None, tx_shut = False\<rparr>"

definition read_from_datagram :: "bytes \<Rightarrow> tuic_command result" where
  "read_from_datagram data = fst (read_from_sync (cursor data))"

fun is_tuic_prefix :: "u8 \<times> u8 \<Rightarrow> bool" where
  "is_tuic_prefix (v, c) \<longleftrightarrow> v = VERSION \<and> c \<le> CMD_HEARTBEAT"

definition build_packet_header :: "u16 \<Rightarrow> u16 \<Rightarrow> address \<Rightarrow> u16 \<Rightarrow> bytes" where
  "build_packet_header assoc pkt a payload_len =
     [VERSION] @ [CMD_PACKET] @ to_be 2 assoc @ to_be 2 pkt @ [1] @ [0] @ to_be 2 payload_len
     @ address_to_bytes a"

text \<open>\<open>Connection::parse_command_with_prefix\<close>.\<close>

definition parse_command_with_prefix :: "u8 \<times> u8 \<Rightarrow> tuic_command io" where
  "parse_command_with_prefix prefix =
     (let ver = fst prefix; cmd = snd prefix in
      if ver \<noteq> VERSION then fail_io (Bail ''unsupported TUIC version'')
      else if cmd = CMD_AUTHENTICATE then read_auth_info
      else if cmd = CMD_CONNECT then bind_io address_read_from (\<lambda>a. return_io (Connect a))
      else if cmd = CMD_PACKET then read_packet_info address_read_from
      else if cmd = CMD_DISSOCIATE then read_dissociate
      else if cmd = CMD_HEARTBEAT then return_io Heartbeat
      else fail_io (Bail ''unknown command''))"

section \<open>Streaming\<close>

lemma streaming_from_utf8_case [streaming_intros]:
  "(\<And>e. streaming (f e)) \<Longrightarrow> (\<And>d. streaming (g d)) \<Longrightarrow> streaming (case r of Inl e \<Rightarrow> f e | Inr d \<Rightarrow> g d)"
  by (cases r) simp_all

lemma streaming_address_read_from [streaming_intros]: "streaming address_read_from"
  unfolding address_read_from_def Let_def by (intro streaming_intros)

lemma read_address_sync_eq: "read_address_sync = address_read_from"
  by (simp add: read_address_sync_def address_read_from_def)

lemma streaming_read_packet_info [streaming_intros]: "streaming rd \<Longrightarrow> streaming (read_packet_info rd)"
  unfolding read_packet_info_def by (intro streaming_intros)

lemma streaming_tuic_parts [streaming_intros]: "streaming read_auth_info" "streaming read_dissociate"
  unfolding read_auth_info_def read_dissociate_def by (intro streaming_intros)+

lemma streaming_read_from_sync [streaming_intros]: "streaming read_from_sync"
  unfolding read_from_sync_def Let_def read_address_sync_eq by (intro streaming_intros)

lemma streaming_parse_command [streaming_intros]: "streaming (parse_command_with_prefix p)"
  unfolding parse_command_with_prefix_def Let_def by (intro streaming_intros)

section \<open>Addresses round-trip\<close>

fun address_ok :: "address \<Rightarrow> bool" where
  "address_ok (DomainAddress d p) \<longleftrightarrow> length d < 256 \<and> utf8_valid d"
| "address_ok _ \<longleftrightarrow> True"

lemma to_be_2_nth: "[to_be 2 w ! 0, to_be 2 w ! Suc 0] = to_be 2 w"
  by (simp add: be_simps)

lemma from_be_pair [simp]: "from_be [to_be 2 w ! 0, to_be 2 w ! Suc 0] = (w :: u16)"
  unfolding to_be_2_nth by simp

lemma octets4_nth: "[octets4 a ! 0, octets4 a ! Suc 0, octets4 a ! 2, octets4 a ! 3] = octets4 a"
  by (simp add: octets4_def be_simps)

lemma ucast_segment:
  "(ucast (ucast (x :: ipv6) :: u16) :: u8) = ucast x"
  "(ucast (drop_bit 8 (ucast (x :: ipv6) :: u16)) :: u8) = ucast (drop_bit 8 x)"
  by (rule bit_word_eqI; auto simp: bit_simps)+

lemma segments_octets: "concat (map (to_be 2) (segments a)) = octets6 a"
  unfolding segments_def octets6_def
  by (simp add: be_simps ucast_segment drop_bit_drop_bit ac_simps)

lemma length_address_to_bytes:
  "length (address_to_bytes a) = (case a of NoAddress \<Rightarrow> 1 | DomainAddress d p \<Rightarrow> 4 + length d
     | SocketAddress (SockV4 _ _) \<Rightarrow> 7 | SocketAddress (SockV6 _ _) \<Rightarrow> 19)"
  by (cases a rule: address_to_bytes.cases) (simp_all add: segments_octets)

lemma address_read_back:
  assumes "address_ok a"
  shows "address_read_from (c\<lparr>rx := address_to_bytes a @ rest\<rparr>) = (Inr a, c\<lparr>rx := rest\<rparr>)"
proof (cases a rule: address_to_bytes.cases)
  case (2 d p)
  have "read_exact (length d + 2) (c\<lparr>rx := d @ to_be 2 p @ rest\<rparr>)
      = (Inr (d @ to_be 2 p), c\<lparr>rx := rest\<rparr>)"
    using read_exact_append [of "d @ to_be 2 p" "length d + 2" rest c] by simp
  with 2 assms show ?thesis
    by (simp add: address_read_from_def Let_def io_simps unat_u8_of_nat nth_append)
next
  case (3 v p)
  have "read_exact 6 (c\<lparr>rx := octets4 v @ to_be 2 p @ rest\<rparr>)
      = (Inr (octets4 v @ to_be 2 p), c\<lparr>rx := rest\<rparr>)"
    using read_exact_append [of "octets4 v @ to_be 2 p" 6 rest c] by simp
  with 3 show ?thesis
    by (simp add: address_read_from_def io_simps nth_append octets4_nth)
next
  case (4 v p)
  have "read_exact 18 (c\<lparr>rx := octets6 v @ to_be 2 p @ rest\<rparr>)
      = (Inr (octets6 v @ to_be 2 p), c\<lparr>rx := rest\<rparr>)"
    using read_exact_append [of "octets6 v @ to_be 2 p" 18 rest c] by simp
  with 4 show ?thesis
    by (simp add: address_read_from_def io_simps nth_append segments_octets)
qed (simp add: address_read_from_def io_simps)

interpretation tuic_addr: header_parser address_read_from address_to_bytes "\<lambda>a. a" address_ok
  by unfold_locales (simp_all add: streaming_address_read_from address_read_back)

text \<open>Every address a reader returns is one that its encoder carries.\<close>

lemma address_read_ok:
  assumes "address_read_from c = (Inr a, c')"
  shows "address_ok a"
  using assms
  by (auto simp: address_read_from_def Let_def bind_io_eq_Inr return_io_def fail_io_def
      from_utf8_def unat_u8_less min.strict_coboundedI2 dest!: read_exact_ok split: if_splits sum.splits)

lemma address_read_consumed:
  assumes "address_read_from c = (Inr a, c')"
  shows "\<exists>xs. rx c = xs @ rx c' \<and> length xs = length (address_to_bytes a)"
proof -
  have "length (address_to_bytes a) \<le> length (rx c)
      \<and> rx c' = drop (length (address_to_bytes a)) (rx c)"
    using assms
    by (auto simp: address_read_from_def Let_def bind_io_eq_Inr return_io_def fail_io_def
        from_utf8_def length_address_to_bytes numeral_eq_Suc
        dest!: read_exact_ok split: if_splits sum.splits)
  then show ?thesis
    by (metis append_take_drop_id length_take min.absorb2)
qed

section \<open>Commands\<close>

definition enc_packet :: "packet_info \<Rightarrow> bytes" where
  "enc_packet p =
     [VERSION, CMD_PACKET] @ to_be 2 (assoc_id p) @ to_be 2 (pkt_id p) @ [frag_total p, frag_id p]
     @ to_be 2 (size_field p) @ address_to_bytes (addr p)"

lemma read_packet_info_enc:
  assumes "address_ok (addr p)"
  shows "read_packet_info address_read_from (c\<lparr>rx := drop 2 (enc_packet p) @ rest\<rparr>)
       = (Inr (Packet p), c\<lparr>rx := rest\<rparr>)"
proof -
  let ?h = "to_be 2 (assoc_id p) @ to_be 2 (pkt_id p) @ [frag_total p, frag_id p]
     @ to_be 2 (size_field p)"
  have r: "read_exact 8 (c\<lparr>rx := ?h @ address_to_bytes (addr p) @ rest\<rparr>)
      = (Inr ?h, c\<lparr>rx := address_to_bytes (addr p) @ rest\<rparr>)"
    by (rule read_exact_append) simp
  show ?thesis
    using r address_read_back [OF assms]
    by (simp add: read_packet_info_def enc_packet_def io_simps nth_append)
qed

lemma read_from_sync_packet:
  assumes "address_ok (addr p)"
  shows "read_from_sync (c\<lparr>rx := enc_packet p @ rest\<rparr>) = (Inr (Packet p), c\<lparr>rx := rest\<rparr>)"
proof -
  have e: "enc_packet p @ rest = [VERSION, CMD_PACKET] @ (drop 2 (enc_packet p) @ rest)"
    by (simp add: enc_packet_def)
  have r: "read_exact 2 (c\<lparr>rx := [VERSION, CMD_PACKET] @ (drop 2 (enc_packet p) @ rest)\<rparr>)
      = (Inr [VERSION, CMD_PACKET], c\<lparr>rx := drop 2 (enc_packet p) @ rest\<rparr>)"
    by (rule read_exact_append) simp
  show ?thesis
    unfolding e read_from_sync_def bind_io_def r read_address_sync_eq
    by (simp add: Let_def tuic_consts read_packet_info_enc [OF assms])
qed

lemma build_packet_header_enc:
  "build_packet_header a p x n =
     enc_packet \<lparr>assoc_id = a, pkt_id = p, frag_total = 1, frag_id = 0, size_field = n, addr = x\<rparr>"
  by (simp add: build_packet_header_def enc_packet_def)

section \<open>Properties\<close>

text \<open>
  Encoding a TUIC address and reading it back gives the same address and leaves the stream
  right after it, for every address whose name fits its length byte; every truncation of the
  encoding is an end-of-input error; and the asynchronous and synchronous readers agree.
\<close>

theorem tuic_address_roundtrip:
  assumes "address_ok a"
  shows "address_read_from (c\<lparr>rx := address_to_bytes a @ rest\<rparr>) = (Inr a, c\<lparr>rx := rest\<rparr>)
    \<and> read_address_sync (c\<lparr>rx := address_to_bytes a @ rest\<rparr>) = (Inr a, c\<lparr>rx := rest\<rparr>)
    \<and> (\<forall>k < length (address_to_bytes a).
         address_read_from (c\<lparr>rx := take k (address_to_bytes a)\<rparr>)
           = (Inl (Io (rx_end c)), c\<lparr>rx := []\<rparr>))"
  using assms by (simp add: read_address_sync_eq tuic_addr.parse_enc tuic_addr.truncated)

theorem tuic_address_roundtrip_witness:
  "address_ok (DomainAddress (str ''a.b'') 53)
   \<and> address_read_from ((cursor [])\<lparr>rx := [0, 3, 97, 46, 98, 0, 53] @ [1]\<rparr>)
     = (Inr (DomainAddress (str ''a.b'') 53), cursor [1])"
proof -
  have "address_ok (DomainAddress (str ''a.b'') 53)" by simp
  moreover have "address_to_bytes (DomainAddress (str ''a.b'') 53) = [0, 3, 97, 46, 98, 0, 53]"
    by (simp add: be_simps)
  ultimately show ?thesis
    using tuic_address_roundtrip [of "DomainAddress (str ''a.b'') 53" "[1]" "cursor []"]
    by (simp add: cursor_def)
qed

text \<open>
  The header the server builds for a relayed UDP packet is parsed, by the datagram parser
  and by the stream parser alike, as an unfragmented packet with the same association, packet
  id, payload length and address; on a datagram, the payload starts exactly at the offset
  \<open>2 + 8 + len(addr)\<close> that the datagram handler computes from the re-encoded address.
\<close>

theorem tuic_packet_header_roundtrip:
  assumes "address_ok a"
  shows "read_from_datagram (build_packet_header i p a n @ payload)
       = Inr (Packet \<lparr>assoc_id = i, pkt_id = p, frag_total = 1, frag_id = 0, size_field = n,
           addr = a\<rparr>)
    \<and> parse_command_with_prefix (VERSION, CMD_PACKET)
        (c\<lparr>rx := drop 2 (build_packet_header i p a n) @ payload\<rparr>)
      = (Inr (Packet \<lparr>assoc_id = i, pkt_id = p, frag_total = 1, frag_id = 0, size_field = n,
           addr = a\<rparr>), c\<lparr>rx := payload\<rparr>)
    \<and> drop (2 + 8 + length (address_to_bytes a)) (build_packet_header i p a n @ payload) = payload"
proof -
  let ?p = "\<lparr>assoc_id = i, pkt_id = p, frag_total = 1, frag_id = 0, size_field = n, addr = a\<rparr>"
  have "read_from_datagram (build_packet_header i p a n @ payload) = Inr (Packet ?p)"
    using read_from_sync_packet [of ?p payload "cursor []"] assms
    by (simp add: read_from_datagram_def build_packet_header_enc cursor_def)
  moreover have "parse_command_with_prefix (VERSION, CMD_PACKET)
        (c\<lparr>rx := drop 2 (build_packet_header i p a n) @ payload\<rparr>) = (Inr (Packet ?p), c\<lparr>rx := payload\<rparr>)"
    using read_packet_info_enc [of ?p payload c] assms
    by (simp add: parse_command_with_prefix_def build_packet_header_enc tuic_consts)
  moreover have "length (build_packet_header i p a n) = 2 + 8 + length (address_to_bytes a)"
    by (simp add: build_packet_header_def)
  ultimately show ?thesis by simp
qed

theorem tuic_packet_header_roundtrip_witness:
  "read_from_datagram ([5, 2, 0, 7, 0, 9, 1, 0, 0, 2, 0xff] @ [8, 8])
   = Inr (Packet \<lparr>assoc_id = 7, pkt_id = 9, frag_total = 1, frag_id = 0, size_field = 2,
       addr = NoAddress\<rparr>)"
proof -
  have "address_ok NoAddress" by simp
  moreover have "build_packet_header 7 9 NoAddress 2 = [5, 2, 0, 7, 0, 9, 1, 0, 0, 2, 0xff]"
    by (simp add: build_packet_header_def tuic_consts be_simps)
  ultimately show ?thesis
    using tuic_packet_header_roundtrip [of NoAddress 7 9 2 "[8, 8]"] by simp
qed

end
