(* ===== verification/Tuic_Connection.thy ===== *)
theory Tuic_Connection
  imports Tuic_Proto
begin

text \<open>
  One TUIC connection (\<open>tuic/connection.rs\<close>): the authentication state and its waiters, the
  UDP sessions, the handlers of streams and datagrams, and the event loop as a step relation
  in which handlers that wait for authentication are pending tasks.  What the network and the
  QUIC library decide (the keying-material exporter, name resolution, the outcome of a TCP
  connect, whether a socket can be created) is an environment record.  The state's log lists
  what the connection does to the outside world, in order.
\<close>

section \<open>The model\<close>

subsection \<open>State\<close>

datatype udp_mode = Quic | Native

text \<open>
  The close sender and the listener task of a session are tied by \<open>us_uid\<close>; the listeners
  are kept apart from the session map because they outlive, or end before, the map's entry.
\<close>

record udp_session =
  us_uid :: nat
  us_assoc_id :: u16
  us_socket_v6 :: bool
  us_close_tx :: bool

record listener =
  ls_assoc_id :: u16
  ls_socket_v6 :: bool
  ls_close_sent :: bool

datatype effect =
    TcpConnect socket_addr
  | TcpRelay socket_addr
  | ResetStream
  | UdpSend u16 socket_addr bytes
  | Datagram bytes
  | UniStream bytes
  | CloseConn string

record tuic_env =
  export_keying_material :: "bytes \<Rightarrow> rstring \<Rightarrow> bytes option"
  lookup_host :: "rstring \<Rightarrow> u16 \<Rightarrow> socket_addr list result"
  tcp_connect :: "socket_addr \<Rightarrow> dial"
  new_socket :: "u16 \<Rightarrow> unit result"
  max_udp_packet_size :: nat

record tuic_state =
  t_uuid :: "bytes option"
  t_auth :: bool
  t_users :: "bytes \<rightharpoonup> rstring"
  t_udp_relay_ipv6 :: bool
  t_sessions :: "u16 \<rightharpoonup> udp_session"
  t_listeners :: "nat \<rightharpoonup> listener"
  t_next_uid :: nat
  t_relays :: "(bytes \<times> bytes) list"
  t_mode :: "udp_mode option"
  t_closed :: bool
  t_log :: "effect list"

datatype pending =
    BiWait "u8 \<times> u8" conn
  | PacketWait packet_info conn udp_mode
  | DatagramWait bytes

record tuic_sys = tuic_state +
  t_pending :: "pending list"

definition connection_new :: "(bytes \<rightharpoonup> rstring) \<Rightarrow> bool \<Rightarrow> tuic_sys" where
  "connection_new users v6 =
     \<lparr>t_uuid = None, t_auth = False, t_users = users, t_udp_relay_ipv6 = v6, t_sessions = Map.empty,
      t_listeners = Map.empty, t_next_uid = 0, t_relays = [], t_mode = None, t_closed = False,
      t_log = [], t_pending = []\<rparr>"

abbreviation emit :: "effect \<Rightarrow> 'a tuic_state_scheme \<Rightarrow> 'a tuic_state_scheme" where
  "emit e s \<equiv> s\<lparr>t_log := t_log s @ [e]\<rparr>"

subsection \<open>Authentication\<close>

definition auth_set :: "bytes \<Rightarrow> 'a tuic_state_scheme \<Rightarrow> 'a tuic_state_scheme" where
  "auth_set u s = s\<lparr>t_uuid := Some u, t_auth := True\<rparr>"

definition validate_token :: "tuic_env \<Rightarrow> bytes \<Rightarrow> rstring \<Rightarrow> bytes \<Rightarrow> bool" where
  "validate_token env u password tok =
     (case export_keying_material env u password of
        Some expected \<Rightarrow> expected = tok
      | None \<Rightarrow> False)"

definition handle_authenticate ::
  "tuic_env \<Rightarrow> bytes \<Rightarrow> bytes \<Rightarrow> 'a tuic_state_scheme \<Rightarrow> 'a tuic_state_scheme" where
  "handle_authenticate env u tok s =
     (if t_auth s then s
      else
        (let valid = (case t_users s u of
                        Some password \<Rightarrow> validate_token env u password tok
                      | None \<Rightarrow> False)
         in if valid then auth_set u s
            else emit (CloseConn ''auth failed'') (s\<lparr>t_closed := True\<rparr>)))"

subsection \<open>UDP sessions\<close>

text \<open>IPv4-mapped IPv6 addresses are turned into IPv4 addresses, in both directions.\<close>

definition unmap :: "socket_addr \<Rightarrow> socket_addr" where
  "unmap a =
     (case a of
        SockV6 v6 p \<Rightarrow> (case to_ipv4_mapped v6 of Some v4 \<Rightarrow> SockV4 v4 p | None \<Rightarrow> a)
      | SockV4 _ _ \<Rightarrow> a)"

definition session_new ::
  "tuic_env \<Rightarrow> u16 \<Rightarrow> bool \<Rightarrow> 'a tuic_state_scheme \<Rightarrow> (udp_session \<times> 'a tuic_state_scheme) result" where
  "session_new env i v6 s =
     and_then (new_socket env i) (\<lambda>_.
       Inr (\<lparr>us_uid = t_next_uid s, us_assoc_id = i, us_socket_v6 = v6, us_close_tx = True\<rparr>,
            s\<lparr>t_listeners := (t_listeners s)(t_next_uid s \<mapsto>
                  \<lparr>ls_assoc_id = i, ls_socket_v6 = v6, ls_close_sent = False\<rparr>),
              t_next_uid := t_next_uid s + 1\<rparr>))"

definition session_send ::
  "udp_session \<Rightarrow> bytes \<Rightarrow> socket_addr \<Rightarrow> 'a tuic_state_scheme \<Rightarrow> 'a tuic_state_scheme result" where
  "session_send us pkt a s =
     (case unmap a of
        SockV4 _ _ \<Rightarrow> Inr (emit (UdpSend (us_assoc_id us) (unmap a) pkt) s)
      | SockV6 _ _ \<Rightarrow>
          if us_socket_v6 us then Inr (emit (UdpSend (us_assoc_id us) (unmap a) pkt) s)
          else Inl (Io Unsupported))"

text \<open>Closing takes the close sender and signals the listener, which ends at its next turn.\<close>

definition session_close :: "udp_session \<Rightarrow> 'a tuic_state_scheme \<Rightarrow> 'a tuic_state_scheme" where
  "session_close us s =
     (if us_close_tx us then
        (case t_listeners s (us_uid us) of
           Some l \<Rightarrow> s\<lparr>t_listeners := (t_listeners s)(us_uid us \<mapsto> l\<lparr>ls_close_sent := True\<rparr>)\<rparr>
         | None \<Rightarrow> s)
      else s)"

definition relay_udp_to_client :: "bytes \<Rightarrow> bytes \<Rightarrow> 'a tuic_state_scheme \<Rightarrow> 'a tuic_state_scheme" where
  "relay_udp_to_client header payload s =
     (case t_mode s of
        Some Quic \<Rightarrow> emit (UniStream (header @ payload)) s
      | _ \<Rightarrow> emit (Datagram (header @ payload)) s)"

text \<open>
  The listener task of \<open>UdpSession::new\<close>.  \<open>listener_recv\<close> is one received packet, cut to the
  receive buffer, from the IPv4 or the IPv6 socket: its relay is spawned as a task of its own.
  \<open>rand\<close> is the random packet id.  The task ends on the idle timer or on the close signal.
\<close>

definition listener_recv ::
  "tuic_env \<Rightarrow> nat \<Rightarrow> u16 \<Rightarrow> bytes \<Rightarrow> socket_addr \<Rightarrow> 'a tuic_state_scheme \<Rightarrow> 'a tuic_state_scheme" where
  "listener_recv env k rand dgram a s =
     (case t_listeners s k of
        Some l \<Rightarrow>
          (let pkt = take (max_udp_packet_size env) dgram;
               hdr = build_packet_header (ls_assoc_id l) rand (SocketAddress (unmap a))
                       (of_nat (length pkt))
           in case a of
                SockV4 _ _ \<Rightarrow> s\<lparr>t_relays := t_relays s @ [(hdr, pkt)]\<rparr>
              | SockV6 _ _ \<Rightarrow> if ls_socket_v6 l then s\<lparr>t_relays := t_relays s @ [(hdr, pkt)]\<rparr> else s)
      | None \<Rightarrow> s)"

definition listener_end :: "nat \<Rightarrow> 'a tuic_state_scheme \<Rightarrow> 'a tuic_state_scheme" where
  "listener_end k s = s\<lparr>t_listeners := (t_listeners s)(k := None)\<rparr>"

definition run_relay :: "nat \<Rightarrow> 'a tuic_state_scheme \<Rightarrow> 'a tuic_state_scheme" where
  "run_relay k s =
     (let (hdr, pkt) = t_relays s ! k
      in relay_udp_to_client hdr pkt
           (s\<lparr>t_relays := take k (t_relays s) @ drop (Suc k) (t_relays s)\<rparr>))"

subsection \<open>Resolution and dialling\<close>

fun resolve_addr_list :: "tuic_env \<Rightarrow> address \<Rightarrow> socket_addr list result" where
  "resolve_addr_list env NoAddress = Inl (Bail ''empty address'')"
| "resolve_addr_list env (SocketAddress sa) = Inr [sa]"
| "resolve_addr_list env (DomainAddress domain port) =
     and_then (lookup_host env domain port) (\<lambda>addrs.
       if addrs = [] then Inl (Bail ''DNS resolve failed'') else Inr addrs)"

definition resolve_addr :: "tuic_env \<Rightarrow> address \<Rightarrow> socket_addr result" where
  "resolve_addr env a =
     and_then (resolve_addr_list env a) (\<lambda>addrs.
       case addrs of sa # _ \<Rightarrow> Inr sa | [] \<Rightarrow> Inl (Bail ''no addresses resolved''))"

fun dial_loop ::
  "tuic_env \<Rightarrow> err \<Rightarrow> socket_addr list \<Rightarrow> 'a tuic_state_scheme \<Rightarrow> socket_addr result \<times> 'a tuic_state_scheme"
where
  "dial_loop env last_err [] s = (Inl last_err, s)"
| "dial_loop env last_err (sa # sas) s =
     (case tcp_connect env sa of
        Connected \<Rightarrow> (Inr sa, emit (TcpConnect sa) s)
      | Refused e \<Rightarrow> dial_loop env (Io e) sas (emit (TcpConnect sa) s)
      | TimedOut \<Rightarrow> dial_loop env (Io Other) sas (emit (TcpConnect sa) s))"

definition dial_tcp ::
  "tuic_env \<Rightarrow> address \<Rightarrow> 'a tuic_state_scheme \<Rightarrow> socket_addr result \<times> 'a tuic_state_scheme" where
  "dial_tcp env a s =
     (case resolve_addr_list env a of
        Inl e \<Rightarrow> (Inl e, s)
      | Inr addrs \<Rightarrow> dial_loop env (Bail ''no addresses resolved'') addrs s)"

subsection \<open>Command handlers\<close>

definition handle_connect :: "tuic_env \<Rightarrow> address \<Rightarrow> 'a tuic_state_scheme \<Rightarrow> 'a tuic_state_scheme" where
  "handle_connect env a s =
     (case dial_tcp env a s of
        (Inl _, s') \<Rightarrow> emit ResetStream s'
      | (Inr sa, s') \<Rightarrow> emit (TcpRelay sa) s')"

text \<open>
  The lines that log a packet compute \<open>frag_id + 1\<close> on a byte.  As in the release profile it wraps and nothing depends on it; with overflow checks
  on, a packet with \<open>frag_id\<close> 255 would end its task here.
\<close>

definition handle_packet_data ::
  "tuic_env \<Rightarrow> packet_info \<Rightarrow> bytes \<Rightarrow> udp_mode \<Rightarrow> 'a tuic_state_scheme \<Rightarrow> 'a tuic_state_scheme" where
  "handle_packet_data env info payload mode s =
     (let s = (case t_mode s of None \<Rightarrow> s\<lparr>t_mode := Some mode\<rparr> | Some _ \<Rightarrow> s);
          i = assoc_id info
      in if frag_total info \<noteq> 1 then s
         else case resolve_addr env (addr info) of
           Inl _ \<Rightarrow> s
         | Inr target_addr \<Rightarrow>
             (let found = (case t_sessions s i of
                             Some us \<Rightarrow> Inr (us, s)
                           | None \<Rightarrow>
                               and_then (session_new env i (t_udp_relay_ipv6 s) s) (\<lambda>(us, s).
                                 Inr (us, s\<lparr>t_sessions := (t_sessions s)(i \<mapsto> us)\<rparr>)))
              in case found of
                   Inl _ \<Rightarrow> s
                 | Inr (us, s) \<Rightarrow>
                     (case session_send us payload target_addr s of Inl _ \<Rightarrow> s | Inr s' \<Rightarrow> s')))"

definition handle_dissociate :: "u16 \<Rightarrow> 'a tuic_state_scheme \<Rightarrow> 'a tuic_state_scheme" where
  "handle_dissociate i s =
     (case t_sessions s i of
        Some us \<Rightarrow> session_close us (s\<lparr>t_sessions := (t_sessions s)(i := None)\<rparr>)
      | None \<Rightarrow> s)"

text \<open>After authentication a waiting packet reads its payload from the stream.\<close>

definition packet_stream_body ::
  "tuic_env \<Rightarrow> packet_info \<Rightarrow> conn \<Rightarrow> udp_mode \<Rightarrow> 'a tuic_state_scheme \<Rightarrow> 'a tuic_state_scheme" where
  "packet_stream_body env info recv mode s =
     (case read_exact (unat (size_field info)) recv of
        (Inl _, _) \<Rightarrow> s
      | (Inr payload, _) \<Rightarrow> handle_packet_data env info payload mode s)"

definition handle_packet_stream :: "tuic_env \<Rightarrow> packet_info \<Rightarrow> conn \<Rightarrow> udp_mode \<Rightarrow> tuic_sys \<Rightarrow> tuic_sys" where
  "handle_packet_stream env info recv mode s =
     (if t_auth s then packet_stream_body env info recv mode s
      else s\<lparr>t_pending := t_pending s @ [PacketWait info recv mode]\<rparr>)"

definition datagram_body :: "tuic_env \<Rightarrow> bytes \<Rightarrow> 'a tuic_state_scheme \<Rightarrow> 'a tuic_state_scheme" where
  "datagram_body env dg s =
     (case read_from_datagram dg of
        Inr (Packet info) \<Rightarrow>
          (let hdr_len = 2 + 8 + length (address_to_bytes (addr info))
           in if length dg < hdr_len then s
              else handle_packet_data env info (drop hdr_len dg) Native s)
      | _ \<Rightarrow> s)"

definition bi_body :: "tuic_env \<Rightarrow> u8 \<times> u8 \<Rightarrow> conn \<Rightarrow> 'a tuic_state_scheme \<Rightarrow> 'a tuic_state_scheme" where
  "bi_body env peek recv s =
     (case parse_command_with_prefix peek recv of
        (Inr (Connect a), _) \<Rightarrow> handle_connect env a s
      | _ \<Rightarrow> s)"

subsection \<open>Stream and datagram entry points\<close>

definition handle_uni :: "tuic_env \<Rightarrow> conn \<Rightarrow> tuic_sys \<Rightarrow> tuic_sys" where
  "handle_uni env recv s =
     (case read_exact 2 recv of
        (Inl _, _) \<Rightarrow> s
      | (Inr pk, recv) \<Rightarrow>
          (let peek = (pk ! 0, pk ! 1) in
           if \<not> is_tuic_prefix peek then s
           else case parse_command_with_prefix peek recv of
             (Inr (Authenticate auth), _) \<Rightarrow> handle_authenticate env (uuid auth) (token auth) s
           | (Inr (Packet info), recv) \<Rightarrow> handle_packet_stream env info recv Quic s
           | (Inr (Dissociate i), _) \<Rightarrow> handle_dissociate i s
           | _ \<Rightarrow> s))"

definition handle_bi :: "tuic_env \<Rightarrow> conn \<Rightarrow> tuic_sys \<Rightarrow> tuic_sys" where
  "handle_bi env recv s =
     (case read_exact 2 recv of
        (Inl _, _) \<Rightarrow> s
      | (Inr pk, recv) \<Rightarrow>
          (let peek = (pk ! 0, pk ! 1) in
           if \<not> is_tuic_prefix peek then s
           else if t_auth s then bi_body env peek recv s
           else s\<lparr>t_pending := t_pending s @ [BiWait peek recv]\<rparr>))"

definition handle_datagram :: "tuic_env \<Rightarrow> bytes \<Rightarrow> tuic_sys \<Rightarrow> tuic_sys" where
  "handle_datagram env dg s =
     (if length dg < 2 \<or> \<not> is_tuic_prefix (dg ! 0, dg ! 1) then s
      else if t_auth s then datagram_body env dg s
      else s\<lparr>t_pending := t_pending s @ [DatagramWait dg]\<rparr>)"

fun resume :: "tuic_env \<Rightarrow> pending \<Rightarrow> tuic_sys \<Rightarrow> tuic_sys" where
  "resume env (BiWait peek recv) s = bi_body env peek recv s"
| "resume env (PacketWait info recv mode) s = packet_stream_body env info recv mode s"
| "resume env (DatagramWait dg) s = datagram_body env dg s"

definition drop_pending :: "nat \<Rightarrow> tuic_sys \<Rightarrow> tuic_sys" where
  "drop_pending k s = s\<lparr>t_pending := take k (t_pending s) @ drop (Suc k) (t_pending s)\<rparr>"

definition auth_watchdog :: "tuic_sys \<Rightarrow> tuic_sys" where
  "auth_watchdog s =
     (if t_auth s then s else emit (CloseConn ''auth timeout'') (s\<lparr>t_closed := True\<rparr>))"

text \<open>
  The event loop of \<open>Connection::handle\<close> with its spawned tasks: new streams and datagrams
  are taken while the connection is open; a task that waits for authentication goes on once
  the connection is authenticated, or gives up at its timeout; the watchdog, the UDP listener
  tasks and their idle timers run on their own.  Each step is a handler from one wait for the
  connection to the next: where a handler awaits a name, a connect or a socket within a step, others
  do not interleave with it here.
\<close>

inductive tuic_step :: "tuic_env \<Rightarrow> tuic_sys \<Rightarrow> tuic_sys \<Rightarrow> bool" for env where
  accept_uni: "\<not> t_closed s \<Longrightarrow> tuic_step env s (handle_uni env recv s)"
| accept_bi: "\<not> t_closed s \<Longrightarrow> tuic_step env s (handle_bi env recv s)"
| read_datagram: "\<not> t_closed s \<Longrightarrow> tuic_step env s (handle_datagram env dg s)"
| wake: "t_auth s \<Longrightarrow> k < length (t_pending s) \<Longrightarrow>
    tuic_step env s (resume env (t_pending s ! k) (drop_pending k s))"
| give_up: "k < length (t_pending s) \<Longrightarrow> tuic_step env s (drop_pending k s)"
| watchdog: "tuic_step env s (auth_watchdog s)"
| udp_recv: "tuic_step env s (listener_recv env k rand pkt a s)"
| udp_timeout: "t_listeners s k = Some l \<Longrightarrow> tuic_step env s (listener_end k s)"
| udp_closed: "t_listeners s k = Some l \<Longrightarrow> ls_close_sent l \<Longrightarrow> tuic_step env s (listener_end k s)"
| udp_relay: "k < length (t_relays s) \<Longrightarrow> tuic_step env s (run_relay k s)"

inductive tuic_reach :: "tuic_env \<Rightarrow> tuic_sys \<Rightarrow> tuic_sys \<Rightarrow> bool" for env s0 where
  start: "tuic_reach env s0 s0"
| step: "tuic_reach env s0 s \<Longrightarrow> tuic_step env s t \<Longrightarrow> tuic_reach env s0 t"


inductive_cases tuic_stepE: "tuic_step env s t"

section \<open>The identity never changes behind the handlers\<close>

text \<open>
  \<open>keeps s t\<close>: the operation left the authentication state and the user table alone.  Every
  handler body has it; only \<open>handle_authenticate\<close> does not.
\<close>

definition keeps :: "'a tuic_state_scheme \<Rightarrow> 'a tuic_state_scheme \<Rightarrow> bool" where
  "keeps s t \<longleftrightarrow> t_auth t = t_auth s \<and> t_uuid t = t_uuid s \<and> t_users t = t_users s"

lemma keeps_refl [simp]: "keeps s s"
  by (simp add: keeps_def)

lemma keeps_emit [simp]: "keeps s (emit e t) = keeps s t" "keeps (emit e s) t = keeps s t"
  by (simp_all add: keeps_def)

lemma keeps_trans: "keeps s t \<Longrightarrow> keeps t u \<Longrightarrow> keeps s u"
  by (simp add: keeps_def)

lemma keeps_dial_loop: "keeps s (snd (dial_loop env e sas s))"
proof (induction env e sas s rule: dial_loop.induct)
  case (2 env e sa sas s)
  then show ?case by (auto split: dial.splits)
qed simp

lemma keeps_handle_connect: "keeps s (handle_connect env a s)"
proof -
  have "keeps s (snd (dial_tcp env a s))"
    by (simp add: dial_tcp_def keeps_dial_loop split: sum.splits)
  then show ?thesis by (auto simp: handle_connect_def split: prod.splits sum.splits)
qed

lemma keeps_session_new: "session_new env i v6 s = Inr (us, t) \<Longrightarrow> keeps s t"
  by (auto simp: session_new_def and_then_eq_Inr keeps_def)

lemma keeps_session_send: "session_send us pkt a s = Inr t \<Longrightarrow> keeps s t"
  by (auto simp: session_send_def split: socket_addr.splits if_splits)

lemma keeps_session_close: "keeps s (session_close us s)"
  by (simp add: session_close_def keeps_def split: option.splits)

lemma keeps_handle_dissociate: "keeps s (handle_dissociate i s)"
  using keeps_session_close [of "s\<lparr>t_sessions := (t_sessions s)(i := None)\<rparr>"]
  by (simp add: handle_dissociate_def keeps_def split: option.splits)

lemma keeps_relay: "keeps s (relay_udp_to_client h p s)"
  by (simp add: relay_udp_to_client_def split: option.splits udp_mode.splits)

text \<open>What handling a packet can do, in one rule: nothing, or set the mode and perhaps send.\<close>

lemma handle_packet_data_cases:
  obtains (dropped) m where "handle_packet_data env info payload mode s = s\<lparr>t_mode := m\<rparr>"
  | (old) m us where "handle_packet_data env info payload mode s
      = (case session_send us payload (projr (resolve_addr env (addr info))) (s\<lparr>t_mode := m\<rparr>) of
           Inl _ \<Rightarrow> s\<lparr>t_mode := m\<rparr> | Inr s' \<Rightarrow> s')"
      "t_sessions s (assoc_id info) = Some us"
  | (fresh) m us s1 where "session_new env (assoc_id info) (t_udp_relay_ipv6 s) (s\<lparr>t_mode := m\<rparr>) = Inr (us, s1)"
      "t_sessions s (assoc_id info) = None"
      "handle_packet_data env info payload mode s
      = (let s2 = s1\<lparr>t_sessions := (t_sessions s1)(assoc_id info \<mapsto> us)\<rparr>
         in case session_send us payload (projr (resolve_addr env (addr info))) s2 of
           Inl _ \<Rightarrow> s2 | Inr s' \<Rightarrow> s')"
proof -
  define m where "m = (case t_mode s of None \<Rightarrow> Some mode | Some x \<Rightarrow> Some x)"
  have m: "(case t_mode s of None \<Rightarrow> s\<lparr>t_mode := Some mode\<rparr> | Some _ \<Rightarrow> s) = s\<lparr>t_mode := m\<rparr>"
    by (simp add: m_def split: option.splits)
  note eq = handle_packet_data_def [of env info payload mode s, unfolded m Let_def]
  show thesis
  proof (cases "frag_total info \<noteq> 1 \<or> isl (resolve_addr env (addr info))")
    case True
    then have "handle_packet_data env info payload mode s = s\<lparr>t_mode := m\<rparr>"
      by (auto simp: eq isl_def)
    then show thesis by (rule dropped)
  next
    case False
    then obtain ta where f: "frag_total info = 1" "resolve_addr env (addr info) = Inr ta"
      by (cases "resolve_addr env (addr info)") auto
    show thesis
    proof (cases "t_sessions s (assoc_id info)")
      case (Some us)
      with f show thesis by (intro old [of m us]) (simp_all add: eq)
    next
      case None
      show thesis
      proof (cases "session_new env (assoc_id info) (t_udp_relay_ipv6 s) (s\<lparr>t_mode := m\<rparr>)")
        case (Inl e)
        with f None show thesis by (intro dropped [of m]) (simp add: eq)
      next
        case (Inr p)
        with f None show thesis
          by (intro fresh [of m "fst p" "snd p"]) (simp_all add: eq split_beta Let_def)
      qed
    qed
  qed
qed

lemma keeps_handle_packet_data: "keeps s (handle_packet_data env info payload mode s)"
proof (cases rule: handle_packet_data_cases [of env info payload mode s])
  case (dropped m)
  then show ?thesis by (simp add: keeps_def)
next
  case (old m us)
  then show ?thesis
    by (auto simp: keeps_def dest!: keeps_session_send split: sum.splits)
next
  case (fresh m us s1)
  then show ?thesis
    by (auto simp: keeps_def Let_def dest!: keeps_session_send keeps_session_new split: sum.splits)
qed

lemma keeps_bodies:
  "keeps s (bi_body env peek recv s)"
  "keeps s (packet_stream_body env info recv mode s)"
  "keeps s (datagram_body env dg s)"
  by (auto simp: bi_body_def packet_stream_body_def datagram_body_def Let_def keeps_handle_connect
      keeps_handle_packet_data split: prod.splits sum.splits tuic_command.splits)

lemma keeps_resume: "keeps s (resume env p s)"
  by (cases p) (simp_all add: keeps_bodies)

lemma keeps_listener:
  "keeps s (listener_recv env k r pkt a s)" "keeps s (listener_end k s)" "keeps s (run_relay k s)"
  by (auto simp: listener_recv_def listener_end_def run_relay_def keeps_def Let_def
      keeps_relay [unfolded keeps_def] split: option.splits socket_addr.splits prod.splits)

lemma keeps_bi_datagram: "keeps s (handle_bi env recv s)" "keeps s (handle_datagram env dg s)"
  by (auto simp: handle_bi_def handle_datagram_def Let_def keeps_bodies split: prod.splits sum.splits)
    (auto simp: keeps_def)

lemma keeps_packet_stream: "keeps s (handle_packet_stream env info recv mode s)"
  by (simp add: handle_packet_stream_def keeps_bodies) (simp add: keeps_def)

lemmas keeps_intros = keeps_handle_connect keeps_handle_packet_data keeps_handle_dissociate
  keeps_bodies keeps_resume keeps_listener keeps_bi_datagram keeps_packet_stream


section \<open>Authentication gates every effect\<close>

fun outbound :: "effect \<Rightarrow> bool" where
  "outbound (CloseConn _) = False"
| "outbound _ = True"

definition quiet :: "'a tuic_state_scheme \<Rightarrow> bool" where
  "quiet s \<longleftrightarrow>
     t_uuid s = None \<and> t_sessions s = Map.empty \<and> t_listeners s = Map.empty \<and> t_relays s = []
     \<and> t_mode s = None \<and> (\<forall>e \<in> set (t_log s). \<not> outbound e)"

text \<open>A stream that carries an authenticate command with the token of a configured user.\<close>

definition valid_auth_stream :: "tuic_env \<Rightarrow> (bytes \<rightharpoonup> rstring) \<Rightarrow> bytes \<Rightarrow> conn \<Rightarrow> bool" where
  "valid_auth_stream env users u recv \<longleftrightarrow>
     (\<exists>pw tok rest. users u = Some pw \<and> export_keying_material env u pw = Some tok
        \<and> length u = 16 \<and> length tok = 32
        \<and> rx recv = [VERSION, CMD_AUTHENTICATE] @ u @ tok @ rest)"

lemma read_auth_info_ok:
  assumes "read_auth_info c = (Inr cmd, c')"
  shows "\<exists>a. cmd = Authenticate a \<and> rx c = uuid a @ token a @ rx c'
    \<and> length (uuid a) = 16 \<and> length (token a) = 32"
proof -
  have c: "48 \<le> length (rx c)" "c' = c\<lparr>rx := drop 48 (rx c)\<rparr>"
    "cmd = Authenticate \<lparr>uuid = take 16 (rx c), token = take 32 (drop 16 (rx c))\<rparr>"
    using assms by (auto simp: read_auth_info_def bind_io_eq_Inr return_io_def take_drop dest!: read_exact_ok)
  have "rx c = take 16 (rx c) @ take 32 (drop 16 (rx c)) @ drop 32 (drop 16 (rx c))"
    by (simp only: append_take_drop_id)
  with c show ?thesis by simp
qed

lemma parse_command_authenticate:
  assumes "parse_command_with_prefix p c = (Inr (Authenticate a), c')"
  shows "p = (VERSION, CMD_AUTHENTICATE) \<and> rx c = uuid a @ token a @ rx c'
    \<and> length (uuid a) = 16 \<and> length (token a) = 32"
  using assms read_auth_info_ok [of c "Authenticate a" c']
  by (cases p)
    (auto simp: parse_command_with_prefix_def Let_def fail_io_def bind_io_eq_Inr return_io_def
      read_packet_info_def read_dissociate_def split: if_splits)

lemma handle_authenticate_cases:
  "handle_authenticate env u tok s = s
   \<or> handle_authenticate env u tok s = emit (CloseConn ''auth failed'') (s\<lparr>t_closed := True\<rparr>)
   \<or> (\<exists>pw. t_users s u = Some pw \<and> export_keying_material env u pw = Some tok
        \<and> handle_authenticate env u tok s = auth_set u s)"
  by (auto simp: handle_authenticate_def validate_token_def split: option.splits)

lemma handle_uni_cases:
  obtains (keep) "handle_uni env recv s = s"
  | (auth) u tok where "handle_uni env recv s = handle_authenticate env u tok s"
      "length u = 16" "length tok = 32"
      "take 50 (rx recv) = [VERSION, CMD_AUTHENTICATE] @ u @ tok"
  | (packet) info recv' where "handle_uni env recv s = handle_packet_stream env info recv' Quic s"
  | (dissociate) i where "handle_uni env recv s = handle_dissociate i s"
proof (cases "2 \<le> length (rx recv) \<and> is_tuic_prefix (rx recv ! 0, rx recv ! 1)")
  case False
  then show thesis
    by (intro keep) (auto simp: handle_uni_def read_exact_def Let_def)
next
  case True
  let ?c = "recv\<lparr>rx := drop 2 (rx recv)\<rparr>"
  obtain r c1 where p: "parse_command_with_prefix (rx recv ! 0, rx recv ! 1) ?c = (r, c1)"
    by fastforce
  have h: "handle_uni env recv s = (case (r, c1) of
      (Inr (Authenticate auth), _) \<Rightarrow> handle_authenticate env (uuid auth) (token auth) s
    | (Inr (Packet info), recv) \<Rightarrow> handle_packet_stream env info recv Quic s
    | (Inr (Dissociate i), _) \<Rightarrow> handle_dissociate i s
    | _ \<Rightarrow> s)"
    using True p by (simp add: handle_uni_def read_exact_def Let_def del: is_tuic_prefix.simps)
  show thesis
  proof (cases "\<exists>a. r = Inr (Authenticate a)")
    case a: True
    then obtain a where r: "r = Inr (Authenticate a)" by blast
    note pa = parse_command_authenticate [OF p [unfolded r]]
    have "rx recv = [rx recv ! 0, rx recv ! 1] @ drop 2 (rx recv)"
      using True by (cases "rx recv"; cases "tl (rx recv)") auto
    with pa have "rx recv = [VERSION, CMD_AUTHENTICATE] @ uuid a @ token a @ rx c1" by simp
    then have "take 50 (rx recv) = [VERSION, CMD_AUTHENTICATE] @ uuid a @ token a"
      using pa by simp
    with pa h r show thesis by (intro auth [of "uuid a" "token a"]) simp_all
  next
    case False
    with h show thesis
      by (cases r) (auto split: tuic_command.splits intro: keep packet dissociate)
  qed
qed

lemma quiet_pending [simp]: "quiet (s\<lparr>t_pending := p\<rparr>) = quiet (s :: tuic_sys)"
  by (simp add: quiet_def)

lemma quiet_step:
  assumes "tuic_step env s t" "quiet s" "\<not> t_auth s" "\<not> t_auth t"
  shows "quiet t"
  using assms
proof (cases rule: tuic_step.cases)
  case (accept_uni recv)
  show ?thesis
  proof (cases rule: handle_uni_cases [of env recv s])
    case (auth u tok)
    with accept_uni assms handle_authenticate_cases [of env u tok s] show ?thesis
      by (auto simp: quiet_def auth_set_def)
  qed (use accept_uni assms in \<open>auto simp: handle_packet_stream_def handle_dissociate_def,
        auto simp: quiet_def\<close>)
qed (auto simp: handle_bi_def handle_datagram_def drop_pending_def auth_watchdog_def
    listener_recv_def quiet_def Let_def split: prod.splits sum.splits)

lemma keeps_drop_pending: "keeps s (drop_pending k s)"
  by (simp add: drop_pending_def keeps_def)

lemma keeps_watchdog: "keeps s (auth_watchdog s)"
  by (simp add: auth_watchdog_def keeps_def)

text \<open>Every step keeps the identity, or accepts a stream that proves one.\<close>

lemma step_keeps_or_auth:
  assumes "tuic_step env s t"
  shows "keeps s t \<or> (\<exists>recv u. \<not> t_closed s \<and> t = handle_uni env recv s \<and> t = auth_set u s
    \<and> valid_auth_stream env (t_users s) u recv)"
  using assms
proof (cases rule: tuic_step.cases)
  case (accept_uni recv)
  show ?thesis
  proof (cases rule: handle_uni_cases [of env recv s])
    case (auth u tok)
    then have "rx recv = [VERSION, CMD_AUTHENTICATE] @ u @ tok @ drop 50 (rx recv)"
      by (metis append.assoc append_take_drop_id)
    with auth have v: "valid_auth_stream env (t_users s) u recv"
      if "t_users s u = Some pw" "export_keying_material env u pw = Some tok" for pw
      using that by (auto simp: valid_auth_stream_def)
    consider "t = s" | "t = emit (CloseConn ''auth failed'') (s\<lparr>t_closed := True\<rparr>)"
      | pw where "t_users s u = Some pw" "export_keying_material env u pw = Some tok" "t = auth_set u s"
      using handle_authenticate_cases [of env u tok s] auth(1) accept_uni(1) by auto
    then show ?thesis
      by cases (use v accept_uni in \<open>auto simp: keeps_def\<close>)
  qed (use accept_uni in \<open>simp_all add: keeps_packet_stream keeps_handle_dissociate\<close>)
qed (simp_all add: keeps_intros keeps_drop_pending keeps_watchdog
    keeps_trans [OF keeps_drop_pending keeps_resume])

lemma users_step: "tuic_step env s t \<Longrightarrow> t_users t = t_users s"
  using step_keeps_or_auth [of env s t] by (auto simp: keeps_def auth_set_def)

lemma users_reach: "tuic_reach env s0 s \<Longrightarrow> t_users s = t_users s0"
  by (induction rule: tuic_reach.induct) (simp_all add: users_step)

lemma tuic_reach_trans: "tuic_reach env s t \<Longrightarrow> tuic_reach env r s \<Longrightarrow> tuic_reach env r t"
  by (induction rule: tuic_reach.induct) (auto intro: tuic_reach.intros)

text \<open>
  The history of a connection: it is quiet, or some earlier state accepted the stream that
  authenticated it.
\<close>

definition authenticated_by :: "tuic_env \<Rightarrow> tuic_sys \<Rightarrow> tuic_sys \<Rightarrow> bytes \<Rightarrow> bool" where
  "authenticated_by env s0 s u \<longleftrightarrow>
     t_uuid s = Some u \<and>
     (\<exists>s1 recv. tuic_reach env s0 s1 \<and> \<not> t_closed s1 \<and> valid_auth_stream env (t_users s0) u recv
        \<and> tuic_reach env (handle_uni env recv s1) s)"

lemma reach_gate:
  assumes "tuic_reach env (connection_new users v6) s"
  shows "(if t_auth s then \<exists>u. authenticated_by env (connection_new users v6) s u else quiet s)"
  using assms
proof (induction rule: tuic_reach.induct)
  case start
  show ?case by (simp add: connection_new_def quiet_def)
next
  case (step s t)
  show ?case
  proof (cases "keeps s t")
    case True
    with step show ?thesis
      by (auto simp: keeps_def authenticated_by_def intro: tuic_reach.step quiet_step split: if_splits)
  next
    case False
    then obtain recv u where a: "\<not> t_closed s" "t = handle_uni env recv s" "t = auth_set u s"
      "valid_auth_stream env (t_users s) u recv"
      using step_keeps_or_auth [OF step.hyps(2)] by blast
    have "tuic_reach env (handle_uni env recv s) t"
      using a(2) by (simp add: tuic_reach.start)
    with a(1,4) step.hyps(1) users_reach [OF step.hyps(1)]
    have "authenticated_by env (connection_new users v6) t u"
      unfolding authenticated_by_def a(3) by (auto simp: auth_set_def)
    with a(3) show ?thesis by (auto simp: auth_set_def)
  qed
qed


section \<open>Sessions and listeners\<close>

definition sess_ok :: "'a tuic_state_scheme \<Rightarrow> u16 \<Rightarrow> udp_session \<Rightarrow> bool" where
  "sess_ok s i us \<longleftrightarrow>
     us_assoc_id us = i \<and> us_uid us < t_next_uid s \<and> us_close_tx us
     \<and> (\<forall>l. t_listeners s (us_uid us) = Some l \<longrightarrow> ls_assoc_id l = i)"

definition sess_inv :: "'a tuic_state_scheme \<Rightarrow> bool" where
  "sess_inv s \<longleftrightarrow>
     (\<forall>i us. t_sessions s i = Some us \<longrightarrow> sess_ok s i us)
     \<and> (\<forall>k l. t_listeners s k = Some l \<longrightarrow> k < t_next_uid s)"

text \<open>
  \<open>evolves s t\<close>: session numbers only grow, a listener that has ended does not come back, and
  the session invariant is kept.
\<close>

definition evolves :: "'a tuic_state_scheme \<Rightarrow> 'a tuic_state_scheme \<Rightarrow> bool" where
  "evolves s t \<longleftrightarrow>
     t_next_uid s \<le> t_next_uid t
     \<and> (\<forall>k < t_next_uid s. t_listeners s k = None \<longrightarrow> t_listeners t k = None)
     \<and> (sess_inv s \<longrightarrow> sess_inv t)"

lemma evolves_trans: "evolves s t \<Longrightarrow> evolves t u \<Longrightarrow> evolves s u"
  by (auto simp: evolves_def dest: order.strict_trans2)

lemma evolves_same:
  "t_sessions t = t_sessions s \<Longrightarrow> t_listeners t = t_listeners s \<Longrightarrow> t_next_uid t = t_next_uid s \<Longrightarrow>
   evolves s t"
  by (simp add: evolves_def sess_inv_def sess_ok_def)

lemma evolves_emit [simp]: "evolves s (emit e t) = evolves s t"
  by (simp add: evolves_def sess_inv_def sess_ok_def)

lemma same_dial_loop:
  "t_sessions (snd (dial_loop env e sas s)) = t_sessions s
   \<and> t_listeners (snd (dial_loop env e sas s)) = t_listeners s
   \<and> t_next_uid (snd (dial_loop env e sas s)) = t_next_uid s"
  by (induction env e sas s rule: dial_loop.induct) (auto split: dial.splits)

lemma evolves_connect: "evolves s (handle_connect env a s)"
proof -
  have "evolves s (snd (dial_tcp env a s))"
    by (rule evolves_same) (simp_all add: dial_tcp_def same_dial_loop split: sum.splits)
  then show ?thesis
    by (auto simp: handle_connect_def split: prod.splits sum.splits)
qed

lemma evolves_session_send: "session_send us pkt a s = Inr t \<Longrightarrow> evolves s t"
  by (rule evolves_same) (auto simp: session_send_def split: socket_addr.splits if_splits)

lemma evolves_fresh:
  assumes "session_new env i v6 s = Inr (us, s1)"
  shows "evolves s (s1\<lparr>t_sessions := (t_sessions s1)(i \<mapsto> us)\<rparr>)"
proof -
  let ?n = "t_next_uid s" and ?t = "s1\<lparr>t_sessions := (t_sessions s1)(i \<mapsto> us)\<rparr>"
  have us: "us = \<lparr>us_uid = ?n, us_assoc_id = i, us_socket_v6 = v6, us_close_tx = True\<rparr>"
    and s1: "s1 = s\<lparr>t_listeners := (t_listeners s)(?n \<mapsto>
      \<lparr>ls_assoc_id = i, ls_socket_v6 = v6, ls_close_sent = False\<rparr>), t_next_uid := ?n + 1\<rparr>"
    using assms by (auto simp: session_new_def and_then_eq_Inr)
  have "sess_inv ?t" if inv: "sess_inv s"
    unfolding sess_inv_def
  proof (intro conjI allI impI)
    fix j vs assume j: "t_sessions ?t j = Some vs"
    show "sess_ok ?t j vs"
    proof (cases "j = i")
      case True
      with j show ?thesis by (auto simp: us s1 sess_ok_def)
    next
      case False
      with j have "sess_ok s j vs" using inv by (simp add: s1 sess_inv_def)
      then show ?thesis by (simp add: s1 sess_ok_def)
    qed
  next
    fix k l assume k: "t_listeners ?t k = Some l"
    show "k < t_next_uid ?t"
    proof (cases "k = ?n")
      case False
      with k have "k < ?n" using inv by (simp add: s1 sess_inv_def)
      then show ?thesis by (simp add: s1)
    qed (simp add: s1)
  qed
  then show ?thesis by (simp add: evolves_def s1)
qed

lemma evolves_mode: "evolves s (s\<lparr>t_mode := m\<rparr>)"
  by (rule evolves_same) simp_all

lemma evolves_packet_data: "evolves s (handle_packet_data env info payload mode s)"
proof (cases rule: handle_packet_data_cases [of env info payload mode s])
  case (dropped m)
  then show ?thesis by (simp add: evolves_mode)
next
  case (old m us)
  then show ?thesis
    by (auto simp: evolves_mode intro: evolves_trans [OF evolves_mode] dest!: evolves_session_send
        split: sum.splits)
next
  case (fresh m us s1)
  from evolves_trans [OF evolves_mode evolves_fresh [OF fresh(1)]] show ?thesis
    unfolding fresh(3) Let_def by (auto dest!: evolves_session_send intro: evolves_trans split: sum.splits)
qed

lemma evolves_session_close: "evolves s (session_close us s)"
proof (cases "us_close_tx us \<and> t_listeners s (us_uid us) \<noteq> None")
  case True
  then obtain l where l: "t_listeners s (us_uid us) = Some l" "us_close_tx us" by auto
  let ?t = "s\<lparr>t_listeners := (t_listeners s)(us_uid us \<mapsto> l\<lparr>ls_close_sent := True\<rparr>)\<rparr>"
  have ok: "sess_ok ?t j vs" if "sess_ok s j vs" for j vs
    using that l by (cases "us_uid vs = us_uid us") (simp_all add: sess_ok_def)
  have "sess_inv ?t" if "sess_inv s"
    using that l ok by (simp add: sess_inv_def)
  then show ?thesis using l by (simp add: session_close_def evolves_def)
next
  case False
  then show ?thesis by (auto simp: session_close_def intro!: evolves_same split: option.splits)
qed

lemma evolves_dissociate: "evolves s (handle_dissociate i s)"
proof (cases "t_sessions s i")
  case (Some us)
  have "evolves s (s\<lparr>t_sessions := (t_sessions s)(i := None)\<rparr>)"
    by (simp add: evolves_def sess_inv_def sess_ok_def)
  from evolves_trans [OF this evolves_session_close] Some show ?thesis
    by (simp add: handle_dissociate_def)
qed (simp add: handle_dissociate_def evolves_same)

lemma evolves_bodies:
  "evolves s (bi_body env peek recv s)" "evolves s (packet_stream_body env info recv mode s)"
  "evolves s (datagram_body env dg s)"
  by (auto simp: bi_body_def packet_stream_body_def datagram_body_def Let_def evolves_connect
      evolves_packet_data evolves_same split: prod.splits sum.splits tuic_command.splits)

lemma evolves_listener:
  "evolves s (listener_recv env k r pkt a s)" "evolves s (listener_end k s)" "evolves s (run_relay k s)"
proof -
  show "evolves s (listener_recv env k r pkt a s)"
    by (rule evolves_same)
      (simp_all add: listener_recv_def Let_def split: option.splits socket_addr.splits)
  show "evolves s (run_relay k s)"
    by (rule evolves_same)
      (simp_all add: run_relay_def relay_udp_to_client_def Let_def split: option.splits prod.splits udp_mode.splits)
  show "evolves s (listener_end k s)"
    by (simp add: evolves_def sess_inv_def sess_ok_def listener_end_def)
qed

lemma evolves_pending: "evolves s (s\<lparr>t_pending := p\<rparr>)" for s :: tuic_sys
  by (rule evolves_same) simp_all

lemma evolves_bi_datagram: "evolves s (handle_bi env recv s)" "evolves s (handle_datagram env dg s)"
  by (simp_all add: handle_bi_def handle_datagram_def Let_def evolves_bodies evolves_pending evolves_same
      split: prod.splits sum.splits)

lemma evolves_uni: "evolves s (handle_uni env recv s)"
proof (cases rule: handle_uni_cases [of env recv s])
  case (auth u tok)
  then show ?thesis
    by (auto intro!: evolves_same simp: handle_authenticate_def auth_set_def Let_def split: option.splits)
qed (simp_all add: evolves_same evolves_dissociate handle_packet_stream_def evolves_bodies evolves_pending)

lemma evolves_step: "tuic_step env s t \<Longrightarrow> evolves s t"
proof (induction rule: tuic_step.induct)
  case (wake s k)
  have "evolves (drop_pending k s) (resume env p (drop_pending k s))" for p
    by (cases p) (simp_all add: evolves_bodies)
  then show ?case by (rule evolves_trans [rotated]) (simp add: drop_pending_def evolves_pending)
qed (simp_all add: evolves_uni evolves_bi_datagram evolves_listener drop_pending_def evolves_pending
    auth_watchdog_def evolves_same)

lemma evolves_reach: "tuic_reach env s t \<Longrightarrow> evolves s t"
  by (induction rule: tuic_reach.induct) (auto intro: evolves_same evolves_trans evolves_step)

lemma sess_inv_reach: "tuic_reach env (connection_new users v6) s \<Longrightarrow> sess_inv s"
  using evolves_reach [of env "connection_new users v6" s]
  by (auto simp: evolves_def sess_inv_def connection_new_def)


section \<open>Datagrams\<close>

text \<open>The offset the datagram handler computes is where the parser stopped.\<close>

lemma read_from_datagram_packet:
  assumes "read_from_datagram dg = Inr (Packet info)"
  shows "2 + 8 + length (address_to_bytes (addr info)) \<le> length dg
    \<and> rx (snd (read_from_sync (cursor dg))) = drop (2 + 8 + length (address_to_bytes (addr info))) dg"
proof -
  obtain c' where r: "read_from_sync (cursor dg) = (Inr (Packet info), c')"
    using assms by (cases "read_from_sync (cursor dg)") (simp add: read_from_datagram_def)
  then obtain hdr c1 buf c2 where h: "read_exact 2 (cursor dg) = (Inr hdr, c1)"
    "read_exact 8 c1 = (Inr buf, c2)" "address_read_from c2 = (Inr (addr info), c')"
    by (auto simp: read_from_sync_def read_address_sync_eq Let_def bind_io_eq_Inr read_auth_info_def
        read_dissociate_def read_packet_info_def return_io_def fail_io_def split: if_splits)
  from h(1,2) have d: "10 \<le> length dg" "rx c2 = drop 10 dg"
    by (auto simp: cursor_def dest!: read_exact_ok)
  obtain xs where xs: "rx c2 = xs @ rx c'" "length xs = length (address_to_bytes (addr info))"
    using address_read_consumed [OF h(3)] by blast
  have "length (drop 10 dg) = length (xs @ rx c')"
    by (simp only: xs(1) [symmetric] d(2) [symmetric])
  with d(1) have len: "length dg = 10 + length xs + length (rx c')" by simp
  have "drop (length xs) (drop 10 dg) = rx c'"
    by (simp only: d(2) [symmetric] xs(1)) simp
  with len xs(2) r show ?thesis by (simp add: add.commute)
qed

lemma packet_data_delivers:
  assumes "sess_inv s" "frag_total info = 1" "resolve_addr env (addr info) = Inr a"
    "unmap a = SockV4 ip port" "new_socket env (assoc_id info) = Inr x"
  shows "t_log (handle_packet_data env info payload mode s)
    = t_log s @ [UdpSend (assoc_id info) (SockV4 ip port) payload]"
proof (cases "t_sessions s (assoc_id info)")
  case None
  with assms show ?thesis
    by (simp add: handle_packet_data_def session_new_def session_send_def Let_def split: option.splits)
next
  case (Some us)
  then have "us_assoc_id us = assoc_id info"
    using assms(1) by (simp add: sess_inv_def sess_ok_def)
  with Some assms(2-) show ?thesis
    by (simp add: handle_packet_data_def session_send_def Let_def split: option.splits)
qed

lemma handle_datagram_packet:
  assumes "t_auth s" "address_ok (addr info)"
  shows "handle_datagram env (enc_packet info @ payload) s = handle_packet_data env info payload Native s"
proof -
  let ?dg = "enc_packet info @ payload"
  have "read_from_datagram ?dg = Inr (Packet info)"
    using read_from_sync_packet [OF assms(2), of payload "cursor []"]
    by (simp add: read_from_datagram_def cursor_def)
  moreover have "length (enc_packet info) = 2 + 8 + length (address_to_bytes (addr info))"
    by (simp add: enc_packet_def)
  moreover have "is_tuic_prefix (?dg ! 0, ?dg ! 1)" "2 \<le> length ?dg"
    by (simp_all add: enc_packet_def tuic_consts)
  ultimately show ?thesis
    using assms(1) by (simp add: handle_datagram_def datagram_body_def del: is_tuic_prefix.simps)
qed

text \<open>A sample connection for the concrete instances below: one user, authenticated by one stream.\<close>

definition demo_env :: tuic_env where
  "demo_env = \<lparr>export_keying_material = (\<lambda>_ _. Some (replicate 32 2)), lookup_host = (\<lambda>_ _. Inr []),
    tcp_connect = (\<lambda>_. Connected), new_socket = (\<lambda>_. Inr ()), max_udp_packet_size = 1500\<rparr>"

definition demo_start :: tuic_sys where
  "demo_start = connection_new [replicate 16 1 \<mapsto> str ''pw''] False"

definition demo_packet :: packet_info where
  "demo_packet = \<lparr>assoc_id = 7, pkt_id = 9, frag_total = 1, frag_id = 0, size_field = 1,
    addr = SocketAddress (SockV4 0x08080404 53)\<rparr>"

lemma demo_authed:
  "tuic_step demo_env demo_start (auth_set (replicate 16 1) demo_start)"
proof -
  let ?recv = "cursor ([5, 0] @ replicate 16 1 @ replicate 32 2)"
  have "handle_uni demo_env ?recv demo_start = auth_set (replicate 16 1) demo_start"
    by (simp add: handle_uni_def cursor_def read_exact_def Let_def parse_command_with_prefix_def
        tuic_consts read_auth_info_def bind_io_def return_io_def handle_authenticate_def
        demo_env_def demo_start_def connection_new_def validate_token_def)
  with tuic_step.accept_uni [of demo_start demo_env ?recv] show ?thesis
    by (simp add: demo_start_def connection_new_def)
qed

lemmas demo_reach = tuic_reach.step [OF tuic_reach.start demo_authed]

lemma demo_state: "t_auth (auth_set u demo_start)" "t_uuid (auth_set u demo_start) = Some u"
  "t_log (auth_set u demo_start) = []" "\<not> t_closed (auth_set u demo_start)"
  by (simp_all add: auth_set_def demo_start_def connection_new_def)

section \<open>Properties\<close>

text \<open>
  C1.  Whatever a client sends and in whatever order the tasks run: a connection opens no TCP
  connection, sends or relays no UDP packet, resets no stream, keeps no session, no listener and
  no relay mode unless an earlier unidirectional stream carried an authenticate command with the
  UUID of a configured user and the token exported for that user's password; the identity it then
  holds is that user's.
\<close>

theorem tuic_auth_gate:
  assumes "tuic_reach env (connection_new users v6) s"
    and "(\<exists>e \<in> set (t_log s). outbound e) \<or> t_sessions s \<noteq> Map.empty \<or> t_listeners s \<noteq> Map.empty
       \<or> t_relays s \<noteq> [] \<or> t_mode s \<noteq> None \<or> t_auth s"
  shows "t_auth s \<and> (\<exists>u. authenticated_by env (connection_new users v6) s u)"
  using reach_gate [OF assms(1)] assms(2) by (auto simp: quiet_def split: if_splits)

theorem tuic_auth_gate_witness:
  "\<exists>s. tuic_reach demo_env (connection_new [replicate 16 1 \<mapsto> str ''pw''] False) s \<and> t_auth s
     \<and> authenticated_by demo_env (connection_new [replicate 16 1 \<mapsto> str ''pw''] False) s (replicate 16 1)"
proof -
  obtain u where "authenticated_by demo_env demo_start (auth_set (replicate 16 1) demo_start) u"
    using tuic_auth_gate [OF demo_reach [unfolded demo_start_def]] demo_state
    unfolding demo_start_def by blast
  moreover from this demo_state(2) have "u = replicate 16 1" by (simp add: authenticated_by_def)
  ultimately show ?thesis using demo_reach demo_state(1) unfolding demo_start_def by blast
qed

text \<open>
  On an authenticated connection in any reachable state, a datagram with an unfragmented
  packet for an IPv4 (or IPv4-mapped) target sends exactly its payload, once, to that target from
  the session of its association, whether the session is new or not.
\<close>

theorem tuic_datagram_delivery:
  assumes "tuic_reach env (connection_new users v6) s" "t_auth s"
    and "frag_total info = 1" "addr info = SocketAddress a" "unmap a = SockV4 ip port"
    and "new_socket env (assoc_id info) = Inr ()"
  shows "t_log (handle_datagram env (enc_packet info @ payload) s)
    = t_log s @ [UdpSend (assoc_id info) (SockV4 ip port) payload]"
  using packet_data_delivers [OF sess_inv_reach [OF assms(1)] assms(3), of env a ip port "()"] assms
  by (simp add: handle_datagram_packet resolve_addr_def)

theorem tuic_datagram_delivery_witness:
  "t_log (handle_datagram demo_env ([5, 2, 0, 7, 0, 9, 1, 0, 0, 1, 1, 8, 8, 4, 4, 0, 53] @ [42])
     (auth_set (replicate 16 1) demo_start)) = [UdpSend 7 (SockV4 0x08080404 53) [42]]"
proof -
  have e: "enc_packet demo_packet = [5, 2, 0, 7, 0, 9, 1, 0, 0, 1, 1, 8, 8, 4, 4, 0, 53]"
    by (simp add: demo_packet_def enc_packet_def tuic_consts be_simps octets4_def)
  have "frag_total demo_packet = 1" "addr demo_packet = SocketAddress (SockV4 0x08080404 53)"
    "unmap (SockV4 0x08080404 53) = SockV4 0x08080404 53" "assoc_id demo_packet = 7"
    "new_socket demo_env (assoc_id demo_packet) = Inr ()"
    by (simp_all add: demo_packet_def unmap_def demo_env_def)
  from tuic_datagram_delivery [OF demo_reach [unfolded demo_start_def] _ this(1-3,5), of "[42]"] this(4)
  show ?thesis using demo_state e by (simp add: demo_start_def)
qed

text \<open>
  The listener of a UDP session never comes back.  Once the idle timer has ended it, the
  session stays in the map: a further packet of that association is still sent from the same
  session and starts no listener, and as long as that session is the association's, no listener
  task for it runs, so no reply is relayed to the client.
\<close>

theorem tuic_idle_session_deaf:
  assumes "tuic_reach env (connection_new users v6) s"
    and "t_sessions s (assoc_id info) = Some us" "t_listeners s (us_uid us) = None"
  shows "t_sessions (handle_packet_data env info payload mode s) (assoc_id info) = Some us
    \<and> t_listeners (handle_packet_data env info payload mode s) = t_listeners s
    \<and> (\<forall>t. tuic_reach env s t \<longrightarrow> t_listeners t (us_uid us) = None)"
proof (intro conjI allI impI)
  show "t_sessions (handle_packet_data env info payload mode s) (assoc_id info) = Some us"
    "t_listeners (handle_packet_data env info payload mode s) = t_listeners s"
    using assms(2)
    by (auto simp: handle_packet_data_def session_send_def Let_def
        split: option.splits sum.splits socket_addr.splits)
  fix t assume "tuic_reach env s t"
  then have "evolves s t" by (rule evolves_reach)
  moreover have "us_uid us < t_next_uid s"
    using sess_inv_reach [OF assms(1)] assms(2) by (simp add: sess_inv_def sess_ok_def)
  ultimately show "t_listeners t (us_uid us) = None"
    using assms(3) by (simp add: evolves_def)
qed

theorem tuic_idle_session_deaf_witness:
  "\<exists>s us. tuic_reach demo_env demo_start s \<and> t_sessions s 7 = Some us
     \<and> t_listeners (handle_packet_data demo_env demo_packet [1] Native s) (us_uid us) = None
     \<and> t_log (handle_packet_data demo_env demo_packet [1] Native s)
         = t_log s @ [UdpSend 7 (SockV4 0x08080404 53) [1]]"
proof -
  let ?a = "auth_set (replicate 16 1) demo_start"
  let ?b = "handle_datagram demo_env (enc_packet demo_packet @ [42]) ?a"
  have b: "?b = handle_packet_data demo_env demo_packet [42] Native ?a"
    by (rule handle_datagram_packet) (simp_all add: demo_state demo_packet_def)
  have rb: "tuic_reach demo_env demo_start ?b"
    by (rule tuic_reach.step [OF demo_reach read_datagram]) (rule demo_state)
  have l: "t_listeners ?b 0 \<noteq> None" "t_sessions ?b 7 = Some \<lparr>us_uid = 0, us_assoc_id = 7,
      us_socket_v6 = False, us_close_tx = True\<rparr>"
    unfolding b
    by (simp_all add: handle_packet_data_def demo_packet_def auth_set_def demo_start_def
        connection_new_def resolve_addr_def session_new_def session_send_def unmap_def demo_env_def)
  let ?s = "listener_end 0 ?b"
  have r: "tuic_reach demo_env demo_start ?s"
    using tuic_reach.step [OF rb udp_timeout] l(1) by blast
  have s: "t_sessions ?s 7 = Some \<lparr>us_uid = 0, us_assoc_id = 7,
      us_socket_v6 = False, us_close_tx = True\<rparr>" "t_listeners ?s 0 = None"
    using l(2) by (simp_all add: listener_end_def)
  have i: "assoc_id demo_packet = 7" "frag_total demo_packet = 1"
    "resolve_addr demo_env (addr demo_packet) = Inr (SockV4 0x08080404 53)"
    "unmap (SockV4 0x08080404 53) = SockV4 0x08080404 53" "new_socket demo_env 7 = Inr ()"
    by (simp_all add: demo_packet_def resolve_addr_def unmap_def demo_env_def)
  have "t_log (handle_packet_data demo_env demo_packet [1] Native ?s)
      = t_log ?s @ [UdpSend 7 (SockV4 0x08080404 53) [1]]"
    using packet_data_delivers [OF sess_inv_reach [OF r [unfolded demo_start_def]] i(2-4)] i(1,5)
    by (simp add: demo_start_def)
  with tuic_idle_session_deaf [OF r [unfolded demo_start_def], folded demo_start_def, of demo_packet _ "[1]" Native] r s i(1) show ?thesis
    by (intro exI [of _ ?s] exI [of _ "\<lparr>us_uid = 0, us_assoc_id = 7,
      us_socket_v6 = False, us_close_tx = True\<rparr>"]) simp
qed

text \<open>
  Whatever bytes a datagram holds: when the parser takes it for a packet, the payload
  offset that the handler computes by re-encoding the parsed address lies inside the datagram and
  is the position where the parser stopped.
\<close>

theorem tuic_datagram_offset:
  assumes "read_from_datagram dg = Inr (Packet info)"
  shows "2 + 8 + length (address_to_bytes (addr info)) \<le> length dg
    \<and> rx (snd (read_from_sync (cursor dg))) = drop (2 + 8 + length (address_to_bytes (addr info))) dg"
  by (rule read_from_datagram_packet [OF assms])

theorem tuic_datagram_offset_witness:
  "rx (snd (read_from_sync (cursor [5, 2, 0, 7, 0, 9, 1, 0, 0, 1, 0xff, 42]))) = [42]"
proof -
  have "read_from_datagram [5, 2, 0, 7, 0, 9, 1, 0, 0, 1, 0xff, 42]
      = Inr (Packet \<lparr>assoc_id = 7, pkt_id = 9, frag_total = 1, frag_id = 0, size_field = 1,
          addr = NoAddress\<rparr>)"
    using read_from_sync_packet [of "\<lparr>assoc_id = 7, pkt_id = 9, frag_total = 1, frag_id = 0,
        size_field = 1, addr = NoAddress\<rparr>" "[42]" "cursor []"]
    by (simp add: read_from_datagram_def cursor_def enc_packet_def tuic_consts be_simps)
  from tuic_datagram_offset [OF this] show ?thesis by simp
qed

end
