(* ===== verification/Quic_Setup.thy ===== *)
theory Quic_Setup
  imports Transport_Stack Hysteria2_Congestion Hysteria2_Masquerade Tuic_Connection
begin

text \<open>
  The start of the two QUIC servers: \<open>hysteria2/tls.rs\<close> and \<open>run\<close> of \<open>hysteria2/server.rs\<close>, \<open>tuic/server.rs\<close> and \<open>tuic/error.rs\<close>.
  What the configuration turns into is the result: TLS, transport parameters, congestion controller, users.  Sockets and the
  QUIC endpoint are the libraries'.
\<close>

section \<open>The model\<close>

text \<open>What QUIC needs of a library: whether a TLS configuration can carry it, and whether an idle timeout fits its encoding.\<close>

record quic_lib =
  ql_tls_ok :: "server_config \<Rightarrow> bool"
  ql_idle_ok :: "nat \<Rightarrow> bool"

datatype congestion = Cubic | Brutal u64

text \<open>Transport parameters; \<open>None\<close> is the library's default.  Durations are in nanoseconds.\<close>

record quic_transport =
  qt_bidi :: nat
  qt_uni :: "nat option"
  qt_stream_window :: "nat option"
  qt_window :: "nat option"
  qt_idle :: nat
  qt_keep_alive :: "nat option"
  qt_congestion :: congestion

definition quic_alpn :: "server_config \<Rightarrow> server_config" where
  "quic_alpn sc = sc\<lparr>alpn_protocols := [str ''h3'']\<rparr>"

subsection \<open>Hysteria2\<close>

record hy2_tls_config =
  h2_cert_path :: "rstring option"
  h2_key_path :: "rstring option"
  h2_self_signed_domain :: "rstring option"

record hysteria2_config =
  h2_listen :: rstring
  h2_tls :: hy2_tls_config
  h2_auth :: auth_config
  h2_bandwidth :: bandwidth_config
  h2_masquerade :: masquerade_config

definition hy2_load_certs :: "net_lib \<Rightarrow> rstring \<Rightarrow> bytes list result" where
  "hy2_load_certs N path =
     and_then (pem_certs N path) (\<lambda>chain.
     and_then (ensure (chain \<noteq> []) (Bail ''no certs'')) (\<lambda>_. Inr chain))"

definition hy2_load_key :: "net_lib \<Rightarrow> rstring \<Rightarrow> bytes result" where
  "hy2_load_key N path =
     and_then (pem_key N path) (\<lambda>k. case k of None \<Rightarrow> Inl (Bail ''no private key'') | Some key \<Rightarrow> Inr key)"

definition build_hy2_tls :: "net_lib \<Rightarrow> hy2_tls_config \<Rightarrow> server_config result" where
  "build_hy2_tls N cfg =
     and_then
       (case (h2_cert_path cfg, h2_key_path cfg) of
          (Some cert, Some key) \<Rightarrow>
            and_then (hy2_load_certs N cert) (\<lambda>chain. and_then (hy2_load_key N key) (\<lambda>key. Inr (chain, key)))
        | _ \<Rightarrow>
            let domain = (case h2_self_signed_domain cfg of Some d \<Rightarrow> d | None \<Rightarrow> str ''localhost'')
            in case simple_self_signed N domain of
                 None \<Rightarrow> Inl (Bail ''self-signed cert'')
               | Some (cert, key_pair) \<Rightarrow> Inr ([cert], kp_der key_pair))
       (\<lambda>(chain, private_key).
          case single_cert N chain private_key of
            None \<Rightarrow> Inl (Bail ''build rustls ServerConfig for Hysteria2'')
          | Some scheme \<Rightarrow> Inr (quic_alpn \<lparr>cert_chain = chain, sc_scheme = scheme, alpn_protocols = []\<rparr>))"

definition STREAM_RECEIVE_WINDOW :: nat where "STREAM_RECEIVE_WINDOW = 8 * 1024 * 1024"
definition CONN_RECEIVE_WINDOW :: nat where "CONN_RECEIVE_WINDOW = 20 * 1024 * 1024"
definition MAX_IDLE_TIMEOUT :: nat where "MAX_IDLE_TIMEOUT = 30 * 10 ^ 9"
definition MAX_INCOMING_STREAMS :: nat where "MAX_INCOMING_STREAMS = 1024"

record hy2_endpoint =
  he_tls :: server_config
  he_transport :: quic_transport

text \<open>\<open>bind\<close> parses the address and opens the endpoint.\<close>

definition hy2_run ::
  "net_lib \<Rightarrow> quic_lib \<Rightarrow> (rstring \<Rightarrow> rstring) \<Rightarrow> (rstring \<Rightarrow> unit result) \<Rightarrow> hysteria2_config \<Rightarrow> hy2_endpoint result" where
  "hy2_run N Q lower bind cfg =
     and_then (build_hy2_tls N (h2_tls cfg)) (\<lambda>tls_config.
       let brutal_bps = up_bps lower (h2_bandwidth cfg) in
       and_then (ensure (ql_idle_ok Q MAX_IDLE_TIMEOUT) (Bail ''max_idle_timeout'')) (\<lambda>_.
         let transport =
               \<lparr>qt_bidi = MAX_INCOMING_STREAMS, qt_uni = None, qt_stream_window = Some STREAM_RECEIVE_WINDOW,
                qt_window = Some CONN_RECEIVE_WINDOW, qt_idle = MAX_IDLE_TIMEOUT, qt_keep_alive = Some (10 * 10 ^ 9),
                qt_congestion = (case brutal_bps of Some bps \<Rightarrow> Brutal (of_nat bps) | None \<Rightarrow> Cubic)\<rparr>
         in and_then (ensure (ql_tls_ok Q tls_config) (Bail ''QuicServerConfig'')) (\<lambda>_.
            and_then (bind (h2_listen cfg)) (\<lambda>_. Inr \<lparr>he_tls = tls_config, he_transport = transport\<rparr>))))"

text \<open>
  A connection of the endpoint: the controllers the factory builds for it, and its handler with the rate it announces.\<close>

definition hy2_controllers :: "hy2_endpoint \<Rightarrow> nat \<Rightarrow> brutal_system option" where
  "hy2_controllers e now =
     (case qt_congestion (he_transport e) of Brutal bps \<Rightarrow> Some (brutal_start now \<lparr>send_bps = bps\<rparr>) | Cubic \<Rightarrow> None)"

definition hy2_connection :: "(rstring \<Rightarrow> rstring) \<Rightarrow> hysteria2_config \<Rightarrow> h3_event \<Rightarrow> hy2_state \<Rightarrow> hy2_state" where
  "hy2_connection lower cfg = auth_turn (h2_auth cfg) (down_bps lower (h2_bandwidth cfg))"

subsection \<open>TUIC\<close>

record tuic_config =
  tc_listen :: rstring
  tc_users :: "bytes \<rightharpoonup> rstring"
  tc_tls :: "standard_tls_config option"
  tc_max_idle_time :: nat
  tc_auth_timeout :: nat
  tc_udp_timeout :: nat
  tc_udp_relay_ipv6 :: bool
  tc_max_udp_packet_size :: nat

text \<open>The certificates of a file may be none here; the library refuses an empty chain.\<close>

definition tuic_build_tls :: "net_lib \<Rightarrow> tuic_config \<Rightarrow> server_config result" where
  "tuic_build_tls N cfg =
     (let tls = tc_tls cfg in
      and_then
        (case (Option.bind tls cert_path, Option.bind tls key_path) of
           (Some cert, Some key) \<Rightarrow>
             and_then (pem_certs N cert) (\<lambda>certs. and_then (load_key N key) (\<lambda>key. Inr (certs, key)))
         | _ \<Rightarrow>
             let domain = (case Option.bind tls self_signed_domain of Some d \<Rightarrow> d | None \<Rightarrow> str ''tuic.local'')
             in case simple_self_signed N domain of
                  None \<Rightarrow> Inl (Bail ''generate self-signed cert'')
                | Some (cert, key_pair) \<Rightarrow> Inr ([cert], kp_der key_pair))
        (\<lambda>(certs, key).
           case single_cert N certs key of
             None \<Rightarrow> Inl (Bail ''TLS config'')
           | Some scheme \<Rightarrow> Inr \<lparr>cert_chain = certs, sc_scheme = scheme, alpn_protocols = []\<rparr>))"

record tuic_endpoint =
  ut_tls :: server_config
  ut_transport :: quic_transport
  ut_users :: "bytes \<rightharpoonup> rstring"

definition tuic_run ::
  "net_lib \<Rightarrow> quic_lib \<Rightarrow> (rstring \<Rightarrow> unit result) \<Rightarrow> tuic_config \<Rightarrow> tuic_endpoint result" where
  "tuic_run N Q bind cfg =
     and_then (tuic_build_tls N cfg) (\<lambda>crypto.
       let crypto = quic_alpn crypto in
       and_then (ensure (ql_tls_ok Q crypto) (Bail ''failed to create QUIC server config'')) (\<lambda>_.
       and_then (ensure (ql_idle_ok Q (tc_max_idle_time cfg)) (Bail ''invalid max_idle_time'')) (\<lambda>_.
         let transport = \<lparr>qt_bidi = 512, qt_uni = Some 512, qt_stream_window = None, qt_window = None,
                          qt_idle = tc_max_idle_time cfg, qt_keep_alive = None, qt_congestion = Cubic\<rparr>
         in and_then (bind (tc_listen cfg)) (\<lambda>_.
              Inr \<lparr>ut_tls = crypto, ut_transport = transport, ut_users = tc_users cfg\<rparr>))))"

text \<open>The accept loop: what the endpoint yields, and the connection that is started for it.\<close>

datatype accept_event = Accepted | HandshakeFailed | AcceptError | EndpointClosed

fun tuic_accept :: "tuic_config \<Rightarrow> tuic_endpoint \<Rightarrow> accept_event list \<Rightarrow> tuic_sys list" where
  "tuic_accept cfg e [] = []"
| "tuic_accept cfg e (ev # evs) =
     (case ev of
        Accepted \<Rightarrow> connection_new (ut_users e) (tc_udp_relay_ipv6 cfg) # tuic_accept cfg e evs
      | HandshakeFailed \<Rightarrow> tuic_accept cfg e evs
      | AcceptError \<Rightarrow> tuic_accept cfg e evs
      | EndpointClosed \<Rightarrow> [])"

subsection \<open>TUIC errors\<close>

datatype tuic_error =
    ErrIo io_kind
  | ErrRustls string
  | InvalidMaxIdleTime
  | ErrTimedOut
  | LocallyClosed
  | DuplicatedAuth
  | AuthFailed bytes
  | UnexpectedPacketSource
  | SocketError string io_kind
  | TaskNegotiationTimeout
  | UdpRelayIpv6Disabled socket_addr
  | Protocol rstring
  | OtherError err

definition is_trivial :: "tuic_error \<Rightarrow> bool" where
  "is_trivial e \<longleftrightarrow> e = ErrTimedOut \<or> e = LocallyClosed"

datatype read_exact_error = ReadError io_kind | FinishedEarly nat

definition of_read_exact :: "read_exact_error \<Rightarrow> tuic_error" where
  "of_read_exact err = (case err of ReadError e \<Rightarrow> ErrIo e | FinishedEarly _ \<Rightarrow> ErrIo UnexpectedEof)"

datatype connection_error = ConnTimedOut | ConnLocallyClosed | ConnOther io_kind

definition of_connection_error :: "connection_error \<Rightarrow> tuic_error" where
  "of_connection_error err =
     (case err of ConnTimedOut \<Rightarrow> ErrTimedOut | ConnLocallyClosed \<Rightarrow> LocallyClosed | ConnOther k \<Rightarrow> ErrIo k)"

section \<open>The two certificates\<close>

definition as_standard :: "hy2_tls_config \<Rightarrow> standard_tls_config" where
  "as_standard t = \<lparr>cert_path = h2_cert_path t, key_path = h2_key_path t, self_signed_domain = h2_self_signed_domain t\<rparr>"

lemma and_then_simp_Inr: "and_then r f = Inr y \<longleftrightarrow> (\<exists>x. r = Inr x \<and> f x = Inr y)"
  by (auto simp: and_then_eq_Inr)

lemma hy2_files: "hy2_load_certs = load_certs" "hy2_load_key = load_key"
  by (intro ext, simp add: hy2_load_certs_def load_certs_def hy2_load_key_def load_key_def)+

lemma build_hy2_tls_standard:
  "build_hy2_tls N t = Inr sc \<longleftrightarrow> (\<exists>s. standard_build N (as_standard t) = Inr s \<and> sc = quic_alpn s)"
  by (cases "h2_cert_path t"; cases "h2_key_path t";
      auto simp: build_hy2_tls_def hy2_files standard_build_def as_standard_def quic_alpn_def and_then_def Let_def
        split: option.splits sum.splits prod.splits)

lemma hy2_run_parts:
  assumes "hy2_run N Q lower bind cfg = Inr e"
  shows "build_hy2_tls N (h2_tls cfg) = Inr (he_tls e)"
    and "qt_congestion (he_transport e) = (case up_bps lower (h2_bandwidth cfg) of Some bps \<Rightarrow> Brutal (of_nat bps) | None \<Rightarrow> Cubic)"
  using assms by (auto simp: hy2_run_def and_then_simp_Inr Let_def ensure_def)

lemma up_bps_text:
  assumes "lowercase_laws lower" "(u, k) \<in> {(str ''kbps'', 125), (str ''mbps'', 125000), (str ''gbps'', 125000000)}"
    and "map ascii_lower unit = u" "sp \<in> {[], [32]}" "n * (8 * k) < 2 ^ 53" "bw_up b = Some (dec n @ sp @ unit)"
  shows "up_bps lower b = Some (n * k)"
  using parse_bps_exact [OF assms(1-5)] assms(6) by (simp add: up_bps_def)

lemma tuic_run_parts:
  assumes "tuic_run N Q bind cfg = Inr e"
  shows "\<exists>sc. tuic_build_tls N cfg = Inr sc \<and> ut_tls e = quic_alpn sc" "ut_users e = tc_users cfg"
    "ql_idle_ok Q (qt_idle (ut_transport e))"
  using assms by (auto simp: tuic_run_def and_then_simp_Inr Let_def ensure_def split: if_splits)

text \<open>Connections come up one for each handshake that succeeds, until the endpoint closes, each as a new one.\<close>

lemma tuic_accept_all:
  "tuic_accept cfg e evs = replicate (length (filter (\<lambda>ev. ev = Accepted) (takeWhile (\<lambda>ev. ev \<noteq> EndpointClosed) evs)))
     (connection_new (ut_users e) (tc_udp_relay_ipv6 cfg))"
  by (induction cfg e evs rule: tuic_accept.induct) (simp_all split: accept_event.split)

section \<open>Properties\<close>


text \<open>
  The certificate code of Hysteria2 is a copy of the one the TCP listeners share: for every configuration, and whatever the files and the libraries
  answer, both succeed or fail together, and with the same chain and key choice, the protocol name \<open>h3\<close> apart.
\<close>

theorem hy2_tls_equiv:
  "build_hy2_tls N t = Inr sc \<longleftrightarrow> (\<exists>s. standard_build N (as_standard t) = Inr s \<and> sc = s\<lparr>alpn_protocols := [str ''h3'']\<rparr>)"
  using build_hy2_tls_standard [of N t sc] by (simp only: quic_alpn_def)

definition example_hy2 :: hysteria2_config where
  "example_hy2 = \<lparr>h2_listen = [], h2_tls = \<lparr>h2_cert_path = None, h2_key_path = None, h2_self_signed_domain = None\<rparr>, h2_auth = NoAuth,
     h2_bandwidth = \<lparr>bw_up = Some (dec 100 @ [32] @ str ''Mbps''), bw_down = None\<rparr>,
     h2_masquerade = \<lparr>mq_type = str ''none'', mq_proxy = None\<rparr>\<rparr>"


end
