(* ===== verification/Wireguard_Flow.thy ===== *)
theory Wireguard_Flow
  imports Rust_Std
begin

text \<open>
  The parts of IP packets that the WireGuard exit node reads: the flow a packet belongs to
  (\<open>wireguard/stack.rs\<close>) and its source address (\<open>wireguard/server.rs\<close>).
\<close>

section \<open>The model\<close>

datatype flow_key = FlowKey (fk_proto: u8) (fk_src: socket_addr) (fk_dst: socket_addr)

definition seg_at :: "bytes \<Rightarrow> nat \<Rightarrow> u16" where
  "seg_at b i = from_be [b ! (2 * i), b ! (2 * i + 1)]"

definition ipv6_from_slice :: "bytes \<Rightarrow> ipv6" where
  "ipv6_from_slice b = from_be (concat (map (\<lambda>i. to_be 2 (seg_at b i)) [0..<8]))"

definition get_range :: "bytes \<Rightarrow> nat \<Rightarrow> nat \<Rightarrow> bytes option" where
  "get_range b i n = (if i + n \<le> length b then Some (take n (drop i b)) else None)"

definition parse_ipv4_flow :: "bytes \<Rightarrow> flow_key option" where
  "parse_ipv4_flow pkt =
     (if length pkt < 20 then None
      else let ihl = unat ((pkt ! 0) AND 0x0f) * 4; proto = pkt ! 9
      in if proto \<noteq> 6 \<and> proto \<noteq> 17 then None
         else let src_ip = from_be [pkt ! 12, pkt ! 13, pkt ! 14, pkt ! 15];
                  dst_ip = from_be [pkt ! 16, pkt ! 17, pkt ! 18, pkt ! 19]
         in case get_range pkt ihl 4 of
              None \<Rightarrow> None
            | Some t \<Rightarrow> Some (FlowKey proto (SockV4 src_ip (from_be [t ! 0, t ! 1])) (SockV4 dst_ip (from_be [t ! 2, t ! 3]))))"

definition parse_ipv6_flow :: "bytes \<Rightarrow> flow_key option" where
  "parse_ipv6_flow pkt =
     (if length pkt < 44 then None
      else let proto = pkt ! 6
      in if proto \<noteq> 6 \<and> proto \<noteq> 17 then None
         else let src_ip = ipv6_from_slice (take 16 (drop 8 pkt)); dst_ip = ipv6_from_slice (take 16 (drop 24 pkt))
         in case get_range pkt 40 4 of
              None \<Rightarrow> None
            | Some t \<Rightarrow> Some (FlowKey proto (SockV6 src_ip (from_be [t ! 0, t ! 1])) (SockV6 dst_ip (from_be [t ! 2, t ! 3]))))"

definition parse_flow_key :: "bytes \<Rightarrow> flow_key option" where
  "parse_flow_key pkt =
     (case pkt of
        [] \<Rightarrow> None
      | b # _ \<Rightarrow>
          (let v = drop_bit 4 b
           in if v = 4 then parse_ipv4_flow pkt else if v = 6 then parse_ipv6_flow pkt else None))"

definition packet_src_ip :: "bytes \<Rightarrow> ip_addr" where
  "packet_src_ip pkt =
     (let v = (case pkt of [] \<Rightarrow> None | b # _ \<Rightarrow> Some (drop_bit 4 b))
      in if v = Some 4 \<and> 20 \<le> length pkt then IpV4 (from_be [pkt ! 12, pkt ! 13, pkt ! 14, pkt ! 15])
         else if v = Some 6 \<and> 40 \<le> length pkt then IpV6 (ipv6_from_slice (take 16 (drop 8 pkt)))
         else IpV4 0)"

section \<open>Packets as a sender builds them\<close>

text \<open>
  An IPv4 header of \<open>w\<close> words and an IPv6 header, followed by a transport segment that begins with the
  two ports; \<open>front\<close> are the bytes before the protocol, \<open>mid\<close> those between it and the addresses.
\<close>

definition ip4_packet :: "nat \<Rightarrow> bytes \<Rightarrow> u8 \<Rightarrow> bytes \<Rightarrow> ipv4 \<Rightarrow> ipv4 \<Rightarrow> bytes \<Rightarrow> bytes \<Rightarrow> bytes" where
  "ip4_packet w front proto mid src dst options segment =
     of_nat (64 + w) # front @ [proto] @ mid @ octets4 src @ octets4 dst @ options @ segment"

definition ip6_packet :: "u8 \<Rightarrow> bytes \<Rightarrow> u8 \<Rightarrow> u8 \<Rightarrow> ipv6 \<Rightarrow> ipv6 \<Rightarrow> bytes \<Rightarrow> bytes" where
  "ip6_packet low front proto hops src dst segment =
     (0x60 OR (low AND 0x0f)) # front @ [proto, hops] @ octets6 src @ octets6 dst @ segment"

lemma list_of_length_16:
  assumes "length xs = 16"
  obtains a0 a1 a2 a3 a4 a5 a6 a7 a8 a9 a10 a11 a12 a13 a14 a15 where
    "xs = [a0, a1, a2, a3, a4, a5, a6, a7, a8, a9, a10, a11, a12, a13, a14, a15]"
  using assms by (auto simp: length_Suc_conv numeral_eq_Suc)

lemma ipv6_from_slice_octets: "ipv6_from_slice (octets6 a) = a"
proof -
  obtain a0 a1 a2 a3 a4 a5 a6 a7 a8 a9 a10 a11 a12 a13 a14 a15 where
    o: "octets6 a = [a0, a1, a2, a3, a4, a5, a6, a7, a8, a9, a10, a11, a12, a13, a14, a15]"
    by (rule list_of_length_16 [of "octets6 a"]) simp_all
  have "to_be 2 (from_be [x, y] :: u16) = [x, y]" for x y by (rule to_be_from_be_eq) simp_all
  then have "ipv6_from_slice (octets6 a) = from_be (octets6 a)"
    by (simp add: ipv6_from_slice_def seg_at_def o upt_rec)
  then show ?thesis by simp
qed

lemma ihl_all: "\<forall>w \<in> set [5..<16]. drop_bit 4 (of_nat (64 + w) :: u8) = 4 \<and> unat ((of_nat (64 + w) :: u8) AND 0x0f) = w"
  by code_simp

lemma ihl_byte:
  assumes "5 \<le> w" "w < 16"
  shows "drop_bit 4 (of_nat (64 + w) :: u8) = 4" "unat ((of_nat (64 + w) :: u8) AND 0x0f) = w"
proof -
  have "w \<in> set [5..<16]" unfolding set_upt using assms by (simp only: atLeastLessThan_iff)
  with ihl_all show "drop_bit 4 (of_nat (64 + w) :: u8) = 4" "unat ((of_nat (64 + w) :: u8) AND 0x0f) = w" by blast+
qed

lemma version6_all: "\<forall>n \<in> set [0..<256]. drop_bit 4 (0x60 OR ((of_nat n :: u8) AND 0x0f)) = 6"
  by code_simp

lemma version6: "drop_bit 4 (0x60 OR (low AND 0x0f) :: u8) = 6"
proof -
  have "low = of_nat (unat low)" "unat low < 256" using unat_u8_less [of low] by simp_all
  then show ?thesis using version6_all by (metis atLeastLessThan_iff le0 set_upt)
qed

lemma ports_at:
  "from_be [(to_be 2 (p :: u16) @ to_be 2 (q :: u16) @ ys) ! 0, (to_be 2 p @ to_be 2 q @ ys) ! 1] = p"
  "from_be [(to_be 2 (p :: u16) @ to_be 2 (q :: u16) @ ys) ! 2, (to_be 2 p @ to_be 2 q @ ys) ! 3] = q"
proof -
  obtain a b where p: "to_be 2 p = [a, b]" "from_be [a, b] = p" by (rule to_be_pair)
  obtain c d where q: "to_be 2 q = [c, d]" "from_be [c, d] = q" by (rule to_be_pair)
  show "from_be [(to_be 2 p @ to_be 2 q @ ys) ! 0, (to_be 2 p @ to_be 2 q @ ys) ! 1] = p"
    "from_be [(to_be 2 p @ to_be 2 q @ ys) ! 2, (to_be 2 p @ to_be 2 q @ ys) ! 3] = q" by (simp_all add: p q)
qed

lemma list_of_length_8:
  assumes "length xs = 8"
  obtains a0 a1 a2 a3 a4 a5 a6 a7 where "xs = [a0, a1, a2, a3, a4, a5, a6, a7]"
  using assms by (auto simp: length_Suc_conv numeral_eq_Suc)

lemma parse_ip4:
  assumes "5 \<le> w" "w < 16" "length front = 8" "length mid = 2" "length options = 4 * (w - 5)" "proto \<in> {6, 17}"
  shows "parse_flow_key (ip4_packet w front proto mid src dst options (to_be 2 sp @ to_be 2 dp @ payload))
      = Some (FlowKey proto (SockV4 src sp) (SockV4 dst dp))"
    and "packet_src_ip (ip4_packet w front proto mid src dst options (to_be 2 sp @ to_be 2 dp @ payload)) = IpV4 src"
proof -
  let ?seg = "to_be 2 sp @ to_be 2 dp @ payload"
  obtain f0 f1 f2 f3 f4 f5 f6 f7 where f: "front = [f0, f1, f2, f3, f4, f5, f6, f7]"
    by (rule list_of_length_8 [OF assms(3)])
  obtain m0 m1 where m: "mid = [m0, m1]" using assms(4) by (auto simp: numeral_2_eq_2 length_Suc_conv)
  obtain p q r s where o1: "octets4 src = [p, q, r, s]" using octets4_cases by blast
  obtain p' q' r' s' where o2: "octets4 dst = [p', q', r', s']" using octets4_cases by blast
  have ips: "from_be [p, q, r, s] = src" "from_be [p', q', r', s'] = dst"
    using from_be_octets(1) [of src] from_be_octets(1) [of dst] by (simp_all add: o1 o2)
  define h where "h = ip4_packet w front proto mid src dst options ?seg"
  have h: "h = of_nat (64 + w) # f0 # f1 # f2 # f3 # f4 # f5 # f6 # f7 # proto # m0 # m1 # p # q # r # s # p' # q' # r' # s' # options @ ?seg"
    by (simp add: h_def ip4_packet_def f m o1 o2)
  have ihl: "4 * w = 20 + length options" using assms(1,5) by simp
  have seg: "get_range h (w * 4) 4 = Some (take 4 ?seg)"
    unfolding get_range_def h using ihl by (simp add: mult.commute drop_Cons')
  have t4: "take 4 ?seg = to_be 2 sp @ to_be 2 dp @ []" by simp
  have "parse_ipv4_flow h = Some (FlowKey proto (SockV4 src sp) (SockV4 dst dp))"
    using assms(6) seg ports_at [of sp dp "[]"] ihl_byte [OF assms(1,2)] unfolding parse_ipv4_flow_def t4
    by (auto simp: h ips Let_def simp del: of_nat_add)
  then show "parse_flow_key (ip4_packet w front proto mid src dst options ?seg) = Some (FlowKey proto (SockV4 src sp) (SockV4 dst dp))"
    using ihl_byte [OF assms(1,2)] unfolding h_def [symmetric] by (simp add: parse_flow_key_def h del: of_nat_add)
  show "packet_src_ip (ip4_packet w front proto mid src dst options ?seg) = IpV4 src"
    using ihl_byte [OF assms(1,2)] unfolding h_def [symmetric] by (simp add: packet_src_ip_def h ips del: of_nat_add)
qed

lemma parse_ip6:
  assumes "length front = 5" "proto \<in> {6, 17}"
  shows "parse_flow_key (ip6_packet low front proto hops src dst (to_be 2 sp @ to_be 2 dp @ payload))
      = Some (FlowKey proto (SockV6 src sp) (SockV6 dst dp))"
    and "packet_src_ip (ip6_packet low front proto hops src dst (to_be 2 sp @ to_be 2 dp @ payload)) = IpV6 src"
proof -
  let ?seg = "to_be 2 sp @ to_be 2 dp @ payload" and ?v = "0x60 OR (low AND 0x0f) :: u8"
  obtain f0 f1 f2 f3 f4 where f: "front = [f0, f1, f2, f3, f4]"
    using assms(1) by (auto simp: length_Suc_conv numeral_eq_Suc)
  define h where "h = ip6_packet low front proto hops src dst ?seg"
  have h: "h = [?v, f0, f1, f2, f3, f4, proto, hops] @ octets6 src @ octets6 dst @ ?seg"
    by (simp add: h_def ip6_packet_def f)
  have parts: "h ! 6 = proto" "44 \<le> length h" "take 16 (drop 8 h) = octets6 src" "take 16 (drop 24 h) = octets6 dst"
    "get_range h 40 4 = Some (take 4 ?seg)" by (simp_all add: h get_range_def)
  have t4: "take 4 ?seg = to_be 2 sp @ to_be 2 dp @ []" by simp
  have "parse_ipv6_flow h = Some (FlowKey proto (SockV6 src sp) (SockV6 dst dp))"
    using assms(2) ports_at [of sp dp "[]"] parts(2) unfolding parse_ipv6_flow_def parts t4
    by (auto simp: Let_def ipv6_from_slice_octets)
  then show "parse_flow_key (ip6_packet low front proto hops src dst ?seg) = Some (FlowKey proto (SockV6 src sp) (SockV6 dst dp))"
    unfolding h_def [symmetric] by (simp add: parse_flow_key_def h version6 Let_def)
  show "packet_src_ip (ip6_packet low front proto hops src dst ?seg) = IpV6 src"
    unfolding h_def [symmetric] using parts(2,3) by (simp add: packet_src_ip_def ipv6_from_slice_octets) (simp add: h version6 ipv6_from_slice_octets)
qed

text \<open>
  The exit node reads the flow of every TCP or UDP packet as its sender wrote it: protocol, both
  addresses and both ports, over IPv4 with a header of any length and over IPv6 without extension headers; the address that the AllowedIPs
  check sees is the packet's source address.
\<close>

theorem wg_flow_parsed:
  assumes "5 \<le> w" "w < 16" "length front = 8" "length mid = 2" "length options = 4 * (w - 5)" "proto \<in> {6, 17}"
    and "length front6 = 5"
  shows "parse_flow_key (ip4_packet w front proto mid src dst options (to_be 2 sp @ to_be 2 dp @ payload))
      = Some (FlowKey proto (SockV4 src sp) (SockV4 dst dp))
    \<and> packet_src_ip (ip4_packet w front proto mid src dst options (to_be 2 sp @ to_be 2 dp @ payload)) = IpV4 src
    \<and> parse_flow_key (ip6_packet low front6 proto hops src6 dst6 (to_be 2 sp @ to_be 2 dp @ payload))
      = Some (FlowKey proto (SockV6 src6 sp) (SockV6 dst6 dp))
    \<and> packet_src_ip (ip6_packet low front6 proto hops src6 dst6 (to_be 2 sp @ to_be 2 dp @ payload)) = IpV6 src6"
  by (intro conjI parse_ip4 parse_ip6 assms)

theorem wg_flow_parsed_witness:
  "parse_flow_key (ip4_packet 6 (replicate 8 0) 17 [0, 0] 7 8 [1, 1, 1, 1] (to_be 2 (53 :: u16) @ to_be 2 (54 :: u16) @ [9]))
     = Some (FlowKey 17 (SockV4 7 53) (SockV4 8 54))"
  using wg_flow_parsed [of 6 "replicate 8 0" "[0, 0]" "[1, 1, 1, 1]" 17 "replicate 5 0" 7 8 53 54 "[9]"] by simp

end
