(* ===== verification/Wireguard_Server.thy ===== *)
theory Wireguard_Server
  imports Wireguard_Flow
begin

text \<open>
  The WireGuard server (\<open>wireguard/server.rs\<close>, \<open>wireguard/peer.rs\<close>): the peers, the receive loop that picks
  a peer for a datagram, decrypts it and hands the packet to that peer's actor, the timer task and the
  encrypting tasks.  The tunnel of the cryptographic library (\<open>boringtun\<close>) and the membership test of its
  address ranges are parameters.
\<close>

section \<open>The model\<close>

datatype tunn_result = Done | TErr | WriteToNetwork bytes | WriteToTunnel bytes

record 't tunn =
  decapsulate :: "ip_addr \<Rightarrow> bytes \<Rightarrow> 't \<Rightarrow> tunn_result \<times> 't"
  encapsulate :: "bytes \<Rightarrow> 't \<Rightarrow> tunn_result \<times> 't"
  update_timers :: "'t \<Rightarrow> tunn_result \<times> 't"

text \<open>A peer; \<open>p_queue\<close> is what was sent to its actor.\<close>

record ('t, 'n) peer =
  p_tunnel :: 't
  p_endpoint :: "socket_addr option"
  p_allowed :: "'n list"
  p_queue :: "bytes list"

definition peer_new :: "'t \<Rightarrow> 'n list \<Rightarrow> ('t, 'n) peer" where
  "peer_new tunnel allowed = \<lparr>p_tunnel = tunnel, p_endpoint = None, p_allowed = allowed, p_queue = []\<rparr>"

definition allows :: "('n \<Rightarrow> ip_addr \<Rightarrow> bool) \<Rightarrow> ('t, 'n) peer \<Rightarrow> ip_addr \<Rightarrow> bool" where
  "allows contains p addr = list_ex (\<lambda>net. contains net addr) (p_allowed p)"

text \<open>The peer map in its iteration order, which does not change while the server runs, and the datagrams sent.\<close>

record ('t, 'n) wg =
  w_peers :: "(rstring \<times> ('t, 'n) peer) list"
  w_sent :: "(bytes \<times> socket_addr) list"

definition wg_start :: "(rstring \<times> 't \<times> 'n list) list \<Rightarrow> ('t, 'n) wg" where
  "wg_start cfg = \<lparr>w_peers = map (\<lambda>(pk, tun, ips). (pk, peer_new tun ips)) cfg, w_sent = []\<rparr>"

definition set_peer :: "rstring \<Rightarrow> ('t, 'n) peer \<Rightarrow> ('t, 'n) wg \<Rightarrow> ('t, 'n) wg" where
  "set_peer pk p s = s\<lparr>w_peers := map (\<lambda>(h, q). if h = pk then (h, p) else (h, q)) (w_peers s)\<rparr>"

definition find_peer :: "(rstring \<times> ('t, 'n) peer) list \<Rightarrow> socket_addr \<Rightarrow> (rstring \<times> ('t, 'n) peer) option" where
  "find_peer peers src =
     (case find (\<lambda>(_, p). p_endpoint p = Some src) peers of
        Some x \<Rightarrow> Some x
      | None \<Rightarrow> (case peers of [] \<Rightarrow> None | x # _ \<Rightarrow> Some x))"

text \<open>The timer loop of a tunnel; \<open>None\<close> when the tunnel goes on producing packets for ever.\<close>

partial_function (option) drain_timers :: "'t tunn \<Rightarrow> 't \<Rightarrow> (bytes list \<times> 't) option" where
  "drain_timers T tun =
     (case update_timers T tun of
        (WriteToNetwork pkt, tun') \<Rightarrow> Option.bind (drain_timers T tun') (\<lambda>(pkts, tun''). Some (pkt # pkts, tun''))
      | (_, tun') \<Rightarrow> Some ([], tun'))"

definition recv_turn ::
  "'t tunn \<Rightarrow> ('n \<Rightarrow> ip_addr \<Rightarrow> bool) \<Rightarrow> bytes \<Rightarrow> socket_addr \<Rightarrow> ('t, 'n) wg \<Rightarrow> ('t, 'n) wg option" where
  "recv_turn T contains raw src s =
     (case find_peer (w_peers s) src of
        None \<Rightarrow> Some s
      | Some (pk, p) \<Rightarrow>
          (case decapsulate T (sock_ip src) raw (p_tunnel p) of
             (r, tun) \<Rightarrow>
               let out = (case r of WriteToNetwork pkt \<Rightarrow> [(pkt, src)] | _ \<Rightarrow> []);
                   ip_owned = (case r of WriteToTunnel pkt \<Rightarrow> Some pkt | _ \<Rightarrow> None)
               in Option.bind (drain_timers T tun) (\<lambda>(pkts, tun').
                    let queue = (case ip_owned of
                                   Some pkt \<Rightarrow> if allows contains p (packet_src_ip pkt) then [pkt] else []
                                 | None \<Rightarrow> [])
                    in Some (set_peer pk (p\<lparr>p_endpoint := Some src, p_tunnel := tun', p_queue := p_queue p @ queue\<rparr>)
                         (s\<lparr>w_sent := w_sent s @ out @ map (\<lambda>pkt. (pkt, src)) pkts\<rparr>)))))"

definition timer_turn :: "'t tunn \<Rightarrow> rstring \<times> ('t, 'n) peer \<Rightarrow> ('t, 'n) wg \<Rightarrow> ('t, 'n) wg option" where
  "timer_turn T hp s =
     (case hp of (pk, p) \<Rightarrow>
        case p_endpoint p of
          None \<Rightarrow> Some s
        | Some ep \<Rightarrow>
            Option.bind (drain_timers T (p_tunnel p)) (\<lambda>(pkts, tun').
              Some (set_peer pk (p\<lparr>p_tunnel := tun'\<rparr>) (s\<lparr>w_sent := w_sent s @ map (\<lambda>pkt. (pkt, ep)) pkts\<rparr>))))"

definition encrypt_turn :: "'t tunn \<Rightarrow> bytes \<Rightarrow> rstring \<times> ('t, 'n) peer \<Rightarrow> ('t, 'n) wg \<Rightarrow> ('t, 'n) wg" where
  "encrypt_turn T ip_pkt hp s =
     (case hp of (pk, p) \<Rightarrow>
        case p_endpoint p of
          None \<Rightarrow> s
        | Some ep \<Rightarrow>
            (case encapsulate T ip_pkt (p_tunnel p) of
               (WriteToNetwork pkt, tun') \<Rightarrow> set_peer pk (p\<lparr>p_tunnel := tun'\<rparr>) (s\<lparr>w_sent := w_sent s @ [(pkt, ep)]\<rparr>)
             | (_, tun') \<Rightarrow> set_peer pk (p\<lparr>p_tunnel := tun'\<rparr>) s))"

inductive wg_step :: "'t tunn \<Rightarrow> ('n \<Rightarrow> ip_addr \<Rightarrow> bool) \<Rightarrow> ('t, 'n) wg \<Rightarrow> ('t, 'n) wg \<Rightarrow> bool" for T contains where
  recv: "recv_turn T contains raw src s = Some s' \<Longrightarrow> wg_step T contains s s'"
| timer: "hp \<in> set (w_peers s) \<Longrightarrow> timer_turn T hp s = Some s' \<Longrightarrow> wg_step T contains s s'"
| encrypt: "hp \<in> set (w_peers s) \<Longrightarrow> wg_step T contains s (encrypt_turn T ip_pkt hp s)"

inductive wg_reach :: "'t tunn \<Rightarrow> ('n \<Rightarrow> ip_addr \<Rightarrow> bool) \<Rightarrow> (rstring \<times> 't \<times> 'n list) list \<Rightarrow> ('t, 'n) wg \<Rightarrow> bool"
  for T contains cfg where
  start: "wg_reach T contains cfg (wg_start cfg)"
| step: "wg_reach T contains cfg s \<Longrightarrow> wg_step T contains s s' \<Longrightarrow> wg_reach T contains cfg s'"

section \<open>Peers\<close>

lemma set_peer_keys: "map fst (w_peers (set_peer pk p s)) = map fst (w_peers s)"
  by (simp add: set_peer_def split_def comp_def if_distrib cong: if_cong)

lemma set_peer_mem:
  "(h, q) \<in> set (w_peers (set_peer pk p s)) \<Longrightarrow> (h = pk \<and> q = p) \<or> (h, q) \<in> set (w_peers s)"
  by (auto simp: set_peer_def split: if_splits)

lemma find_peer_mem: "find_peer peers src = Some x \<Longrightarrow> x \<in> set peers"
  unfolding find_peer_def find_Some_iff by (auto simp: find_Some_iff split: option.splits list.splits) (metis nth_mem)

text \<open>Each step replaces at most one peer, keeping its ranges.\<close>

lemma wg_step_cases:
  assumes "wg_step T contains s s'"
  obtains "w_peers s' = w_peers s"
  | pk p p' where "(pk, p) \<in> set (w_peers s)" "w_peers s' = w_peers (set_peer pk p' s)" "p_allowed p' = p_allowed p"
      "p_queue p' = p_queue p \<or> (\<exists>pkt ip raw tun. p_queue p' = p_queue p @ [pkt] \<and> allows contains p (packet_src_ip pkt)
         \<and> fst (decapsulate T ip raw tun) = WriteToTunnel pkt)"
      "p_endpoint p \<noteq> None \<or> (pk, p) = hd (w_peers s)"
  using assms
proof cases
  case (recv raw src)
  show ?thesis
  proof (cases "find_peer (w_peers s) src")
    case None
    with recv that(1) show ?thesis by (simp add: recv_turn_def)
  next
    case (Some x)
    obtain pk p where x: "x = (pk, p)" by fastforce
    obtain r tun where d: "decapsulate T (sock_ip src) raw (p_tunnel p) = (r, tun)" by fastforce
    from recv Some x d obtain pkts tun' where
      "s' = set_peer pk (p\<lparr>p_endpoint := Some src, p_tunnel := tun', p_queue := p_queue p @
          (case (case r of WriteToTunnel pkt \<Rightarrow> Some pkt | _ \<Rightarrow> None) of
             Some pkt \<Rightarrow> if allows contains p (packet_src_ip pkt) then [pkt] else [] | None \<Rightarrow> [])\<rparr>)
         (s\<lparr>w_sent := w_sent s @ (case r of WriteToNetwork pkt \<Rightarrow> [(pkt, src)] | _ \<Rightarrow> []) @ map (\<lambda>pkt. (pkt, src)) pkts\<rparr>)"
      by (auto simp: recv_turn_def bind_eq_Some_conv Let_def)
    then have w: "w_peers s' = w_peers (set_peer pk (p\<lparr>p_endpoint := Some src, p_tunnel := tun', p_queue := p_queue p @
          (case (case r of WriteToTunnel pkt \<Rightarrow> Some pkt | _ \<Rightarrow> None) of
             Some pkt \<Rightarrow> if allows contains p (packet_src_ip pkt) then [pkt] else [] | None \<Rightarrow> [])\<rparr>) s)"
      by (simp add: set_peer_def)
    have "p_endpoint p \<noteq> None \<or> (pk, p) = hd (w_peers s)"
      using Some x by (auto simp: find_peer_def find_Some_iff split: option.splits list.splits)
    moreover have "\<exists>ip raw tun. fst (decapsulate T ip raw tun) = r" using d by (metis fst_conv)
    ultimately show ?thesis
      using find_peer_mem [OF Some] x by (intro that(2) [of pk p, OF _ w]) (auto split: tunn_result.splits)
  qed
next
  case (timer hp)
  obtain pk p where x: "hp = (pk, p)" by fastforce
  show ?thesis
  proof (cases "p_endpoint p")
    case None
    with timer that(1) x show ?thesis by (simp add: timer_turn_def)
  next
    case (Some ep)
    with timer x obtain pkts tun' where
      "s' = set_peer pk (p\<lparr>p_tunnel := tun'\<rparr>) (s\<lparr>w_sent := w_sent s @ map (\<lambda>pkt. (pkt, ep)) pkts\<rparr>)"
      by (auto simp: timer_turn_def bind_eq_Some_conv)
    then have w: "w_peers s' = w_peers (set_peer pk (p\<lparr>p_tunnel := tun'\<rparr>) s)" by (simp add: set_peer_def)
    show ?thesis by (rule that(2) [of pk p, OF _ w]) (use timer x Some in simp_all)
  qed
next
  case (encrypt hp ip_pkt)
  obtain pk p where x: "hp = (pk, p)" by fastforce
  obtain r tun' where e: "encapsulate T ip_pkt (p_tunnel p) = (r, tun')" by fastforce
  show ?thesis
  proof (cases "p_endpoint p")
    case None
    with encrypt that(1) x show ?thesis by (simp add: encrypt_turn_def)
  next
    case (Some ep)
    with encrypt x e have w: "w_peers s' = w_peers (set_peer pk (p\<lparr>p_tunnel := tun'\<rparr>) s)"
      by (auto simp: encrypt_turn_def set_peer_def split: tunn_result.splits)
    show ?thesis by (rule that(2) [of pk p, OF _ w]) (use encrypt x Some in simp_all)
  qed
qed

text \<open>What reaches a peer's actor, and that the ranges of a peer are the configured ones.\<close>

lemma wg_queue_allowed:
  assumes "wg_reach T contains cfg s" "(pk, p) \<in> set (w_peers s)" "pkt \<in> set (p_queue p)"
  shows "(\<exists>net \<in> set (p_allowed p). contains net (packet_src_ip pkt))
    \<and> (\<exists>ip raw tun. fst (decapsulate T ip raw tun) = WriteToTunnel pkt)"
  using assms
proof (induction arbitrary: pk p pkt rule: wg_reach.induct)
  case start
  then show ?case by (auto simp: wg_start_def peer_new_def)
next
  case (step s s')
  from step.hyps(2) show ?case
  proof (cases rule: wg_step_cases)
    case 1
    with step show ?thesis by simp
  next
    case (2 pk' q q')
    with step.prems(1) consider "p = q'" | "(pk, p) \<in> set (w_peers s)" using set_peer_mem by metis
    then show ?thesis
    proof cases
      case 1
      have "pkt \<in> set (p_queue q) \<or> allows contains q (packet_src_ip pkt) \<and> (\<exists>ip raw tun. fst (decapsulate T ip raw tun) = WriteToTunnel pkt)"
        using 2(4) step.prems(2) 1 unfolding 1 by (elim disjE exE conjE) (simp, metis Un_iff list.set_intros(1) set_append set_ConsD empty_iff list.set(1))
      then show ?thesis
        using step.IH [OF 2(1)] 1 2(3) by (elim disjE) (auto simp: allows_def list_ex_iff)
    next
      case 2
      with step show ?thesis by blast
    qed
  qed
qed

lemma wg_allowed_configured:
  assumes "wg_reach T contains cfg s" "(pk, p) \<in> set (w_peers s)"
  shows "\<exists>tun. (pk, tun, p_allowed p) \<in> set cfg"
  using assms
proof (induction arbitrary: pk p rule: wg_reach.induct)
  case start
  then show ?case by (auto simp: wg_start_def peer_new_def)
next
  case (step s s')
  from step.hyps(2) show ?case
  proof (cases rule: wg_step_cases)
    case 1
    with step show ?thesis by simp
  next
    case (2 pk' q q')
    with step.prems have "(pk = pk' \<and> p = q') \<or> (pk, p) \<in> set (w_peers s)" using set_peer_mem by metis
    then show ?thesis using step.IH [OF 2(1)] 2(3) step.IH by auto
  qed
qed

text \<open>
  C29.  Every packet that reaches a peer's actor came out of a tunnel's decryption and its source address lies
  in one of that peer's AllowedIPs, in every reachable state of the receive loop, the timer task and the encrypting tasks.
\<close>

theorem wg_allowed_ips:
  assumes "wg_reach T contains cfg s" "(pk, p) \<in> set (w_peers s)" "pkt \<in> set (p_queue p)"
  shows "(\<exists>net \<in> set (p_allowed p). contains net (packet_src_ip pkt))
    \<and> (\<exists>ip raw tun. fst (decapsulate T ip raw tun) = WriteToTunnel pkt)"
  by (rule wg_queue_allowed [OF assms])

text \<open>
  With several peers only one is ever served: whatever datagrams arrive, in every reachable state each peer but the first
  of the map is as it was configured, with no endpoint, an untouched tunnel and nothing delivered, because a
  datagram from an address that is no peer's endpoint is taken for one of the first peer.
\<close>

theorem wg_only_first_peer:
  assumes "wg_reach T contains cfg s" "distinct (map fst cfg)"
  shows "tl (w_peers s) = tl (w_peers (wg_start cfg)) \<and> (\<forall>x \<in> set (tl (w_peers s)). p_endpoint (snd x) = None \<and> p_queue (snd x) = [])"
proof -
  have fresh: "\<forall>x \<in> set (tl (w_peers (wg_start cfg))). p_endpoint (snd x) = None \<and> p_queue (snd x) = []"
    by (cases cfg) (auto simp: wg_start_def peer_new_def)
  have "tl (w_peers s) = tl (w_peers (wg_start cfg)) \<and> map fst (w_peers s) = map fst cfg"
    using assms(1)
  proof (induction rule: wg_reach.induct)
    case start
    show ?case by (simp add: wg_start_def split_def comp_def)
  next
    case (step s s')
    from step.hyps(2) show ?case
    proof (cases rule: wg_step_cases)
      case 1
      with step.IH show ?thesis by simp
    next
      case (2 pk p p')
      obtain x ps where w: "w_peers s = x # ps" using 2(1) by (cases "w_peers s") auto
      have "(pk, p) = x"
      proof (rule ccontr)
        assume "(pk, p) \<noteq> x"
        with 2(1,5) w have "(pk, p) \<in> set (tl (w_peers s))" "p_endpoint p \<noteq> None" by auto
        with fresh step.IH show False by fastforce
      qed
      moreover have "pk \<notin> fst ` set ps" using step.IH assms(2) w calculation by (metis distinct.simps(2) fst_conv list.set_map list.simps(9))
      moreover have "map (\<lambda>(h, q). if h = pk then (h, p') else (h, q)) ps = ps" if "pk \<notin> fst ` set ps"
        using that by (induction ps) auto
      ultimately have "w_peers (set_peer pk p' s) = (pk, p') # ps"
        using w by (auto simp: set_peer_def)
      with 2(2) w step.IH \<open>(pk, p) = x\<close> show ?thesis by auto
    qed
  qed
  with fresh show ?thesis by simp
qed

text \<open>
  The endpoint moves before anything is authenticated: a datagram from an unknown address that the first peer's tunnel
  rejects still makes that address the peer's endpoint, and the next packet for the peer is sent there.
\<close>

theorem wg_endpoint_hijacked:
  assumes "w_peers s = (pk, p) # ps" "\<forall>x \<in> set (w_peers s). p_endpoint (snd x) \<noteq> Some src" "pk \<notin> fst ` set ps"
    and "decapsulate T (sock_ip src) raw (p_tunnel p) = (TErr, tun)" "drain_timers T tun = Some ([], tun')"
    and "encapsulate T reply tun' = (WriteToNetwork out, tun'')"
  shows "\<exists>s'. recv_turn T contains raw src s = Some s'
    \<and> w_sent (encrypt_turn T reply (hd (w_peers s')) s') = w_sent s @ [(out, src)]"
proof -
  have "find (\<lambda>(_, p). p_endpoint p = Some src) (w_peers s) = None" using assms(2) by (auto simp: find_None_iff)
  then have "find_peer (w_peers s) src = Some (pk, p)" by (simp add: find_peer_def assms(1))
  then show ?thesis
    using assms(1,4,5,6) by (simp add: recv_turn_def encrypt_turn_def set_peer_def)
qed

section \<open>Instances\<close>

text \<open>A tunnel that copies: data packets begin with 4, handshakes with 1, everything else is refused.\<close>

definition toy_tunn :: "unit tunn" where
  "toy_tunn = \<lparr>decapsulate = \<lambda>_ raw t. (case raw of b # bs \<Rightarrow> if b = 4 then WriteToTunnel bs else if b = 1 then WriteToNetwork [2] else TErr | [] \<Rightarrow> Done, t),
     encapsulate = \<lambda>pkt t. (WriteToNetwork (4 # pkt), t), update_timers = \<lambda>t. (Done, t)\<rparr>"

definition demo_cfg :: "(rstring \<times> unit \<times> ip_addr list) list" where
  "demo_cfg = [([1], (), [IpV4 0]), ([2], (), [IpV4 7])]"

lemma toy_drain: "drain_timers toy_tunn t = Some ([], t)"
  by (subst drain_timers.simps) (simp add: toy_tunn_def)

definition demo_wg :: "(unit, ip_addr) wg" where
  "demo_wg = \<lparr>w_peers = [([1], \<lparr>p_tunnel = (), p_endpoint = Some (SockV4 9 500), p_allowed = [IpV4 0], p_queue = [[0]]\<rparr>),
                        ([2], peer_new () [IpV4 7])], w_sent = []\<rparr>"

lemma demo_wg_reach: "wg_reach toy_tunn (=) demo_cfg demo_wg"
proof (rule wg_reach.step [OF wg_reach.start wg_step.recv])
  show "recv_turn toy_tunn (=) [4, 0] (SockV4 9 500) (wg_start demo_cfg) = Some demo_wg"
  proof -
    have d: "decapsulate toy_tunn ip [4, 0] () = (WriteToTunnel [0], ())" for ip by (simp add: toy_tunn_def)
    have "packet_src_ip [0] = IpV4 0" by (simp add: packet_src_ip_def)
    then show ?thesis
      by (simp add: recv_turn_def wg_start_def demo_cfg_def find_peer_def peer_new_def set_peer_def demo_wg_def allows_def
          Let_def d toy_drain)
  qed
qed

theorem wg_allowed_ips_witness: "IpV4 0 = packet_src_ip [0] \<and> (\<exists>ip raw tun. fst (decapsulate toy_tunn ip raw tun) = WriteToTunnel [0])"
  using wg_allowed_ips [OF demo_wg_reach, of "[1]" "\<lparr>p_tunnel = (), p_endpoint = Some (SockV4 9 500), p_allowed = [IpV4 0], p_queue = [[0]]\<rparr>" "[0]"]
  by (simp add: demo_wg_def)

theorem wg_only_first_peer_witness: "tl (w_peers demo_wg) = tl (w_peers (wg_start demo_cfg))"
  using wg_only_first_peer [OF demo_wg_reach] by (simp add: demo_cfg_def)

theorem wg_endpoint_hijacked_witness:
  "\<exists>s'. recv_turn toy_tunn (=) [0xFF] (SockV4 66 666) demo_wg = Some s'
    \<and> w_sent (encrypt_turn toy_tunn [1, 2] (hd (w_peers s')) s') = [([4, 1, 2], SockV4 66 666)]"
  using wg_endpoint_hijacked [of demo_wg "[1]" "\<lparr>p_tunnel = (), p_endpoint = Some (SockV4 9 500), p_allowed = [IpV4 0], p_queue = [[0]]\<rparr>"
      "[([2], peer_new () [IpV4 7])]" "SockV4 66 666" toy_tunn "[0xFF]" "()" "()" "[1, 2]" "[4, 1, 2]" "()" "(=)"] toy_drain [of "()"]
  by (simp add: demo_wg_def peer_new_def toy_tunn_def)

end
