(* ===== verification/Ip_Parse.thy ===== *)
theory Ip_Parse
  imports Rust_Std
begin

text \<open>
  The textual form of IP addresses as Rust's standard library reads it (\<open>IpAddr::from_str\<close>): a parser that consumes a prefix
  of the text, IPv4 first and IPv6 where that fails, and must consume all of it.
\<close>

section \<open>The parser\<close>

definition read_char :: "u8 \<Rightarrow> rstring \<Rightarrow> rstring option" where
  "read_char c s = (case s of b # t \<Rightarrow> if b = c then Some t else None | [] \<Rightarrow> None)"

text \<open>A number of at most \<open>maxd\<close> digits; a longer run of digits is an error, not a shorter number.\<close>

definition read_number :: "nat \<Rightarrow> nat \<Rightarrow> bool \<Rightarrow> nat \<Rightarrow> rstring \<Rightarrow> (nat \<times> rstring) option" where
  "read_number radix maxd zero_prefix hi s =
     (let ds = takeWhile (\<lambda>b. digit radix b \<noteq> None) s
      in if ds = [] \<or> maxd < length ds \<or> (\<not> zero_prefix \<and> hd ds = 48 \<and> 1 < length ds) then None
         else case digits_val radix 0 ds of
                Some v \<Rightarrow> if v \<le> hi then Some (v, drop (length ds) s) else None
              | None \<Rightarrow> None)"

abbreviation read_octet :: "rstring \<Rightarrow> (nat \<times> rstring) option" where
  "read_octet \<equiv> read_number 10 3 False 255"

definition then_octet :: "(nat list \<times> rstring) option \<Rightarrow> (nat list \<times> rstring) option" where
  "then_octet r =
     Option.bind r (\<lambda>(os, s). Option.bind (read_char 46 s) (\<lambda>s. map_option (\<lambda>(a, s). (os @ [a], s)) (read_octet s)))"

definition read_ipv4 :: "rstring \<Rightarrow> (ipv4 \<times> rstring) option" where
  "read_ipv4 s =
     map_option (\<lambda>(os, r). (from_be (map of_nat os), r))
       (then_octet (then_octet (then_octet (map_option (\<lambda>(a, r). ([a], r)) (read_octet s)))))"

definition separated :: "nat \<Rightarrow> rstring \<Rightarrow> rstring option" where
  "separated i s = (if i = 0 then Some s else read_char 58 s)"

text \<open>Groups of an IPv6 address, the last two of which may be written as an IPv4 address, which ends them.\<close>

function read_groups :: "nat \<Rightarrow> nat \<Rightarrow> rstring \<Rightarrow> nat list \<times> bool \<times> rstring" where
  "read_groups limit i s =
     (if i < limit then
        (case (if i < limit - 1 then Option.bind (separated i s) read_ipv4 else None) of
           Some (a, s') \<Rightarrow> ([unat a div 65536, unat a mod 65536], True, s')
         | None \<Rightarrow>
             (case Option.bind (separated i s) (read_number 16 4 True 65535) of
                Some (g, s') \<Rightarrow> (case read_groups limit (i + 1) s' of (gs, v4, r) \<Rightarrow> (g # gs, v4, r))
              | None \<Rightarrow> ([], False, s)))
      else ([], False, s))"
  by pat_completeness auto
termination by (relation "measure (\<lambda>(limit, i, s). limit - i)") auto

declare read_groups.simps [simp del]

definition ipv6_of_groups :: "nat list \<Rightarrow> ipv6" where
  "ipv6_of_groups gs = foldl (\<lambda>a g. a * 65536 + of_nat g) 0 gs"

definition read_ipv6 :: "rstring \<Rightarrow> (ipv6 \<times> rstring) option" where
  "read_ipv6 s =
     (case read_groups 8 0 s of
        (head, v4, r) \<Rightarrow>
          if length head = 8 then Some (ipv6_of_groups head, r)
          else if v4 then None
          else Option.bind (read_char 58 r) (\<lambda>r. Option.bind (read_char 58 r) (\<lambda>r.
            case read_groups (8 - (length head + 1)) 0 r of
              (tail, _, r) \<Rightarrow> Some (ipv6_of_groups (head @ replicate (8 - length head - length tail) 0 @ tail), r))))"

definition parse_ip :: "rstring \<Rightarrow> ip_addr option" where
  "parse_ip s =
     (case (case read_ipv4 s of
              Some (a, r) \<Rightarrow> Some (IpV4 a, r)
            | None \<Rightarrow> map_option (\<lambda>(a, r). (IpV6 a, r)) (read_ipv6 s)) of
        Some (ip, r) \<Rightarrow> if r = [] then Some ip else None
      | None \<Rightarrow> None)"

section \<open>Printed IPv4 addresses are read back\<close>

lemma dec_head:
  "0 < n \<Longrightarrow> hd (dec n) \<noteq> 48"
proof (induction n rule: dec.induct)
  case (1 n)
  show ?case
  proof (cases "n < 10")
    case True
    then have "n \<in> {1, 2, 3, 4, 5, 6, 7, 8, 9}" using 1(2) by auto
    then show ?thesis by (subst dec.simps) auto
  next
    case False
    then show ?thesis using 1(1) by (subst dec.simps) (simp add: hd_append)
  qed
qed

lemma dec_leading_zero: "hd (dec n) = 48 \<Longrightarrow> length (dec n) = 1"
  using dec_head [of n] by (cases "n = 0") (auto simp: dec.simps [of 0])

lemma dec_digits: "b \<in> set (dec n) \<Longrightarrow> digit 10 b \<noteq> None"
proof -
  assume "b \<in> set (dec n)"
  then have "48 \<le> b" "b \<le> 57" using dec_digit_range by blast+
  then have "unat b - 48 < 10" "48 \<le> b \<and> b \<le> 57" by (auto simp: word_le_nat_alt)
  then show ?thesis by (simp add: digit_def)
qed

lemma read_octet_dec:
  assumes "r = [] \<or> hd r \<in> {46, 47}"
  shows "read_octet (dec (unat (a :: u8)) @ r) = Some (unat a, r)"
proof -
  have stop: "takeWhile (\<lambda>b. digit 10 b \<noteq> None) r = []"
    using assms by (cases r) (auto simp: digit_def)
  have "takeWhile (\<lambda>b. digit 10 b \<noteq> None) (dec (unat a) @ r) = dec (unat a)"
    using stop dec_digits by (simp add: takeWhile_append2)
  moreover have "unat a \<le> 255" using unsigned_less [where ?'a = nat, of a] by simp
  moreover have "\<not> (hd (dec (unat a)) = 48 \<and> 1 < length (dec (unat a)))" using dec_leading_zero by fastforce
  ultimately show ?thesis
    using length_dec_byte [of a] digits_val_dec [of "unat a"] by (auto simp: read_number_def Let_def)
qed

lemma then_octet_dec:
  assumes "r = [] \<or> hd r \<in> {46, 47}"
  shows "then_octet (Some (os, [46] @ dec (unat (a :: u8)) @ r)) = Some (os @ [unat a], r)"
  using read_octet_dec [OF assms] by (simp add: then_octet_def read_char_def)

lemma read_ipv4_string:
  assumes "r = [] \<or> hd r = 47"
  shows "read_ipv4 (ipv4_to_string a @ r) = Some (a, r)"
proof -
  obtain w x y z where o: "octets4 a = [w, x, y, z]"
    proof -
    have "length (octets4 a) = Suc (Suc (Suc (Suc 0)))" by simp
    then show thesis using that by (auto simp: length_Suc_conv simp del: length_octets)
  qed
  have s: "ipv4_to_string a = dec (unat w) @ [46] @ dec (unat x) @ [46] @ dec (unat y) @ [46] @ dec (unat z)"
    by (simp add: ipv4_to_string_def o)
  have first: "read_octet (ipv4_to_string a @ r) = Some (unat w, [46] @ dec (unat x) @ [46] @ dec (unat y) @ [46] @ dec (unat z) @ r)"
    unfolding s append_assoc by (rule read_octet_dec) simp
  have "then_octet (Some ([unat w], [46] @ dec (unat x) @ [46] @ dec (unat y) @ [46] @ dec (unat z) @ r))
      = Some ([unat w] @ [unat x], [46] @ dec (unat y) @ [46] @ dec (unat z) @ r)" by (rule then_octet_dec) simp
  moreover have "then_octet (Some ([unat w] @ [unat x], [46] @ dec (unat y) @ [46] @ dec (unat z) @ r))
      = Some (([unat w] @ [unat x]) @ [unat y], [46] @ dec (unat z) @ r)" by (rule then_octet_dec) simp
  moreover have "then_octet (Some (([unat w] @ [unat x]) @ [unat y], [46] @ dec (unat z) @ r))
      = Some ((([unat w] @ [unat x]) @ [unat y]) @ [unat z], r)" by (rule then_octet_dec) (use assms in auto)
  moreover have "map of_nat [unat w, unat x, unat y, unat z] = octets4 a" by (simp add: o)
  moreover have "from_be (octets4 a) = a" by simp
  ultimately show ?thesis unfolding read_ipv4_def first by (simp add: o)
qed

lemma parse_ip_ipv4: "parse_ip (ipv4_to_string a) = Some (IpV4 a)"
  using read_ipv4_string [of "[]" a] by (simp add: parse_ip_def)

end
