(* ===== verification/Wireguard_Setup.thy ===== *)
theory Wireguard_Setup
  imports Wireguard_Server Ip_Parse "HOL-Library.AList"
begin

text \<open>
  The start of the WireGuard server (\<open>run\<close> of \<open>wireguard/server.rs\<close> up to its tasks): keys, tunnel addresses, the
  table of peers.  Base64, hexadecimal, address ranges and the tunnels are the libraries'.
\<close>

section \<open>The model\<close>

record wg_peer_config =
  wp_public_key :: rstring
  wp_pre_shared_key :: "rstring option"
  wp_allowed_ips :: "rstring list"
  wp_keepalive_interval :: "u16 option"
  wp_dns :: "rstring list"

record wg_config =
  wc_listen :: rstring
  wc_private_key :: rstring
  wc_server_address :: "rstring list"
  wc_mtu :: u16
  wc_peers :: "wg_peer_config list"

record ('t, 'n) wg_lib =
  wl_base64 :: "rstring \<Rightarrow> bytes option"
  wl_hex :: "bytes \<Rightarrow> rstring"
  wl_network :: "rstring \<Rightarrow> 'n option"
  wl_tunnel :: "bytes \<Rightarrow> bytes \<Rightarrow> bytes option \<Rightarrow> u16 option \<Rightarrow> nat \<Rightarrow> 't"

type_synonym cidr = "ip_addr \<times> nat"

definition decode_key :: "('t, 'n) wg_lib \<Rightarrow> rstring \<Rightarrow> bytes result" where
  "decode_key L b64 = (case wl_base64 L (trim b64) of None \<Rightarrow> Inl (Bail ''invalid base64'') | Some b \<Rightarrow> Inr b)"

text \<open>The conversion into an array of 32 bytes.\<close>

definition key_array :: "bytes \<Rightarrow> bytes result" where
  "key_array b = and_then (ensure (length b = 32) (Bail ''slice length'')) (\<lambda>_. Inr b)"

text \<open>\<open>Ipv4Cidr::new\<close> and \<open>Ipv6Cidr::new\<close> assert that the prefix length fits the address.\<close>

definition parse_ip_cidr :: "rstring \<Rightarrow> cidr result" where
  "parse_ip_cidr s =
     (case rsplit_once 47 s of
        None \<Rightarrow> Inl (Bail ''invalid CIDR'')
      | Some (ip_str, plen) \<Rightarrow>
          (case parse_unsigned 255 plen of
             None \<Rightarrow> Inl ParseError
           | Some plen \<Rightarrow>
               (case parse_ip ip_str of
                  None \<Rightarrow> Inl ParseError
                | Some ip \<Rightarrow>
                    if plen \<le> (case ip of IpV4 _ \<Rightarrow> 32 | IpV6 _ \<Rightarrow> 128) then Inr (ip, plen)
                    else Inl (Panic ''prefix_len''))))"

text \<open>Addresses that do not parse are dropped; a panic is not an error that can be dropped.\<close>

fun server_cidrs :: "rstring list \<Rightarrow> cidr list result" where
  "server_cidrs [] = Inr []"
| "server_cidrs (s # ss) =
     (case parse_ip_cidr s of
        Inr c \<Rightarrow> and_then (server_cidrs ss) (\<lambda>cs. Inr (c # cs))
      | Inl (Panic m) \<Rightarrow> Inl (Panic m)
      | Inl e \<Rightarrow> server_cidrs ss)"

fun networks :: "('t, 'n) wg_lib \<Rightarrow> rstring list \<Rightarrow> 'n list result" where
  "networks L [] = Inr []"
| "networks L (c # cs) =
     (case wl_network L c of
        None \<Rightarrow> Inl (Bail ''invalid allowed_ips'')
      | Some net \<Rightarrow> and_then (networks L cs) (\<lambda>nets. Inr (net # nets)))"

text \<open>One peer: its name in the tables, its tunnel and its ranges.\<close>

definition peer_setup :: "('t, 'n) wg_lib \<Rightarrow> bytes \<Rightarrow> nat \<Rightarrow> wg_peer_config \<Rightarrow> (rstring \<times> 't \<times> 'n list) result" where
  "peer_setup L private_key idx pc =
     and_then (and_then (decode_key L (wp_public_key pc)) key_array) (\<lambda>pub_key.
     and_then (case wp_pre_shared_key pc of
                 Some s \<Rightarrow> and_then (and_then (decode_key L s) key_array) (\<lambda>b. Inr (Some b))
               | None \<Rightarrow> Inr None) (\<lambda>psk.
     and_then (networks L (wp_allowed_ips pc)) (\<lambda>allowed_ips.
       Inr (wl_hex L pub_key, wl_tunnel L private_key pub_key psk (wp_keepalive_interval pc) idx, allowed_ips))))"

text \<open>
  The tables: the peers by name, an entry replaced when a key is configured twice, and the routing table of the ranges, which nothing
  reads.  Each peer's actor is started on the same addresses.
\<close>

record ('t, 'n) wg_tables =
  wt_peers :: "(rstring \<times> 't \<times> 'n list) list"
  wt_routes :: "('n \<times> rstring) list"

fun peers_setup :: "('t, 'n) wg_lib \<Rightarrow> bytes \<Rightarrow> nat \<Rightarrow> wg_peer_config list \<Rightarrow> ('t, 'n) wg_tables \<Rightarrow> ('t, 'n) wg_tables result" where
  "peers_setup L private_key idx [] t = Inr t"
| "peers_setup L private_key idx (pc # pcs) t =
     and_then (peer_setup L private_key idx pc) (\<lambda>(pub_hex, tunnel, allowed_ips).
       peers_setup L private_key (idx + 1) pcs
         \<lparr>wt_peers = AList.update pub_hex (tunnel, allowed_ips) (wt_peers t),
          wt_routes = wt_routes t @ map (\<lambda>net. (net, pub_hex)) allowed_ips\<rparr>)"

definition wg_run ::
  "('t, 'n) wg_lib \<Rightarrow> (rstring \<Rightarrow> unit result) \<Rightarrow> wg_config \<Rightarrow> (cidr list \<times> ('t, 'n) wg_tables) result" where
  "wg_run L bind cfg =
     and_then (and_then (decode_key L (wc_private_key cfg)) key_array) (\<lambda>private_key.
     and_then (server_cidrs (wc_server_address cfg)) (\<lambda>cidrs.
     and_then (peers_setup L private_key 0 (wc_peers cfg) \<lparr>wt_peers = [], wt_routes = []\<rparr>) (\<lambda>tables.
     and_then (bind (wc_listen cfg)) (\<lambda>_. Inr (cidrs, tables)))))"

section \<open>The table of peers\<close>

definition pub_of :: "('t, 'n) wg_lib \<Rightarrow> wg_peer_config \<Rightarrow> rstring" where
  "pub_of L pc = (case wl_base64 L (trim (wp_public_key pc)) of Some b \<Rightarrow> wl_hex L b | None \<Rightarrow> [])"

lemma peer_setup_name: "peer_setup L k i pc = Inr (h, v) \<Longrightarrow> h = pub_of L pc"
  by (auto simp: peer_setup_def and_then_eq_Inr decode_key_def key_array_def pub_of_def split: option.splits)

text \<open>What the loop leaves for a name: the value of the last peer that has it.\<close>

lemma peers_setup_lookup:
  assumes "peers_setup L k i pcs t = Inr t'"
  shows "map_of (wt_peers t') h =
      (case find (\<lambda>j. pub_of L (pcs ! j) = h) (rev [0..<length pcs]) of
         Some j \<Rightarrow> map_option snd (case peer_setup L k (i + j) (pcs ! j) of Inr v \<Rightarrow> Some v | Inl _ \<Rightarrow> None)
       | None \<Rightarrow> map_of (wt_peers t) h)"
  using assms
proof (induction pcs arbitrary: i t)
  case Nil
  then show ?case by simp
next
  case (Cons pc pcs)
  then obtain p tun nets where s: "peer_setup L k i pc = Inr (p, tun, nets)" by (auto simp: and_then_eq_Inr)
  let ?t = "\<lparr>wt_peers = AList.update p (tun, nets) (wt_peers t), wt_routes = wt_routes t @ map (\<lambda>net. (net, p)) nets\<rparr>"
  from Cons.prems s have r: "peers_setup L k (i + 1) pcs ?t = Inr t'" by simp
  have p: "p = pub_of L pc" using peer_setup_name [OF s] by simp
  have ix: "rev [0..<length (pc # pcs)] = map Suc (rev [0..<length pcs]) @ [0]"
    by (simp add: upt_conv_Cons map_Suc_upt [symmetric] rev_map [symmetric] del: upt_Suc map_Suc_upt)
  have f: "find (\<lambda>j. pub_of L ((pc # pcs) ! j) = h) (map Suc js @ [0])
      = (case find (\<lambda>j. pub_of L (pcs ! j) = h) js of Some j \<Rightarrow> Some (Suc j) | None \<Rightarrow> if p = h then Some 0 else None)" for js
    by (induction js) (simp_all add: p)
  show ?case
    unfolding Cons.IH [OF r] ix f using s by (auto simp: update_conv split: option.split)
qed

lemma peers_setup_keys:
  "peers_setup L k i pcs t = Inr t' \<Longrightarrow> distinct (map fst (wt_peers t)) \<Longrightarrow>
     distinct (map fst (wt_peers t')) \<and> fst ` set (wt_peers t') = fst ` set (wt_peers t) \<union> pub_of L ` set pcs"
proof (induction pcs arbitrary: i t)
  case Nil
  then show ?case by simp
next
  case (Cons pc pcs)
  then obtain p tun nets where s: "peer_setup L k i pc = Inr (p, tun, nets)" by (auto simp: and_then_eq_Inr)
  let ?t = "\<lparr>wt_peers = AList.update p (tun, nets) (wt_peers t), wt_routes = wt_routes t @ map (\<lambda>net. (net, p)) nets\<rparr>"
  from Cons.prems s have r: "peers_setup L k (i + 1) pcs ?t = Inr t'" by simp
  from Cons.IH [OF r] Cons.prems(2) peer_setup_name [OF s]
  show ?case by (auto simp: distinct_update dom_update image_Un)
qed

lemma set_update_le: "set (AList.update k v xs) \<subseteq> insert (k, v) (set xs)"
  by (induction xs) auto

lemma peers_setup_from:
  assumes "peers_setup L k i pcs t = Inr t'" "(h, tun, nets) \<in> set (wt_peers t')"
  shows "(h, tun, nets) \<in> set (wt_peers t) \<or> (\<exists>pc \<in> set pcs. pub_of L pc = h \<and> networks L (wp_allowed_ips pc) = Inr nets)"
  using assms
proof (induction pcs arbitrary: i t)
  case (Cons pc pcs)
  from Cons.prems(1) obtain h' tun' nets' where p: "peer_setup L k i pc = Inr (h', tun', nets')"
    and r: "peers_setup L k (i + 1) pcs \<lparr>wt_peers = AList.update h' (tun', nets') (wt_peers t),
          wt_routes = wt_routes t @ map (\<lambda>net. (net, h')) nets'\<rparr> = Inr t'"
    by (auto simp: and_then_eq_Inr)
  have "networks L (wp_allowed_ips pc) = Inr nets'" using p by (auto simp: peer_setup_def and_then_eq_Inr)
  moreover have "h' = pub_of L pc" using peer_setup_name [OF p] .
  moreover have "set (AList.update h' (tun', nets') (wt_peers t)) \<subseteq> insert (h', tun', nets') (set (wt_peers t))"
    by (rule set_update_le)
  ultimately show ?case using Cons.IH [OF r Cons.prems(2)] by auto
qed simp

lemma peers_setup_ok: "peers_setup L k i pcs t = Inr t' \<Longrightarrow> j < length pcs \<Longrightarrow> \<exists>v. peer_setup L k (i + j) (pcs ! j) = Inr v"
proof (induction pcs arbitrary: i t j)
  case (Cons pc pcs)
  then show ?case by (cases j) (fastforce simp: and_then_eq_Inr)+
qed simp

section \<open>Properties\<close>

text \<open>
  A WireGuard server that starts has a table of peers with one entry for each configured public key and no other; the entry of a key is the tunnel and the ranges of
  the last peer configured with it, so that an earlier peer with the same key disappears without an error.
\<close>

theorem wg_peer_table:
  assumes "wg_run L bind cfg = Inr (cidrs, t)" "j < length (wc_peers cfg)"
    and "\<forall>i. i \<le> j \<or> length (wc_peers cfg) \<le> i \<or> pub_of L (wc_peers cfg ! i) \<noteq> pub_of L (wc_peers cfg ! j)"
  shows "distinct (map fst (wt_peers t)) \<and> fst ` set (wt_peers t) = pub_of L ` set (wc_peers cfg)
    \<and> (\<exists>private_key v. and_then (decode_key L (wc_private_key cfg)) key_array = Inr private_key
         \<and> peer_setup L private_key j (wc_peers cfg ! j) = Inr (pub_of L (wc_peers cfg ! j), v)
         \<and> map_of (wt_peers t) (pub_of L (wc_peers cfg ! j)) = Some v)"
proof -
  let ?e = "\<lparr>wt_peers = [], wt_routes = []\<rparr>" and ?P = "wc_peers cfg" and ?h = "pub_of L (wc_peers cfg ! j)"
  from assms(1) obtain k where k: "and_then (decode_key L (wc_private_key cfg)) key_array = Inr k"
    and s: "peers_setup L k 0 ?P ?e = Inr t" by (auto simp: wg_run_def and_then_eq_Inr)
  from peers_setup_ok [OF s assms(2)] obtain h v where v: "peer_setup L k j (?P ! j) = Inr (h, v)" by auto
  have h: "h = ?h" by (rule peer_setup_name [OF v])
  have "find (\<lambda>i. pub_of L (?P ! i) = ?h) (rev [0..<length ?P]) = Some j"
  proof -
    have "[0..<j + (length ?P - j)] = [0..<j] @ [j..<j + (length ?P - j)]" by (rule upt_add_eq_append) simp
    then have "[0..<length ?P] = [0..<j] @ j # [j + 1..<length ?P]"
      using assms(2) by (simp add: upt_conv_Cons del: upt_Suc)
    then have "rev [0..<length ?P] = rev [j + 1..<length ?P] @ j # rev [0..<j]" by (simp del: upt_Suc)
    moreover have "find (\<lambda>i. pub_of L (?P ! i) = ?h) (rev [j + 1..<length ?P]) = None"
    proof -
      have "\<not> (i \<in> set (rev [j + 1..<length ?P]) \<and> pub_of L (?P ! i) = ?h)" for i
        using assms(3) [rule_format, of i] by (auto simp del: upt_Suc)
      then show ?thesis unfolding find_None_iff by blast
    qed
    moreover have "find p (xs @ ys) = (case find p xs of Some x \<Rightarrow> Some x | None \<Rightarrow> find p ys)" for p :: "nat \<Rightarrow> bool" and xs ys
      by (induction xs) simp_all
    ultimately show ?thesis by simp
  qed
  with peers_setup_lookup [OF s, of ?h] v have "map_of (wt_peers t) ?h = Some v" by simp
  with peers_setup_keys [OF s] k v h show ?thesis by (intro conjI exI [of _ k] exI [of _ v]) auto
qed

text \<open>
  A tunnel address of the configuration, an IPv4 address and a prefix length, is read as what it says up to a prefix length of 32; one between 33 and 255 is a number the
  parser accepts and the address type does not, which ends the start of the server in a panic; a larger one is an error, and the address is
  dropped without a word.
\<close>

theorem wg_cidr:
  "server_cidrs [ipv4_to_string a @ str ''/'' @ dec p] =
     (if p \<le> 32 then Inr [(IpV4 a, p)] else if p \<le> 255 then Inl (Panic ''prefix_len'') else Inr [])"
proof -
  have "rsplit_once 47 (ipv4_to_string a @ [47] @ dec p) = Some (ipv4_to_string a, dec p)"
    using dec_no_sign [of 47 p] rsplit_once_append [of 47 "dec p" "ipv4_to_string a"] by simp
  moreover have "parse_unsigned 255 (dec p) = (if p \<le> 255 then Some p else None)"
  proof (cases "p \<le> 255")
    case False
    obtain b u where "dec p = b # u" by (cases "dec p") simp_all
    moreover from this have "b \<noteq> 43" using dec_no_sign [of 43 p] by auto
    ultimately show ?thesis using digits_val_dec [of p] False by (simp add: from_str_radix_def)
  qed (simp add: parse_dec)
  ultimately show ?thesis by (simp add: parse_ip_cidr_def parse_ip_ipv4 del: server_cidrs.simps(1)) simp
qed

text \<open>Libraries for the example: keys are written as themselves, a range is its text.\<close>

definition plain_lib :: "(nat, rstring) wg_lib" where
  "plain_lib = \<lparr>wl_base64 = \<lambda>s. Some s, wl_hex = \<lambda>b. b, wl_network = \<lambda>s. Some s, wl_tunnel = \<lambda>_ _ _ _ idx. idx\<rparr>"

definition key_of :: "u8 \<Rightarrow> rstring" where
  "key_of b = replicate 32 b"

definition example_peers :: wg_config where
  "example_peers = \<lparr>wc_listen = [], wc_private_key = key_of 65, wc_server_address = [], wc_mtu = 1420,
     wc_peers = [\<lparr>wp_public_key = key_of 66, wp_pre_shared_key = None, wp_allowed_ips = [str ''a''], wp_keepalive_interval = None, wp_dns = []\<rparr>,
                 \<lparr>wp_public_key = key_of 66, wp_pre_shared_key = None, wp_allowed_ips = [str ''b''], wp_keepalive_interval = None, wp_dns = []\<rparr>]\<rparr>"

lemma key_of_simps: "trim (key_of 65) = key_of 65" "trim (key_of 66) = key_of 66" "length (key_of b) = 32"
  by (simp_all add: key_of_def) code_simp+

lemma example_runs:
  "wg_run plain_lib (\<lambda>_. Inr ()) example_peers = Inr ([],
     \<lparr>wt_peers = [(key_of 66, 1, [str ''b''])], wt_routes = [(str ''a'', key_of 66), (str ''b'', key_of 66)]\<rparr>)"
  by (simp add: wg_run_def example_peers_def decode_key_def plain_lib_def key_array_def key_of_simps ensure_def peer_setup_def)

theorem wg_peer_table_witness:
  "\<exists>t v. wg_run plain_lib (\<lambda>_. Inr ()) example_peers = Inr ([], t) \<and> map_of (wt_peers t) (key_of 66) = Some v
     \<and> fst ` set (wt_peers t) = {key_of 66}"
proof -
  have p: "pub_of plain_lib (wc_peers example_peers ! 1) = key_of 66" "pub_of plain_lib ` set (wc_peers example_peers) = {key_of 66}"
    by (simp_all add: pub_of_def plain_lib_def example_peers_def key_of_simps)
  have "1 < length (wc_peers example_peers)" "\<forall>i. i \<le> 1 \<or> length (wc_peers example_peers) \<le> i
      \<or> pub_of plain_lib (wc_peers example_peers ! i) \<noteq> pub_of plain_lib (wc_peers example_peers ! 1)"
    by (auto simp: example_peers_def)
  from wg_peer_table [OF example_runs this] p show ?thesis using example_runs by auto
qed

end
