(* ===== verification/Anytls_Padding.thy ===== *)
theory Anytls_Padding
  imports Rust_Std
begin

text \<open>
  The AnyTLS padding scheme (\<open>anytls/padding.rs\<close>): the text format, its parser and the shared,
  replaceable scheme.  The MD5 digest of the \<open>md5\<close> crate is the parameter \<open>md5\<close>; the random choice
  inside a range is the parameter \<open>pick\<close>, a function of the range.
\<close>

section \<open>The model\<close>

definition CHECK_MARK :: int where "CHECK_MARK = -1"

definition DEFAULT_SCHEME_BYTES :: rstring where
  "DEFAULT_SCHEME_BYTES =
     str ''stop=8'' @ [10] @ str ''0=30-30'' @ [10] @ str ''1=100-400'' @ [10]
     @ str ''2=400-500,c,500-1000,c,500-1000,c,500-1000,c,500-1000'' @ [10]
     @ str ''3=9-9,500-1000'' @ [10] @ str ''4=500-1000'' @ [10] @ str ''5=500-1000'' @ [10]
     @ str ''6=500-1000'' @ [10] @ str ''7=500-1000''"

record padding_scheme =
  stop :: nat
  rules :: "nat \<rightharpoonup> int list"
  raw :: rstring
  md5_hex :: rstring

text \<open>One round of the loop of \<open>parse_size_list\<close>: what it pushes, if anything.\<close>

definition size_entry :: "(int \<Rightarrow> int \<Rightarrow> int) \<Rightarrow> rstring \<Rightarrow> int option" where
  "size_entry pick p =
     (let part = trim p in
      if part = str ''c'' then Some CHECK_MARK
      else case split_once 45 part of
        None \<Rightarrow> None
      | Some (lo_s, hi_s) \<Rightarrow>
          (case (parse_i64 lo_s, parse_i64 hi_s) of
             (Some lo, Some hi) \<Rightarrow>
               if lo \<le> 0 \<or> hi \<le> 0 then None
               else
                 (let a = min lo hi; b = max lo hi
                  in Some (if a = b then a else pick a b))
           | _ \<Rightarrow> None))"

definition parse_size_list :: "(int \<Rightarrow> int \<Rightarrow> int) \<Rightarrow> rstring \<Rightarrow> int list" where
  "parse_size_list pick s = List.map_filter (size_entry pick) (split_on 44 s)"

fun scheme_lines ::
  "(int \<Rightarrow> int \<Rightarrow> int) \<Rightarrow> nat option \<times> (nat \<rightharpoonup> int list) \<Rightarrow> rstring list \<Rightarrow> (nat option \<times> (nat \<rightharpoonup> int list)) option"
where
  "scheme_lines pick st [] = Some st"
| "scheme_lines pick st (l # ls) =
     (let line = trim l in
      if line = [] then scheme_lines pick st ls
      else case split_once 61 line of
        None \<Rightarrow> None
      | Some (k, v) \<Rightarrow>
          (let k = trim k; v = trim v in
           if k = str ''stop'' then
             (case parse_unsigned 4294967295 v of
                None \<Rightarrow> None
              | Some n \<Rightarrow> scheme_lines pick (Some n, snd st) ls)
           else case parse_unsigned 4294967295 k of
             Some idx \<Rightarrow> scheme_lines pick (fst st, (snd st)(idx \<mapsto> parse_size_list pick v)) ls
           | None \<Rightarrow> scheme_lines pick st ls))"

definition from_bytes :: "(int \<Rightarrow> int \<Rightarrow> int) \<Rightarrow> (bytes \<Rightarrow> rstring) \<Rightarrow> bytes \<Rightarrow> padding_scheme option" where
  "from_bytes pick md5 r =
     (if \<not> utf8_valid r then None
      else case scheme_lines pick (None, Map.empty) (lines r) of
        None \<Rightarrow> None
      | Some (None, _) \<Rightarrow> None
      | Some (Some n, rs) \<Rightarrow> Some \<lparr>stop = n, rules = rs, raw = r, md5_hex = md5 r\<rparr>)"

definition sizes_for :: "padding_scheme \<Rightarrow> nat \<Rightarrow> int list" where
  "sizes_for sch pkt = (case rules sch pkt of Some v \<Rightarrow> v | None \<Rightarrow> [])"

text \<open>\<open>SharedPadding\<close>: \<open>new_default\<close> panics when the built-in scheme does not parse.\<close>

definition new_default :: "(int \<Rightarrow> int \<Rightarrow> int) \<Rightarrow> (bytes \<Rightarrow> rstring) \<Rightarrow> padding_scheme result" where
  "new_default pick md5 =
     (case from_bytes pick md5 DEFAULT_SCHEME_BYTES of
        Some sch \<Rightarrow> Inr sch
      | None \<Rightarrow> Inl (Panic ''built-in padding scheme is always valid''))"

definition padding_update ::
  "(int \<Rightarrow> int \<Rightarrow> int) \<Rightarrow> (bytes \<Rightarrow> rstring) \<Rightarrow> bytes \<Rightarrow> padding_scheme \<Rightarrow> bool \<times> padding_scheme" where
  "padding_update pick md5 r cur =
     (case from_bytes pick md5 r of Some sch \<Rightarrow> (True, sch) | None \<Rightarrow> (False, cur))"

section \<open>Every size is usable\<close>

lemma size_entry_range:
  assumes pick: "\<And>a b. a < b \<Longrightarrow> a \<le> pick a b \<and> pick a b \<le> b" and "size_entry pick p = Some n"
  shows "n = CHECK_MARK \<or> 0 < n"
proof (cases "trim p = str ''c''")
  case False
  with assms(2) obtain a b lo hi where
    n: "split_once 45 (trim p) = Some (a, b)" "parse_i64 a = Some lo" "parse_i64 b = Some hi"
      "0 < lo" "0 < hi"
    by (auto simp: size_entry_def Let_def not_le split: option.splits if_splits)
  with False assms(2)
  have "n = (if min lo hi = max lo hi then min lo hi else pick (min lo hi) (max lo hi))"
    by (simp add: size_entry_def Let_def)
  with n(4,5) show ?thesis using pick [of "min lo hi" "max lo hi"] by (auto simp: min_def max_def split: if_splits)
qed (use assms(2) in \<open>simp add: size_entry_def\<close>)

lemma parse_size_list_range:
  assumes "\<And>a b. a < b \<Longrightarrow> a \<le> pick a b \<and> pick a b \<le> b" "n \<in> set (parse_size_list pick s)"
  shows "n = CHECK_MARK \<or> 0 < n"
proof -
  from assms(2) obtain p where "size_entry pick p = Some n"
    by (auto simp: parse_size_list_def List.map_filter_def)
  with size_entry_range [of pick, OF assms(1)] show ?thesis by blast
qed

lemma scheme_lines_range:
  assumes pick: "\<And>a b. a < b \<Longrightarrow> a \<le> pick a b \<and> pick a b \<le> b"
  shows "scheme_lines pick st ls = Some st' \<Longrightarrow>
    \<forall>i v. snd st i = Some v \<longrightarrow> (\<forall>n \<in> set v. n = CHECK_MARK \<or> 0 < n) \<Longrightarrow>
    \<forall>i v. snd st' i = Some v \<longrightarrow> (\<forall>n \<in> set v. n = CHECK_MARK \<or> 0 < n)"
proof (induction ls arbitrary: st)
  case (Cons l ls)
  show ?case
  proof (cases "trim l = []")
    case True
    with Cons show ?thesis by simp
  next
    case False
    with Cons.prems obtain k v where kv: "split_once 61 (trim l) = Some (k, v)"
      by (auto simp: Let_def split: option.splits)
    show ?thesis
    proof (cases "trim k = str ''stop''")
      case True
      with Cons.prems(1) False kv obtain n where "scheme_lines pick (Some n, snd st) ls = Some st'"
        by (auto simp: Let_def split: option.splits)
      from Cons.IH [OF this] Cons.prems(2) show ?thesis by simp
    next
      case ns: False
      show ?thesis
      proof (cases "parse_unsigned 4294967295 (trim k)")
        case None
        with Cons.prems(1) False kv ns have "scheme_lines pick st ls = Some st'"
          by (simp add: Let_def)
        from Cons.IH [OF this Cons.prems(2)] show ?thesis .
      next
        case (Some idx)
        with Cons.prems(1) False kv ns
        have s: "scheme_lines pick (fst st, (snd st)(idx \<mapsto> parse_size_list pick (trim v))) ls = Some st'"
          by (simp add: Let_def)
        have "\<forall>n \<in> set (parse_size_list pick (trim v)). n = CHECK_MARK \<or> 0 < n"
          using parse_size_list_range [of pick, OF pick] by blast
        with Cons.prems(2) show ?thesis by (intro Cons.IH [OF s]) auto
      qed
    qed
  qed
qed simp

text \<open>Trimming leaves a text alone that begins and ends with graphic ASCII characters.\<close>

definition graphic :: "u8 \<Rightarrow> bool" where
  "graphic b \<longleftrightarrow> 32 < b \<and> b < 0x80"

lemma graphic_not_ws: "graphic b \<Longrightarrow> w \<in> set ws_list \<Longrightarrow> hd w \<noteq> b \<and> last w \<noteq> b"
  by (auto simp: graphic_def ws_list_def)

lemma ws_nonempty: "w \<in> set ws_list \<Longrightarrow> w \<noteq> []"
  by (auto simp: ws_list_def)

lemma ws_len_graphic: "graphic b \<Longrightarrow> ws_len (b # s) = 0" "graphic b \<Longrightarrow> ws_rlen (b # s) = 0"
proof -
  assume g: "graphic b"
  have "take (length w) (b # s) \<noteq> w \<and> take (length w) (b # s) \<noteq> rev w" if w: "w \<in> set ws_list" for w
    using graphic_not_ws [OF g w] ws_nonempty [OF w]
    by (metis hd_rev hd_take length_greater_0_conv list.sel(1) rev_is_Nil_conv)
  then have "find (\<lambda>w. take (length w) (b # s) = w) ws_list = None"
    "find (\<lambda>w. take (length w) (b # s) = rev w) ws_list = None"
    by (auto simp: find_None_iff)
  then show "ws_len (b # s) = 0" "ws_rlen (b # s) = 0" by (simp_all add: ws_len_def ws_rlen_def)
qed

lemma trim_graphic: "s \<noteq> [] \<Longrightarrow> graphic (hd s) \<Longrightarrow> graphic (last s) \<Longrightarrow> trim s = s"
proof -
  assume s: "s \<noteq> []" "graphic (hd s)" "graphic (last s)"
  have "trim_by ws_len s = s"
    using s by (cases s) (simp_all add: trim_by.simps ws_len_graphic)
  moreover have "trim_by ws_rlen (rev s) = rev s"
    using s by (cases s rule: rev_cases) (simp_all add: trim_by.simps ws_len_graphic)
  ultimately show ?thesis by (simp add: trim_def)
qed

lemmas padding_eval = parse_size_list_def size_entry_def trim_graphic graphic_def parse_i64_def
  from_str_radix_def digit_def List.map_filter_def CHECK_MARK_def

lemma default_lines:
  "lines DEFAULT_SCHEME_BYTES = map str [''stop=8'', ''0=30-30'', ''1=100-400'',
     ''2=400-500,c,500-1000,c,500-1000,c,500-1000,c,500-1000'', ''3=9-9,500-1000'', ''4=500-1000'',
     ''5=500-1000'', ''6=500-1000'', ''7=500-1000'']"
  by code_simp

lemma default_utf8: "utf8_valid DEFAULT_SCHEME_BYTES"
  by (simp add: DEFAULT_SCHEME_BYTES_def)

text \<open>The effect of each line of the built-in scheme.\<close>

lemma default_line_0:
  "scheme_lines pick st (str ''stop=8'' # ls)
   = scheme_lines pick (Some 8, snd st) ls"
  by (simp add: padding_eval)

lemma default_line_1:
  "scheme_lines pick st (str ''0=30-30'' # ls)
   = scheme_lines pick (fst st, (snd st)(0 \<mapsto> [30])) ls"
  by (simp add: padding_eval)

lemma default_line_2:
  "scheme_lines pick st (str ''1=100-400'' # ls)
   = scheme_lines pick (fst st, (snd st)(1 \<mapsto> [pick 100 400])) ls"
  by (simp add: padding_eval)

lemma default_line_3:
  "scheme_lines pick st (str ''2=400-500,c,500-1000,c,500-1000,c,500-1000,c,500-1000'' # ls)
   = scheme_lines pick (fst st, (snd st)(2 \<mapsto> [pick 400 500, CHECK_MARK, pick 500 1000, CHECK_MARK, pick 500 1000,
       CHECK_MARK, pick 500 1000, CHECK_MARK, pick 500 1000])) ls"
  by (simp add: padding_eval) (simp add: numeral_2_eq_2)

lemma default_line_4:
  "scheme_lines pick st (str ''3=9-9,500-1000'' # ls)
   = scheme_lines pick (fst st, (snd st)(3 \<mapsto> [9, pick 500 1000])) ls"
  by (simp add: padding_eval)

lemma default_line_5:
  "scheme_lines pick st (str ''4=500-1000'' # ls)
   = scheme_lines pick (fst st, (snd st)(4 \<mapsto> [pick 500 1000])) ls"
  by (simp add: padding_eval)

lemma default_line_6:
  "scheme_lines pick st (str ''5=500-1000'' # ls)
   = scheme_lines pick (fst st, (snd st)(5 \<mapsto> [pick 500 1000])) ls"
  by (simp add: padding_eval)

lemma default_line_7:
  "scheme_lines pick st (str ''6=500-1000'' # ls)
   = scheme_lines pick (fst st, (snd st)(6 \<mapsto> [pick 500 1000])) ls"
  by (simp add: padding_eval)

lemma default_line_8:
  "scheme_lines pick st (str ''7=500-1000'' # ls)
   = scheme_lines pick (fst st, (snd st)(7 \<mapsto> [pick 500 1000])) ls"
  by (simp add: padding_eval)

lemmas default_line = default_line_0 default_line_1 default_line_2 default_line_3 default_line_4 default_line_5 default_line_6 default_line_7 default_line_8

definition default_rules :: "(int \<Rightarrow> int \<Rightarrow> int) \<Rightarrow> nat \<rightharpoonup> int list" where
  "default_rules pick = map_of
     [(0, [30]), (1, [pick 100 400]),
      (2, [pick 400 500, CHECK_MARK, pick 500 1000, CHECK_MARK, pick 500 1000, CHECK_MARK,
           pick 500 1000, CHECK_MARK, pick 500 1000]),
      (3, [9, pick 500 1000]), (4, [pick 500 1000]), (5, [pick 500 1000]), (6, [pick 500 1000]),
      (7, [pick 500 1000])]"

lemma default_scheme:
  "from_bytes pick md5 DEFAULT_SCHEME_BYTES
   = Some \<lparr>stop = 8, rules = default_rules pick, raw = DEFAULT_SCHEME_BYTES,
           md5_hex = md5 DEFAULT_SCHEME_BYTES\<rparr>"
proof -
  have "scheme_lines pick (None, Map.empty) (lines DEFAULT_SCHEME_BYTES) = Some (Some 8, default_rules pick)"
    unfolding default_lines list.map default_line fst_conv snd_conv scheme_lines.simps(1)
    by (simp add: default_rules_def fun_eq_iff)
  then show ?thesis by (simp add: from_bytes_def default_utf8)
qed

section \<open>Properties\<close>

text \<open>
  Every padding scheme that is accepted yields usable sizes: each entry for each packet is
  the check mark or a positive number, whatever the scheme text and the random choices (within
  their ranges) are; the scheme keeps its raw text and the digest of it.
\<close>

theorem padding_sizes_positive:
  assumes "\<And>a b. a < b \<Longrightarrow> a \<le> pick a b \<and> pick a b \<le> b"
    and "from_bytes pick md5 r = Some sch"
  shows "(\<forall>pkt. \<forall>n \<in> set (sizes_for sch pkt). n = CHECK_MARK \<or> 0 < n) \<and> raw sch = r \<and> md5_hex sch = md5 r"
proof -
  from assms(2) obtain n rs where
    s: "scheme_lines pick (None, Map.empty) (lines r) = Some (Some n, rs)"
      "sch = \<lparr>stop = n, rules = rs, raw = r, md5_hex = md5 r\<rparr>"
    by (auto simp: from_bytes_def split: if_splits option.splits)
  have "\<forall>i v. rs i = Some v \<longrightarrow> (\<forall>n \<in> set v. n = CHECK_MARK \<or> 0 < n)"
    using scheme_lines_range [of pick, OF assms(1) s(1)] by simp
  then have "n = CHECK_MARK \<or> 0 < n" if "n \<in> set (sizes_for sch pkt)" for n pkt
    using that s(2) by (cases "rs pkt") (simp_all add: sizes_for_def)
  with s(2) show ?thesis by simp
qed

theorem padding_sizes_positive_witness:
  "\<exists>sch. from_bytes (\<lambda>a b. a) (\<lambda>_. []) DEFAULT_SCHEME_BYTES = Some sch
     \<and> (\<forall>n \<in> set (sizes_for sch 3). n = CHECK_MARK \<or> 0 < n) \<and> sizes_for sch 3 = [9, 500]"
proof -
  let ?sch = "\<lparr>stop = 8, rules = default_rules (\<lambda>a b. a), raw = DEFAULT_SCHEME_BYTES, md5_hex = []\<rparr>"
  have f: "from_bytes (\<lambda>a b. a) (\<lambda>_. []) DEFAULT_SCHEME_BYTES = Some ?sch"
    using default_scheme [of "\<lambda>a b. a" "\<lambda>_. []"] by simp
  moreover have "sizes_for ?sch 3 = [9, 500]" by (simp add: sizes_for_def default_rules_def)
  ultimately show ?thesis using padding_sizes_positive [OF _ f] by simp
qed

text \<open>
  Building the shared scheme never panics: the built-in text parses, for any digest function
  and any random choices, to padding of the first eight packets with exactly the sizes it lists,
  and no rule from packet eight on.
\<close>

theorem padding_default_never_panics:
  "\<exists>sch. new_default pick md5 = Inr sch \<and> stop sch = 8 \<and> rules sch = default_rules pick
     \<and> dom (rules sch) = {..<8}"
proof -
  have "dom (default_rules pick) = {..<8}"
    by (auto simp: default_rules_def dom_map_of_conv_image_fst)
  then show ?thesis by (simp add: new_default_def default_scheme)
qed

end
