(* ===== verification/Anytls_Session.thy ===== *)
theory Anytls_Session
  imports Wire_Addr Byte_Source Anytls_Padding
begin

text \<open>
  The AnyTLS multiplexer (\<open>anytls/session.rs\<close>) and the stream handler above it
  (\<open>anytls/server.rs\<close>): frames, the multiplexed streams with their readers and writers, the session's
  read loop with its stream table, settings negotiation and heartbeats, and the authentication in
  front of it.  The channel to the writer task is the list of frames queued so far; the channel
  of a stream is the list of messages sent to it, an empty message being its end marker.
\<close>

section \<open>The model\<close>

definition CMD_WASTE :: u8 where "CMD_WASTE = 0"
definition CMD_SYN :: u8 where "CMD_SYN = 1"
definition CMD_PSH :: u8 where "CMD_PSH = 2"
definition CMD_FIN :: u8 where "CMD_FIN = 3"
definition CMD_SETTINGS :: u8 where "CMD_SETTINGS = 4"
definition CMD_ALERT :: u8 where "CMD_ALERT = 5"
definition CMD_UPDATE_PADDING :: u8 where "CMD_UPDATE_PADDING = 6"
definition CMD_SYNACK :: u8 where "CMD_SYNACK = 7"
definition CMD_HEART_REQUEST :: u8 where "CMD_HEART_REQUEST = 8"
definition CMD_HEART_RESPONSE :: u8 where "CMD_HEART_RESPONSE = 9"
definition CMD_SERVER_SETTINGS :: u8 where "CMD_SERVER_SETTINGS = 10"
definition HEADER_SIZE :: nat where "HEADER_SIZE = 7"

lemmas anytls_consts = CMD_WASTE_def CMD_SYN_def CMD_PSH_def CMD_FIN_def CMD_SETTINGS_def CMD_ALERT_def
  CMD_UPDATE_PADDING_def CMD_SYNACK_def CMD_HEART_REQUEST_def CMD_HEART_RESPONSE_def
  CMD_SERVER_SETTINGS_def HEADER_SIZE_def

type_synonym frame = "u8 \<times> u32 \<times> bytes"

subsection \<open>One stream\<close>

record stream_conn =
  sc_stream_id :: u32
  sc_rx :: "bytes list"
  sc_buf :: bytes
  sc_sent :: "frame list"
  sc_open :: bool

text \<open>
  \<open>StreamConn::read\<close>.  \<open>sc_rx\<close> holds the messages that arrive, after which the channel is closed;
  \<open>sc_open\<close> says whether the writer task still takes frames.
\<close>

function sc_read :: "nat \<Rightarrow> stream_conn \<Rightarrow> bytes \<times> stream_conn" where
  "sc_read n s =
     (if sc_buf s \<noteq> [] then (take n (sc_buf s), s\<lparr>sc_buf := drop n (sc_buf s)\<rparr>)
      else case sc_rx s of
        [] \<Rightarrow> ([], s)
      | d # ds \<Rightarrow>
          if d = [] then ([], s\<lparr>sc_rx := ds\<rparr>)
          else sc_read n (s\<lparr>sc_rx := ds, sc_buf := d\<rparr>))"
  by pat_completeness auto
termination
  by (relation "measure (\<lambda>(n, s). length (sc_rx s))") auto

declare sc_read.simps [simp del]

definition read_exact_from :: "nat \<Rightarrow> (stream_conn, bytes) action" where
  "read_exact_from n = read_exact_loop sc_read n []"

definition sc_write :: "bytes \<Rightarrow> (stream_conn, nat) action" where
  "sc_write data s =
     (if sc_open s
      then (Inr (length data), s\<lparr>sc_sent := sc_sent s @ [(CMD_PSH, sc_stream_id s, data)]\<rparr>)
      else (Inl (Io BrokenPipe), s))"

definition sc_close :: "(stream_conn, unit) action" where
  "sc_close s =
     (Inr (), if sc_open s then s\<lparr>sc_sent := sc_sent s @ [(CMD_FIN, sc_stream_id s, [])]\<rparr> else s)"

subsection \<open>Frames\<close>

text \<open>What the writer task puts on the wire for one queued frame.\<close>

definition write_frame :: "frame \<Rightarrow> bytes" where
  "write_frame f =
     (case f of (cmd, sid, data) \<Rightarrow> [cmd] @ to_be 4 sid @ to_be 2 (of_nat (length data) :: u16) @ data)"

definition read_frame :: "frame io" where
  "read_frame =
     bind_io (read_exact HEADER_SIZE) (\<lambda>hdr.
       let cmd = hdr ! 0;
           sid = from_be (take 4 (drop 1 hdr));
           dlen = unat (from_be (take 2 (drop 5 hdr)) :: u16)
       in bind_io (if 0 < dlen then read_exact dlen else return_io []) (\<lambda>data.
            return_io (cmd, sid, data)))"

subsection \<open>The session\<close>

definition parse_kv :: "bytes \<Rightarrow> rstring \<rightharpoonup> rstring" where
  "parse_kv data =
     (if utf8_valid data
      then foldl (\<lambda>m line. case split_once 61 line of
                             Some (k, v) \<Rightarrow> m(trim k \<mapsto> trim v)
                           | None \<Rightarrow> m) Map.empty (lines data)
      else Map.empty)"

text \<open>
  A stream's channel: the messages sent to it and whether its receiver still exists.  Channels
  are numbered in the order their streams were opened; \<open>ss_streams\<close> maps a stream id to its
  current channel.
\<close>

record chan =
  ch_sid :: u32
  ch_msgs :: "bytes list"
  ch_alive :: bool

record session =
  ss_streams :: "u32 \<rightharpoonup> nat"
  ss_chans :: "chan list"
  ss_version :: u8
  ss_settings :: bool
  ss_out :: "frame list"

definition session_start :: session where
  "session_start =
     \<lparr>ss_streams = Map.empty, ss_chans = [], ss_version = 1, ss_settings = False, ss_out = []\<rparr>"

definition queue :: "frame \<Rightarrow> session \<Rightarrow> session" where
  "queue f s = s\<lparr>ss_out := ss_out s @ [f]\<rparr>"

text \<open>\<open>tx.send(data)\<close> on channel \<open>k\<close>: False when its receiver is gone.\<close>

definition send_chan :: "nat \<Rightarrow> bytes \<Rightarrow> session \<Rightarrow> bool \<times> session" where
  "send_chan k data s =
     (if k < length (ss_chans s) \<and> ch_alive (ss_chans s ! k)
      then (True, s\<lparr>ss_chans := (ss_chans s)[k := (ss_chans s ! k)\<lparr>ch_msgs := ch_msgs (ss_chans s ! k) @ [data]\<rparr>]\<rparr>)
      else (False, s))"

definition on_settings :: "padding_scheme \<Rightarrow> bytes \<Rightarrow> session \<Rightarrow> session" where
  "on_settings scheme data s =
     (let s = s\<lparr>ss_settings := True\<rparr>;
          settings = parse_kv data;
          s = (case settings (str ''v'') of
                 Some v_str \<Rightarrow>
                   (case parse_unsigned 255 v_str of Some v \<Rightarrow> s\<lparr>ss_version := of_nat v\<rparr> | None \<Rightarrow> s)
               | None \<Rightarrow> s);
          client_md5 = (case settings (str ''padding-md5'') of Some m \<Rightarrow> m | None \<Rightarrow> []);
          s = (if client_md5 \<noteq> md5_hex scheme then queue (CMD_UPDATE_PADDING, 0, raw scheme) s else s)
      in if 2 \<le> ss_version s then queue (CMD_SERVER_SETTINGS, 0, str ''v=2'') s else s)"

definition on_syn :: "u32 \<Rightarrow> session \<Rightarrow> session" where
  "on_syn sid s =
     (let s = s\<lparr>ss_streams := (ss_streams s)(sid \<mapsto> length (ss_chans s)),
                ss_chans := ss_chans s @ [\<lparr>ch_sid = sid, ch_msgs = [], ch_alive = True\<rparr>]\<rparr>
      in if 2 \<le> ss_version s then queue (CMD_SYNACK, sid, []) s else s)"

definition on_psh :: "u32 \<Rightarrow> bytes \<Rightarrow> session \<Rightarrow> session" where
  "on_psh sid data s =
     (case ss_streams s sid of
        Some k \<Rightarrow>
          (case send_chan k data s of
             (True, s) \<Rightarrow> s
           | (False, s) \<Rightarrow> s\<lparr>ss_streams := (ss_streams s)(sid := None)\<rparr>)
      | None \<Rightarrow> s)"

definition on_fin :: "u32 \<Rightarrow> session \<Rightarrow> session" where
  "on_fin sid s =
     (case ss_streams s sid of
        Some k \<Rightarrow> snd (send_chan k [] (s\<lparr>ss_streams := (ss_streams s)(sid := None)\<rparr>))
      | None \<Rightarrow> s)"

text \<open>One turn of the read loop after a frame was read: \<open>Inl\<close> when the loop breaks.\<close>

definition on_frame :: "padding_scheme \<Rightarrow> frame \<Rightarrow> session \<Rightarrow> session + session" where
  "on_frame scheme f s =
     (case f of (cmd, sid, data) \<Rightarrow>
        if cmd = CMD_WASTE then Inr s
        else if cmd = CMD_SETTINGS then Inr (on_settings scheme data s)
        else if cmd = CMD_SYN then
          (if \<not> ss_settings s then
             Inl (queue (CMD_ALERT, 0, str ''client did not send its settings before opening a stream'') s)
           else Inr (on_syn sid s))
        else if cmd = CMD_PSH then Inr (on_psh sid data s)
        else if cmd = CMD_FIN then Inr (on_fin sid s)
        else if cmd = CMD_HEART_REQUEST then Inr (queue (CMD_HEART_RESPONSE, sid, []) s)
        else if cmd = CMD_HEART_RESPONSE then Inr s
        else if cmd = CMD_ALERT then Inl s
        else Inr s)"

text \<open>Signal the end to every stream still in the table.\<close>

definition drain_streams :: "session \<Rightarrow> session" where
  "drain_streams s =
     s\<lparr>ss_chans := map (\<lambda>(k, ch).
          if ss_streams s (ch_sid ch) = Some k \<and> ch_alive ch then ch\<lparr>ch_msgs := ch_msgs ch @ [[]]\<rparr> else ch)
          (enumerate 0 (ss_chans s)),
        ss_streams := Map.empty\<rparr>"

lemma read_frame_consumes: "read_frame c = (Inr f, c') \<Longrightarrow> length (rx c') < length (rx c)"
  by (auto simp: read_frame_def Let_def bind_io_eq_Inr return_io_def HEADER_SIZE_def
      dest!: read_exact_split split: if_splits)

function session_loop :: "padding_scheme \<Rightarrow> conn \<Rightarrow> session \<Rightarrow> session" where
  "session_loop scheme c s =
     (case read_frame c of
        (Inl _, _) \<Rightarrow> drain_streams s
      | (Inr f, c') \<Rightarrow>
          (case on_frame scheme f s of
             Inl s \<Rightarrow> drain_streams s
           | Inr s \<Rightarrow> session_loop scheme c' s))"
  by pat_completeness auto
termination
  by (relation "measure (\<lambda>(sch, c, s). length (rx c))") (auto dest: read_frame_consumes [OF sym])

declare session_loop.simps [simp del]

definition run_server_session :: "padding_scheme \<Rightarrow> conn \<Rightarrow> session" where
  "run_server_session scheme c = session_loop scheme c session_start"

subsection \<open>Authentication and streams\<close>

text \<open>\<open>handle_conn\<close> after the TLS handshake: \<open>Inr None\<close> when the password digest is wrong.\<close>

definition anytls_handle_conn :: "bytes \<Rightarrow> padding_scheme \<Rightarrow> session option io" where
  "anytls_handle_conn password_hash scheme =
     bind_io (read_exact 34) (\<lambda>auth_buf.
       if take 32 auth_buf \<noteq> password_hash then return_io None
       else
         (let padding0_len = unat (from_be [auth_buf ! 32, auth_buf ! 33] :: u16)
          in bind_io (if 0 < padding0_len then bind_io (read_exact padding0_len) (\<lambda>_. return_io ())
                      else return_io ()) (\<lambda>_ c.
               (Inr (Some (run_server_session scheme c)), c))))"

definition read_socks5_addr :: "(stream_conn, rstring) action" where
  "read_socks5_addr =
     bind_io (read_exact_from 1) (\<lambda>atyp.
     bind_io
       (if atyp ! 0 = 0x01 then bind_io (read_exact_from 4) (\<lambda>b. return_io (ipv4_to_string (from_be b)))
        else if atyp ! 0 = 0x03 then
          bind_io (read_exact_from 1) (\<lambda>lb.
          bind_io (read_exact_from (unat (lb ! 0))) (\<lambda>b. lift_io (from_utf8 b)))
        else if atyp ! 0 = 0x04 then bind_io (read_exact_from 16) (\<lambda>b. return_io (bracketed (from_be b)))
        else fail_io (Bail ''anytls: unknown ATYP'')) (\<lambda>host.
     bind_io (read_exact_from 2) (\<lambda>pb. return_io (host_port host (from_be pb)))))"

text \<open>
  The read loop interleaved with its streams' handlers: a handler that ends drops its receiver.
\<close>

datatype event = FrameRead frame | ReceiverDrop nat

definition receiver_drop :: "nat \<Rightarrow> session \<Rightarrow> session" where
  "receiver_drop k s =
     (if k < length (ss_chans s)
      then s\<lparr>ss_chans := (ss_chans s)[k := (ss_chans s ! k)\<lparr>ch_alive := False\<rparr>]\<rparr> else s)"

fun on_event :: "padding_scheme \<Rightarrow> event \<Rightarrow> session \<Rightarrow> session + session" where
  "on_event scheme (FrameRead f) s = on_frame scheme f s"
| "on_event scheme (ReceiverDrop k) s = Inr (receiver_drop k s)"

fun run_events :: "padding_scheme \<Rightarrow> event list \<Rightarrow> session \<Rightarrow> session + session" where
  "run_events scheme [] s = Inr s"
| "run_events scheme (e # es) s =
     (case on_event scheme e s of Inl s \<Rightarrow> Inl s | Inr s \<Rightarrow> run_events scheme es s)"

section \<open>Frames round-trip\<close>

lemma streaming_read_frame: "streaming read_frame"
  unfolding read_frame_def Let_def by (intro streaming_intros)

lemma read_frame_write:
  assumes "length (snd (snd f)) < 65536"
  shows "read_frame (c\<lparr>rx := write_frame f @ rest\<rparr>) = (Inr f, c\<lparr>rx := rest\<rparr>)"
proof -
  obtain cmd sid data where f: "f = (cmd, sid, data)" by (cases f) auto
  let ?n = "of_nat (length data) :: u16"
  let ?h = "[cmd] @ to_be 4 sid @ to_be 2 ?n"
  have n: "unat ?n = length data" using assms f by (simp add: unat_u16_of_nat)
  have r: "read_exact HEADER_SIZE (c\<lparr>rx := ?h @ data @ rest\<rparr>) = (Inr ?h, c\<lparr>rx := data @ rest\<rparr>)"
    by (rule read_exact_append) (simp add: HEADER_SIZE_def)
  have h: "?h ! 0 = cmd" "from_be (take 4 (drop 1 ?h)) = sid" "(from_be (take 2 (drop 5 ?h)) :: u16) = ?n"
    by simp_all
  have e: "write_frame f @ rest = ?h @ data @ rest" by (simp add: f write_frame_def)
  show ?thesis
    unfolding e read_frame_def bind_io_Inr [where m = "read_exact HEADER_SIZE", OF r] Let_def h n
    by (cases "data = []") (simp_all add: io_simps f)
qed

interpretation anytls_frame: header_parser read_frame write_frame "\<lambda>f. f" "\<lambda>f. length (snd (snd f)) < 65536"
  by unfold_locales (simp_all add: streaming_read_frame read_frame_write)

section \<open>Streams deliver their bytes\<close>

text \<open>The bytes a stream still delivers: its buffer and the messages before the end marker.\<close>

definition sc_avail :: "stream_conn \<Rightarrow> bytes" where
  "sc_avail s = sc_buf s @ concat (takeWhile (\<lambda>d. d \<noteq> []) (sc_rx s))"

lemma sc_read_cases:
  "sc_read n s =
     (if sc_buf s \<noteq> [] then (take n (sc_buf s), s\<lparr>sc_buf := drop n (sc_buf s)\<rparr>)
      else case sc_rx s of
        [] \<Rightarrow> ([], s)
      | d # ds \<Rightarrow>
          if d = [] then ([], s\<lparr>sc_rx := ds\<rparr>)
          else (take n d, s\<lparr>sc_rx := ds, sc_buf := drop n d\<rparr>))"
  by (subst sc_read.simps) (auto simp: sc_read.simps split: list.splits)

lemma sc_read_eof: "sc_avail s = [] \<Longrightarrow> fst (sc_read n s) = []"
proof -
  assume a: "sc_avail s = []"
  then have b: "sc_buf s = []" by (simp add: sc_avail_def)
  show ?thesis
  proof (cases "sc_rx s")
    case (Cons d ds)
    then have "d = []" using a by (cases "d = []") (simp_all add: sc_avail_def)
    with b Cons show ?thesis by (simp add: sc_read_cases [of n s])
  qed (use b in \<open>simp add: sc_read_cases [of n s]\<close>)
qed

lemma sc_read_some:
  assumes "0 < n" "sc_avail s \<noteq> []"
  shows "fst (sc_read n s) \<noteq> [] \<and> length (fst (sc_read n s)) \<le> n
    \<and> sc_avail s = fst (sc_read n s) @ sc_avail (snd (sc_read n s))"
proof (cases "sc_buf s = []")
  case True
  with assms(2) obtain d ds where "sc_rx s = d # ds" "d \<noteq> []"
    by (cases "sc_rx s") (auto simp: sc_avail_def split: if_splits)
  with True assms(1) show ?thesis by (simp add: sc_read_cases sc_avail_def)
next
  case False
  with assms(1) show ?thesis by (simp add: sc_read_cases sc_avail_def)
qed

interpretation anytls_stream: total_byte_source sc_read sc_avail
  by unfold_locales (erule sc_read_eof, erule (1) sc_read_some, rule TrueI)

lemma refines_read_exact_from [refines_intros]:
  "refines (as_conn sc_avail) (read_exact_from n) (read_exact n)"
  unfolding read_exact_from_def by (rule anytls_stream.read_exact_refines)

text \<open>The address reader on a plain connection.\<close>

definition socks5_addr :: "rstring io" where
  "socks5_addr =
     bind_io (read_exact 1) (\<lambda>atyp.
     bind_io
       (if atyp ! 0 = 0x01 then bind_io (read_exact 4) (\<lambda>b. return_io (ipv4_to_string (from_be b)))
        else if atyp ! 0 = 0x03 then
          bind_io (read_exact 1) (\<lambda>lb.
          bind_io (read_exact (unat (lb ! 0))) (\<lambda>b. lift_io (from_utf8 b)))
        else if atyp ! 0 = 0x04 then bind_io (read_exact 16) (\<lambda>b. return_io (bracketed (from_be b)))
        else fail_io (Bail ''anytls: unknown ATYP'')) (\<lambda>host.
     bind_io (read_exact 2) (\<lambda>pb. return_io (host_port host (from_be pb)))))"

lemma read_socks5_addr_refines: "refines (as_conn sc_avail) read_socks5_addr socks5_addr"
  unfolding read_socks5_addr_def socks5_addr_def by (intro refines_intros)

lemma socks5_addr_enc:
  assumes "host_ok (fst d)"
  shows "socks5_addr (c\<lparr>rx := enc_socks_dest d @ rest\<rparr>) = (Inr (dest_text d), c\<lparr>rx := rest\<rparr>)"
proof -
  obtain h p where d: "d = (h, p)" by fastforce
  show ?thesis
    using assms
    by (cases h) (auto simp: d socks5_addr_def enc_socks_dest_def dest_text_def io_simps unat_u8_of_nat)
qed

lemma streaming_socks5_addr: "streaming socks5_addr"
  unfolding socks5_addr_def by (intro streaming_intros)

interpretation anytls_addr: header_parser socks5_addr enc_socks_dest dest_text "\<lambda>d. host_ok (fst d)"
  by unfold_locales (simp_all add: streaming_socks5_addr socks5_addr_enc)

section \<open>The read loop\<close>

lemma read_frame_empty: "fst (read_frame (c\<lparr>rx := []\<rparr>)) = Inl (Io (rx_end c))"
  by (simp add: read_frame_def HEADER_SIZE_def io_simps)

text \<open>On the bytes of a list of frames the loop handles exactly those frames, then ends the streams.\<close>

lemma session_loop_frames:
  assumes "\<forall>f \<in> set fs. length (snd (snd f)) < 65536"
  shows "session_loop scheme (c\<lparr>rx := concat (map write_frame fs)\<rparr>) s
    = (case run_events scheme (map FrameRead fs) s of Inl s' \<Rightarrow> drain_streams s' | Inr s' \<Rightarrow> drain_streams s')"
  using assms
proof (induction fs arbitrary: s)
  case Nil
  then show ?case
    using read_frame_empty [of c] by (subst session_loop.simps) (auto split: prod.splits)
next
  case (Cons f fs)
  have r: "read_frame (c\<lparr>rx := write_frame f @ concat (map write_frame fs)\<rparr>)
      = (Inr f, c\<lparr>rx := concat (map write_frame fs)\<rparr>)"
    using Cons.prems by (intro read_frame_write) simp
  show ?case
    using Cons r by (subst session_loop.simps) (auto split: sum.splits)
qed

lemma run_events_append:
  "run_events scheme (xs @ ys) s = (case run_events scheme xs s of Inl t \<Rightarrow> Inl t | Inr t \<Rightarrow> run_events scheme ys t)"
  by (induction xs arbitrary: s) (auto split: sum.splits)

definition sess_wf :: "session \<Rightarrow> bool" where
  "sess_wf s \<longleftrightarrow>
     (\<forall>sid k. ss_streams s sid = Some k \<longrightarrow> k < length (ss_chans s) \<and> ch_sid (ss_chans s ! k) = sid)"

text \<open>\<open>tracks sid k ms s\<close>: the stream \<open>sid\<close> has channel \<open>k\<close>, whose receiver exists and was sent \<open>ms\<close>.\<close>

definition tracks :: "u32 \<Rightarrow> nat \<Rightarrow> bytes list \<Rightarrow> session \<Rightarrow> bool" where
  "tracks sid k ms s \<longleftrightarrow>
     ss_streams s sid = Some k \<and> k < length (ss_chans s) \<and> ch_sid (ss_chans s ! k) = sid
     \<and> ch_alive (ss_chans s ! k) \<and> ch_msgs (ss_chans s ! k) = ms"

lemma queue_simps [simp]:
  "ss_streams (queue f s) = ss_streams s" "ss_chans (queue f s) = ss_chans s"
  "ss_settings (queue f s) = ss_settings s" "ss_version (queue f s) = ss_version s"
  by (simp_all add: queue_def)

lemma on_settings_streams [simp]:
  "ss_streams (on_settings scheme data s) = ss_streams s" "ss_chans (on_settings scheme data s) = ss_chans s"
  by (auto simp: on_settings_def Let_def split: option.splits)

lemma tracks_cong:
  "ss_streams t = ss_streams s \<Longrightarrow> ss_chans t = ss_chans s \<Longrightarrow> tracks sid k ms t = tracks sid k ms s"
  by (simp add: tracks_def)

lemma on_syn_other:
  "sid' \<noteq> sid \<Longrightarrow> tracks sid k ms s \<Longrightarrow> tracks sid k ms (on_syn sid' s)"
  by (auto simp: on_syn_def Let_def tracks_def nth_append)

lemma on_syn_new: "tracks sid (length (ss_chans s)) [] (on_syn sid s)"
  by (simp add: on_syn_def Let_def tracks_def)

lemma send_chan_other:
  "k' \<noteq> k \<Longrightarrow> tracks sid k ms s \<Longrightarrow> tracks sid k ms (snd (send_chan k' d s))"
  by (auto simp: send_chan_def tracks_def)

lemma on_psh_other:
  assumes "sid' \<noteq> sid" "tracks sid k ms s" "sess_wf s"
  shows "tracks sid k ms (on_psh sid' d s)"
proof (cases "ss_streams s sid'")
  case (Some k')
  with assms have "k' \<noteq> k" by (auto simp: sess_wf_def tracks_def)
  from send_chan_other [OF this assms(2), of d] assms(1) Some show ?thesis
    by (auto simp: on_psh_def tracks_def split: prod.splits bool.splits)
qed (use assms in \<open>simp add: on_psh_def\<close>)

lemma on_fin_other:
  assumes "sid' \<noteq> sid" "tracks sid k ms s" "sess_wf s"
  shows "tracks sid k ms (on_fin sid' s)"
proof (cases "ss_streams s sid'")
  case (Some k')
  with assms have k: "k' \<noteq> k" by (auto simp: sess_wf_def tracks_def)
  have "tracks sid k ms (s\<lparr>ss_streams := (ss_streams s)(sid' := None)\<rparr>)"
    using assms(1,2) by (simp add: tracks_def)
  from send_chan_other [OF k this, of "[]"] Some show ?thesis by (simp add: on_fin_def)
qed (use assms in \<open>simp add: on_fin_def\<close>)

lemma on_psh_own: "tracks sid k ms s \<Longrightarrow> tracks sid k (ms @ [d]) (on_psh sid d s)"
  by (auto simp: on_psh_def tracks_def send_chan_def)

lemma on_fin_own:
  "tracks sid k ms s \<Longrightarrow>
   ss_streams (on_fin sid s) sid = None \<and> ss_chans (on_fin sid s) ! k = \<lparr>ch_sid = sid, ch_msgs = ms @ [[]], ch_alive = True\<rparr>
   \<and> k < length (ss_chans (on_fin sid s))"
  by (auto simp: on_fin_def tracks_def send_chan_def)

lemma sess_wf_ops:
  assumes "sess_wf s"
  shows "sess_wf (queue f s)" "sess_wf (on_settings scheme d s)" "sess_wf (on_syn sid s)"
    "sess_wf (on_psh sid d s)" "sess_wf (on_fin sid s)" "sess_wf (receiver_drop k s)"
proof -
  show "sess_wf (queue f s)" "sess_wf (on_settings scheme d s)" using assms by (simp_all add: sess_wf_def)
  show "sess_wf (on_syn sid s)"
    using assms by (auto simp: sess_wf_def on_syn_def Let_def nth_append less_Suc_eq)
  have send: "sess_wf (snd (send_chan j d' t))" if "sess_wf t" for j d' t
    using that by (auto simp: sess_wf_def send_chan_def nth_list_update)
  have forget: "sess_wf (t\<lparr>ss_streams := (ss_streams t)(sid := None)\<rparr>)" if "sess_wf t" for t
    using that by (simp add: sess_wf_def)
  show "sess_wf (on_psh sid d s)"
    using assms send [OF assms] forget
    by (auto simp: on_psh_def split: option.splits prod.splits bool.splits) (metis snd_conv)+
  show "sess_wf (on_fin sid s)"
    using assms send [OF forget [OF assms]] by (simp add: on_fin_def split: option.splits)
  show "sess_wf (receiver_drop k s)"
    using assms by (auto simp: sess_wf_def receiver_drop_def nth_list_update)
qed

lemma on_event_wf: "sess_wf s \<Longrightarrow> on_event scheme e s = Inr t \<Longrightarrow> sess_wf t"
proof (cases e)
  case (FrameRead f)
  moreover assume "sess_wf s" "on_event scheme e s = Inr t"
  ultimately show ?thesis
    by (cases f) (auto simp: on_frame_def sess_wf_ops split: if_splits)
qed (auto simp: sess_wf_ops)

text \<open>Events that belong to a stream's life: opening or closing it, or ending its handler.\<close>

fun about_stream :: "u32 \<Rightarrow> nat \<Rightarrow> event \<Rightarrow> bool" where
  "about_stream sid k (FrameRead (cmd, sid', d)) = ((cmd = CMD_SYN \<or> cmd = CMD_FIN) \<and> sid' = sid)"
| "about_stream sid k (ReceiverDrop k') = (k' = k)"

fun psh_data :: "u32 \<Rightarrow> event list \<Rightarrow> bytes list" where
  "psh_data sid [] = []"
| "psh_data sid (FrameRead (cmd, sid', d) # es) =
     (if cmd = CMD_PSH \<and> sid' = sid then d # psh_data sid es else psh_data sid es)"
| "psh_data sid (ReceiverDrop k # es) = psh_data sid es"

lemma on_event_tracks:
  assumes "sess_wf s" "tracks sid k ms s" "\<not> about_stream sid k e" "on_event scheme e s = Inr t"
  shows "tracks sid k (ms @ psh_data sid [e]) t"
proof (cases e)
  case (FrameRead f)
  obtain cmd sid' d where f: "f = (cmd, sid', d)" by (cases f) auto
  have e: "on_frame scheme (cmd, sid', d) s = Inr t" and n: "\<not> ((cmd = CMD_SYN \<or> cmd = CMD_FIN) \<and> sid' = sid)"
    using assms(3,4) FrameRead f by simp_all
  show ?thesis
    using e n assms(1,2) FrameRead f
    by (auto simp: on_frame_def anytls_consts tracks_cong [of "queue _ s" s] tracks_cong [of "on_settings _ _ s" s]
        intro: on_syn_other on_psh_other on_fin_other on_psh_own split: if_splits)
next
  case (ReceiverDrop k')
  with assms show ?thesis by (auto simp: receiver_drop_def tracks_def)
qed

lemma psh_data_Cons: "psh_data sid (e # es) = psh_data sid [e] @ psh_data sid es"
  by (cases "(sid, [e])" rule: psh_data.cases) auto

lemma run_events_tracks:
  "sess_wf s \<Longrightarrow> tracks sid k ms s \<Longrightarrow> \<forall>e \<in> set es. \<not> about_stream sid k e \<Longrightarrow>
   run_events scheme es s = Inr t \<Longrightarrow> sess_wf t \<and> tracks sid k (ms @ psh_data sid es) t"
proof (induction es arbitrary: s ms)
  case (Cons e es)
  from Cons.prems(4) obtain u where u: "on_event scheme e s = Inr u" "run_events scheme es u = Inr t"
    by (auto split: sum.splits)
  have "tracks sid k (ms @ psh_data sid [e]) u"
    using Cons.prems u by (intro on_event_tracks) auto
  from Cons.IH [OF on_event_wf [OF Cons.prems(1) u(1)] this _ u(2)] Cons.prems(3) show ?case
    by (simp add: psh_data_Cons [of sid e es])
qed simp

lemma no_streams_before_settings:
  "run_events scheme es s = Inr t \<or> run_events scheme es s = Inl t \<Longrightarrow>
   \<not> ss_settings s \<Longrightarrow> ss_chans s = [] \<Longrightarrow>
   (\<forall>e \<in> set es. \<forall>sid d. e \<noteq> FrameRead (CMD_SETTINGS, sid, d)) \<Longrightarrow> \<not> ss_settings t \<and> ss_chans t = []"
proof (induction es arbitrary: s)
  case (Cons e es)
  have nil: "on_psh sid d s = s \<or> (\<exists>m. on_psh sid d s = s\<lparr>ss_streams := m\<rparr>)" for sid d
    using Cons.prems(3) by (auto simp: on_psh_def send_chan_def split: option.splits)
  have fin: "on_fin sid s = s \<or> (\<exists>m. on_fin sid s = s\<lparr>ss_streams := m\<rparr>)" for sid
    using Cons.prems(3) by (auto simp: on_fin_def send_chan_def split: option.splits)
  have step: "\<not> ss_settings u \<and> ss_chans u = []" if "on_event scheme e s = Inr u \<or> on_event scheme e s = Inl u" for u
  proof (cases e)
    case (FrameRead f)
    obtain cmd sid d where f: "f = (cmd, sid, d)" by (cases f) auto
    have "cmd \<noteq> CMD_SETTINGS" using Cons.prems(4) FrameRead f by auto
    with that FrameRead f Cons.prems(2,3) nil [of sid d] fin [of sid] show ?thesis
      by (auto simp: on_frame_def split: if_splits)
  qed (use that Cons.prems in \<open>auto simp: receiver_drop_def\<close>)
  show ?case
  proof (cases "on_event scheme e s")
    case (Inl u)
    with Cons.prems(1) step show ?thesis by auto
  next
    case (Inr u)
    with Cons.prems step [of u] show ?thesis by (intro Cons.IH [of u]) auto
  qed
qed auto

section \<open>Properties\<close>

text \<open>
  C3.  A multiplexed stream carries exactly its own bytes.  Once a client has sent its settings, a
  stream that it opens, whatever frames of other streams, padding, heartbeats and ends of other
  handlers are interleaved, is sent precisely the payloads of its own push frames in order and
  then, at its FIN, the end marker.  Its handler, reading any number of bytes at a time, reads precisely the
  concatenation of the payloads up to the first empty one and then the end of the stream: all of them unless the client
  sends a push frame without data, which is taken for the end marker.
\<close>

theorem anytls_stream_delivery:
  assumes "sess_wf s" "ss_settings s" "k = length (ss_chans s)" "0 < n"
    and "\<forall>e \<in> set es. \<not> about_stream sid k e" "sent = concat (takeWhile (\<lambda>d. d \<noteq> []) (psh_data sid es))"
    and "run_events scheme ([FrameRead (CMD_SYN, sid, d0)] @ es @ [FrameRead (CMD_FIN, sid, d1)]) s = Inr t"
  shows "ss_chans t ! k = \<lparr>ch_sid = sid, ch_msgs = psh_data sid es @ [[]], ch_alive = True\<rparr>
    \<and> drain sc_read n (Suc (length sent))
        \<lparr>sc_stream_id = sid, sc_rx = ch_msgs (ss_chans t ! k), sc_buf = [], sc_sent = [], sc_open = True\<rparr>
      = Some sent
    \<and> ([] \<notin> set (psh_data sid es) \<longrightarrow> sent = concat (psh_data sid es))"
proof -
  let ?p = "psh_data sid es"
  have s1: "on_event scheme (FrameRead (CMD_SYN, sid, d0)) s = Inr (on_syn sid s)"
    using assms(2) by (simp add: on_frame_def anytls_consts)
  with assms(7) obtain u where u: "run_events scheme es (on_syn sid s) = Inr u"
    and f: "on_event scheme (FrameRead (CMD_FIN, sid, d1)) u = Inr t"
    by (auto simp: run_events_append split: sum.splits)
  have tr: "tracks sid k ?p u"
    using run_events_tracks [OF sess_wf_ops(3) [OF assms(1)] _ assms(5) u, of "[]"] on_syn_new assms(3) by simp
  from f have ch: "ss_chans t ! k = \<lparr>ch_sid = sid, ch_msgs = ?p @ [[]], ch_alive = True\<rparr>"
    using on_fin_own [OF tr] by (simp add: on_frame_def anytls_consts)
  let ?c = "\<lparr>sc_stream_id = sid, sc_rx = ?p @ [[]], sc_buf = [], sc_sent = [], sc_open = True\<rparr>"
  have "takeWhile (\<lambda>d. d \<noteq> []) (ds @ [[]]) = takeWhile (\<lambda>d. d \<noteq> []) ds" for ds :: "bytes list"
    by (induction ds) simp_all
  then have "sc_avail ?c = sent" using assms(6) by (simp add: sc_avail_def)
  with anytls_stream.drain_avail [OF assms(4), of ?c "Suc (length sent)"] ch
  have "drain sc_read n (Suc (length sent))
      \<lparr>sc_stream_id = sid, sc_rx = ch_msgs (ss_chans t ! k), sc_buf = [], sc_sent = [], sc_open = True\<rparr> = Some sent" by simp
  moreover have "[] \<notin> set ?p \<longrightarrow> sent = concat ?p"
  proof
    assume "[] \<notin> set ?p"
    then have "takeWhile (\<lambda>d. d \<noteq> []) ?p = ?p" unfolding takeWhile_eq_all_conv by blast
    with assms(6) show "sent = concat ?p" by simp
  qed
  ultimately show ?thesis using ch by blast
qed

theorem anytls_stream_delivery_witness:
  "\<exists>t. run_events \<lparr>stop = 8, rules = Map.empty, raw = [], md5_hex = []\<rparr>
       ([FrameRead (CMD_SYN, 5, [])]
        @ [FrameRead (CMD_PSH, 5, [1, 2]), FrameRead (CMD_PSH, 6, [9]), FrameRead (CMD_PSH, 5, [3]), FrameRead (CMD_PSH, 5, []), FrameRead (CMD_PSH, 5, [4])]
        @ [FrameRead (CMD_FIN, 5, [])]) (session_start\<lparr>ss_settings := True\<rparr>) = Inr t
     \<and> ch_msgs (ss_chans t ! 0) = [[1, 2], [3], [], [4], []]
     \<and> drain sc_read 2 4 \<lparr>sc_stream_id = 5, sc_rx = ch_msgs (ss_chans t ! 0), sc_buf = [], sc_sent = [], sc_open = True\<rparr>
       = Some [1, 2, 3]"
proof -
  let ?s = "session_start\<lparr>ss_settings := True\<rparr>" and ?sch = "\<lparr>stop = 8, rules = Map.empty, raw = [], md5_hex = []\<rparr>"
  let ?es = "[FrameRead (CMD_PSH, 5, [1, 2]), FrameRead (CMD_PSH, 6, [9]), FrameRead (CMD_PSH, 5, [3]), FrameRead (CMD_PSH, 5, []), FrameRead (CMD_PSH, 5, [4])]"
  have p: "psh_data 5 ?es = [[1, 2], [3], [], [4]]" by simp
  have r: "\<exists>t. run_events ?sch ([FrameRead (CMD_SYN, 5, [])] @ ?es @ [FrameRead (CMD_FIN, 5, [])]) ?s = Inr t"
    by (simp add: on_frame_def anytls_consts session_start_def)
  then obtain t where t: "run_events ?sch ([FrameRead (CMD_SYN, 5, [])] @ ?es @ [FrameRead (CMD_FIN, 5, [])]) ?s = Inr t" ..
  have "sess_wf ?s" "ss_settings ?s" "(0 :: nat) = length (ss_chans ?s)" "(0 :: nat) < 2"
    "\<forall>e \<in> set ?es. \<not> about_stream 5 0 e" "[1, 2, 3] = concat (takeWhile (\<lambda>d. d \<noteq> []) (psh_data 5 ?es))"
    by (simp_all add: sess_wf_def session_start_def anytls_consts)
  note d = anytls_stream_delivery [OF this t, unfolded p]
  have "Suc (Suc (Suc (Suc 0))) = 4" by simp
  with d t show ?thesis by (intro exI [of _ t]) (auto simp del: run_events.simps drain.simps)
qed

text \<open>
  The bytes of any frames, written by the frame writer and read by the session, drive the
  read loop through exactly those frames; and no stream is opened, whatever the frames are, unless
  one of them is the client's settings.
\<close>

theorem anytls_session_frames:
  assumes "\<forall>f \<in> set fs. length (snd (snd f)) < 65536"
  shows "run_server_session scheme (c\<lparr>rx := concat (map write_frame fs)\<rparr>)
    = (case run_events scheme (map FrameRead fs) session_start of
         Inl s' \<Rightarrow> drain_streams s' | Inr s' \<Rightarrow> drain_streams s')
    \<and> (ss_chans (run_server_session scheme (c\<lparr>rx := concat (map write_frame fs)\<rparr>)) \<noteq> [] \<longrightarrow>
        (\<exists>sid d. (CMD_SETTINGS, sid, d) \<in> set fs))"
proof -
  let ?r = "run_events scheme (map FrameRead fs) session_start"
  have loop: "run_server_session scheme (c\<lparr>rx := concat (map write_frame fs)\<rparr>)
      = (case ?r of Inl s' \<Rightarrow> drain_streams s' | Inr s' \<Rightarrow> drain_streams s')"
    unfolding run_server_session_def by (rule session_loop_frames [OF assms])
  have "ss_chans (drain_streams t) = []"
    if "?r = Inr t \<or> ?r = Inl t" "\<nexists>sid d. (CMD_SETTINGS, sid, d) \<in> set fs" for t
  proof -
    have "ss_chans t = []"
      using no_streams_before_settings [OF that(1)] that(2) by (auto simp: session_start_def)
    then show ?thesis by (simp add: drain_streams_def)
  qed
  with loop show ?thesis by (cases ?r) auto
qed

theorem anytls_session_frames_witness:
  "ss_chans (run_server_session \<lparr>stop = 8, rules = Map.empty, raw = [], md5_hex = []\<rparr>
     \<lparr>rx = write_frame (CMD_SYN, 5, [1]), rx_end = UnexpectedEof, tx = [], tx_cap = None, tx_shut = False\<rparr>) = []"
proof -
  have "\<forall>f \<in> set [(CMD_SYN, 5, [1])]. length (snd (snd f)) < 65536" by simp
  from anytls_session_frames [OF this, of "\<lparr>stop = 8, rules = Map.empty, raw = [], md5_hex = []\<rparr>" "\<lparr>rx = [], rx_end = UnexpectedEof, tx = [], tx_cap = None, tx_shut = False\<rparr>"]
  have "ss_chans (run_server_session \<lparr>stop = 8, rules = Map.empty, raw = [], md5_hex = []\<rparr>
     (\<lparr>rx = [], rx_end = UnexpectedEof, tx = [], tx_cap = None, tx_shut = False\<rparr>
       \<lparr>rx := concat (map write_frame [(CMD_SYN, 5, [1])])\<rparr>)) = []"
    by (auto simp: anytls_consts)
  then show ?thesis by simp
qed

text \<open>
  C36.  A stream handler reads its destination correctly however the client cuts it into push
  frames: for every way of cutting the encoded address and the payload that follows into
  non-empty messages, the reader returns the destination and leaves exactly the payload.
\<close>

theorem anytls_addr_any_framing:
  assumes "host_ok (fst d)" "concat ms = enc_socks_dest d @ payload" "[] \<notin> set ms"
    and "s = \<lparr>sc_stream_id = sid, sc_rx = ms @ [[]], sc_buf = [], sc_sent = [], sc_open = True\<rparr>"
  shows "\<exists>s'. read_socks5_addr s = (Inr (dest_text d), s') \<and> sc_avail s' = payload"
proof -
  have "takeWhile (\<lambda>d. d \<noteq> []) (ms @ [[]]) = ms"
    using assms(3) by (subst takeWhile_append2) auto
  then have a: "sc_avail s = enc_socks_dest d @ payload" using assms(2,4) by (simp add: sc_avail_def)
  let ?c = "\<lparr>rx = [], rx_end = UnexpectedEof, tx = [], tx_cap = None, tx_shut = False\<rparr>"
  have q: "socks5_addr (as_conn sc_avail s) = (Inr (dest_text d), ?c\<lparr>rx := payload\<rparr>)"
    using anytls_addr.parse_enc [OF assms(1), of payload ?c] by (simp add: as_conn_def a)
  have r: "fst (read_socks5_addr s) = Inr (dest_text d)"
    using refines_result [OF read_socks5_addr_refines, of s] q by simp
  moreover have "as_conn sc_avail (snd (read_socks5_addr s)) = ?c\<lparr>rx := payload\<rparr>"
    using read_socks5_addr_refines [unfolded refines_def, rule_format, of s] q unfolding r by simp
  ultimately have "fst (read_socks5_addr s) = Inr (dest_text d)"
    "sc_avail (snd (read_socks5_addr s)) = payload" by (simp_all add: as_conn_def)
  then show ?thesis by (intro exI [of _ "snd (read_socks5_addr s)"]) (simp add: prod_eq_iff)
qed

theorem anytls_addr_any_framing_witness:
  "\<exists>s'. read_socks5_addr \<lparr>sc_stream_id = 1, sc_rx = [[1], [1, 2, 3], [4, 0], [80, 7]] @ [[]], sc_buf = [],
       sc_sent = [], sc_open = True\<rparr> = (Inr (str ''1.2.3.4:80''), s') \<and> sc_avail s' = [7]"
proof -
  let ?d = "(Host4 0x01020304, 80 :: u16)"
  have e: "concat [[1], [1, 2, 3], [4, 0], [80, 7]] = enc_socks_dest ?d @ [7]"
    by (simp add: enc_socks_dest_def octets4_def be_simps)
  have "dest_text ?d = str ''1.2.3.4:80''"
    by (simp add: dest_text_def host_port_def ipv4_to_string_def octets4_def be_simps dec.simps)
  with anytls_addr_any_framing [OF _ e _ refl, of 1] show ?thesis by simp
qed

text \<open>
  An AnyTLS session starts only for a client whose first 32 bytes are the digest of the
  configured password.
\<close>

theorem anytls_auth_first:
  assumes "anytls_handle_conn password_hash scheme c = (Inr (Some s), c')"
  shows "take 32 (rx c) = password_hash"
  using assms
  by (auto simp: anytls_handle_conn_def bind_io_eq_Inr return_io_def Let_def dest!: read_exact_ok
      split: if_splits)

theorem anytls_auth_first_witness:
  "take 32 (replicate 32 7 @ [0, 0]) = replicate 32 (7 :: u8)
   \<and> (\<exists>s c'. anytls_handle_conn (replicate 32 7) \<lparr>stop = 8, rules = Map.empty, raw = [], md5_hex = []\<rparr>
        \<lparr>rx = replicate 32 7 @ [0, 0], rx_end = UnexpectedEof, tx = [], tx_cap = None, tx_shut = False\<rparr>
        = (Inr (Some s), c'))"
proof -
  have r: "\<exists>s c'. anytls_handle_conn (replicate 32 7) \<lparr>stop = 8, rules = Map.empty, raw = [], md5_hex = []\<rparr>
      \<lparr>rx = replicate 32 7 @ [0, 0], rx_end = UnexpectedEof, tx = [], tx_cap = None, tx_shut = False\<rparr>
      = (Inr (Some s), c')"
    by (simp add: anytls_handle_conn_def bind_io_def read_exact_def return_io_def nth_append Let_def from_be_def)
  then obtain s c' where "anytls_handle_conn (replicate 32 7) \<lparr>stop = 8, rules = Map.empty, raw = [], md5_hex = []\<rparr>
      \<lparr>rx = replicate 32 7 @ [0, 0], rx_end = UnexpectedEof, tx = [], tx_cap = None, tx_shut = False\<rparr>
      = (Inr (Some s), c')" by blast
  from anytls_auth_first [OF this] r show ?thesis by simp
qed

end
