(* ===== verification/Anytls_Server.thy ===== *)
theory Anytls_Server
  imports Anytls_Session Transport_Stack
begin

text \<open>
  The AnyTLS listener (\<open>run\<close> of \<open>anytls/server.rs\<close>): what start-up makes of the configuration, and a connection from the
  TLS handshake through the authentication to its session.  The digests and the random choice of padding sizes are parameters.
\<close>

section \<open>The model\<close>

record anytls_config =
  ac_listen :: rstring
  ac_password :: rstring
  ac_tls :: standard_tls_config
  ac_padding_scheme :: "rstring option"

record anytls_env =
  ae_sha256 :: "bytes \<Rightarrow> bytes"
  ae_md5 :: "bytes \<Rightarrow> rstring"
  ae_pick :: "int \<Rightarrow> int \<Rightarrow> int"

record anytls_listener =
  al_acceptor :: server_config
  al_hash :: bytes
  al_padding :: padding_scheme

definition anytls_padding :: "anytls_env \<Rightarrow> rstring option \<Rightarrow> padding_scheme result" where
  "anytls_padding E configured =
     and_then (new_default (ae_pick E) (ae_md5 E)) (\<lambda>padding.
       case configured of
         None \<Rightarrow> Inr padding
       | Some scheme_str \<Rightarrow>
           (case padding_update (ae_pick E) (ae_md5 E) scheme_str padding of
              (True, padding) \<Rightarrow> Inr padding
            | (False, _) \<Rightarrow> Inl (Bail ''invalid padding_scheme in config'')))"

definition anytls_run :: "net_lib \<Rightarrow> anytls_env \<Rightarrow> (rstring \<Rightarrow> unit result) \<Rightarrow> anytls_config \<Rightarrow> anytls_listener result" where
  "anytls_run N E bind cfg =
     (let password_hash = ae_sha256 E (ac_password cfg) in
      and_then (standard_build N (ac_tls cfg)) (\<lambda>tls_cfg.
      and_then (anytls_padding E (ac_padding_scheme cfg)) (\<lambda>padding.
      and_then (bind (ac_listen cfg)) (\<lambda>_.
        Inr \<lparr>al_acceptor = tls_cfg, al_hash = password_hash, al_padding = padding\<rparr>))))"

text \<open>One accepted connection, from the handshake on.\<close>

definition anytls_turn :: "net_lib \<Rightarrow> anytls_listener \<Rightarrow> conn \<Rightarrow> session option result \<times> conn" where
  "anytls_turn N l stream =
     (case tls_handshake N (al_acceptor l) stream of
        Inl e \<Rightarrow> (Inl e, stream)
      | Inr io \<Rightarrow> anytls_handle_conn (al_hash l) (al_padding l) io)"

text \<open>
  A stream's handler (\<open>handle_stream\<close>) up to the dial, and the connection with the handlers of all its streams: each reads the messages that
  the session sent to its channel.  What follows the dial is in \<open>Anytls_Lock\<close>.
\<close>

definition anytls_handle_stream :: "(rstring \<Rightarrow> dial) \<Rightarrow> (stream_conn, rstring) action" where
  "anytls_handle_stream connect =
     bind_io read_socks5_addr (\<lambda>target.
       case connect target of
         Connected \<Rightarrow> return_io target
       | Refused k \<Rightarrow> fail_io (Io k)
       | TimedOut \<Rightarrow> fail_io (Bail ''connect timeout''))"

definition opened :: "chan \<Rightarrow> stream_conn" where
  "opened ch = \<lparr>sc_stream_id = ch_sid ch, sc_rx = ch_msgs ch, sc_buf = [], sc_sent = [], sc_open = True\<rparr>"

definition anytls_serve ::
  "net_lib \<Rightarrow> anytls_listener \<Rightarrow> (rstring \<Rightarrow> dial) \<Rightarrow> conn \<Rightarrow> (session option result \<times> (rstring result \<times> stream_conn) list) \<times> conn" where
  "anytls_serve N l connect stream =
     (case anytls_turn N l stream of
        (Inr (Some s), c) \<Rightarrow> ((Inr (Some s), map (\<lambda>ch. anytls_handle_stream connect (opened ch)) (ss_chans s)), c)
      | (r, c) \<Rightarrow> ((r, []), c))"

section \<open>Start-up and authentication\<close>

lemma handle_conn_hash:
  assumes "anytls_handle_conn password_hash scheme c = (Inr (Some s), c')"
  shows "take 32 (rx c) = password_hash"
  using assms
  by (auto simp: anytls_handle_conn_def bind_io_eq_Inr return_io_def Let_def dest!: read_exact_ok
      split: if_splits)

lemma handle_conn_accepts:
  assumes "length h = 32" "rx c = h @ [0, 0] @ rest"
  shows "anytls_handle_conn h scheme c = (Inr (Some (run_server_session scheme (c\<lparr>rx := rest\<rparr>))), c\<lparr>rx := rest\<rparr>)"
  using assms by (simp add: anytls_handle_conn_def bind_io_def read_exact_def return_io_def nth_append Let_def from_be_def)

lemma padding_result:
  assumes "anytls_padding E configured = Inr p"
  shows "case configured of None \<Rightarrow> new_default (ae_pick E) (ae_md5 E) = Inr p | Some t \<Rightarrow> from_bytes (ae_pick E) (ae_md5 E) t = Some p"
  using assms by (auto simp: anytls_padding_def and_then_eq_Inr padding_update_def split: option.splits)

lemma anytls_turn_gate:
  assumes "anytls_run N E bind cfg = Inr l" "anytls_turn N l stream = (Inr (Some s), c')"
  shows "\<exists>io. tls_handshake N (al_acceptor l) stream = Inr io \<and> take 32 (rx io) = ae_sha256 E (ac_password cfg)"
proof -
  from assms(1) have "al_hash l = ae_sha256 E (ac_password cfg)" by (auto simp: anytls_run_def and_then_eq_Inr Let_def)
  with assms(2) handle_conn_hash [of "al_hash l"] show ?thesis by (auto simp: anytls_turn_def split: sum.splits)
qed

text \<open>The network's answer to a dial reaches only the handler of a stream, and there are streams only in a session.\<close>

lemma anytls_serve_gate:
  assumes "anytls_run N E bind cfg = Inr l" "anytls_serve N l connect stream \<noteq> anytls_serve N l connect' stream"
  shows "\<exists>io. tls_handshake N (al_acceptor l) stream = Inr io \<and> take 32 (rx io) = ae_sha256 E (ac_password cfg)"
proof -
  obtain r c where t: "anytls_turn N l stream = (r, c)" by fastforce
  with assms(2) obtain s where "r = Inr (Some s)" by (auto simp: anytls_serve_def split: sum.splits option.splits)
  with anytls_turn_gate [OF assms(1)] t show ?thesis by blast
qed

section \<open>Properties\<close>

text \<open>
  C35.  An AnyTLS listener serves a session only to a client that sends the digest of the configured password first, inside TLS; it starts only with a padding scheme that parses, the
  configured one if there is one and the built-in one otherwise; and a client that sends the digest and no padding gets its session on exactly the bytes
  that follow.
\<close>

theorem anytls_listener_gate:
  assumes "anytls_run N E bind cfg = Inr l"
  shows "(\<forall>stream s c'. anytls_turn N l stream \<noteq> (Inr (Some s), c')
      \<or> (\<exists>io. tls_handshake N (al_acceptor l) stream = Inr io \<and> take 32 (rx io) = ae_sha256 E (ac_password cfg)))
    \<and> (case ac_padding_scheme cfg of
         None \<Rightarrow> new_default (ae_pick E) (ae_md5 E) = Inr (al_padding l)
       | Some t \<Rightarrow> from_bytes (ae_pick E) (ae_md5 E) t = Some (al_padding l))
    \<and> (\<forall>stream io rest. tls_handshake N (al_acceptor l) stream \<noteq> Inr io \<or> length (ae_sha256 E (ac_password cfg)) \<noteq> 32
         \<or> rx io \<noteq> ae_sha256 E (ac_password cfg) @ [0, 0] @ rest
         \<or> anytls_turn N l stream = (Inr (Some (run_server_session (al_padding l) (io\<lparr>rx := rest\<rparr>))), io\<lparr>rx := rest\<rparr>))"
proof -
  from assms have h: "al_hash l = ae_sha256 E (ac_password cfg)" and p: "anytls_padding E (ac_padding_scheme cfg) = Inr (al_padding l)"
    by (auto simp: anytls_run_def and_then_eq_Inr Let_def)
  have gate: "anytls_turn N l stream \<noteq> (Inr (Some s), c')
      \<or> (\<exists>io. tls_handshake N (al_acceptor l) stream = Inr io \<and> take 32 (rx io) = ae_sha256 E (ac_password cfg))" for stream s c'
    using handle_conn_hash [of "al_hash l"] h by (auto simp: anytls_turn_def split: sum.split)
  have acc: "tls_handshake N (al_acceptor l) stream \<noteq> Inr io \<or> length (ae_sha256 E (ac_password cfg)) \<noteq> 32
      \<or> rx io \<noteq> ae_sha256 E (ac_password cfg) @ [0, 0] @ rest
      \<or> anytls_turn N l stream = (Inr (Some (run_server_session (al_padding l) (io\<lparr>rx := rest\<rparr>))), io\<lparr>rx := rest\<rparr>)" for stream io rest
    using handle_conn_accepts [of "al_hash l" io rest] h by (auto simp: anytls_turn_def)
  from gate acc padding_result [OF p] show ?thesis by blast
qed

theorem anytls_listener_gate_witness:
  "\<exists>l s c'. anytls_run toy_net \<lparr>ae_sha256 = \<lambda>_. replicate 32 7, ae_md5 = \<lambda>_. [], ae_pick = \<lambda>a b. a\<rparr> (\<lambda>_. Inr ())
      \<lparr>ac_listen = [], ac_password = str ''pw'', ac_tls = \<lparr>cert_path = None, key_path = None, self_signed_domain = None\<rparr>, ac_padding_scheme = None\<rparr> = Inr l
    \<and> anytls_turn toy_net l \<lparr>rx = replicate 32 7 @ [0, 0], rx_end = UnexpectedEof, tx = [], tx_cap = None, tx_shut = False\<rparr> = (Inr (Some s), c')"
proof -
  let ?E = "\<lparr>ae_sha256 = \<lambda>_. replicate 32 7, ae_md5 = \<lambda>_. [], ae_pick = \<lambda>a b. a\<rparr>"
  let ?cfg = "\<lparr>ac_listen = [], ac_password = str ''pw'', ac_tls = \<lparr>cert_path = None, key_path = None, self_signed_domain = None\<rparr>, ac_padding_scheme = None\<rparr>"
  let ?c = "\<lparr>rx = replicate 32 7 @ [0, 0], rx_end = UnexpectedEof, tx = [], tx_cap = None, tx_shut = False\<rparr>"
  have "\<exists>l. anytls_run toy_net ?E (\<lambda>_. Inr ()) ?cfg = Inr l"
    by (simp add: anytls_run_def anytls_padding_def new_default_def default_scheme standard_build_def toy_net_def Let_def)
  then obtain l where l: "anytls_run toy_net ?E (\<lambda>_. Inr ()) ?cfg = Inr l" ..
  have "tls_handshake toy_net (al_acceptor l) ?c = Inr ?c" by (simp add: toy_net_def)
  with anytls_listener_gate [OF l, THEN conjunct2, THEN conjunct2, rule_format, of ?c ?c "[]"]
  have "anytls_turn toy_net l ?c = (Inr (Some (run_server_session (al_padding l) (?c\<lparr>rx := []\<rparr>))), ?c\<lparr>rx := []\<rparr>)"
    by simp
  with l show ?thesis by blast
qed

end
