(* ===== verification/Program.thy ===== *)
theory Program
  imports Startup Quic_Setup Wireguard_Setup Anytls_Server
begin

text \<open>
  The whole program: the tasks that \<open>main\<close> spawns, one for each node of the configuration, each running the start-up of its
  protocol, and what a started listener does with an accepted connection.  What the environment supplies, the libraries at start-up
  and the clock, randomness and network of one connection, is gathered in two records.
\<close>

section \<open>The model\<close>

record ('t, 'n) program_env =
  pe_net :: net_lib
  pe_quic :: quic_lib
  pe_reality :: reality_lib
  pe_vmess :: vmess_crypto
  pe_digest :: "rstring \<Rightarrow> rstring"
  pe_base64 :: "rstring \<Rightarrow> bytes option"
  pe_lower :: "rstring \<Rightarrow> rstring"
  pe_anytls :: anytls_env
  pe_wg :: "('t, 'n) wg_lib"
  pe_bind :: "rstring \<Rightarrow> unit result"

record conn_env =
  ce_reality :: reality_env
  ce_ss :: ss_env
  ce_now :: u64

type_synonym ruproxy_node = "(hysteria2_config, tuic_config, wg_config, anytls_config) node_inner"

text \<open>What a node is once it has started.\<close>

datatype ('t, 'n) server =
    Hy2Up hy2_endpoint
  | VlessUp bytes Listeners.listener
  | VmessUp bytes Listeners.listener
  | TrojanUp Listeners.listener
  | SsUp bytes Listeners.listener
  | TuicUp tuic_endpoint
  | WgUp "cidr list" "('t, 'n) wg_tables"
  | AnytlsUp anytls_listener
  | SocksUp

definition socks_run :: "(rstring \<Rightarrow> unit result) \<Rightarrow> socks_config \<Rightarrow> unit result" where
  "socks_run bind cfg = bind (sk_listen cfg)"

definition run_node :: "('t, 'n) program_env \<Rightarrow> ruproxy_node \<Rightarrow> ('t, 'n) server result" where
  "run_node L node =
     (case node of
        Hysteria2 c \<Rightarrow> and_then (hy2_run (pe_net L) (pe_quic L) (pe_lower L) (pe_bind L) c) (\<lambda>e. Inr (Hy2Up e))
      | Vless c \<Rightarrow> and_then (vless_run (pe_net L) (pe_reality L) (pe_bind L) c) (\<lambda>(u, l). Inr (VlessUp u l))
      | Vmess c \<Rightarrow> and_then (vmess_run (pe_net L) (pe_vmess L) (pe_bind L) c) (\<lambda>(k, l). Inr (VmessUp k l))
      | Trojan c \<Rightarrow> and_then (trojan_run (pe_net L) (pe_bind L) c) (\<lambda>l. Inr (TrojanUp l))
      | Shadowsocks c \<Rightarrow> and_then (ss_run (pe_net L) (pe_base64 L) (pe_bind L) c) (\<lambda>(k, l). Inr (SsUp k l))
      | Tuic c \<Rightarrow> and_then (tuic_run (pe_net L) (pe_quic L) (pe_bind L) c) (\<lambda>e. Inr (TuicUp e))
      | Wireguard c \<Rightarrow> and_then (wg_run (pe_wg L) (pe_bind L) c) (\<lambda>(cidrs, t). Inr (WgUp cidrs t))
      | Anytls c \<Rightarrow> and_then (anytls_run (pe_net L) (pe_anytls L) (pe_bind L) c) (\<lambda>l. Inr (AnytlsUp l))
      | Socks c \<Rightarrow> and_then (socks_run (pe_bind L) c) (\<lambda>_. Inr SocksUp))"

type_synonym ruproxy_config = "(hysteria2_config, tuic_config, wg_config, anytls_config) node_config list"

text \<open>The tasks of the running program, by tag; \<open>None\<close> when it does not come to serve.  A task that fails is logged and the others go on.\<close>

definition program ::
  "('t, 'n) program_env \<Rightarrow> (rstring \<Rightarrow> ruproxy_config result) \<Rightarrow> rstring list \<Rightarrow> (rstring \<times> ('t, 'n) server result) list option" where
  "program L load args =
     (case main load args of
        Serve nodes \<Rightarrow> Some (map (\<lambda>(t, node). (t, run_node L node)) nodes)
      | _ \<Rightarrow> None)"

text \<open>One accepted connection of a listener on TCP, an AnyTLS one with the handlers of its streams.  The listeners on UDP have no such turns:
  what a connection of theirs does is a run of its own transition system.\<close>

datatype answer =
    VlessTurn "(rstring result \<times> conn) turn \<times> relay option"
  | VmessTurn "(vmess_request result \<times> conn) turn"
  | TrojanTurn "(rstring result \<times> conn) turn"
  | SsTurn "((rstring \<times> aead_reader \<times> aead_writer) result \<times> conn) turn"
  | AnytlsTurn "(session option result \<times> (rstring result \<times> stream_conn) list) \<times> conn"
  | SocksTurn "rstring result \<times> conn"

definition node_turn ::
  "('t, 'n) program_env \<Rightarrow> conn_env \<Rightarrow> ruproxy_node \<Rightarrow> ('t, 'n) server \<Rightarrow> (rstring \<Rightarrow> dial) \<Rightarrow> conn \<Rightarrow> answer option" where
  "node_turn L E node srv connect stream =
     (case (node, srv) of
        (Vless c, VlessUp u l) \<Rightarrow> Some (VlessTurn (vless_turn (pe_net L) (ce_reality E) c (u, l) connect stream))
      | (Vmess c, VmessUp k l) \<Rightarrow> Some (VmessTurn (vmess_turn (pe_net L) (pe_vmess L) (ce_now E) c (k, l) connect stream))
      | (Trojan c, TrojanUp l) \<Rightarrow> Some (TrojanTurn (trojan_turn (pe_net L) (pe_digest L) c l connect stream))
      | (Shadowsocks c, SsUp k l) \<Rightarrow> Some (SsTurn (ss_turn (pe_net L) (ce_ss E) c (k, l) connect stream))
      | (Anytls c, AnytlsUp l) \<Rightarrow> Some (AnytlsTurn (anytls_serve (pe_net L) l connect stream))
      | (Socks c, SocksUp) \<Rightarrow> Some (SocksTurn (socks_handle connect (sk_users c) stream))
      | _ \<Rightarrow> None)"

text \<open>
  One logical stream of the XHTTP server, which the second loop of a listener under XHTTP hands to the protocol's handler.  The handler works on
  \<open>xhttp_conn\<close>, which holds what \<open>poll_read\<close> returns until the stream ends, packets and chunks alike.
\<close>

definition vless_xhttp :: "bytes \<Rightarrow> (rstring \<Rightarrow> dial) \<Rightarrow> xhttp_stream \<Rightarrow> rstring result \<times> conn" where
  "vless_xhttp uuid_bytes connect xhs = process_vless_stream connect uuid_bytes (xhttp_conn xhs)"

definition vmess_xhttp :: "vmess_crypto \<Rightarrow> u64 \<Rightarrow> bytes \<Rightarrow> (rstring \<Rightarrow> dial) \<Rightarrow> xhttp_stream \<Rightarrow> vmess_request result \<times> conn" where
  "vmess_xhttp C now cmd_key connect xhs = vmess_accept C now connect cmd_key (xhttp_conn xhs)"

definition trojan_xhttp :: "(rstring \<Rightarrow> rstring) \<Rightarrow> trojan_config \<Rightarrow> (rstring \<Rightarrow> dial) \<Rightarrow> xhttp_stream \<Rightarrow> rstring result \<times> conn" where
  "trojan_xhttp hex_digest cfg connect xhs = trojan_process hex_digest connect (tj_password cfg) (xhttp_conn xhs)"

definition ss_xhttp ::
  "ss_env \<Rightarrow> ss_config \<Rightarrow> bytes \<Rightarrow> (rstring \<Rightarrow> dial) \<Rightarrow> xhttp_stream \<Rightarrow> (rstring \<times> aead_reader \<times> aead_writer) result \<times> conn" where
  "ss_xhttp E cfg master_key connect xhs = ss_run_process E cfg master_key connect (xhttp_conn xhs)"

definition xhttp_turn ::
  "('t, 'n) program_env \<Rightarrow> conn_env \<Rightarrow> ruproxy_node \<Rightarrow> ('t, 'n) server \<Rightarrow> (rstring \<Rightarrow> dial) \<Rightarrow> xhttp_stream \<Rightarrow> answer option" where
  "xhttp_turn L E node srv connect xhs =
     (case (node, srv) of
        (Vless c, VlessUp u l) \<Rightarrow> Some (VlessTurn (Handled (vless_xhttp u connect xhs), None))
      | (Vmess c, VmessUp k l) \<Rightarrow> Some (VmessTurn (Handled (vmess_xhttp (pe_vmess L) (ce_now E) k connect xhs)))
      | (Trojan c, TrojanUp l) \<Rightarrow> Some (TrojanTurn (Handled (trojan_xhttp (pe_digest L) c connect xhs)))
      | (Shadowsocks c, SsUp k l) \<Rightarrow> Some (SsTurn (Handled (ss_xhttp (ce_ss E) c k connect xhs)))
      | _ \<Rightarrow> None)"

section \<open>Who may dial\<close>

text \<open>What the handler of a connection reads, behind TLS, REALITY and WebSocket.\<close>

definition seen :: "('t, 'n) program_env \<Rightarrow> conn_env \<Rightarrow> ruproxy_node \<Rightarrow> ('t, 'n) server \<Rightarrow> conn \<Rightarrow> conn result" where
  "seen L E node srv stream =
     (case (node, srv) of
        (Vless c, VlessUp u l) \<Rightarrow>
          layers (pe_net L) (Bail ''vless: unknown transport type'') (vl_transport c)
            (fst (vless_secured (pe_net L) (ce_reality E) c (li_acceptor l) stream))
      | (Vmess c, VmessUp k l) \<Rightarrow>
          layers (pe_net L) (Bail ''unknown transport'') (vm_transport c) (tls_layer (pe_net L) (li_acceptor l) stream)
      | (Trojan c, TrojanUp l) \<Rightarrow>
          layers (pe_net L) (Bail ''trojan: unknown transport'') (tj_transport c) (tls_layer (pe_net L) (li_acceptor l) stream)
      | (Shadowsocks c, SsUp k l) \<Rightarrow>
          layers (pe_net L) (Bail ''shadowsocks: unknown transport type'') (ss_transport c) (tls_layer (pe_net L) (li_acceptor l) stream)
      | (Anytls c, AnytlsUp l) \<Rightarrow> tls_handshake (pe_net L) (al_acceptor l) stream
      | _ \<Rightarrow> Inr stream)"

text \<open>The proof of a credential of the node's configuration, at the start of what is read.\<close>

definition authorised :: "('t, 'n) program_env \<Rightarrow> conn_env \<Rightarrow> ruproxy_node \<Rightarrow> conn \<Rightarrow> bool" where
  "authorised L E node io =
     (case node of
        Vless c \<Rightarrow> \<exists>u. parse_uuid (vl_uuid c) = Inr u \<and> take 17 (rx io) = VLESS_VERSION # u
      | Vmess c \<Rightarrow> \<exists>u auth_id nonce header rest. parse_uuid (vm_uuid c) = Inr u
          \<and> rx io = sealed_header (pe_vmess L) (vmess_cmd_key (pe_vmess L) u) auth_id nonce header @ rest
          \<and> length auth_id = 16 \<and> fresh_auth_id (pe_vmess L) (ce_now E) (vmess_cmd_key (pe_vmess L) u) auth_id
      | Trojan c \<Rightarrow> take 58 (rx io) = pe_digest L (tj_password c) @ [13, 10]
      | Shadowsocks c \<Rightarrow> \<exists>k salt header rest. decode_master_key (pe_base64 L) (ss_password c) (key_len (ss_method c)) = Inr k
          \<and> rx io = salt @ seal_chunk (se_prims (ce_ss E)) (ss_method c)
               (session_key (se_blake3 (ce_ss E)) k (ss_method c) salt) (nonce_at 0) header @ rest
          \<and> length salt = salt_len (ss_method c)
      | Socks c \<Rightarrow> sk_users c = [] \<or> (\<exists>methods up rest. rx io = enc_greeting methods @ enc_credentials up @ rest
          \<and> credentials_ok (sk_users c) (fst up) (snd up))
      | Anytls c \<Rightarrow> take 32 (rx io) = ae_sha256 (pe_anytls L) (ac_password c)
      | _ \<Rightarrow> False)"

text \<open>
  The listeners on UDP.  A Hysteria2 connection has proxied no stream and no datagram unless it accepted an authentication request for the
  configured scheme; a TUIC connection has dialled, bound and relayed nothing unless a configured user proved its token; what the stack of a
  WireGuard peer is given, which alone makes it open flows, was decrypted by a tunnel and comes from a range configured for that peer.
\<close>

definition udp_gate :: "('t, 'n) program_env \<Rightarrow> ruproxy_node \<Rightarrow> ('t, 'n) server \<Rightarrow> bool" where
  "udp_gate L node srv =
     (case (node, srv) of
        (Hysteria2 c, Hy2Up e) \<Rightarrow>
          \<forall>s. hy2_reach (h2_auth c) (down_bps (pe_lower L) (h2_bandwidth c)) hy2_new s \<longrightarrow>
            idle s \<or> hy2_admitted (h2_auth c) (down_bps (pe_lower L) (h2_bandwidth c)) s
      | (Tuic c, TuicUp e) \<Rightarrow>
          \<forall>env s. tuic_reach env (connection_new (ut_users e) (tc_udp_relay_ipv6 c)) s \<longrightarrow>
            quiet s \<or> (\<exists>u. u \<in> dom (tc_users c) \<and> authenticated_by env (connection_new (tc_users c) (tc_udp_relay_ipv6 c)) s u)
      | (Wireguard c, WgUp cidrs t) \<Rightarrow>
          \<forall>T contains peers s pk p pkt. set peers = set (wt_peers t) \<longrightarrow> wg_reach T contains peers s \<longrightarrow>
            (pk, p) \<in> set (w_peers s) \<longrightarrow> pkt \<in> set (p_queue p) \<longrightarrow>
            (\<exists>pc \<in> set (wc_peers c). \<exists>nets. pub_of (pe_wg L) pc = pk \<and> networks (pe_wg L) (wp_allowed_ips pc) = Inr nets
               \<and> (\<exists>net \<in> set nets. contains net (packet_src_ip pkt)))
            \<and> (\<exists>ip raw tun. fst (decapsulate T ip raw tun) = WriteToTunnel pkt)
      | _ \<Rightarrow> True)"

definition crypto_laws :: "('t, 'n) program_env \<Rightarrow> conn_env \<Rightarrow> bool" where
  "crypto_laws L E \<longleftrightarrow> digest_laws (pe_digest L) \<and> body_laws (pe_vmess L) \<and> aead_laws (se_prims (ce_ss E))
     \<and> blake3_laws (se_blake3 (ce_ss E))"

interpretation socks_guard: guarded_handler "\<lambda>connect. socks_handle connect users"
  "\<lambda>c. users = [] \<or> (\<exists>methods up rest. rx c = enc_greeting methods @ enc_credentials up @ rest \<and> credentials_ok users (fst up) (snd up))"
  for users
  by unfold_locales (use socks_gate in blast)

lemma node_turn_authorised:
  assumes "run_node L node = Inr srv" "crypto_laws L E"
    and "node_turn L E node srv connect stream \<noteq> node_turn L E node srv connect' stream"
  shows "\<exists>io. seen L E node srv stream = Inr io \<and> authorised L E node io"
proof (cases node)
  case (Vless c)
  from assms(1) Vless obtain u l where r: "vless_run (pe_net L) (pe_reality L) (pe_bind L) c = Inr (u, l)" and s: "srv = VlessUp u l"
    by (auto simp: run_node_def and_then_eq_Inr)
  from r have u: "parse_uuid (vl_uuid c) = Inr u" by (auto simp: vless_run_def and_then_eq_Inr)
  have "vless_handle_conn (pe_net L) (ce_reality E) c u (li_acceptor l) connect stream
      \<noteq> vless_handle_conn (pe_net L) (ce_reality E) c u (li_acceptor l) connect' stream"
    using assms(3) by (auto simp: node_turn_def Vless s vless_turn_def split: option.splits)
  then have "fst (vless_handle_conn (pe_net L) (ce_reality E) c u (li_acceptor l) connect stream)
      \<noteq> fst (vless_handle_conn (pe_net L) (ce_reality E) c u (li_acceptor l) connect' stream)"
    using vless_handle_fwd by (metis prod.expand)
  from vless_guard.through_layers [OF this [unfolded vless_handle_eq]] u show ?thesis
    by (auto simp: seen_def authorised_def Vless s)
next
  case (Vmess c)
  from assms(1) Vmess obtain k l where r: "vmess_run (pe_net L) (pe_vmess L) (pe_bind L) c = Inr (k, l)" and s: "srv = VmessUp k l"
    by (auto simp: run_node_def and_then_eq_Inr)
  from r obtain u where u: "parse_uuid (vm_uuid c) = Inr u" "k = vmess_cmd_key (pe_vmess L) u" by (auto simp: vmess_run_def and_then_eq_Inr)
  have "on_layers (vmess_layers (pe_net L) (vm_transport c) (li_acceptor l) stream) stream (vmess_accept (pe_vmess L) (ce_now E) connect k)
      \<noteq> on_layers (vmess_layers (pe_net L) (vm_transport c) (li_acceptor l) stream) stream (vmess_accept (pe_vmess L) (ce_now E) connect' k)"
    using assms(3) by (auto simp: node_turn_def Vmess s vmess_turn_def vmess_handle_def split: option.splits)
  from vmess_guard.through_layers [OF this] u assms(2) show ?thesis
    by (auto simp: seen_def authorised_def Vmess s vmess_layers_eq crypto_laws_def)
next
  case (Trojan c)
  from assms(1) Trojan obtain l where s: "srv = TrojanUp l" by (auto simp: run_node_def and_then_eq_Inr)
  have "on_layers (trojan_layers (pe_net L) (tj_transport c) (li_acceptor l) stream) stream (trojan_process (pe_digest L) connect (tj_password c))
      \<noteq> on_layers (trojan_layers (pe_net L) (tj_transport c) (li_acceptor l) stream) stream (trojan_process (pe_digest L) connect' (tj_password c))"
    using assms(3) by (auto simp: node_turn_def Trojan s trojan_turn_def trojan_handle_def split: option.splits)
  from trojan_guard.through_layers [OF this] assms(2) show ?thesis
    by (auto simp: seen_def authorised_def Trojan s trojan_layers_eq crypto_laws_def)
next
  case (Shadowsocks c)
  from assms(1) Shadowsocks obtain k l where r: "ss_run (pe_net L) (pe_base64 L) (pe_bind L) c = Inr (k, l)" and s: "srv = SsUp k l"
    by (auto simp: run_node_def and_then_eq_Inr)
  from r have u: "decode_master_key (pe_base64 L) (ss_password c) (key_len (ss_method c)) = Inr k" by (auto simp: ss_run_def and_then_eq_Inr)
  have "ss_handle_conn (pe_net L) (ce_ss E) c k (li_acceptor l) connect stream \<noteq> ss_handle_conn (pe_net L) (ce_ss E) c k (li_acceptor l) connect' stream"
    using assms(3) by (auto simp: node_turn_def Shadowsocks s ss_turn_def split: option.splits)
  from ss_guard.through_layers [OF this [unfolded ss_handle_eq]] u assms(2) show ?thesis
    by (auto simp: seen_def authorised_def Shadowsocks s crypto_laws_def)
next
  case (Socks c)
  with assms(1) have s: "srv = SocksUp" by (auto simp: run_node_def and_then_eq_Inr)
  have "socks_handle connect (sk_users c) stream \<noteq> socks_handle connect' (sk_users c) stream"
    using assms(3) by (auto simp: node_turn_def Socks s)
  from socks_guard.gate [OF this] show ?thesis by (auto simp: seen_def authorised_def Socks s)
next
  case (Anytls c)
  from assms(1) Anytls obtain l where r: "anytls_run (pe_net L) (pe_anytls L) (pe_bind L) c = Inr l" and s: "srv = AnytlsUp l"
    by (auto simp: run_node_def and_then_eq_Inr)
  have "anytls_serve (pe_net L) l connect stream \<noteq> anytls_serve (pe_net L) l connect' stream"
    using assms(3) by (auto simp: node_turn_def Anytls s)
  from anytls_serve_gate [OF r this] show ?thesis by (simp add: seen_def authorised_def Anytls s)
qed (use assms(3) in \<open>auto simp: node_turn_def split: server.splits\<close>)

lemma xhttp_turn_authorised:
  assumes "run_node L node = Inr srv" "crypto_laws L E"
    and "xhttp_turn L E node srv connect xhs \<noteq> xhttp_turn L E node srv connect' xhs"
  shows "authorised L E node (xhttp_conn xhs)"
proof (cases node)
  case (Vless c)
  from assms(1) Vless obtain u l where "parse_uuid (vl_uuid c) = Inr u" and s: "srv = VlessUp u l"
    by (auto simp: run_node_def vless_run_def and_then_eq_Inr)
  moreover have "process_vless_stream connect u (xhttp_conn xhs) \<noteq> process_vless_stream connect' u (xhttp_conn xhs)"
    using assms(3) by (auto simp: xhttp_turn_def vless_xhttp_def Vless s)
  ultimately show ?thesis using vless_guard.gate by (auto simp: authorised_def Vless)
next
  case (Vmess c)
  from assms(1) Vmess obtain u k l where u: "parse_uuid (vm_uuid c) = Inr u" "k = vmess_cmd_key (pe_vmess L) u" and s: "srv = VmessUp k l"
    by (auto simp: run_node_def vmess_run_def and_then_eq_Inr)
  have "vmess_accept (pe_vmess L) (ce_now E) connect k (xhttp_conn xhs) \<noteq> vmess_accept (pe_vmess L) (ce_now E) connect' k (xhttp_conn xhs)"
    using assms(3) by (auto simp: xhttp_turn_def vmess_xhttp_def Vmess s)
  from vmess_guard.gate [OF this] u assms(2) show ?thesis by (auto simp: authorised_def Vmess crypto_laws_def)
next
  case (Trojan c)
  from assms(1) Trojan obtain l where s: "srv = TrojanUp l" by (auto simp: run_node_def and_then_eq_Inr)
  have "trojan_process (pe_digest L) connect (tj_password c) (xhttp_conn xhs)
      \<noteq> trojan_process (pe_digest L) connect' (tj_password c) (xhttp_conn xhs)"
    using assms(3) by (auto simp: xhttp_turn_def trojan_xhttp_def Trojan s)
  from trojan_guard.gate [OF this] assms(2) show ?thesis by (auto simp: authorised_def Trojan crypto_laws_def)
next
  case (Shadowsocks c)
  from assms(1) Shadowsocks obtain k l where u: "decode_master_key (pe_base64 L) (ss_password c) (key_len (ss_method c)) = Inr k"
    and s: "srv = SsUp k l" by (auto simp: run_node_def ss_run_def and_then_eq_Inr)
  have "ss_run_process (ce_ss E) c k connect (xhttp_conn xhs) \<noteq> ss_run_process (ce_ss E) c k connect' (xhttp_conn xhs)"
    using assms(3) by (auto simp: xhttp_turn_def ss_xhttp_def Shadowsocks s)
  from ss_guard.gate [OF this] u assms(2) show ?thesis by (auto simp: authorised_def Shadowsocks crypto_laws_def)
qed (use assms(3) in \<open>auto simp: xhttp_turn_def split: server.splits\<close>)

lemma udp_gates:
  assumes "run_node L node = Inr srv"
  shows "udp_gate L node srv"
proof (cases node)
  case (Hysteria2 c)
  then show ?thesis using hy2_gate by (auto simp: udp_gate_def split: server.split)
next
  case (Tuic c)
  with assms obtain e where r: "tuic_run (pe_net L) (pe_quic L) (pe_bind L) c = Inr e" and s: "srv = TuicUp e"
    by (auto simp: run_node_def and_then_eq_Inr)
  have u: "ut_users e = tc_users c" using r by (auto simp: tuic_run_def and_then_eq_Inr Let_def)
  have "u' \<in> dom (tc_users c)" if "authenticated_by env (connection_new (tc_users c) v6) s' u'" for env v6 s' u'
    using that by (auto simp: authenticated_by_def valid_auth_stream_def connection_new_def)
  with u reach_gate show ?thesis by (simp add: udp_gate_def Tuic s split: if_splits) metis
next
  case (Wireguard c)
  with assms obtain cidrs t where r: "wg_run (pe_wg L) (pe_bind L) c = Inr (cidrs, t)" and s: "srv = WgUp cidrs t"
    by (auto simp: run_node_def and_then_eq_Inr)
  from r obtain k where k: "peers_setup (pe_wg L) k 0 (wc_peers c) \<lparr>wt_peers = [], wt_routes = []\<rparr> = Inr t"
    by (auto simp: wg_run_def and_then_eq_Inr)
  have "(\<exists>pc \<in> set (wc_peers c). \<exists>nets. pub_of (pe_wg L) pc = pk \<and> networks (pe_wg L) (wp_allowed_ips pc) = Inr nets
               \<and> (\<exists>net \<in> set nets. contains net (packet_src_ip pkt)))
            \<and> (\<exists>ip raw tun. fst (decapsulate T ip raw tun) = WriteToTunnel pkt)"
    if "set peers = set (wt_peers t)" "wg_reach T contains peers s" "(pk, p) \<in> set (w_peers s)" "pkt \<in> set (p_queue p)"
    for T contains peers s pk p pkt
  proof -
    from wg_allowed_configured [OF that(2,3)] that(1) obtain tun where "(pk, tun, p_allowed p) \<in> set (wt_peers t)" by auto
    from peers_setup_from [OF k this] obtain pc where "pc \<in> set (wc_peers c)" "pub_of (pe_wg L) pc = pk"
      "networks (pe_wg L) (wp_allowed_ips pc) = Inr (p_allowed p)" by auto
    with wg_queue_allowed [OF that(2-4)] show ?thesis by blast
  qed
  then show ?thesis unfolding udp_gate_def Wireguard s by simp
qed (simp_all add: udp_gate_def)

lemma main_serve_nodes:
  assumes "main load args = Serve spawned"
  shows "\<exists>nodes. load (parse_config_arg args) = Inr nodes \<and> distinct (map tag nodes) \<and> spawned = map (\<lambda>n. (tag n, inner n)) nodes"
proof -
  have g: "generate_command args \<noteq> Serve spawned"
    unfolding generate_command_def by (simp only: action.distinct simp_thms split: if_split)
  with assms show ?thesis
    by (cases "load (parse_config_arg args)")
      (auto simp: main_def Let_def check_duplicate_None simp del: str_def split: if_splits option.splits)
qed

lemma program_nodes:
  assumes "program L load args = Some outcomes"
  obtains nodes where "load (parse_config_arg args) = Inr nodes" "distinct (map tag nodes)"
    "outcomes = map (\<lambda>n. (tag n, run_node L (inner n))) nodes"
proof (cases "main load args")
  case (Serve spawned)
  from main_serve_nodes [OF this] assms Serve show thesis by (auto simp: program_def intro: that)
qed (use assms in \<open>simp_all add: program_def\<close>)

section \<open>Properties\<close>


definition demo_program_env :: "(nat, rstring) program_env" where
  "demo_program_env = \<lparr>pe_net = toy_net, pe_quic = \<lparr>ql_tls_ok = \<lambda>_. True, ql_idle_ok = \<lambda>_. True\<rparr>, pe_reality = toy_reality,
     pe_vmess = toy_vmess, pe_digest = \<lambda>_. replicate 56 97, pe_base64 = \<lambda>_. None, pe_lower = \<lambda>s. s,
     pe_anytls = \<lparr>ae_sha256 = \<lambda>_. [], ae_md5 = \<lambda>_. [], ae_pick = \<lambda>a b. a\<rparr>, pe_wg = plain_lib, pe_bind = \<lambda>_. Inr ()\<rparr>"

definition demo_conn_env :: conn_env where
  "demo_conn_env = \<lparr>ce_reality = Listeners.demo_env,
     ce_ss = \<lparr>se_prims = toy_prims, se_blake3 = toy_blake3, se_now = 0, se_now' = 0, se_salt = []\<rparr>, ce_now = 0\<rparr>"

definition demo_config :: ruproxy_config where
  "demo_config = [\<lparr>tag = str ''t'', inner = Trojan (demo_trojan (str ''tcp''))\<rparr>]"


end
