(* ===== verification/Config_File.thy ===== *)
theory Config_File
  imports Program
begin

text \<open>
  From the text of the configuration file to the nodes of the program (\<open>config.rs\<close>): the decoders that serde derives from the
  types and their attributes, the defaults, the fields that take one value or many, and \<open>load\<close>.  The file system, the TOML parser,
  the reader of durations and the reader of UUIDs are parameters; a document is a value tree.  Only that decoding fails is
  modelled, not the text of the error.
\<close>

section \<open>Documents and decoders\<close>

text \<open>Floating-point numbers and dates are \<open>TOther\<close>, which no field accepts.  The readers cover the forms that the types document: a table or an
  array of fields for a record, a text for an enum without fields.\<close>

datatype toml = TStr rstring | TInt int | TBool bool | TOther | TArr "toml list" | TTab "(rstring \<times> toml) list"

type_synonym 'a decoder = "toml \<Rightarrow> 'a result"
type_synonym table = "(rstring \<times> toml) list"

definition d_string :: "rstring decoder" where
  "d_string v = (case v of TStr s \<Rightarrow> Inr s | _ \<Rightarrow> Inl ParseError)"

definition d_bool :: "bool decoder" where
  "d_bool v = (case v of TBool b \<Rightarrow> Inr b | _ \<Rightarrow> Inl ParseError)"

definition d_uint :: "nat \<Rightarrow> nat decoder" where
  "d_uint hi v = (case v of TInt i \<Rightarrow> if 0 \<le> i \<and> i \<le> int hi then Inr (nat i) else Inl ParseError | _ \<Rightarrow> Inl ParseError)"

definition d_u16 :: "u16 decoder" where
  "d_u16 v = and_then (d_uint 65535 v) (\<lambda>n. Inr (of_nat n))"

fun traverse :: "('a \<Rightarrow> 'b result) \<Rightarrow> 'a list \<Rightarrow> 'b list result" where
  "traverse f [] = Inr []"
| "traverse f (x # xs) = and_then (f x) (\<lambda>y. and_then (traverse f xs) (\<lambda>ys. Inr (y # ys)))"

definition d_vec :: "'a decoder \<Rightarrow> 'a list decoder" where
  "d_vec d v = (case v of TArr xs \<Rightarrow> traverse d xs | _ \<Rightarrow> Inl ParseError)"

text \<open>An untagged enum tries its variants in order.\<close>

definition one_or_many :: "'a decoder \<Rightarrow> 'a list decoder" where
  "one_or_many d v = (case d_vec d v of Inr xs \<Rightarrow> Inr xs | Inl _ \<Rightarrow> and_then (d v) (\<lambda>x. Inr [x]))"

definition one_or_many_opt :: "'a decoder \<Rightarrow> 'a list decoder" where
  "one_or_many_opt d = one_or_many d"

text \<open>A field of a record: required, optional, or with a default.\<close>

definition req :: "'a decoder \<Rightarrow> rstring \<Rightarrow> table \<Rightarrow> 'a result" where
  "req d k t = (case map_of t k of None \<Rightarrow> Inl ParseError | Some v \<Rightarrow> d v)"

definition opt :: "'a decoder \<Rightarrow> rstring \<Rightarrow> table \<Rightarrow> 'a option result" where
  "opt d k t = (case map_of t k of None \<Rightarrow> Inr None | Some v \<Rightarrow> and_then (d v) (\<lambda>x. Inr (Some x)))"

definition dflt :: "'a \<Rightarrow> 'a decoder \<Rightarrow> rstring \<Rightarrow> table \<Rightarrow> 'a result" where
  "dflt x d k t = (case map_of t k of None \<Rightarrow> Inr x | Some v \<Rightarrow> d v)"

text \<open>
  A record is a table, or an array of its fields in order; then only fields with a default may be missing, at the end.  The names
  come with whether the field has one.  Keys that name no field are ignored.
\<close>

definition d_record :: "(rstring \<times> bool) list \<Rightarrow> (table \<Rightarrow> 'a result) \<Rightarrow> 'a decoder" where
  "d_record fs f v =
     (case v of
        TTab t \<Rightarrow> f t
      | TArr xs \<Rightarrow>
          if length xs \<le> length fs \<and> list_all snd (drop (length xs) fs) then f (zip (map fst fs) xs)
          else Inl ParseError
      | _ \<Rightarrow> Inl ParseError)"

text \<open>An enum with an internal tag: the tag, and the rest of the value.\<close>

definition d_tagged :: "(rstring \<Rightarrow> 'a decoder) \<Rightarrow> 'a decoder" where
  "d_tagged f v =
     (case v of
        TTab t \<Rightarrow> and_then (req d_string (str ''type'') t) (\<lambda>ty. f ty (TTab (filter (\<lambda>e. fst e \<noteq> str ''type'') t)))
      | TArr (x # xs) \<Rightarrow> and_then (d_string x) (\<lambda>ty. f ty (TArr xs))
      | _ \<Rightarrow> Inl ParseError)"

section \<open>The records of the configuration\<close>

definition d_socks_user :: "socks_user decoder" where
  "d_socks_user = d_record [(str ''username'', False), (str ''password'', False)] (\<lambda>t.
     and_then (req d_string (str ''username'') t) (\<lambda>u.
     and_then (req d_string (str ''password'') t) (\<lambda>p. Inr \<lparr>username = u, password = p\<rparr>)))"

definition d_socks :: "socks_config decoder" where
  "d_socks = d_record [(str ''listen'', False), (str ''users'', True)] (\<lambda>t.
     and_then (req d_string (str ''listen'') t) (\<lambda>l.
     and_then (dflt [] (one_or_many_opt d_socks_user) (str ''users'') t) (\<lambda>us. Inr \<lparr>sk_listen = l, sk_users = us\<rparr>)))"

definition d_standard_tls :: "standard_tls_config decoder" where
  "d_standard_tls = d_record [(str ''cert_path'', False), (str ''key_path'', False), (str ''self_signed_domain'', False)] (\<lambda>t.
     and_then (opt d_string (str ''cert_path'') t) (\<lambda>c.
     and_then (opt d_string (str ''key_path'') t) (\<lambda>k.
     and_then (opt d_string (str ''self_signed_domain'') t) (\<lambda>d.
       Inr \<lparr>cert_path = c, key_path = k, self_signed_domain = d\<rparr>))))"

text \<open>Readers of the other libraries: durations in nanoseconds, and UUIDs as 16 bytes.\<close>

record config_lib =
  cl_duration :: "rstring \<Rightarrow> nat option"
  cl_uuid :: "rstring \<Rightarrow> bytes option"

definition d_duration :: "config_lib \<Rightarrow> nat decoder" where
  "d_duration L v = and_then (d_string v) (\<lambda>s. case cl_duration L s of None \<Rightarrow> Inl ParseError | Some n \<Rightarrow> Inr n)"

definition d_users :: "config_lib \<Rightarrow> (bytes \<rightharpoonup> rstring) decoder" where
  "d_users L v =
     (case v of
        TTab t \<Rightarrow>
          and_then (traverse (\<lambda>(k, v). case cl_uuid L k of
                      None \<Rightarrow> Inl ParseError
                    | Some u \<Rightarrow> and_then (d_string v) (\<lambda>p. Inr (u, p))) t)
            (\<lambda>es. Inr (fold (\<lambda>(u, p) m. m(u \<mapsto> p)) es Map.empty))
      | _ \<Rightarrow> Inl ParseError)"

definition default_tuic_idle_time :: nat where "default_tuic_idle_time = 30 * 10 ^ 9"
definition default_tuic_auth_timeout :: nat where "default_tuic_auth_timeout = 3 * 10 ^ 9"
definition default_tuic_udp_timeout :: nat where "default_tuic_udp_timeout = 30 * 10 ^ 9"
definition default_tuic_max_udp_packet_size :: nat where "default_tuic_max_udp_packet_size = 65535"

definition d_tuic :: "config_lib \<Rightarrow> tuic_config decoder" where
  "d_tuic L = d_record [(str ''listen'', False), (str ''users'', False), (str ''tls'', False), (str ''max_idle_time'', True),
      (str ''auth_timeout'', True), (str ''udp_timeout'', True), (str ''udp_relay_ipv6'', True), (str ''max_udp_packet_size'', True)] (\<lambda>t.
     and_then (req d_string (str ''listen'') t) (\<lambda>l.
     and_then (req (d_users L) (str ''users'') t) (\<lambda>us.
     and_then (opt d_standard_tls (str ''tls'') t) (\<lambda>tls.
     and_then (dflt default_tuic_idle_time (d_duration L) (str ''max_idle_time'') t) (\<lambda>i.
     and_then (dflt default_tuic_auth_timeout (d_duration L) (str ''auth_timeout'') t) (\<lambda>a.
     and_then (dflt default_tuic_udp_timeout (d_duration L) (str ''udp_timeout'') t) (\<lambda>u.
     and_then (dflt False d_bool (str ''udp_relay_ipv6'') t) (\<lambda>v6.
     and_then (dflt default_tuic_max_udp_packet_size (d_uint (2 ^ 64 - 1)) (str ''max_udp_packet_size'') t) (\<lambda>m.
       Inr \<lparr>tc_listen = l, tc_users = us, tc_tls = tls, tc_max_idle_time = i, tc_auth_timeout = a, tc_udp_timeout = u,
            tc_udp_relay_ipv6 = v6, tc_max_udp_packet_size = m\<rparr>)))))))))"

definition d_hy2_tls :: "hy2_tls_config decoder" where
  "d_hy2_tls = d_record [(str ''cert_path'', False), (str ''key_path'', False), (str ''self_signed_domain'', False)] (\<lambda>t.
     and_then (opt d_string (str ''cert_path'') t) (\<lambda>c.
     and_then (opt d_string (str ''key_path'') t) (\<lambda>k.
     and_then (opt d_string (str ''self_signed_domain'') t) (\<lambda>d.
       Inr \<lparr>h2_cert_path = c, h2_key_path = k, h2_self_signed_domain = d\<rparr>))))"

definition d_auth :: "auth_config decoder" where
  "d_auth = d_tagged (\<lambda>ty v.
     if ty = str ''password'' then
       d_record [(str ''password'', False)] (\<lambda>t. and_then (req d_string (str ''password'') t) (\<lambda>p. Inr (auth_config.Password p))) v
     else if ty = str ''none'' then (case v of TArr (_ # _) \<Rightarrow> Inl ParseError | _ \<Rightarrow> Inr NoAuth)
     else Inl ParseError)"

definition d_bandwidth :: "bandwidth_config decoder" where
  "d_bandwidth = d_record [(str ''up'', False), (str ''down'', False)] (\<lambda>t.
     and_then (opt d_string (str ''up'') t) (\<lambda>u.
     and_then (opt d_string (str ''down'') t) (\<lambda>d. Inr \<lparr>bw_up = u, bw_down = d\<rparr>)))"

definition d_masquerade_proxy :: "masquerade_proxy_config decoder" where
  "d_masquerade_proxy = d_record [(str ''url'', False), (str ''rewrite_host'', True)] (\<lambda>t.
     and_then (req d_string (str ''url'') t) (\<lambda>u.
     and_then (dflt False d_bool (str ''rewrite_host'') t) (\<lambda>r. Inr \<lparr>mp_url = u, mp_rewrite_host = r\<rparr>)))"

definition default_masquerade_type :: rstring where "default_masquerade_type = str ''none''"

definition d_masquerade :: "masquerade_config decoder" where
  "d_masquerade = d_record [(str ''type'', True), (str ''proxy'', False)] (\<lambda>t.
     and_then (dflt default_masquerade_type d_string (str ''type'') t) (\<lambda>ty.
     and_then (opt d_masquerade_proxy (str ''proxy'') t) (\<lambda>p. Inr \<lparr>mq_type = ty, mq_proxy = p\<rparr>)))"

text \<open>The derived defaults of the two records that may be missing as a whole: here the type is the empty text.\<close>

definition default_bandwidth :: bandwidth_config where "default_bandwidth = \<lparr>bw_up = None, bw_down = None\<rparr>"
definition default_masquerade :: masquerade_config where "default_masquerade = \<lparr>mq_type = [], mq_proxy = None\<rparr>"

definition d_hysteria2 :: "hysteria2_config decoder" where
  "d_hysteria2 = d_record [(str ''listen'', False), (str ''tls'', False), (str ''auth'', False), (str ''bandwidth'', True),
      (str ''masquerade'', True)] (\<lambda>t.
     and_then (req d_string (str ''listen'') t) (\<lambda>l.
     and_then (req d_hy2_tls (str ''tls'') t) (\<lambda>tls.
     and_then (req d_auth (str ''auth'') t) (\<lambda>a.
     and_then (dflt default_bandwidth d_bandwidth (str ''bandwidth'') t) (\<lambda>b.
     and_then (dflt default_masquerade d_masquerade (str ''masquerade'') t) (\<lambda>m.
       Inr \<lparr>h2_listen = l, h2_tls = tls, h2_auth = a, h2_bandwidth = b, h2_masquerade = m\<rparr>))))))"

definition default_transport_type :: rstring where "default_transport_type = str ''tcp''"
definition default_ws_path :: rstring where "default_ws_path = str ''/''"
definition default_xhttp_path :: rstring where "default_xhttp_path = str ''/''"

definition d_transport :: "transport_config decoder" where
  "d_transport = d_record [(str ''type'', True), (str ''ws_path'', True), (str ''ws_host'', False), (str ''xhttp_path'', True),
      (str ''xhttp_host'', False)] (\<lambda>t.
     and_then (dflt default_transport_type d_string (str ''type'') t) (\<lambda>ty.
     and_then (dflt default_ws_path d_string (str ''ws_path'') t) (\<lambda>wp.
     and_then (opt d_string (str ''ws_host'') t) (\<lambda>wh.
     and_then (dflt default_xhttp_path d_string (str ''xhttp_path'') t) (\<lambda>xp.
     and_then (opt d_string (str ''xhttp_host'') t) (\<lambda>xh.
       Inr \<lparr>tr_type = ty, ws_path = wp, ws_host = wh, xhttp_path = xp, xhttp_host = xh\<rparr>))))))"

definition d_reality :: "reality_config decoder" where
  "d_reality = d_record [(str ''private_key'', False), (str ''short_ids'', False), (str ''dest'', False), (str ''server_name'', False)] (\<lambda>t.
     and_then (req d_string (str ''private_key'') t) (\<lambda>k.
     and_then (req (d_vec d_string) (str ''short_ids'') t) (\<lambda>ids.
     and_then (req d_string (str ''dest'') t) (\<lambda>d.
     and_then (req d_string (str ''server_name'') t) (\<lambda>n.
       Inr \<lparr>private_key = k, short_ids = ids, dest = d, server_name = n\<rparr>)))))"

text \<open>The variant \<open>Tls\<close> flattens its record, so it is read from a table only.\<close>

definition d_vless_tls :: "vless_tls_config decoder" where
  "d_vless_tls = d_tagged (\<lambda>ty v.
     if ty = str ''tls'' then
       (case v of TTab t \<Rightarrow> and_then (d_standard_tls (TTab t)) (\<lambda>s. Inr (Tls s)) | _ \<Rightarrow> Inl ParseError)
     else if ty = str ''reality'' then and_then (d_reality v) (\<lambda>r. Inr (Reality r))
     else Inl ParseError)"

definition d_vless :: "vless_config decoder" where
  "d_vless = d_record [(str ''listen'', False), (str ''uuid'', False), (str ''transport'', True), (str ''tls'', False)] (\<lambda>t.
     and_then (req d_string (str ''listen'') t) (\<lambda>l.
     and_then (req d_string (str ''uuid'') t) (\<lambda>u.
     and_then (dflt default_transport d_transport (str ''transport'') t) (\<lambda>tr.
     and_then (opt d_vless_tls (str ''tls'') t) (\<lambda>tls.
       Inr \<lparr>vl_listen = l, vl_uuid = u, vl_transport = tr, vl_tls = tls\<rparr>)))))"

definition d_trojan :: "trojan_config decoder" where
  "d_trojan = d_record [(str ''listen'', False), (str ''password'', False), (str ''transport'', True), (str ''tls'', False)] (\<lambda>t.
     and_then (req d_string (str ''listen'') t) (\<lambda>l.
     and_then (req d_string (str ''password'') t) (\<lambda>p.
     and_then (dflt default_transport d_transport (str ''transport'') t) (\<lambda>tr.
     and_then (opt d_standard_tls (str ''tls'') t) (\<lambda>tls.
       Inr \<lparr>tj_listen = l, tj_password = p, tj_transport = tr, tj_tls = tls\<rparr>)))))"

definition d_vmess :: "vmess_config decoder" where
  "d_vmess = d_record [(str ''listen'', False), (str ''uuid'', False), (str ''transport'', True), (str ''tls'', False)] (\<lambda>t.
     and_then (req d_string (str ''listen'') t) (\<lambda>l.
     and_then (req d_string (str ''uuid'') t) (\<lambda>u.
     and_then (dflt default_transport d_transport (str ''transport'') t) (\<lambda>tr.
     and_then (opt d_standard_tls (str ''tls'') t) (\<lambda>tls.
       Inr \<lparr>vm_listen = l, vm_uuid = u, vm_transport = tr, vm_tls = tls\<rparr>)))))"

definition default_ss_cipher :: shadowsocks_cipher where "default_ss_cipher = Blake3Aes256Gcm"

definition d_cipher :: "shadowsocks_cipher decoder" where
  "d_cipher v = and_then (d_string v) (\<lambda>s.
     if s = str ''2022-blake3-aes-128-gcm'' then Inr Blake3Aes128Gcm
     else if s = str ''2022-blake3-aes-256-gcm'' then Inr Blake3Aes256Gcm
     else if s = str ''2022-blake3-chacha20-poly1305'' then Inr Blake3Chacha20Poly1305
     else Inl ParseError)"

definition d_shadowsocks :: "ss_config decoder" where
  "d_shadowsocks = d_record [(str ''listen'', False), (str ''password'', False), (str ''method'', True), (str ''transport'', True),
      (str ''tls'', False)] (\<lambda>t.
     and_then (req d_string (str ''listen'') t) (\<lambda>l.
     and_then (req d_string (str ''password'') t) (\<lambda>p.
     and_then (dflt default_ss_cipher d_cipher (str ''method'') t) (\<lambda>m.
     and_then (dflt default_transport d_transport (str ''transport'') t) (\<lambda>tr.
     and_then (opt d_standard_tls (str ''tls'') t) (\<lambda>tls.
       Inr \<lparr>ss_listen = l, ss_password = p, ss_method = m, ss_transport = tr, ss_tls = tls\<rparr>))))))"

definition d_anytls :: "anytls_config decoder" where
  "d_anytls = d_record [(str ''listen'', False), (str ''password'', False), (str ''tls'', False), (str ''padding_scheme'', False)] (\<lambda>t.
     and_then (req d_string (str ''listen'') t) (\<lambda>l.
     and_then (req d_string (str ''password'') t) (\<lambda>p.
     and_then (req d_standard_tls (str ''tls'') t) (\<lambda>tls.
     and_then (opt d_string (str ''padding_scheme'') t) (\<lambda>s.
       Inr \<lparr>ac_listen = l, ac_password = p, ac_tls = tls, ac_padding_scheme = s\<rparr>)))))"

definition default_wg_mtu :: u16 where "default_wg_mtu = 1420"

definition d_wg_peer :: "wg_peer_config decoder" where
  "d_wg_peer = d_record [(str ''public_key'', False), (str ''pre_shared_key'', False), (str ''allowed_ips'', False),
      (str ''keepalive_interval'', True), (str ''dns'', True)] (\<lambda>t.
     and_then (req d_string (str ''public_key'') t) (\<lambda>k.
     and_then (opt d_string (str ''pre_shared_key'') t) (\<lambda>psk.
     and_then (req (d_vec d_string) (str ''allowed_ips'') t) (\<lambda>ips.
     and_then (opt d_u16 (str ''keepalive_interval'') t) (\<lambda>ka.
     and_then (dflt [] (d_vec d_string) (str ''dns'') t) (\<lambda>dns.
       Inr \<lparr>wp_public_key = k, wp_pre_shared_key = psk, wp_allowed_ips = ips, wp_keepalive_interval = ka, wp_dns = dns\<rparr>))))))"

definition d_wireguard :: "wg_config decoder" where
  "d_wireguard = d_record [(str ''listen'', False), (str ''private_key'', False), (str ''server_address'', True), (str ''mtu'', True),
      (str ''peers'', False)] (\<lambda>t.
     and_then (req d_string (str ''listen'') t) (\<lambda>l.
     and_then (req d_string (str ''private_key'') t) (\<lambda>k.
     and_then (dflt [] (d_vec d_string) (str ''server_address'') t) (\<lambda>as.
     and_then (dflt default_wg_mtu d_u16 (str ''mtu'') t) (\<lambda>mtu.
     and_then (req (one_or_many d_wg_peer) (str ''peers'') t) (\<lambda>ps.
       Inr \<lparr>wc_listen = l, wc_private_key = k, wc_server_address = as, wc_mtu = mtu, wc_peers = ps\<rparr>))))))"

section \<open>Nodes and the file\<close>

definition d_node_inner :: "config_lib \<Rightarrow> ruproxy_node decoder" where
  "d_node_inner L = d_tagged (\<lambda>ty v.
     if ty = str ''hysteria2'' then and_then (d_hysteria2 v) (\<lambda>c. Inr (Hysteria2 c))
     else if ty = str ''vless'' then and_then (d_vless v) (\<lambda>c. Inr (Vless c))
     else if ty = str ''vmess'' then and_then (d_vmess v) (\<lambda>c. Inr (Vmess c))
     else if ty = str ''trojan'' then and_then (d_trojan v) (\<lambda>c. Inr (Trojan c))
     else if ty = str ''shadowsocks'' then and_then (d_shadowsocks v) (\<lambda>c. Inr (Shadowsocks c))
     else if ty = str ''tuic'' then and_then (d_tuic L v) (\<lambda>c. Inr (Tuic c))
     else if ty = str ''wireguard'' then and_then (d_wireguard v) (\<lambda>c. Inr (Wireguard c))
     else if ty = str ''anytls'' then and_then (d_anytls v) (\<lambda>c. Inr (Anytls c))
     else if ty = str ''socks'' then and_then (d_socks v) (\<lambda>c. Inr (Socks c))
     else Inl ParseError)"

text \<open>A node is read from a table only, because it flattens its protocol: what is not the tag of the node goes to the protocol.\<close>

definition d_node :: "config_lib \<Rightarrow> (hysteria2_config, tuic_config, wg_config, anytls_config) node_config decoder" where
  "d_node L v =
     (case v of
        TTab t \<Rightarrow>
          and_then (req d_string (str ''tag'') t) (\<lambda>tg.
          and_then (d_node_inner L (TTab (filter (\<lambda>e. fst e \<noteq> str ''tag'') t))) (\<lambda>i. Inr \<lparr>tag = tg, inner = i\<rparr>))
      | _ \<Rightarrow> Inl ParseError)"

definition default_log_level :: rstring where "default_log_level = str ''info''"

record log_config =
  lg_level :: rstring

definition default_log :: log_config where "default_log = \<lparr>lg_level = default_log_level\<rparr>"

definition d_log :: "log_config decoder" where
  "d_log = d_record [(str ''level'', True)] (\<lambda>t.
     and_then (dflt default_log_level d_string (str ''level'') t) (\<lambda>l. Inr \<lparr>lg_level = l\<rparr>))"

record config =
  cf_log :: log_config
  cf_node :: ruproxy_config

definition d_config :: "config_lib \<Rightarrow> table \<Rightarrow> config result" where
  "d_config L t =
     and_then (dflt default_log d_log (str ''log'') t) (\<lambda>l.
     and_then (dflt [] (one_or_many_opt (d_node L)) (str ''node'') t) (\<lambda>ns. Inr \<lparr>cf_log = l, cf_node = ns\<rparr>))"

definition load :: "(rstring \<Rightarrow> bytes option) \<Rightarrow> (bytes \<Rightarrow> table option) \<Rightarrow> config_lib \<Rightarrow> rstring \<Rightarrow> config result" where
  "load read_file parse_toml L path =
     (case read_file path of
        None \<Rightarrow> Inl (Bail ''cannot read config file'')
      | Some content \<Rightarrow>
          (case parse_toml content of None \<Rightarrow> Inl (Bail ''invalid TOML'') | Some t \<Rightarrow> d_config L t))"

text \<open>What \<open>main\<close> needs of it.\<close>

definition load_nodes ::
  "(rstring \<Rightarrow> bytes option) \<Rightarrow> (bytes \<Rightarrow> table option) \<Rightarrow> config_lib \<Rightarrow> rstring \<Rightarrow> ruproxy_config result" where
  "load_nodes read_file parse_toml L path = and_then (load read_file parse_toml L path) (\<lambda>c. Inr (cf_node c))"

section \<open>One table or many\<close>

text \<open>A single table and the array of that table are the same nodes, peers and users.\<close>

lemma one_or_many_table:
  assumes "\<And>x. d (TArr [TTab t]) \<noteq> Inr x"
  shows "one_or_many d (TTab t) = Inr xs \<longleftrightarrow> one_or_many d (TArr [TTab t]) = Inr xs"
  using assms by (cases "d (TTab t)"; cases "d (TArr [TTab t])") (auto simp: one_or_many_def d_vec_def)

lemma node_not_array: "d_node L (TArr xs) \<noteq> Inr n"
  by (simp add: d_node_def)

lemma wg_peer_not_one: "d_wg_peer (TArr [v]) \<noteq> Inr p"
  by (simp add: d_wg_peer_def d_record_def)

lemma socks_user_not_one: "d_socks_user (TArr [v]) \<noteq> Inr u"
  by (simp add: d_socks_user_def d_record_def)

text \<open>
  A section written once and the array of that one section are read alike, for the nodes of the file, the peers of a WireGuard
  server and the users of a SOCKS5 server: each accepts the one exactly when it accepts the other, with the same records.
\<close>

theorem config_one_or_many:
  "(d_config L ((str ''node'', TTab t) # doc) = Inr c \<longleftrightarrow> d_config L ((str ''node'', TArr [TTab t]) # doc) = Inr c) \<and>
   (d_wireguard (TTab ((str ''peers'', TTab t) # doc)) = Inr w \<longleftrightarrow> d_wireguard (TTab ((str ''peers'', TArr [TTab t]) # doc)) = Inr w) \<and>
   (d_socks (TTab ((str ''users'', TTab t) # doc)) = Inr s \<longleftrightarrow> d_socks (TTab ((str ''users'', TArr [TTab t]) # doc)) = Inr s)"
proof (intro conjI)
  note n = one_or_many_table [where d = "d_node L", OF node_not_array]
  show "d_config L ((str ''node'', TTab t) # doc) = Inr c \<longleftrightarrow> d_config L ((str ''node'', TArr [TTab t]) # doc) = Inr c"
    by (simp add: d_config_def dflt_def one_or_many_opt_def and_then_eq_Inr n)
  note w = one_or_many_table [where d = d_wg_peer, OF wg_peer_not_one]
  show "d_wireguard (TTab ((str ''peers'', TTab t) # doc)) = Inr w \<longleftrightarrow> d_wireguard (TTab ((str ''peers'', TArr [TTab t]) # doc)) = Inr w"
    by (simp add: d_wireguard_def d_record_def req_def dflt_def and_then_eq_Inr w)
  note u = one_or_many_table [where d = d_socks_user, OF socks_user_not_one]
  show "d_socks (TTab ((str ''users'', TTab t) # doc)) = Inr s \<longleftrightarrow> d_socks (TTab ((str ''users'', TArr [TTab t]) # doc)) = Inr s"
    by (simp add: d_socks_def d_record_def req_def dflt_def one_or_many_opt_def and_then_eq_Inr u)
qed

section \<open>Files without nodes\<close>

text \<open>Keys of the file that name no field change nothing.\<close>

lemma map_of_filter_key: "P k \<Longrightarrow> map_of (filter (\<lambda>e. P (fst e)) t) k = map_of t k"
  by (induction t) auto

lemma config_unknown_keys:
  "d_config L (filter (\<lambda>e. fst e \<in> {str ''log'', str ''node''}) t) = d_config L t"
  by (simp del: str_Cons add: d_config_def dflt_def map_of_filter_key [where P = "\<lambda>k. k = str ''log'' \<or> k = str ''node''"])

lemma config_no_node:
  assumes "map_of t (str ''node'') = None" "d_config L t = Inr c"
  shows "cf_node c = []"
  using assms by (auto simp del: str_Cons simp add: d_config_def dflt_def and_then_eq_Inr)

text \<open>
  C9.  A file that parses but has no \<open>node\<close> key does not start the program, whatever sections it has: the protocols' own
  sections are ignored, so the program ends with an error and no listener.
\<close>

theorem config_needs_nodes:
  assumes "arg args 1 \<noteq> Some (str ''generate'')"
    and "read_file (parse_config_arg args) = Some content" "parse_toml content = Some t" "map_of t (str ''node'') = None"
  shows "program P (load_nodes read_file parse_toml L) args = None \<and> (\<exists>e. main (load_nodes read_file parse_toml L) args = Fail e)"
proof (cases "d_config L t")
  case (Inl e)
  with assms show ?thesis by (simp del: str_Cons add: program_def main_def load_nodes_def load_def)
next
  case (Inr c)
  with config_no_node [OF assms(4) Inr] assms show ?thesis
    by (simp del: str_Cons add: program_def main_def load_nodes_def load_def)
qed

text \<open>The sections that the \<open>generate\<close> command prints for a VLESS server with REALITY.\<close>

definition demo_vless_section :: table where
  "demo_vless_section = [(str ''vless'', TArr [TTab [(str ''listen'', TStr (str ''0.0.0.0:443'')), (str ''uuid'', TStr (str ''u'')),
     (str ''tls'', TTab [(str ''type'', TStr (str ''reality'')), (str ''private_key'', TStr (str ''k'')),
       (str ''short_ids'', TArr [TStr (str ''0011'')]), (str ''dest'', TStr (str ''www.microsoft.com:443'')),
       (str ''server_name'', TStr (str ''www.microsoft.com''))])]])]"

definition demo_lib :: config_lib where
  "demo_lib = \<lparr>cl_duration = (\<lambda>_. None), cl_uuid = (\<lambda>_. None)\<rparr>"

theorem config_needs_nodes_witness:
  "program demo_program_env (load_nodes (\<lambda>_. Some []) (\<lambda>_. Some demo_vless_section) demo_lib) [str ''ruproxy''] = None"
proof -
  have a: "arg [str ''ruproxy''] 1 \<noteq> Some (str ''generate'')" by (simp add: arg_def)
  have n: "map_of demo_vless_section (str ''node'') = None" by (simp add: demo_vless_section_def)
  show ?thesis
    using config_needs_nodes [OF a, where read_file = "\<lambda>_. Some []" and parse_toml = "\<lambda>_. Some demo_vless_section"
        and P = demo_program_env and L = demo_lib, OF refl refl n] by (rule conjunct1)
qed

text \<open>The same section under \<open>node\<close>, with a tag and a type, is a VLESS node.\<close>

lemma demo_node_section:
  "d_config demo_lib [(str ''node'', TTab ((str ''tag'', TStr (str ''v'')) # (str ''type'', TStr (str ''vless'')) #
      [(str ''listen'', TStr (str ''0.0.0.0:443'')), (str ''uuid'', TStr (str ''u''))]))]
    = Inr \<lparr>cf_log = default_log, cf_node = [\<lparr>tag = str ''v'', inner = Vless
        \<lparr>vl_listen = str ''0.0.0.0:443'', vl_uuid = str ''u'', vl_transport = default_transport, vl_tls = None\<rparr>\<rparr>]\<rparr>"
  by (simp add: d_config_def dflt_def one_or_many_opt_def one_or_many_def d_vec_def d_node_def req_def opt_def d_string_def d_node_inner_def
      d_tagged_def d_vless_def d_record_def default_transport_def)

end
