(* ===== verification/Config_Write.thy ===== *)
theory Config_Write
  imports Config_File
begin

text \<open>
  The other half of what \<open>config.rs\<close> derives: every record of the configuration is also \<open>Serialize\<close>.  Here are the writers, record by
  record and in the order of the fields, and the proof that the derived readers read back what the derived writers wrote.  The texts
  of durations and UUIDs are the libraries', and so is the order in which a hash map is written.
\<close>

section \<open>A writer and a reader\<close>

text \<open>The interface of a field's type: a value that the type's writer wrote, the type's reader reads.\<close>

locale codec =
  fixes w :: "'a \<Rightarrow> toml" and d :: "'a decoder" and ok :: "'a \<Rightarrow> bool"
  assumes read_back: "ok x \<Longrightarrow> d (w x) = Inr x"
begin

lemma traverse_back: "list_all ok xs \<Longrightarrow> traverse d (map w xs) = Inr xs"
  by (induction xs) (simp_all add: read_back)

lemma vec_back: "list_all ok xs \<Longrightarrow> d_vec d (TArr (map w xs)) = Inr xs"
  by (simp add: d_vec_def traverse_back)

lemma many_back: "list_all ok xs \<Longrightarrow> one_or_many d (TArr (map w xs)) = Inr xs"
  by (simp add: one_or_many_def vec_back)

lemma opt_back:
  "pred_option ok v \<Longrightarrow> (case map_option w v of None \<Rightarrow> Inr None | Some x \<Rightarrow> and_then (d x) (\<lambda>x. Inr (Some x))) = Inr v"
  by (cases v) (simp_all add: read_back)

end

text \<open>The types that are written as tables: there one value is read like the array of that one.\<close>

locale table_codec = codec +
  fixes tab :: "'a \<Rightarrow> table"
  assumes written: "w x = TTab (tab x)"
begin

lemma one_back: "ok x \<Longrightarrow> one_or_many d (w x) = Inr [x]"
  using read_back [of x] by (simp add: one_or_many_def d_vec_def written)

end

section \<open>The writers\<close>

text \<open>An absent option is left out of the table.\<close>

definition w_opt :: "rstring \<Rightarrow> ('a \<Rightarrow> toml) \<Rightarrow> 'a option \<Rightarrow> table" where
  "w_opt k w v = (case v of None \<Rightarrow> [] | Some x \<Rightarrow> [(k, w x)])"

definition w_vec :: "('a \<Rightarrow> toml) \<Rightarrow> 'a list \<Rightarrow> toml" where
  "w_vec w xs = TArr (map w xs)"

definition w_uint :: "nat \<Rightarrow> toml" where
  "w_uint n = TInt (int n)"

definition w_u16 :: "u16 \<Rightarrow> toml" where
  "w_u16 x = w_uint (unat x)"

definition t_socks_user :: "socks_user \<Rightarrow> table" where
  "t_socks_user c =
     [(str ''username'', TStr (username c)), (str ''password'', TStr (password c))]"

definition w_socks_user :: "socks_user \<Rightarrow> toml" where
  "w_socks_user c = TTab (t_socks_user c)"

definition t_socks :: "socks_config \<Rightarrow> table" where
  "t_socks c =
     [(str ''listen'', TStr (sk_listen c)), (str ''users'', w_vec w_socks_user (sk_users c))]"

definition w_socks :: "socks_config \<Rightarrow> toml" where
  "w_socks c = TTab (t_socks c)"

definition t_standard_tls :: "standard_tls_config \<Rightarrow> table" where
  "t_standard_tls c =
     w_opt (str ''cert_path'') TStr (cert_path c) @
     w_opt (str ''key_path'') TStr (key_path c) @
     w_opt (str ''self_signed_domain'') TStr (self_signed_domain c)"

definition w_standard_tls :: "standard_tls_config \<Rightarrow> toml" where
  "w_standard_tls c = TTab (t_standard_tls c)"

text \<open>The writers of the other libraries, and the order of a map's entries.\<close>

record write_lib =
  wr_duration :: "nat \<Rightarrow> rstring"
  wr_uuid :: "bytes \<Rightarrow> rstring"
  wr_entries :: "(bytes \<rightharpoonup> rstring) \<Rightarrow> (bytes \<times> rstring) list"

definition w_duration :: "write_lib \<Rightarrow> nat \<Rightarrow> toml" where
  "w_duration W n = TStr (wr_duration W n)"

definition w_users :: "write_lib \<Rightarrow> (bytes \<rightharpoonup> rstring) \<Rightarrow> toml" where
  "w_users W m = TTab (map (\<lambda>(u, p). (wr_uuid W u, TStr p)) (wr_entries W m))"

definition t_tuic :: "write_lib \<Rightarrow> tuic_config \<Rightarrow> table" where
  "t_tuic W c =
     [(str ''listen'', TStr (tc_listen c)), (str ''users'', w_users W (tc_users c))] @
     w_opt (str ''tls'') w_standard_tls (tc_tls c) @
     [(str ''max_idle_time'', w_duration W (tc_max_idle_time c)),
      (str ''auth_timeout'', w_duration W (tc_auth_timeout c)),
      (str ''udp_timeout'', w_duration W (tc_udp_timeout c)),
      (str ''udp_relay_ipv6'', TBool (tc_udp_relay_ipv6 c)),
      (str ''max_udp_packet_size'', w_uint (tc_max_udp_packet_size c))]"

definition w_tuic :: "write_lib \<Rightarrow> tuic_config \<Rightarrow> toml" where
  "w_tuic W c = TTab (t_tuic W c)"

definition t_hy2_tls :: "hy2_tls_config \<Rightarrow> table" where
  "t_hy2_tls c =
     w_opt (str ''cert_path'') TStr (h2_cert_path c) @
     w_opt (str ''key_path'') TStr (h2_key_path c) @
     w_opt (str ''self_signed_domain'') TStr (h2_self_signed_domain c)"

definition w_hy2_tls :: "hy2_tls_config \<Rightarrow> toml" where
  "w_hy2_tls c = TTab (t_hy2_tls c)"

text \<open>An enum with an internal tag writes the tag before the fields of the variant.\<close>

definition t_auth :: "auth_config \<Rightarrow> table" where
  "t_auth a = (case a of
       auth_config.Password p \<Rightarrow> [(str ''type'', TStr (str ''password'')), (str ''password'', TStr p)]
     | NoAuth \<Rightarrow> [(str ''type'', TStr (str ''none''))])"

definition w_auth :: "auth_config \<Rightarrow> toml" where
  "w_auth a = TTab (t_auth a)"

definition t_bandwidth :: "bandwidth_config \<Rightarrow> table" where
  "t_bandwidth c =
     w_opt (str ''up'') TStr (bw_up c) @
     w_opt (str ''down'') TStr (bw_down c)"

definition w_bandwidth :: "bandwidth_config \<Rightarrow> toml" where
  "w_bandwidth c = TTab (t_bandwidth c)"

definition t_masquerade_proxy :: "masquerade_proxy_config \<Rightarrow> table" where
  "t_masquerade_proxy c =
     [(str ''url'', TStr (mp_url c)), (str ''rewrite_host'', TBool (mp_rewrite_host c))]"

definition w_masquerade_proxy :: "masquerade_proxy_config \<Rightarrow> toml" where
  "w_masquerade_proxy c = TTab (t_masquerade_proxy c)"

definition t_masquerade :: "masquerade_config \<Rightarrow> table" where
  "t_masquerade c =
     [(str ''type'', TStr (mq_type c))] @
     w_opt (str ''proxy'') w_masquerade_proxy (mq_proxy c)"

definition w_masquerade :: "masquerade_config \<Rightarrow> toml" where
  "w_masquerade c = TTab (t_masquerade c)"

definition t_hysteria2 :: "hysteria2_config \<Rightarrow> table" where
  "t_hysteria2 c =
     [(str ''listen'', TStr (h2_listen c)), (str ''tls'', w_hy2_tls (h2_tls c)),
      (str ''auth'', w_auth (h2_auth c)), (str ''bandwidth'', w_bandwidth (h2_bandwidth c)),
      (str ''masquerade'', w_masquerade (h2_masquerade c))]"

definition w_hysteria2 :: "hysteria2_config \<Rightarrow> toml" where
  "w_hysteria2 c = TTab (t_hysteria2 c)"

definition t_transport :: "transport_config \<Rightarrow> table" where
  "t_transport c =
     [(str ''type'', TStr (tr_type c)), (str ''ws_path'', TStr (ws_path c))] @
     w_opt (str ''ws_host'') TStr (ws_host c) @
     [(str ''xhttp_path'', TStr (xhttp_path c))] @
     w_opt (str ''xhttp_host'') TStr (xhttp_host c)"

definition w_transport :: "transport_config \<Rightarrow> toml" where
  "w_transport c = TTab (t_transport c)"

definition t_reality :: "reality_config \<Rightarrow> table" where
  "t_reality c =
     [(str ''private_key'', TStr (private_key c)), (str ''short_ids'', w_vec TStr (short_ids c)),
      (str ''dest'', TStr (dest c)), (str ''server_name'', TStr (server_name c))]"

definition w_reality :: "reality_config \<Rightarrow> toml" where
  "w_reality c = TTab (t_reality c)"

definition t_vless_tls :: "vless_tls_config \<Rightarrow> table" where
  "t_vless_tls c = (case c of
       Tls s \<Rightarrow> (str ''type'', TStr (str ''tls'')) # t_standard_tls s
     | Reality r \<Rightarrow> (str ''type'', TStr (str ''reality'')) # t_reality r)"

definition w_vless_tls :: "vless_tls_config \<Rightarrow> toml" where
  "w_vless_tls c = TTab (t_vless_tls c)"

definition t_vless :: "vless_config \<Rightarrow> table" where
  "t_vless c =
     [(str ''listen'', TStr (vl_listen c)), (str ''uuid'', TStr (vl_uuid c)),
      (str ''transport'', w_transport (vl_transport c))] @
     w_opt (str ''tls'') w_vless_tls (vl_tls c)"

definition w_vless :: "vless_config \<Rightarrow> toml" where
  "w_vless c = TTab (t_vless c)"

definition t_trojan :: "trojan_config \<Rightarrow> table" where
  "t_trojan c =
     [(str ''listen'', TStr (tj_listen c)), (str ''password'', TStr (tj_password c)),
      (str ''transport'', w_transport (tj_transport c))] @
     w_opt (str ''tls'') w_standard_tls (tj_tls c)"

definition w_trojan :: "trojan_config \<Rightarrow> toml" where
  "w_trojan c = TTab (t_trojan c)"

definition t_vmess :: "vmess_config \<Rightarrow> table" where
  "t_vmess c =
     [(str ''listen'', TStr (vm_listen c)), (str ''uuid'', TStr (vm_uuid c)),
      (str ''transport'', w_transport (vm_transport c))] @
     w_opt (str ''tls'') w_standard_tls (vm_tls c)"

definition w_vmess :: "vmess_config \<Rightarrow> toml" where
  "w_vmess c = TTab (t_vmess c)"

definition w_cipher :: "shadowsocks_cipher \<Rightarrow> toml" where
  "w_cipher c = TStr (case c of
       Blake3Aes128Gcm \<Rightarrow> str ''2022-blake3-aes-128-gcm''
     | Blake3Aes256Gcm \<Rightarrow> str ''2022-blake3-aes-256-gcm''
     | Blake3Chacha20Poly1305 \<Rightarrow> str ''2022-blake3-chacha20-poly1305'')"

definition t_shadowsocks :: "ss_config \<Rightarrow> table" where
  "t_shadowsocks c =
     [(str ''listen'', TStr (ss_listen c)), (str ''password'', TStr (ss_password c)),
      (str ''method'', w_cipher (ss_method c)), (str ''transport'', w_transport (ss_transport c))] @
     w_opt (str ''tls'') w_standard_tls (ss_tls c)"

definition w_shadowsocks :: "ss_config \<Rightarrow> toml" where
  "w_shadowsocks c = TTab (t_shadowsocks c)"

definition t_anytls :: "anytls_config \<Rightarrow> table" where
  "t_anytls c =
     [(str ''listen'', TStr (ac_listen c)), (str ''password'', TStr (ac_password c)),
      (str ''tls'', w_standard_tls (ac_tls c))] @
     w_opt (str ''padding_scheme'') TStr (ac_padding_scheme c)"

definition w_anytls :: "anytls_config \<Rightarrow> toml" where
  "w_anytls c = TTab (t_anytls c)"

definition t_wg_peer :: "wg_peer_config \<Rightarrow> table" where
  "t_wg_peer c =
     [(str ''public_key'', TStr (wp_public_key c))] @
     w_opt (str ''pre_shared_key'') TStr (wp_pre_shared_key c) @
     [(str ''allowed_ips'', w_vec TStr (wp_allowed_ips c))] @
     w_opt (str ''keepalive_interval'') w_u16 (wp_keepalive_interval c) @
     [(str ''dns'', w_vec TStr (wp_dns c))]"

definition w_wg_peer :: "wg_peer_config \<Rightarrow> toml" where
  "w_wg_peer c = TTab (t_wg_peer c)"

definition t_wireguard :: "wg_config \<Rightarrow> table" where
  "t_wireguard c =
     [(str ''listen'', TStr (wc_listen c)), (str ''private_key'', TStr (wc_private_key c)),
      (str ''server_address'', w_vec TStr (wc_server_address c)), (str ''mtu'', w_u16 (wc_mtu c)),
      (str ''peers'', w_vec w_wg_peer (wc_peers c))]"

definition w_wireguard :: "wg_config \<Rightarrow> toml" where
  "w_wireguard c = TTab (t_wireguard c)"

section \<open>Nodes and the file\<close>

definition t_node_inner :: "write_lib \<Rightarrow> ruproxy_node \<Rightarrow> table" where
  "t_node_inner W n = (case n of
       Hysteria2 c \<Rightarrow> (str ''type'', TStr (str ''hysteria2'')) # t_hysteria2 c
     | Vless c \<Rightarrow> (str ''type'', TStr (str ''vless'')) # t_vless c
     | Vmess c \<Rightarrow> (str ''type'', TStr (str ''vmess'')) # t_vmess c
     | Trojan c \<Rightarrow> (str ''type'', TStr (str ''trojan'')) # t_trojan c
     | Shadowsocks c \<Rightarrow> (str ''type'', TStr (str ''shadowsocks'')) # t_shadowsocks c
     | Tuic c \<Rightarrow> (str ''type'', TStr (str ''tuic'')) # t_tuic W c
     | Wireguard c \<Rightarrow> (str ''type'', TStr (str ''wireguard'')) # t_wireguard c
     | Anytls c \<Rightarrow> (str ''type'', TStr (str ''anytls'')) # t_anytls c
     | Socks c \<Rightarrow> (str ''type'', TStr (str ''socks'')) # t_socks c)"

definition t_node :: "write_lib \<Rightarrow> (hysteria2_config, tuic_config, wg_config, anytls_config) node_config \<Rightarrow> table" where
  "t_node W n = (str ''tag'', TStr (tag n)) # t_node_inner W (inner n)"

definition w_node :: "write_lib \<Rightarrow> (hysteria2_config, tuic_config, wg_config, anytls_config) node_config \<Rightarrow> toml" where
  "w_node W n = TTab (t_node W n)"

definition w_log :: "log_config \<Rightarrow> toml" where
  "w_log c = TTab [(str ''level'', TStr (lg_level c))]"

definition t_config :: "write_lib \<Rightarrow> config \<Rightarrow> table" where
  "t_config W c = [(str ''log'', w_log (cf_log c)), (str ''node'', w_vec (w_node W) (cf_node c))]"

section \<open>What is written is read back\<close>

lemma unat_of_char: "unat (of_char c :: 8 word) = of_char c"
proof -
  have "unat (of_nat (of_char c) :: 8 word) = of_char c mod 256" by (simp only: unat_of_nat) simp
  then show ?thesis by (simp only: of_nat_of_char of_char_mod_256)
qed

lemma str_inject [simp]: "str a = str b \<longleftrightarrow> a = b"
proof -
  have "inj (of_char :: char \<Rightarrow> 8 word)"
    by (rule injI) (metis unat_of_char of_char_eq_iff)
  then show ?thesis by (simp add: str_def inj_eq)
qed

text \<open>Looking up a key in a written table.\<close>

definition orelse :: "'a option \<Rightarrow> 'a option \<Rightarrow> 'a option" where
  "orelse x y = (case x of None \<Rightarrow> y | Some v \<Rightarrow> Some v)"

lemma orelse_simps: "orelse None y = y" "orelse x None = x" "orelse (Some v) y = Some v"
  by (simp_all add: orelse_def split: option.split)

lemma map_add_lookup: "(m ++ n) k = orelse (n k) (m k)"
  by (simp add: map_add_def orelse_def)

lemma map_of_w_opt: "map_of (w_opt k w v) k' = (if k' = k then map_option w v else None)"
  by (cases v) (auto simp: w_opt_def)

lemma filter_w_opt: "filter (\<lambda>e. fst e \<noteq> k') (w_opt k w v) = (if k' = k then [] else w_opt k w v)"
  by (cases v) (auto simp: w_opt_def)

declare option.pred_True [simp]

lemmas written_lookup = map_add_lookup map_of_w_opt orelse_simps

lemmas field_lookup = d_record_def req_def opt_def dflt_def written_lookup

interpretation plain: codec TStr d_string "\<lambda>_. True"
  by unfold_locales (simp add: d_string_def)

interpretation flag: codec TBool d_bool "\<lambda>_. True"
  by unfold_locales (simp add: d_bool_def)

interpretation number: codec w_uint "d_uint hi" "\<lambda>n. n \<le> hi" for hi
  by unfold_locales (simp add: w_uint_def d_uint_def)

interpretation short: codec w_u16 d_u16 "\<lambda>_. True"
proof
  fix x :: u16
  have "unat x < 2 ^ 16" using unsigned_less [where w = x] by simp
  then have "unat x \<le> 65535" by simp
  then show "d_u16 (w_u16 x) = Inr x" by (simp add: d_u16_def w_u16_def number.read_back)
qed

interpretation plain_vec: codec "w_vec TStr" "d_vec d_string" "\<lambda>_. True"
  by unfold_locales (simp add: w_vec_def plain.vec_back list_all_iff)

interpretation socks_user: table_codec w_socks_user d_socks_user "\<lambda>_. True" t_socks_user
  by unfold_locales (simp_all del: str_Cons case_map_option add: w_socks_user_def t_socks_user_def d_socks_user_def field_lookup plain.read_back)

interpretation standard_tls: table_codec w_standard_tls d_standard_tls "\<lambda>_. True" t_standard_tls
  by unfold_locales
    (simp_all del: str_Cons case_map_option add: w_standard_tls_def t_standard_tls_def d_standard_tls_def field_lookup plain.opt_back)

interpretation hy2_tls: table_codec w_hy2_tls d_hy2_tls "\<lambda>_. True" t_hy2_tls
  by unfold_locales (simp_all del: str_Cons case_map_option add: w_hy2_tls_def t_hy2_tls_def d_hy2_tls_def field_lookup plain.opt_back)

interpretation auth: table_codec w_auth d_auth "\<lambda>_. True" t_auth
  by unfold_locales
    (simp_all del: str_Cons case_map_option add: w_auth_def t_auth_def d_auth_def d_tagged_def field_lookup plain.read_back split: auth_config.split)

interpretation bandwidth: table_codec w_bandwidth d_bandwidth "\<lambda>_. True" t_bandwidth
  by unfold_locales (simp_all del: str_Cons case_map_option add: w_bandwidth_def t_bandwidth_def d_bandwidth_def field_lookup plain.opt_back)

interpretation masquerade_proxy: table_codec w_masquerade_proxy d_masquerade_proxy "\<lambda>_. True" t_masquerade_proxy
  by unfold_locales (simp_all del: str_Cons case_map_option add: w_masquerade_proxy_def t_masquerade_proxy_def d_masquerade_proxy_def
      field_lookup plain.read_back flag.read_back)

interpretation masquerade: table_codec w_masquerade d_masquerade "\<lambda>_. True" t_masquerade
  by unfold_locales (simp_all del: str_Cons case_map_option add: w_masquerade_def t_masquerade_def d_masquerade_def
      field_lookup plain.read_back masquerade_proxy.opt_back)

interpretation hysteria2: table_codec w_hysteria2 d_hysteria2 "\<lambda>_. True" t_hysteria2
  by unfold_locales (simp_all del: str_Cons case_map_option add: w_hysteria2_def t_hysteria2_def d_hysteria2_def
      field_lookup plain.read_back hy2_tls.read_back auth.read_back bandwidth.read_back masquerade.read_back)

interpretation transport: table_codec w_transport d_transport "\<lambda>_. True" t_transport
  by unfold_locales (simp_all del: str_Cons case_map_option add: w_transport_def t_transport_def d_transport_def
      field_lookup plain.read_back plain.opt_back)

interpretation reality: table_codec w_reality d_reality "\<lambda>_. True" t_reality
  by unfold_locales (simp_all del: str_Cons case_map_option add: w_reality_def t_reality_def d_reality_def
      field_lookup plain.read_back plain_vec.read_back)

interpretation vless_tls: table_codec w_vless_tls d_vless_tls "\<lambda>_. True" t_vless_tls
  by unfold_locales (simp_all del: str_Cons case_map_option add: w_vless_tls_def t_vless_tls_def d_vless_tls_def d_tagged_def
     t_standard_tls_def d_standard_tls_def t_reality_def d_reality_def filter_w_opt
      field_lookup plain.read_back plain.opt_back plain_vec.read_back split: vless_tls_config.split)

interpretation vless: table_codec w_vless d_vless "\<lambda>_. True" t_vless
  by unfold_locales (simp_all del: str_Cons case_map_option add: w_vless_def t_vless_def d_vless_def
      field_lookup plain.read_back transport.read_back vless_tls.opt_back)

interpretation trojan: table_codec w_trojan d_trojan "\<lambda>_. True" t_trojan
  by unfold_locales (simp_all del: str_Cons case_map_option add: w_trojan_def t_trojan_def d_trojan_def
      field_lookup plain.read_back transport.read_back standard_tls.opt_back)

interpretation vmess: table_codec w_vmess d_vmess "\<lambda>_. True" t_vmess
  by unfold_locales (simp_all del: str_Cons case_map_option add: w_vmess_def t_vmess_def d_vmess_def
      field_lookup plain.read_back transport.read_back standard_tls.opt_back)

interpretation cipher: codec w_cipher d_cipher "\<lambda>_. True"
  by unfold_locales (simp del: str_Cons add: w_cipher_def d_cipher_def plain.read_back split: shadowsocks_cipher.split)

interpretation shadowsocks: table_codec w_shadowsocks d_shadowsocks "\<lambda>_. True" t_shadowsocks
  by unfold_locales (simp_all del: str_Cons case_map_option add: w_shadowsocks_def t_shadowsocks_def d_shadowsocks_def
      field_lookup plain.read_back cipher.read_back transport.read_back standard_tls.opt_back)

interpretation anytls: table_codec w_anytls d_anytls "\<lambda>_. True" t_anytls
  by unfold_locales (simp_all del: str_Cons case_map_option add: w_anytls_def t_anytls_def d_anytls_def
      field_lookup plain.read_back plain.opt_back standard_tls.read_back)

interpretation wg_peer: table_codec w_wg_peer d_wg_peer "\<lambda>_. True" t_wg_peer
  by unfold_locales (simp_all del: str_Cons case_map_option add: w_wg_peer_def t_wg_peer_def d_wg_peer_def
      field_lookup plain.read_back plain.opt_back plain_vec.read_back short.opt_back)

interpretation wg_peers: codec "w_vec w_wg_peer" "one_or_many d_wg_peer" "\<lambda>_. True"
  by unfold_locales (simp add: w_vec_def wg_peer.many_back list_all_iff)

interpretation wireguard: table_codec w_wireguard d_wireguard "\<lambda>_. True" t_wireguard
  by unfold_locales (simp_all del: str_Cons case_map_option add: w_wireguard_def t_wireguard_def d_wireguard_def
      field_lookup plain.read_back plain_vec.read_back short.read_back wg_peers.read_back)

interpretation socks_users: codec "w_vec w_socks_user" "one_or_many_opt d_socks_user" "\<lambda>_. True"
  by unfold_locales (simp add: w_vec_def one_or_many_opt_def socks_user.many_back list_all_iff)

interpretation socks: table_codec w_socks d_socks "\<lambda>_. True" t_socks
  by unfold_locales (simp_all del: str_Cons case_map_option add: w_socks_def t_socks_def d_socks_def
      field_lookup plain.read_back socks_users.read_back)

interpretation log: table_codec w_log d_log "\<lambda>_. True" "\<lambda>c. [(str ''level'', TStr (lg_level c))]"
  by unfold_locales (simp_all del: str_Cons add: w_log_def d_log_def field_lookup plain.read_back)

section \<open>The whole file\<close>

text \<open>
  What the readers of the other libraries promise of the writers, for the values of a configuration: a duration and a UUID are read
  back, and the entries of a map are its graph, each key once.
\<close>

definition tuic_writable :: "config_lib \<Rightarrow> write_lib \<Rightarrow> tuic_config \<Rightarrow> bool" where
  "tuic_writable L W c \<longleftrightarrow>
     list_all (\<lambda>n. cl_duration L (wr_duration W n) = Some n) [tc_max_idle_time c, tc_auth_timeout c, tc_udp_timeout c] \<and>
     list_all (\<lambda>(u, p). cl_uuid L (wr_uuid W u) = Some u) (wr_entries W (tc_users c)) \<and>
     distinct (map fst (wr_entries W (tc_users c))) \<and> map_of (wr_entries W (tc_users c)) = tc_users c \<and>
     tc_max_udp_packet_size c \<le> 2 ^ 63 - 1"

definition node_writable :: "config_lib \<Rightarrow> write_lib \<Rightarrow> (hysteria2_config, tuic_config, wg_config, anytls_config) node_config \<Rightarrow> bool" where
  "node_writable L W n = (case inner n of Tuic c \<Rightarrow> tuic_writable L W c | _ \<Rightarrow> True)"

lemma users_fold:
  "distinct (map fst es) \<Longrightarrow> fold (\<lambda>(u, p) m. m(u \<mapsto> p)) es m = m ++ map_of es"
proof (induction es arbitrary: m)
  case (Cons e es)
  obtain u p where e: "e = (u, p)" by force
  with Cons.prems have "u \<notin> dom (map_of es)" by (simp add: dom_map_of_conv_image_fst)
  then have m: "m(u \<mapsto> p) ++ map_of es = m ++ map_of (e # es)" by (simp add: map_add_upd_left e)
  have "fold (\<lambda>(u, p) m. m(u \<mapsto> p)) (e # es) m = fold (\<lambda>(u, p) m. m(u \<mapsto> p)) es (m(u \<mapsto> p))"
    by (simp only: fold_simps e prod.case)
  also from Cons.prems have "\<dots> = m(u \<mapsto> p) ++ map_of es" by (intro Cons.IH) simp
  finally show ?case by (simp only: m)
qed simp

lemma users_back:
  assumes "list_all (\<lambda>(u, p). cl_uuid L (wr_uuid W u) = Some u) (wr_entries W m)"
    and "distinct (map fst (wr_entries W m))" "map_of (wr_entries W m) = m"
  shows "d_users L (w_users W m) = Inr m"
proof -
  have "traverse (\<lambda>(k, v). case cl_uuid L k of None \<Rightarrow> Inl ParseError | Some u \<Rightarrow> and_then (d_string v) (\<lambda>p. Inr (u, p)))
      (map (\<lambda>(u, p). (wr_uuid W u, TStr p)) es) = Inr es"
    if "list_all (\<lambda>(u, p). cl_uuid L (wr_uuid W u) = Some u) es" for es
    using that by (induction es) (auto simp: plain.read_back)
  with assms show ?thesis by (simp add: d_users_def w_users_def users_fold)
qed

lemma duration_back: "cl_duration L (wr_duration W n) = Some n \<Longrightarrow> d_duration L (w_duration W n) = Inr n"
  by (simp add: d_duration_def w_duration_def plain.read_back)

interpretation tuic: table_codec "w_tuic W" "d_tuic L" "tuic_writable L W" "t_tuic W" for L W
proof
  fix c :: tuic_config
  assume c: "tuic_writable L W c"
  then have n: "tc_max_udp_packet_size c \<le> 2 ^ 64 - 1" by (simp add: tuic_writable_def)
  from c have t: "d_duration L (w_duration W (tc_max_idle_time c)) = Inr (tc_max_idle_time c)"
    "d_duration L (w_duration W (tc_auth_timeout c)) = Inr (tc_auth_timeout c)"
    "d_duration L (w_duration W (tc_udp_timeout c)) = Inr (tc_udp_timeout c)"
    by (simp_all add: tuic_writable_def duration_back)
  from c have u: "d_users L (w_users W (tc_users c)) = Inr (tc_users c)"
    by (intro users_back) (simp_all add: tuic_writable_def)
  show "d_tuic L (w_tuic W c) = Inr c"
    by (simp del: str_Cons case_map_option add: w_tuic_def t_tuic_def d_tuic_def field_lookup plain.read_back
        flag.read_back number.read_back [OF n, simplified] t u standard_tls.opt_back)
qed (simp add: w_tuic_def)

text \<open>A node: the tag of the protocol and the tag of the node are no fields of any protocol.\<close>

lemma tag_free:
  "filter (\<lambda>e. fst e \<noteq> str ''tag'') (t_node_inner W n) = t_node_inner W n"
  by (cases n) (simp_all del: str_Cons add: t_node_inner_def t_hysteria2_def t_vless_def t_vmess_def t_trojan_def
      t_shadowsocks_def t_tuic_def t_wireguard_def t_anytls_def t_socks_def filter_w_opt)

lemma type_free:
  "filter (\<lambda>e. fst e \<noteq> str ''type'') (t_hysteria2 a) = t_hysteria2 a"
  "filter (\<lambda>e. fst e \<noteq> str ''type'') (t_vless b) = t_vless b"
  "filter (\<lambda>e. fst e \<noteq> str ''type'') (t_vmess c) = t_vmess c"
  "filter (\<lambda>e. fst e \<noteq> str ''type'') (t_trojan d) = t_trojan d"
  "filter (\<lambda>e. fst e \<noteq> str ''type'') (t_shadowsocks e) = t_shadowsocks e"
  "filter (\<lambda>e. fst e \<noteq> str ''type'') (t_tuic W f) = t_tuic W f"
  "filter (\<lambda>e. fst e \<noteq> str ''type'') (t_wireguard g) = t_wireguard g"
  "filter (\<lambda>e. fst e \<noteq> str ''type'') (t_anytls h) = t_anytls h"
  "filter (\<lambda>e. fst e \<noteq> str ''type'') (t_socks i) = t_socks i"
  by (simp_all del: str_Cons add: t_hysteria2_def t_vless_def t_vmess_def t_trojan_def
      t_shadowsocks_def t_tuic_def t_wireguard_def t_anytls_def t_socks_def filter_w_opt)

interpretation node: table_codec "w_node W" "d_node L" "node_writable L W" "t_node W" for L W
proof
  fix n :: "(hysteria2_config, tuic_config, wg_config, anytls_config) node_config"
  assume n: "node_writable L W n"
  have "d_node_inner L (TTab (t_node_inner W (inner n))) = Inr (inner n)"
  proof (cases "inner n")
    case (Tuic c)
    with n have "tuic_writable L W c" by (simp add: node_writable_def)
    with Tuic show ?thesis
      by (simp del: str_Cons add: d_node_inner_def t_node_inner_def d_tagged_def req_def plain.read_back type_free
          tuic.read_back [unfolded tuic.written])
  qed (simp_all del: str_Cons add: d_node_inner_def t_node_inner_def d_tagged_def req_def plain.read_back type_free
      hysteria2.read_back [unfolded hysteria2.written] vless.read_back [unfolded vless.written]
      vmess.read_back [unfolded vmess.written] trojan.read_back [unfolded trojan.written]
      shadowsocks.read_back [unfolded shadowsocks.written] wireguard.read_back [unfolded wireguard.written]
      anytls.read_back [unfolded anytls.written] socks.read_back [unfolded socks.written])
  then show "d_node L (w_node W n) = Inr n"
    by (simp del: str_Cons add: d_node_def w_node_def t_node_def req_def plain.read_back tag_free)
qed (simp add: w_node_def)

lemma config_back:
  assumes "list_all (node_writable L W) (cf_node c)"
  shows "d_config L (t_config W c) = Inr c"
  using node.many_back [OF assms]
  by (simp del: str_Cons add: d_config_def t_config_def dflt_def log.read_back one_or_many_opt_def w_vec_def)

text \<open>
  C8.  The configuration round-trips, and what was written starts: what the derived \<open>Serialize\<close> writes of a configuration, every
  protocol and every option included, the derived \<open>Deserialize\<close> reads back as the same configuration, provided that the readers of
  durations and UUIDs read what their writers wrote; and the program that loads a file of that text starts one task for each node,
  with that node's own settings, when there are nodes and their tags differ.
\<close>

theorem config_roundtrip:
  assumes "list_all (node_writable L W) (cf_node c)" "cf_node c \<noteq> []" "distinct (map tag (cf_node c))"
    and "arg args 1 \<noteq> Some (str ''generate'')" "read_file (parse_config_arg args) = Some content"
    and "parse_toml content = Some (t_config W c)"
  shows "load read_file parse_toml L (parse_config_arg args) = Inr c \<and>
    program P (load_nodes read_file parse_toml L) args = Some (map (\<lambda>n. (tag n, run_node P (inner n))) (cf_node c))"
proof -
  have "check_duplicate_tags (cf_node c) = None" by (simp add: check_duplicate_None assms(3))
  with config_back [OF assms(1)] assms(2-) show ?thesis
    by (simp del: str_Cons add: program_def main_def load_nodes_def load_def split_def)
qed

text \<open>A node of each kind of field: texts, a flag, numbers, a map, options, a list of records, an enum with a tag.\<close>

definition demo_user :: bytes where "demo_user = replicate 16 7"

definition demo_write_config :: config where
  "demo_write_config = \<lparr>cf_log = default_log, cf_node =
     [\<lparr>tag = str ''s'', inner = Socks \<lparr>sk_listen = str '':1080'', sk_users = [\<lparr>username = str ''u'', password = str ''p''\<rparr>]\<rparr>\<rparr>,
      \<lparr>tag = str ''t'', inner = Tuic \<lparr>tc_listen = str '':443'', tc_users = [demo_user \<mapsto> str ''pw''], tc_tls = None,
         tc_max_idle_time = 30, tc_auth_timeout = 3, tc_udp_timeout = 30, tc_udp_relay_ipv6 = True,
         tc_max_udp_packet_size = 1500\<rparr>\<rparr>]\<rparr>"

definition demo_read_lib :: config_lib where
  "demo_read_lib = \<lparr>cl_duration = (\<lambda>s. Some (length s)), cl_uuid = (\<lambda>s. Some s)\<rparr>"

definition demo_write_lib :: write_lib where
  "demo_write_lib = \<lparr>wr_duration = (\<lambda>n. replicate n 48), wr_uuid = (\<lambda>u. u), wr_entries = (\<lambda>_. [(demo_user, str ''pw'')])\<rparr>"

lemma demo_writable: "list_all (node_writable demo_read_lib demo_write_lib) (cf_node demo_write_config)"
  by (simp del: str_Cons add: demo_write_config_def node_writable_def tuic_writable_def demo_read_lib_def demo_write_lib_def)

theorem config_roundtrip_witness:
  "load (\<lambda>_. Some []) (\<lambda>_. Some (t_config demo_write_lib demo_write_config)) demo_read_lib (str ''config.toml'') = Inr demo_write_config"
proof -
  have a: "arg [str ''ruproxy''] 1 \<noteq> Some (str ''generate'')" by (simp add: arg_def)
  have p: "parse_config_arg [str ''ruproxy''] = str ''config.toml''"
    by (simp del: str_Cons add: parse_config_arg_def config_arg_loop.simps)
  have n: "cf_node demo_write_config \<noteq> []" "distinct (map tag (cf_node demo_write_config))"
    by (simp_all del: str_Cons add: demo_write_config_def)
  from config_roundtrip [OF demo_writable n a, where read_file = "\<lambda>_. Some []" and
      parse_toml = "\<lambda>_. Some (t_config demo_write_lib demo_write_config)" and content = "[]" and P = demo_program_env, OF refl refl]
  show ?thesis unfolding p by (rule conjunct1)
qed

end
