(* ===== verification/Generate.thy ===== *)
theory Generate
  imports Reality_Accept Wireguard_Setup
begin

text \<open>
  The \<open>generate\<close> subcommands (\<open>generate.rs\<close>): random UUIDs and passwords, and the key pairs for WireGuard and REALITY with the text that
  they are printed in.  The random values, the derivation of public keys and the encodings of the libraries are a record; the result
  is what is printed.
\<close>

section \<open>The model\<close>

record generate_env =
  ge_uuid :: rstring
  ge_index :: "nat \<Rightarrow> nat"
  ge_private :: "nat \<Rightarrow> bytes"
  ge_byte :: "nat \<Rightarrow> u8"
  ge_public :: "bytes \<Rightarrow> bytes"
  ge_standard :: "bytes \<Rightarrow> rstring"
  ge_url_safe :: "bytes \<Rightarrow> rstring"
  ge_hex :: "bytes \<Rightarrow> rstring"

text \<open>The text of one \<open>println!\<close> each.\<close>

definition print_lines :: "rstring list \<Rightarrow> rstring" where
  "print_lines ls = concat (map (\<lambda>l. l @ [10]) ls)"

definition uuid_text :: "generate_env \<Rightarrow> rstring" where
  "uuid_text G = print_lines [ge_uuid G]"

definition CHARSET :: rstring where
  "CHARSET = str ''abcdefghijklmnopqrstuvwxyzABCDEFGHIJKLMNOPQRSTUVWXYZ0123456789''"

text \<open>The \<open>i\<close>th index is drawn from \<open>0..CHARSET.len()\<close>.\<close>

definition password_text :: "generate_env \<Rightarrow> nat \<Rightarrow> rstring" where
  "password_text G n = print_lines [map (\<lambda>i. CHARSET ! ge_index G i) [0..<n]]"

text \<open>Text outside ASCII, as the code points of its characters, which all have three bytes in UTF-8.\<close>

definition wide :: "nat list \<Rightarrow> rstring" where
  "wide cs = concat (map (\<lambda>c. [of_nat (224 + c div 4096), of_nat (128 + c div 64 mod 64), of_nat (128 + c mod 64)]) cs)"

definition quoted :: "rstring \<Rightarrow> rstring" where
  "quoted s = 34 # s @ [34]"

text \<open>\<open>ge_private\<close> is the \<open>k\<close>th secret that is drawn, \<open>ge_public\<close> its public key.\<close>

definition wireguard_keypair :: "generate_env \<Rightarrow> rstring" where
  "wireguard_keypair G =
     (let server_priv = ge_private G 0; server_pub = ge_public G server_priv;
          client_priv = ge_private G 1; client_pub = ge_public G client_priv;
          server_priv_b64 = ge_standard G server_priv; server_pub_b64 = ge_standard G server_pub;
          client_priv_b64 = ge_standard G client_priv; client_pub_b64 = ge_standard G client_pub in
      print_lines [
      str ''=== WireGuard '' @ wide [0x5BC6, 0x94A5, 0x5BF9] @ str '' ==='',
      [],
      str ''# '' @ wide [0x2500, 0x2500] @ str '' '' @ wide [0x670D, 0x52A1, 0x7AEF, 0xFF08, 0x586B, 0x5165] @ str '' ruproxy config.toml'' @ wide [0xFF09, 0x2500, 0x2500],
      str ''[wireguard]'',
      str ''private_key    = '' @ quoted server_priv_b64,
      str ''# '' @ wide [0x5BF9, 0x5E94, 0x516C, 0x94A5, 0xFF08, 0x586B, 0x5165, 0x5BA2, 0x6237, 0x7AEF] @ str '' wg0.conf [Peer] PublicKey'' @ wide [0xFF09, 0xFF1A],
      str ''# '' @ server_pub_b64,
      [],
      str ''# '' @ wide [0x2500, 0x2500] @ str '' '' @ wide [0x5BA2, 0x6237, 0x7AEF] @ str '' 1'' @ wide [0xFF08] @ str ''wg0.conf'' @ wide [0xFF09, 0x2500, 0x2500],
      str ''[Interface]'',
      str ''PrivateKey = '' @ client_priv_b64,
      str ''Address    = 10.0.0.2/24'',
      str ''DNS        = 1.1.1.1'',
      [],
      str ''[Peer]'',
      str ''PublicKey           = '' @ server_pub_b64,
      str ''Endpoint            = '' @ wide [0x4F60, 0x7684, 0x670D, 0x52A1, 0x5668] @ str ''IP:51820'',
      str ''AllowedIPs          = 0.0.0.0/0, ::/0'',
      str ''PersistentKeepalive = 25'',
      [],
      str ''# '' @ wide [0x2500, 0x2500] @ str '' '' @ wide [0x5C06, 0x5BA2, 0x6237, 0x7AEF, 0x516C, 0x94A5, 0x586B, 0x5165, 0x670D, 0x52A1, 0x7AEF] @ str '' config.toml '' @ wide [0x2500, 0x2500],
      str ''[[wireguard.peers]]'',
      str ''public_key  = '' @ quoted client_pub_b64,
      str ''allowed_ips = ['' @ quoted (str ''10.0.0.2/32'') @ str '']''])"

text \<open>The short id are eight random bytes.\<close>

definition reality_keypair :: "generate_env \<Rightarrow> rstring" where
  "reality_keypair G =
     (let private_bytes = ge_private G 0; public_bytes = ge_public G private_bytes;
          private_b64 = ge_url_safe G private_bytes; public_b64 = ge_url_safe G public_bytes;
          short_id_bytes = map (ge_byte G) [0..<8]; short_id = ge_hex G short_id_bytes in
      print_lines [
      str ''=== Reality '' @ wide [0x5BC6, 0x94A5, 0x5BF9] @ str '' ==='',
      [],
      str ''# '' @ wide [0x2500, 0x2500] @ str '' '' @ wide [0x670D, 0x52A1, 0x7AEF, 0xFF08, 0x586B, 0x5165] @ str '' ruproxy config.toml'' @ wide [0xFF09] @ wide (replicate 30 0x2500),
      str ''# '' @ wide [0x6CE8, 0x610F, 0xFF1A, 0x670D, 0x52A1, 0x7AEF, 0x53EA, 0x9700] @ str '' private_key'' @ wide [0xFF0C] @ str ''public_key '' @ wide [0x4EC5, 0x5BA2, 0x6237, 0x7AEF, 0x4F7F, 0x7528],
      str ''[[vless]]'',
      str ''listen = '' @ quoted (str ''0.0.0.0:443''),
      str ''uuid   = '' @ quoted (wide [0x4F60, 0x7684] @ str ''UUID''),
      [],
      str ''[vless.tls]'',
      str ''type        = '' @ quoted (str ''reality''),
      str ''private_key = '' @ quoted private_b64,
      str ''short_ids   = ['' @ quoted short_id @ str '']'',
      str ''dest        = '' @ quoted (str ''www.microsoft.com:443''),
      str ''server_name = '' @ quoted (str ''www.microsoft.com''),
      [],
      str ''# '' @ wide [0x2500, 0x2500] @ str '' '' @ wide [0x5BA2, 0x6237, 0x7AEF, 0xFF08] @ str ''Xray / sing-box'' @ wide [0xFF09] @ wide (replicate 40 0x2500),
      str ''# public_key = '' @ quoted public_b64,
      str ''# short_id   = '' @ quoted short_id,
      [],
      str ''# '' @ wide [0x2500, 0x2500] @ str '' '' @ wide [0x539F, 0x59CB, 0x503C] @ str '' '' @ wide (replicate 58 0x2500),
      str ''private_key ('' @ wide [0x670D, 0x52A1, 0x7AEF] @ str '') : '' @ private_b64,
      str ''public_key  ('' @ wide [0x5BA2, 0x6237, 0x7AEF] @ str '') : '' @ public_b64,
      str ''short_id             : '' @ short_id])"

section \<open>Passwords\<close>

lemma charset_ok: "distinct CHARSET" "length CHARSET = 62"
  "set CHARSET = set (map of_nat ([48..<58] @ [65..<91] @ [97..<123]))"
  by (simp_all add: CHARSET_def) (auto simp: upt_rec)

lemma print_one: "print_lines [l] = w @ [10] \<longleftrightarrow> w = l"
  by (auto simp: print_lines_def)

text \<open>
  The passwords that can be printed, for any draws in the range of the alphabet, are exactly the words of the requested length
  over the 62 letters and digits, each of which occurs once in the alphabet.
\<close>

theorem generated_passwords:
  "{w. \<exists>G. ge_index G ` UNIV \<subseteq> {..<length CHARSET} \<and> password_text G n = w @ [10]}
     = {w. length w = n \<and> set w \<subseteq> set (map of_nat ([48..<58] @ [65..<91] @ [97..<123]))} \<and> distinct CHARSET"
proof (intro conjI set_eqI iffI)
  fix w assume "w \<in> {w. \<exists>G. ge_index G ` UNIV \<subseteq> {..<length CHARSET} \<and> password_text G n = w @ [10]}"
  then obtain G where G: "ge_index G ` UNIV \<subseteq> {..<length CHARSET}" "password_text G n = w @ [10]" by blast
  then have g: "ge_index G ` UNIV \<subseteq> {..<length CHARSET}" "w = map (\<lambda>i. CHARSET ! ge_index G i) [0..<n]"
    by (simp_all only: password_text_def print_one)
  then have "CHARSET ! ge_index G i \<in> set CHARSET" for i by (auto intro!: nth_mem)
  with g(2) show "w \<in> {w. length w = n \<and> set w \<subseteq> set (map of_nat ([48..<58] @ [65..<91] @ [97..<123]))}"
    unfolding charset_ok(3) [symmetric] by auto
next
  fix w :: rstring assume "w \<in> {w. length w = n \<and> set w \<subseteq> set (map of_nat ([48..<58] @ [65..<91] @ [97..<123]))}"
  then have w: "length w = n" "set w \<subseteq> set CHARSET" unfolding charset_ok(3) by auto
  define f where "f i = (if i < n then SOME k. k < length CHARSET \<and> CHARSET ! k = w ! i else 0)" for i
  have f: "f i < length CHARSET \<and> (i < n \<longrightarrow> CHARSET ! f i = w ! i)" for i
  proof (cases "i < n")
    case True
    with w have "w ! i \<in> set CHARSET" using nth_mem by blast
    then have "\<exists>k. k < length CHARSET \<and> CHARSET ! k = w ! i" by (auto simp: in_set_conv_nth)
    from someI_ex [OF this] True show ?thesis by (simp add: f_def)
  qed (simp add: f_def charset_ok(2))
  have m: "map (\<lambda>i. CHARSET ! f i) [0..<n] = w" using f w(1) by (intro nth_equalityI) auto
  define G :: generate_env where "G = \<lparr>ge_uuid = [], ge_index = f, ge_private = \<lambda>_. [], ge_byte = \<lambda>_. 0,
      ge_public = \<lambda>b. b, ge_standard = \<lambda>b. b, ge_url_safe = \<lambda>b. b, ge_hex = \<lambda>b. b\<rparr>"
  then have G: "ge_index G = f" by simp
  from f have "ge_index G ` UNIV \<subseteq> {..<length CHARSET}" by (auto simp: G)
  moreover have "password_text G n = w @ [10]" unfolding password_text_def print_one G m by simp
  ultimately show "w \<in> {w. \<exists>G. ge_index G ` UNIV \<subseteq> {..<length CHARSET} \<and> password_text G n = w @ [10]}" by blast
qed (rule charset_ok(1))

section \<open>What is read from the printed text\<close>

text \<open>
  The value in quotes on the first line that begins with \<open>pre\<close>, which ends with the opening quote; and the two sections that \<open>reality_keypair\<close> prints for the
  configuration of the server and for the client, and those of \<open>wireguard_keypair\<close>.
\<close>

fun starts :: "rstring \<Rightarrow> rstring \<Rightarrow> bool" where
  "starts [] l = True"
| "starts (p # ps) [] = False"
| "starts (p # ps) (x # xs) = (if x = p then starts ps xs else False)"

definition printed :: "rstring \<Rightarrow> rstring \<Rightarrow> rstring option" where
  "printed pre t =
     (case filter (starts pre) (split_on 10 t) of
        [] \<Rightarrow> None
      | l # _ \<Rightarrow> map_option fst (split_once 34 (drop (length pre) l)))"

definition printed_server :: "rstring \<Rightarrow> reality_config option" where
  "printed_server t =
     (case (printed (str ''private_key = '' @ [34]) t, printed (str ''short_ids   = ['' @ [34]) t,
            printed (str ''dest        = '' @ [34]) t, printed (str ''server_name = '' @ [34]) t) of
        (Some k, Some i, Some d, Some n) \<Rightarrow> Some \<lparr>private_key = k, short_ids = [i], dest = d, server_name = n\<rparr>
      | _ \<Rightarrow> None)"

definition printed_client :: "rstring \<Rightarrow> (rstring \<times> rstring) option" where
  "printed_client t =
     (case (printed (str ''# public_key = '' @ [34]) t, printed (str ''# short_id   = '' @ [34]) t) of
        (Some k, Some i) \<Rightarrow> Some (k, i)
      | _ \<Rightarrow> None)"

definition printed_wireguard :: "rstring \<Rightarrow> rstring \<Rightarrow> wg_config option" where
  "printed_wireguard listen t =
     (case (printed (str ''private_key    = '' @ [34]) t, printed (str ''public_key  = '' @ [34]) t, printed (str ''allowed_ips = ['' @ [34]) t) of
        (Some k, Some p, Some a) \<Rightarrow> Some \<lparr>wc_listen = listen, wc_private_key = k, wc_server_address = [], wc_mtu = 1420,
            wc_peers = [\<lparr>wp_public_key = p, wp_pre_shared_key = None, wp_allowed_ips = [a], wp_keepalive_interval = None, wp_dns = []\<rparr>]\<rparr>
      | _ \<Rightarrow> None)"

lemma split_on_line: "d \<notin> set l \<Longrightarrow> split_on d (l @ d # t) = l # split_on d t"
  by (induction l) (auto split: list.split)

lemma split_on_print: "\<forall>l \<in> set ls. 10 \<notin> set l \<Longrightarrow> split_on 10 (print_lines ls) = ls @ [[]]"
proof (induction ls)
  case (Cons l ls)
  then have "split_on 10 (l @ 10 # print_lines ls) = l # ls @ [[]]" by (simp add: split_on_line)
  then show ?case by (simp add: print_lines_def)
qed (simp add: print_lines_def)

lemma split_once_quote: "34 \<notin> set v \<Longrightarrow> split_once 34 (v @ 34 # z) = Some (v, z)"
  by (induction v) simp_all

lemma high_byte: "128 \<le> n \<Longrightarrow> n < 256 \<Longrightarrow> 128 \<le> unat (of_nat n :: u8)"
  by (simp add: unat_of_nat)

lemma wide_bytes:
  assumes "\<forall>c \<in> set cs. c < 65536" "b \<in> set (wide cs)"
  shows "128 \<le> unat b"
proof -
  from assms obtain c where c: "c < 65536"
    "b = of_nat (224 + c div 4096) \<or> b = of_nat (128 + c div 64 mod 64) \<or> b = of_nat (128 + c mod 64)"
    by (auto simp: wide_def)
  have "c div 4096 < 16" "c div 64 mod 64 < 64" "c mod 64 < 64" using c(1) by simp_all
  with c(2) show ?thesis by (elim disjE; simp only:; intro high_byte; linarith)
qed

lemma wide_ascii: "\<forall>c \<in> set cs. c < 65536 \<Longrightarrow> unat b < 128 \<Longrightarrow> b \<notin> set (wide cs)"
  using wide_bytes leD by blast

lemma starts_wide:
  assumes "c < 65536" "unat p < 128"
  shows "\<not> starts (p # ps) (wide (c # cs) @ z)" "\<not> starts (p # ps) (wide (c # cs))"
proof -
  have "p \<notin> set (wide [c])" using assms by (intro wide_ascii) simp_all
  then show "\<not> starts (p # ps) (wide (c # cs) @ z)" "\<not> starts (p # ps) (wide (c # cs))"
    by (auto simp: wide_def simp del: of_nat_add)
qed

text \<open>A value that is printed keeps its line and its quotes: it has neither a newline nor a quote in it.\<close>

definition plain :: "rstring \<Rightarrow> bool" where
  "plain v \<longleftrightarrow> 10 \<notin> set v \<and> 34 \<notin> set v"

lemma printed_lines:
  assumes "\<forall>l \<in> set ls. 10 \<notin> set l" "pre \<noteq> []"
  shows "printed pre (print_lines ls) =
     (case filter (starts pre) ls of
        [] \<Rightarrow> None
      | l # _ \<Rightarrow> map_option fst (split_once 34 (drop (length pre) l)))"
proof -
  have "\<not> starts pre []" using assms(2) by (cases pre) simp_all
  then show ?thesis by (simp add: printed_def split_on_print [OF assms(1)])
qed

text \<open>The configuration and the client's values that are read from what \<open>reality_keypair\<close> prints, for any values without newlines and quotes.\<close>

lemma printed_reality:
  fixes G :: generate_env
  defines "priv \<equiv> ge_url_safe G (ge_private G 0)" and "pub \<equiv> ge_url_safe G (ge_public G (ge_private G 0))"
    and "sid \<equiv> ge_hex G (map (ge_byte G) [0..<8])"
  assumes "plain priv" "plain pub" "plain sid"
  shows "printed_server (reality_keypair G) = Some \<lparr>private_key = priv, short_ids = [sid], dest = str ''www.microsoft.com:443'',
      server_name = str ''www.microsoft.com''\<rparr>"
    and "printed_client (reality_keypair G) = Some (pub, sid)"
proof -
  obtain ls where ls: "reality_keypair G = print_lines ls" "ls = [
      str ''=== Reality '' @ wide [0x5BC6, 0x94A5, 0x5BF9] @ str '' ==='',
      [],
      str ''# '' @ wide [0x2500, 0x2500] @ str '' '' @ wide [0x670D, 0x52A1, 0x7AEF, 0xFF08, 0x586B, 0x5165] @ str '' ruproxy config.toml'' @ wide [0xFF09] @ wide (replicate 30 0x2500),
      str ''# '' @ wide [0x6CE8, 0x610F, 0xFF1A, 0x670D, 0x52A1, 0x7AEF, 0x53EA, 0x9700] @ str '' private_key'' @ wide [0xFF0C] @ str ''public_key '' @ wide [0x4EC5, 0x5BA2, 0x6237, 0x7AEF, 0x4F7F, 0x7528],
      str ''[[vless]]'',
      str ''listen = '' @ quoted (str ''0.0.0.0:443''),
      str ''uuid   = '' @ quoted (wide [0x4F60, 0x7684] @ str ''UUID''),
      [],
      str ''[vless.tls]'',
      str ''type        = '' @ quoted (str ''reality''),
      str ''private_key = '' @ quoted priv,
      str ''short_ids   = ['' @ quoted sid @ str '']'',
      str ''dest        = '' @ quoted (str ''www.microsoft.com:443''),
      str ''server_name = '' @ quoted (str ''www.microsoft.com''),
      [],
      str ''# '' @ wide [0x2500, 0x2500] @ str '' '' @ wide [0x5BA2, 0x6237, 0x7AEF, 0xFF08] @ str ''Xray / sing-box'' @ wide [0xFF09] @ wide (replicate 40 0x2500),
      str ''# public_key = '' @ quoted pub,
      str ''# short_id   = '' @ quoted sid,
      [],
      str ''# '' @ wide [0x2500, 0x2500] @ str '' '' @ wide [0x539F, 0x59CB, 0x503C] @ str '' '' @ wide (replicate 58 0x2500),
      str ''private_key ('' @ wide [0x670D, 0x52A1, 0x7AEF] @ str '') : '' @ priv,
      str ''public_key  ('' @ wide [0x5BA2, 0x6237, 0x7AEF] @ str '') : '' @ pub,
      str ''short_id             : '' @ sid]"
    by (simp only: reality_keypair_def Let_def priv_def pub_def sid_def simp_thms)
  have v: "10 \<notin> set priv" "10 \<notin> set pub" "10 \<notin> set sid" "34 \<notin> set priv" "34 \<notin> set pub" "34 \<notin> set sid"
    using assms(4-6) by (simp_all add: plain_def)
  have plain_ls: "\<forall>l \<in> set ls. 10 \<notin> set l"
    using v(1-3) by (simp add: ls(2) quoted_def wide_ascii)
  have q: "split_once 34 [119, 119, 119] = None" by simp
  note read = printed_lines [OF plain_ls, folded ls(1)]
  note eval = read ls(2) quoted_def starts_wide split_once_quote v
  have 1: "printed (str ''private_key = '' @ [34]) (reality_keypair G) = Some priv" by (simp add: eval)
  have 2: "printed (str ''short_ids   = ['' @ [34]) (reality_keypair G) = Some sid" by (simp add: eval)
  have 3: "printed (str ''dest        = '' @ [34]) (reality_keypair G) = Some (str ''www.microsoft.com:443'')" by (simp add: eval)
  have 4: "printed (str ''server_name = '' @ [34]) (reality_keypair G) = Some (str ''www.microsoft.com'')" by (simp add: eval)
  have 5: "printed (str ''# public_key = '' @ [34]) (reality_keypair G) = Some pub" by (simp add: eval)
  have 6: "printed (str ''# short_id   = '' @ [34]) (reality_keypair G) = Some sid" by (simp add: eval)
  show "printed_server (reality_keypair G) = Some \<lparr>private_key = priv, short_ids = [sid], dest = str ''www.microsoft.com:443'',
      server_name = str ''www.microsoft.com''\<rparr>"
    by (simp only: printed_server_def 1 2 3 4 prod.case option.case)
  show "printed_client (reality_keypair G) = Some (pub, sid)"
    by (simp only: printed_client_def 5 6 prod.case option.case)
qed

section \<open>Keys\<close>

text \<open>What the decoders of the server promise of the encoders: they read the text back, and it is plain and has no white space at its ends.\<close>

definition encodes :: "(bytes \<Rightarrow> rstring) \<Rightarrow> (rstring \<Rightarrow> bytes option) \<Rightarrow> bytes \<Rightarrow> bool" where
  "encodes enc rd b \<longleftrightarrow> rd (enc b) = Some b \<and> trim (enc b) = enc b \<and> plain (enc b)"


definition demo_generate :: generate_env where
  "demo_generate = \<lparr>ge_uuid = [], ge_index = \<lambda>_. 0, ge_private = \<lambda>_. replicate 32 1, ge_byte = \<lambda>_. 2,
     ge_public = \<lambda>_. replicate 32 3, ge_standard = \<lambda>b. b, ge_url_safe = \<lambda>b. b, ge_hex = \<lambda>b. b\<rparr>"

definition demo_decoders :: reality_lib where
  "demo_decoders = toy_reality\<lparr>b64_url := Some\<rparr>"

lemma trim_replicate: "trim (replicate 32 1) = replicate 32 1" "trim (replicate 32 3) = replicate 32 3"
  "trim (replicate 8 2) = replicate 8 2"
  by (simp_all add: trim_def trim_by.simps ws_len_def ws_rlen_def ws_list_def)


text \<open>
  The WireGuard keys: the printed sections for the server give one with one peer, whose tunnel has the server's private key and the client's
  public key.
\<close>

lemma printed_wireguard_keys:
  fixes G :: generate_env
  defines "priv \<equiv> ge_standard G (ge_private G 0)" and "pub \<equiv> ge_standard G (ge_public G (ge_private G 0))"
    and "cpriv \<equiv> ge_standard G (ge_private G 1)" and "cpub \<equiv> ge_standard G (ge_public G (ge_private G 1))"
  assumes "plain priv" "plain pub" "plain cpriv" "plain cpub"
  shows "printed_wireguard listen (wireguard_keypair G) = Some \<lparr>wc_listen = listen, wc_private_key = priv, wc_server_address = [],
     wc_mtu = 1420, wc_peers = [\<lparr>wp_public_key = cpub, wp_pre_shared_key = None,
       wp_allowed_ips = [str ''10.0.0.2/32''], wp_keepalive_interval = None, wp_dns = []\<rparr>]\<rparr>"
proof -
  obtain ls where ls: "wireguard_keypair G = print_lines ls" "ls = [
      str ''=== WireGuard '' @ wide [0x5BC6, 0x94A5, 0x5BF9] @ str '' ==='',
      [],
      str ''# '' @ wide [0x2500, 0x2500] @ str '' '' @ wide [0x670D, 0x52A1, 0x7AEF, 0xFF08, 0x586B, 0x5165] @ str '' ruproxy config.toml'' @ wide [0xFF09, 0x2500, 0x2500],
      str ''[wireguard]'',
      str ''private_key    = '' @ quoted priv,
      str ''# '' @ wide [0x5BF9, 0x5E94, 0x516C, 0x94A5, 0xFF08, 0x586B, 0x5165, 0x5BA2, 0x6237, 0x7AEF] @ str '' wg0.conf [Peer] PublicKey'' @ wide [0xFF09, 0xFF1A],
      str ''# '' @ pub,
      [],
      str ''# '' @ wide [0x2500, 0x2500] @ str '' '' @ wide [0x5BA2, 0x6237, 0x7AEF] @ str '' 1'' @ wide [0xFF08] @ str ''wg0.conf'' @ wide [0xFF09, 0x2500, 0x2500],
      str ''[Interface]'',
      str ''PrivateKey = '' @ cpriv,
      str ''Address    = 10.0.0.2/24'',
      str ''DNS        = 1.1.1.1'',
      [],
      str ''[Peer]'',
      str ''PublicKey           = '' @ pub,
      str ''Endpoint            = '' @ wide [0x4F60, 0x7684, 0x670D, 0x52A1, 0x5668] @ str ''IP:51820'',
      str ''AllowedIPs          = 0.0.0.0/0, ::/0'',
      str ''PersistentKeepalive = 25'',
      [],
      str ''# '' @ wide [0x2500, 0x2500] @ str '' '' @ wide [0x5C06, 0x5BA2, 0x6237, 0x7AEF, 0x516C, 0x94A5, 0x586B, 0x5165, 0x670D, 0x52A1, 0x7AEF] @ str '' config.toml '' @ wide [0x2500, 0x2500],
      str ''[[wireguard.peers]]'',
      str ''public_key  = '' @ quoted cpub,
      str ''allowed_ips = ['' @ quoted (str ''10.0.0.2/32'') @ str '']'']"
    by (simp only: wireguard_keypair_def Let_def priv_def pub_def cpriv_def cpub_def simp_thms)
  have v: "10 \<notin> set priv" "10 \<notin> set pub" "10 \<notin> set cpriv" "10 \<notin> set cpub" "34 \<notin> set priv" "34 \<notin> set cpub"
    using assms(5-8) by (simp_all add: plain_def)
  have plain_ls: "\<forall>l \<in> set ls. 10 \<notin> set l"
    using v(1-4) by (simp add: ls(2) quoted_def wide_ascii)
  note read = printed_lines [OF plain_ls, folded ls(1)]
  note eval = read ls(2) quoted_def starts_wide split_once_quote v
  have 1: "printed (str ''private_key    = '' @ [34]) (wireguard_keypair G) = Some priv" by (simp add: eval)
  have 2: "printed (str ''public_key  = '' @ [34]) (wireguard_keypair G) = Some cpub" by (simp add: eval)
  have 3: "printed (str ''allowed_ips = ['' @ [34]) (wireguard_keypair G) = Some (str ''10.0.0.2/32'')" by (simp add: eval)
  show ?thesis by (simp only: printed_wireguard_def 1 2 3 prod.case option.case)
qed

lemma generated_wireguard_starts:
  fixes L :: "('t, 'n) wg_lib" and G :: generate_env
  defines "priv \<equiv> ge_private G" and "pub \<equiv> \<lambda>i. ge_public G (ge_private G i)"
  assumes "\<And>b. b \<in> {priv 0, pub 0, priv 1, pub 1} \<Longrightarrow> encodes (ge_standard G) (wl_base64 L) b \<and> length b = 32"
    and "wl_network L (str ''10.0.0.2/32'') = Some net" "bind listen = Inr ()"
  shows "\<exists>cfg. printed_wireguard listen (wireguard_keypair G) = Some cfg \<and> wg_run L bind cfg = Inr ([],
      \<lparr>wt_peers = [(wl_hex L (pub 1), wl_tunnel L (priv 0) (pub 1) None None 0, [net])], wt_routes = [(net, wl_hex L (pub 1))]\<rparr>)"
proof -
  have d: "decode_key L (ge_standard G b) = Inr b" "length b = 32" if "b \<in> {priv 0, pub 0, priv 1, pub 1}" for b
    using assms(3) [OF that] by (simp_all add: encodes_def decode_key_def)
  have "plain (ge_standard G b)" if "b \<in> {priv 0, pub 0, priv 1, pub 1}" for b
    using assms(3) [OF that] by (simp add: encodes_def)
  then have "printed_wireguard listen (wireguard_keypair G) = Some \<lparr>wc_listen = listen, wc_private_key = ge_standard G (priv 0),
      wc_server_address = [], wc_mtu = 1420, wc_peers = [\<lparr>wp_public_key = ge_standard G (pub 1), wp_pre_shared_key = None,
       wp_allowed_ips = [str ''10.0.0.2/32''], wp_keepalive_interval = None, wp_dns = []\<rparr>]\<rparr>"
    unfolding priv_def pub_def by (intro printed_wireguard_keys) simp_all
  moreover have "wg_run L bind \<lparr>wc_listen = listen, wc_private_key = ge_standard G (priv 0),
      wc_server_address = [], wc_mtu = 1420, wc_peers = [\<lparr>wp_public_key = ge_standard G (pub 1), wp_pre_shared_key = None,
       wp_allowed_ips = [str ''10.0.0.2/32''], wp_keepalive_interval = None, wp_dns = []\<rparr>]\<rparr> = Inr ([],
      \<lparr>wt_peers = [(wl_hex L (pub 1), wl_tunnel L (priv 0) (pub 1) None None 0, [net])], wt_routes = [(net, wl_hex L (pub 1))]\<rparr>)"
    using assms(4,5) by (simp del: str_Cons add: wg_run_def d key_array_def ensure_def peer_setup_def)
  ultimately show ?thesis by blast
qed

end
