(* ===== verification/Accept_Loops.thy ===== *)
theory Accept_Loops
  imports Program
begin

text \<open>
  The accept loops of the TCP listeners: what they do with a sequence of results of \<open>accept\<close>.  Every connection gets a task of its own, so
  a handler that fails disturbs no other; but outside XHTTP the loops pass an error of \<open>accept\<close> on, which ends the listener.
\<close>

section \<open>The model\<close>

text \<open>The loop of every listener without XHTTP: the answers, and the error that ended it.\<close>

fun accept_loop :: "('c \<Rightarrow> 'r) \<Rightarrow> (io_kind + 'c) list \<Rightarrow> 'r list \<times> err option" where
  "accept_loop handle [] = ([], None)"
| "accept_loop handle (Inl e # es) = ([], Some (Io e))"
| "accept_loop handle (Inr c # es) = (case accept_loop handle es of (rs, e) \<Rightarrow> (handle c # rs, e))"

text \<open>The loop that feeds connections to an XHTTP server logs an error and goes on.\<close>

fun feed_loop :: "('c \<Rightarrow> 'r) \<Rightarrow> (io_kind + 'c) list \<Rightarrow> 'r list" where
  "feed_loop feed [] = []"
| "feed_loop feed (Inl e # es) = feed_loop feed es"
| "feed_loop feed (Inr c # es) = feed c # feed_loop feed es"

definition under_xhttp :: "('t, 'n) server \<Rightarrow> bool" where
  "under_xhttp srv =
     (case srv of
        VlessUp _ l \<Rightarrow> li_xhttp l \<noteq> None
      | VmessUp _ l \<Rightarrow> li_xhttp l \<noteq> None
      | TrojanUp l \<Rightarrow> li_xhttp l \<noteq> None
      | SsUp _ l \<Rightarrow> li_xhttp l \<noteq> None
      | _ \<Rightarrow> False)"

text \<open>A started node and the connections it accepts, each with the clock and randomness that its handler sees.\<close>

definition node_serves ::
  "('t, 'n) program_env \<Rightarrow> ruproxy_node \<Rightarrow> ('t, 'n) server \<Rightarrow> (rstring \<Rightarrow> dial) \<Rightarrow> (io_kind + conn_env \<times> conn) list
     \<Rightarrow> answer option list \<times> err option" where
  "node_serves L node srv connect events =
     (let handle = (\<lambda>(E, stream). node_turn L E node srv connect stream) in
      if under_xhttp srv then (feed_loop handle events, None) else accept_loop handle events)"

section \<open>Connections are independent, the listener is not\<close>

lemma accept_loop_ok: "accept_loop handle (map Inr cs) = (map handle cs, None)"
  by (induction cs) simp_all

lemma accept_loop_error: "accept_loop handle (map Inr cs @ Inl e # es) = (map handle cs, Some (Io e))"
  by (induction cs) simp_all

lemma feed_loop_all: "feed_loop feed es = map (feed \<circ> projr) (filter (\<lambda>e. \<not> isl e) es)"
  by (induction feed es rule: feed_loop.induct) simp_all

lemma loops_cong:
  "(\<And>c. Inr c \<in> set es \<Longrightarrow> f c = g c) \<Longrightarrow> accept_loop f es = accept_loop g es \<and> feed_loop f es = feed_loop g es"
proof (induction es)
  case (Cons x es)
  then show ?case by (cases x) (auto split: prod.split)
qed simp

text \<open>
  A started node answers every connection as if it were the only one, whatever became of the others, until \<open>accept\<close> fails for the first
  time.  A listener under XHTTP goes on after that; any other ends, and no later connection is answered.
\<close>

theorem accept_error_ends_listener:
  "node_serves L node srv connect (map Inr cs @ Inl e # es) =
     (map (\<lambda>(E, stream). node_turn L E node srv connect stream)
        (cs @ (if under_xhttp srv then map projr (filter (\<lambda>e. \<not> isl e) es) else [])),
      if under_xhttp srv then None else Some (Io e))"
  by (simp add: node_serves_def Let_def accept_loop_error feed_loop_all comp_def)

text \<open>So a node none of whose connections is authorised behaves the same whatever the network behind it is.\<close>

lemma node_serves_authorised:
  assumes "run_node L node = Inr srv" "\<And>E stream. Inr (E, stream) \<in> set es \<Longrightarrow> crypto_laws L E"
    and "node_serves L node srv connect es \<noteq> node_serves L node srv connect' es"
  shows "\<exists>E stream io. Inr (E, stream) \<in> set es \<and> seen L E node srv stream = Inr io \<and> authorised L E node io"
proof (rule ccontr)
  assume n: "\<not> ?thesis"
  have same: "node_turn L E node srv connect stream = node_turn L E node srv connect' stream" if "Inr (E, stream) \<in> set es" for E stream
    using node_turn_authorised [OF assms(1) assms(2) [OF that]] n that by blast
  from loops_cong [of es "\<lambda>(E, stream). node_turn L E node srv connect stream" "\<lambda>(E, stream). node_turn L E node srv connect' stream"] same
  have "node_serves L node srv connect es = node_serves L node srv connect' es"
    by (auto simp: node_serves_def Let_def)
  with assms(3) show False ..
qed

end
