(* ===== verification/Shadowsocks_Client.thy ===== *)
theory Shadowsocks_Client
  imports Shadowsocks Ip_Parse
begin

text \<open>
  The request builder of \<open>shadowsocks/protocol.rs\<close>, which the server does not call: the address encoder and the
  plaintext request header.  It is the counterpart of the parser of \<open>Shadowsocks\<close>, and the two are compared here.
\<close>

section \<open>The model\<close>

text \<open>\<open>Ipv4Addr::from_str\<close> and \<open>Ipv6Addr::from_str\<close>.\<close>

definition parse_ipv4 :: "rstring \<Rightarrow> ipv4 option" where
  "parse_ipv4 s =
     (if 15 < length s then None else case read_ipv4 s of Some (a, r) \<Rightarrow> if r = [] then Some a else None | None \<Rightarrow> None)"

definition parse_ipv6 :: "rstring \<Rightarrow> ipv6 option" where
  "parse_ipv6 s = (case read_ipv6 s of Some (a, r) \<Rightarrow> if r = [] then Some a else None | None \<Rightarrow> None)"

definition encode_host :: "rstring \<Rightarrow> bytes result" where
  "encode_host h =
     (case parse_ipv4 h of
        Some ip4 \<Rightarrow> Inr (ATYP_IPV4 # octets4 ip4)
      | None \<Rightarrow>
          (case parse_ipv6 h of
             Some ip6 \<Rightarrow> Inr (ATYP_IPV6 # octets6 ip6)
           | None \<Rightarrow>
               and_then (ensure (length h \<le> 255) (Bail ''domain too long'')) (\<lambda>_.
                 Inr (ATYP_DOMAIN # of_nat (length h) # h))))"

definition encode_address :: "rstring \<Rightarrow> bytes result" where
  "encode_address addr =
     (case rsplit_once 58 addr of
        None \<Rightarrow> Inl (Bail ''invalid address'')
      | Some (h, port_str) \<Rightarrow>
          (case parse_unsigned 65535 port_str of
             None \<Rightarrow> Inl ParseError
           | Some port \<Rightarrow>
               and_then (encode_host (trim_brackets h)) (\<lambda>buf. Inr (buf @ to_be 2 (of_nat port :: u16)))))"

definition build_request_header :: "u64 \<Rightarrow> rstring \<Rightarrow> bytes result" where
  "build_request_header now addr =
     and_then (encode_address addr) (\<lambda>a. Inr ([STREAM_TYPE_REQUEST] @ to_be 8 now @ a @ to_be 2 (0 :: u16)))"

section \<open>The builder against the parser\<close>

text \<open>Destinations that the encoder can recognise in their text: a name must not look like an address.\<close>

fun recognisable :: "host \<Rightarrow> bool" where
  "recognisable (Host4 a) \<longleftrightarrow> True"
| "recognisable (HostName n) \<longleftrightarrow> trim_brackets n = n \<and> parse_ipv4 n = None \<and> parse_ipv6 n = None"
| "recognisable (Host6 a) \<longleftrightarrow> parse_ipv4 (ipv6_to_string a) = None \<and> parse_ipv6 (ipv6_to_string a) = Some a"

lemma parse_ipv4_text: "parse_ipv4 (ipv4_to_string a) = Some a"
  using length_ipv4 [of a] read_ipv4_string [of "[]" a] by (simp add: parse_ipv4_def)

lemma encode_address_text:
  assumes "recognisable (fst d)" "host_ok (fst d)"
  shows "encode_address (dest_text d) = Inr (enc_socks_dest d)"
proof -
  obtain h p where d: "d = (h, p)" by fastforce
  have p: "rsplit_once 58 (dest_text d) = Some (host_text h, dec (unat p))"
    unfolding d dest_text_def fst_conv snd_conv by (rule rsplit_host_port)
  have e: "encode_host (trim_brackets (host_text h)) = Inr (enc_host 1 3 4 h)"
  proof (cases h)
    case (Host4 a)
    then show ?thesis
      using trim_brackets_inner(1) [OF ipv4_chars] parse_ipv4_text by (simp add: encode_host_def ss_consts)
  next
    case (HostName n)
    then show ?thesis using assms by (simp add: d encode_host_def ensure_def ss_consts)
  next
    case (Host6 a)
    then show ?thesis
      using assms trim_brackets_inner(2) [OF ipv6_chars [of _ a]] by (simp add: d bracketed_def encode_host_def ss_consts)
  qed
  show ?thesis unfolding encode_address_def p option.case prod.case parse_port e
    by (simp add: d enc_socks_dest_def)
qed

lemma build_request_header_text:
  "recognisable (fst d) \<Longrightarrow> host_ok (fst d) \<Longrightarrow> build_request_header now (dest_text d) = Inr (enc_ss_header now d [])"
  by (simp add: build_request_header_def encode_address_text enc_ss_header_def)

section \<open>Properties\<close>

text \<open>
  What the repository's own builder writes, its parser reads back as the same target within the clock tolerance, except for host names of one or
  two characters, for which the header has 16 or 17 bytes and is refused as too short.
\<close>

theorem ss_header_roundtrip:
  assumes "recognisable (fst d)" "host_ok (fst d)" "abs_diff ts now \<le> 30"
  shows "\<exists>header. build_request_header ts (dest_text d) = Inr header
    \<and> parse_request_header now header STREAM_TYPE_REQUEST =
        (case fst d of
           HostName n \<Rightarrow> if length n < 3 then Inl (Bail ''request header too short'') else Inr (dest_text d)
         | _ \<Rightarrow> Inr (dest_text d))"
proof (intro exI conjI)
  show "build_request_header ts (dest_text d) = Inr (enc_ss_header ts d [])"
    by (rule build_request_header_text [OF assms(1,2)])
  show "parse_request_header now (enc_ss_header ts d []) STREAM_TYPE_REQUEST =
        (case fst d of
           HostName n \<Rightarrow> if length n < 3 then Inl (Bail ''request header too short'') else Inr (dest_text d)
         | _ \<Rightarrow> Inr (dest_text d))"
  proof (cases "18 \<le> length (enc_ss_header ts d [])")
    case True
    from parse_request_header_enc [OF assms(2) _ assms(3) this] True show ?thesis
      by (auto simp: length_enc_ss_header split: host.split)
  next
    case False
    then show ?thesis by (auto simp: parse_request_header_def length_enc_ss_header split: host.splits)
  qed
qed

theorem ss_header_roundtrip_witness:
  "\<exists>header. build_request_header 5 (str ''1.2.3.4:80'') = Inr header
     \<and> parse_request_header 9 header STREAM_TYPE_REQUEST = Inr (str ''1.2.3.4:80'')"
proof -
  let ?d = "(Host4 0x01020304, 80 :: u16)"
  have "dest_text ?d = str ''1.2.3.4:80''"
    by (simp add: dest_text_def host_port_def ipv4_to_string_def octets4_def be_simps dec.simps)
  with ss_header_roundtrip [of ?d 5 9] show ?thesis by (simp add: abs_diff_def)
qed

end
