(* ===== verification/Shadowsocks_Exact.thy ===== *)
theory Shadowsocks_Exact
  imports Shadowsocks
begin

text \<open>
  The rest of \<open>shadowsocks/protocol.rs\<close>: the clock, and the reader of an exact number of bytes, with its proof of termination and
  its agreement with the stream of chunks of \<open>Aead_Stream\<close>.
\<close>

section \<open>The model\<close>

text \<open>The system clock, in nanoseconds from the epoch; before the epoch the program panics.\<close>

definition now_unix_secs :: "int \<Rightarrow> u64 result" where
  "now_unix_secs clock =
     (if clock < 0 then Inl (Panic ''system clock before epoch'') else Inr (of_int (clock div 10 ^ 9)))"

text \<open>The loop that fills \<open>need\<close> more bytes.  A chunk may be empty, so it is the input that gets shorter.\<close>

lemma fill_buf_length:
  assumes "fill_buf P s = (Inr True, s')"
  shows "length (rx (ar_inner s')) < length (rx (ar_inner s))"
proof (cases "read_header_chunk P s")
  case (Pair r t)
  show ?thesis
  proof (cases r)
    case (Inl e)
    with Pair fill_buf_no_chunk [of P s e t] assms show ?thesis by auto
  next
    case (Inr pt)
    with Pair fill_buf_chunk [of P s pt t] read_chunk_length [of P s pt t] assms show ?thesis by auto
  qed
qed

function exact_plain_loop :: "aead_prims \<Rightarrow> nat \<Rightarrow> bytes \<Rightarrow> aead_reader \<Rightarrow> bytes result \<times> aead_reader" where
  "exact_plain_loop P need got s =
     (if need = 0 then (Inr got, s)
      else case (if ar_buf s = [] then fill_buf P s else (Inr True, s)) of
        (Inl e, s1) \<Rightarrow> (Inl e, s1)
      | (Inr ok, s1) \<Rightarrow>
          if \<not> ok then (Inl (Bail ''unexpected EOF reading data''), s1)
          else let n = min (length (ar_buf s1)) need in
            exact_plain_loop P (need - n) (got @ take n (ar_buf s1)) (s1\<lparr>ar_buf := drop n (ar_buf s1)\<rparr>))"
  by pat_completeness auto
termination
  by (relation "measure (\<lambda>(P, need, got, s). need + length (rx (ar_inner s)))")
    (auto split: if_splits dest!: sym [of "(Inr _, _)"] fill_buf_length)

declare exact_plain_loop.simps [simp del]

definition read_exact_plain :: "aead_prims \<Rightarrow> nat \<Rightarrow> aead_reader \<Rightarrow> bytes result \<times> aead_reader" where
  "read_exact_plain P n s = exact_plain_loop P n [] s"

section \<open>Exactly the next bytes\<close>

lemma exact_plain_loop_zero: "exact_plain_loop P 0 got s = (Inr got, s)"
  by (simp add: exact_plain_loop.simps)

lemma exact_plain_loop_more:
  assumes "0 < need"
  shows "exact_plain_loop P need got s =
    (case (if ar_buf s = [] then fill_buf P s else (Inr True, s)) of
        (Inl e, s1) \<Rightarrow> (Inl e, s1)
      | (Inr ok, s1) \<Rightarrow>
          if \<not> ok then (Inl (Bail ''unexpected EOF reading data''), s1)
          else exact_plain_loop P (need - min (length (ar_buf s1)) need) (got @ take need (ar_buf s1))
            (s1\<lparr>ar_buf := drop need (ar_buf s1)\<rparr>))"
  using assms by (subst exact_plain_loop.simps) (simp add: Let_def min_def split: prod.split sum.split)

lemma exact_plain_loop_avail:
  assumes "plain_avail P s = xs @ rest" "length xs = need"
  shows "\<exists>s'. exact_plain_loop P need got s = (Inr (got @ xs), s') \<and> plain_avail P s' = rest"
  using assms
proof (induction need arbitrary: got s xs rule: less_induct)
  case (less need)
  show ?case
  proof (cases "need = 0")
    case True
    with less.prems show ?thesis by (simp add: exact_plain_loop_zero)
  next
    case False
    then have ne: "plain_avail P s \<noteq> []" "0 < need" using less.prems by auto
    obtain s1 where f: "(if ar_buf s = [] then fill_buf P s else (Inr True, s)) = (Inr True, s1)"
      and b: "ar_buf s1 \<noteq> []" and a: "plain_avail P s1 = plain_avail P s"
    proof (cases "ar_buf s = []")
      case e: True
      obtain r t where r: "read_header_chunk P s = (r, t)" by fastforce
      from ne(1) r plain_avail_simps [OF e] obtain pt where pt: "r = Inr pt" "pt \<noteq> []"
        by (cases r) (metis, metis)
      from fill_buf_chunk [OF r [unfolded pt]] have "fill_buf P s = (Inr True, t\<lparr>ar_buf := pt\<rparr>)" by (simp add: e)
      moreover have "plain_avail P (t\<lparr>ar_buf := pt\<rparr>) = plain_avail P s"
        using plain_avail_simps(3) [OF e r [unfolded pt] pt(2)] by (simp add: plain_avail_def plain_chunks_buf)
      ultimately show thesis using that [of "t\<lparr>ar_buf := pt\<rparr>"] e pt(2) by simp
    qed (use that in simp)
    let ?n = "min (length (ar_buf s1)) need" and ?s2 = "s1\<lparr>ar_buf := drop need (ar_buf s1)\<rparr>"
    from a less.prems have x: "ar_buf s1 @ concat (plain_chunks P s1) = xs @ rest" by (simp add: plain_avail_def)
    have t: "take need (ar_buf s1) = take ?n xs"
      using arg_cong [OF x, of "take ?n"] less.prems(2) by (simp add: min_def split: if_splits)
    have d: "plain_avail P ?s2 = drop ?n xs @ rest"
      using arg_cong [OF x, of "drop ?n"] less.prems(2) by (auto simp: plain_avail_def plain_chunks_buf min_def split: if_splits)
    have "need - ?n < need" using b ne(2) by (simp add: min_def)
    from less.IH [OF this d] obtain s' where
      "exact_plain_loop P (need - ?n) (got @ take ?n xs) ?s2 = (Inr ((got @ take ?n xs) @ drop ?n xs), s')" "plain_avail P s' = rest"
      using less.prems(2) by (metis length_drop)
    then show ?thesis unfolding exact_plain_loop_more [OF ne(2)] f t [symmetric] by (simp add: t)
  qed
qed

text \<open>While the chunks hold enough plain bytes, the exact reader returns exactly the next ones and leaves the others.\<close>

lemma read_exact_plain_next:
  assumes "n \<le> length (plain_avail P s)"
  shows "\<exists>s'. read_exact_plain P n s = (Inr (take n (plain_avail P s)), s') \<and> plain_avail P s' = drop n (plain_avail P s)"
  using exact_plain_loop_avail [of P s "take n (plain_avail P s)" "drop n (plain_avail P s)" n "[]"] assms
  by (simp add: read_exact_plain_def)

end
