(* ===== verification/Hysteria2_Padding.thy ===== *)
theory Hysteria2_Padding
  imports Hysteria2_Server
begin

text \<open>
  The random padding of Hysteria2 (\<open>gen_padding\<close> of \<open>hysteria2/auth.rs\<close>) and the responses that carry it.  The draws of the random
  number generator are a function from the number of the draw, and what is drawn is in the range asked for.
\<close>

section \<open>The model\<close>

definition CHARS :: bytes where
  "CHARS = str ''abcdefghijklmnopqrstuvwxyzABCDEFGHIJKLMNOPQRSTUVWXYZ0123456789''"

text \<open>\<open>draw lo hi i\<close> is the \<open>i\<close>th number drawn, from \<open>lo..hi\<close>; an empty range panics.\<close>

type_synonym rng = "nat \<Rightarrow> nat \<Rightarrow> nat \<Rightarrow> nat"

definition rng_ok :: "rng \<Rightarrow> bool" where
  "rng_ok draw \<longleftrightarrow> (\<forall>lo hi i. lo < hi \<longrightarrow> lo \<le> draw lo hi i \<and> draw lo hi i < hi)"

definition gen_range :: "rng \<Rightarrow> nat \<Rightarrow> nat \<Rightarrow> nat \<Rightarrow> nat result" where
  "gen_range draw lo hi i = (if lo < hi then Inr (draw lo hi i) else Inl (Panic ''cannot sample empty range''))"

definition gen_padding :: "rng \<Rightarrow> nat \<Rightarrow> nat \<Rightarrow> rstring result" where
  "gen_padding draw lo hi =
     and_then (gen_range draw lo hi 0) (\<lambda>len. Inr (map (\<lambda>i. CHARS ! draw 0 (length CHARS) (1 + i)) [0..<len]))"

text \<open>The response writer with its own padding: one draw for the length, then the padding of exactly that length.\<close>

definition write_tcp_response_padded :: "rng \<Rightarrow> rng \<Rightarrow> bool \<Rightarrow> rstring \<Rightarrow> unit io" where
  "write_tcp_response_padded draw draw' ok message c =
     (let pad_len = draw 128 1024 0 in
      case gen_padding draw' pad_len (pad_len + 1) of
        Inl e \<Rightarrow> (Inl e, c)
      | Inr padding \<Rightarrow> write_tcp_response ok message padding c)"

text \<open>The padding headers of the two answers to an authentication request.\<close>

definition auth_ok_padding :: "rng \<Rightarrow> rstring result" where
  "auth_ok_padding draw = gen_padding draw 256 2048"

definition auth_fail_padding :: "rng \<Rightarrow> rstring result" where
  "auth_fail_padding draw = gen_padding draw 64 256"

section \<open>Lengths and characters\<close>

lemma length_CHARS [simp]: "length CHARS = 62"
  by (simp add: CHARS_def)

lemma CHARS_text: "list_all (\<lambda>b. 33 \<le> b \<and> b < 127) CHARS"
  by (simp add: CHARS_def)

lemma gen_padding_ok:
  assumes "rng_ok draw" "lo < hi"
  obtains p where "gen_padding draw lo hi = Inr p" "lo \<le> length p" "length p < hi" "list_all (\<lambda>b. 33 \<le> b \<and> b < 127) p"
proof
  show "gen_padding draw lo hi = Inr (map (\<lambda>i. CHARS ! draw 0 62 (1 + i)) [0..<draw lo hi 0])"
    using assms(2) by (simp add: gen_padding_def gen_range_def)
  show "lo \<le> length (map (\<lambda>i. CHARS ! draw 0 62 (1 + i)) [0..<draw lo hi 0])"
    "length (map (\<lambda>i. CHARS ! draw 0 62 (1 + i)) [0..<draw lo hi 0]) < hi"
    using assms by (simp_all add: rng_ok_def)
  have "CHARS ! draw 0 62 i \<in> set CHARS" for i using assms(1) by (intro nth_mem) (simp add: rng_ok_def)
  then show "list_all (\<lambda>b. 33 \<le> b \<and> b < 127) (map (\<lambda>i. CHARS ! draw 0 62 (1 + i)) [0..<draw lo hi 0])"
    using CHARS_text by (simp add: list_all_iff)
qed

lemma gen_padding_panics_iff: "(\<exists>m. gen_padding draw lo hi = Inl (Panic m)) \<longleftrightarrow> hi \<le> lo"
  by (auto simp: gen_padding_def gen_range_def)

text \<open>The padding of the authentication answers is a header value: printable ASCII without spaces.\<close>

lemma auth_paddings:
  assumes "rng_ok draw"
  shows "\<exists>p. auth_ok_padding draw = Inr p \<and> 256 \<le> length p \<and> length p < 2048 \<and> list_all (\<lambda>b. 33 \<le> b \<and> b < 127) p"
    and "\<exists>p. auth_fail_padding draw = Inr p \<and> 64 \<le> length p \<and> length p < 256 \<and> list_all (\<lambda>b. 33 \<le> b \<and> b < 127) p"
proof -
  have "\<exists>p. gen_padding draw lo hi = Inr p \<and> lo \<le> length p \<and> length p < hi \<and> list_all (\<lambda>b. 33 \<le> b \<and> b < 127) p"
    if "lo < hi" for lo hi
    using gen_padding_ok [OF assms that] by blast
  from this [of 256 2048] this [of 64 256]
  show "\<exists>p. auth_ok_padding draw = Inr p \<and> 256 \<le> length p \<and> length p < 2048 \<and> list_all (\<lambda>b. 33 \<le> b \<and> b < 127) p"
    "\<exists>p. auth_fail_padding draw = Inr p \<and> 64 \<le> length p \<and> length p < 256 \<and> list_all (\<lambda>b. 33 \<le> b \<and> b < 127) p"
    unfolding auth_ok_padding_def auth_fail_padding_def by simp_all
qed

text \<open>Whatever is drawn, the writer does not panic and the client reads the status and the message back from what it wrote.\<close>

lemma padded_response_read:
  assumes "rng_ok draw" "rng_ok draw'" "length message < 2 ^ 62" "tx_cap c = None"
  shows "\<exists>b. write_tcp_response_padded draw draw' ok message c = (Inr (), c\<lparr>tx := tx c @ b\<rparr>) \<and>
    client_read_response (c'\<lparr>rx := b @ rest\<rparr>) = (Inr (ok, message), c'\<lparr>rx := rest\<rparr>)"
proof -
  define n where "n = draw 128 1024 0"
  from assms(1) have n: "n < 1024" by (simp add: n_def rng_ok_def)
  obtain p where q: "gen_padding draw' n (n + 1) = Inr p" "n \<le> length p" "length p < n + 1"
    by (rule gen_padding_ok [OF assms(2) less_add_one])
  then have p: "gen_padding draw' n (n + 1) = Inr p" "length p = n" by simp_all
  have "write_tcp_response_padded draw draw' ok message c = (Inr (), c\<lparr>tx := tx c @ tcp_response ok message p\<rparr>)"
    using p(1) assms(4) by (simp add: write_tcp_response_padded_def Let_def n_def [symmetric] write_tcp_response_def write_all_def)
  moreover have "length p < 2 ^ 62" using n p(2) by simp
  ultimately show ?thesis using client_reads_response [OF assms(3)] by blast
qed

end
