(* ===== verification/Wireguard_Stack.thy ===== *)
theory Wireguard_Stack
  imports Wireguard_Flow
begin

text \<open>
  The actor behind each WireGuard peer (\<open>wireguard/stack.rs\<close>) and its virtual interface
  (\<open>wireguard/iface.rs\<close>): flow tables over the socket set of the TCP/IP library, the relays to the
  real network, and the handler of every message.  The library (\<open>smoltcp\<close>) is a record of functions on
  an abstract socket; \<open>smol_laws\<close> says what it documents.  Access to a handle without a socket of the
  expected kind panics, which ends the actor: \<open>None\<close> here.
\<close>

section \<open>The library\<close>

datatype 'k sock = Tcp 'k | Udp 'k

text \<open>\<open>VirtualDevice\<close>: the queue towards the library and the queue of packets it sent.\<close>

record device =
  dev_rx :: "bytes list"
  dev_tx :: "bytes list"

definition dev_new :: device where "dev_new = \<lparr>dev_rx = [], dev_tx = []\<rparr>"

definition inject :: "bytes \<Rightarrow> device \<Rightarrow> device" where
  "inject pkt d = d\<lparr>dev_rx := dev_rx d @ [pkt]\<rparr>"

definition dev_receive :: "device \<Rightarrow> (bytes \<times> device) option" where
  "dev_receive d = (case dev_rx d of [] \<Rightarrow> None | pkt # ps \<Rightarrow> Some (pkt, d\<lparr>dev_rx := ps\<rparr>))"

definition dev_transmit :: "bytes \<Rightarrow> device \<Rightarrow> device" where
  "dev_transmit pkt d = d\<lparr>dev_tx := dev_tx d @ [pkt]\<rparr>"

text \<open>
  The library's operations: a listening socket for an endpoint (\<open>None\<close> when it refuses), the free slot
  it picks, the socket states, what is received and the sends, and one \<open>poll\<close> of the interface.
\<close>

record 'k smol =
  tcp_listen :: "ip_addr \<Rightarrow> u16 \<Rightarrow> 'k option"
  udp_bind :: "ip_addr \<Rightarrow> u16 \<Rightarrow> 'k option"
  free_slot :: "'k sock option list \<Rightarrow> nat"
  established :: "'k \<Rightarrow> bool"
  tcp_recv :: "'k \<Rightarrow> bytes \<times> 'k"
  udp_recv :: "'k \<Rightarrow> bytes list \<times> 'k"
  tcp_send :: "bytes \<Rightarrow> 'k \<Rightarrow> 'k"
  udp_send :: "socket_addr \<Rightarrow> bytes \<Rightarrow> 'k \<Rightarrow> 'k"
  poll :: "device \<times> 'k sock option list \<Rightarrow> device \<times> 'k sock option list"

section \<open>The actor's state\<close>

record tcp_flow =
  tf_handle :: nat
  outbound_tx :: "nat option"
  relay_started :: bool
  tf_last :: nat

record udp_flow =
  uf_handle :: nat
  uf_out :: nat
  uf_last :: nat

text \<open>The relays that run on the real network, with what the actor has sent to each.\<close>

record tcp_relay =
  tr_handle :: nat
  tr_dst :: socket_addr
  tr_in :: "bytes list"

record udp_relay =
  ur_handle :: nat
  ur_in :: "(socket_addr \<times> bytes) list"

record 'k actor =
  a_dev :: device
  a_socks :: "'k sock option list"
  a_tcp :: "(flow_key \<times> tcp_flow) list"
  a_udp :: "(flow_key \<times> udp_flow) list"
  a_tcp_relays :: "tcp_relay list"
  a_udp_relays :: "udp_relay list"
  a_enc :: "bytes list"

datatype msg = Inbound bytes | TcpData nat bytes | UdpReply nat bytes | Tick

definition actor_new :: "'k actor" where
  "actor_new = \<lparr>a_dev = dev_new, a_socks = [], a_tcp = [], a_udp = [], a_tcp_relays = [], a_udp_relays = [], a_enc = []\<rparr>"

section \<open>Sockets\<close>

definition get_tcp :: "nat \<Rightarrow> 'k sock option list \<Rightarrow> 'k option" where
  "get_tcp h socks = (if h < length socks then case socks ! h of Some (Tcp k) \<Rightarrow> Some k | _ \<Rightarrow> None else None)"

definition get_udp :: "nat \<Rightarrow> 'k sock option list \<Rightarrow> 'k option" where
  "get_udp h socks = (if h < length socks then case socks ! h of Some (Udp k) \<Rightarrow> Some k | _ \<Rightarrow> None else None)"

definition add_sock :: "'k smol \<Rightarrow> 'k sock \<Rightarrow> 'k sock option list \<Rightarrow> nat \<times> 'k sock option list" where
  "add_sock S k socks =
     (let h = free_slot S socks in (h, if h < length socks then socks[h := Some k] else socks @ [Some k]))"

definition ensure_tcp :: "'k smol \<Rightarrow> nat \<Rightarrow> flow_key \<Rightarrow> 'k actor \<Rightarrow> 'k actor" where
  "ensure_tcp S now key s =
     (if map_of (a_tcp s) key \<noteq> None then s
      else case tcp_listen S (sock_ip (fk_dst key)) (sock_port (fk_dst key)) of
        None \<Rightarrow> s
      | Some k \<Rightarrow>
          (case add_sock S (Tcp k) (a_socks s) of
             (h, socks) \<Rightarrow>
               s\<lparr>a_socks := socks,
                 a_tcp := (key, \<lparr>tf_handle = h, outbound_tx = None, relay_started = False, tf_last = now\<rparr>) # a_tcp s\<rparr>))"

definition ensure_udp :: "'k smol \<Rightarrow> nat \<Rightarrow> flow_key \<Rightarrow> 'k actor \<Rightarrow> 'k actor" where
  "ensure_udp S now key s =
     (if map_of (a_udp s) key \<noteq> None then s
      else case udp_bind S (sock_ip (fk_dst key)) (sock_port (fk_dst key)) of
        None \<Rightarrow> s
      | Some k \<Rightarrow>
          (case add_sock S (Udp k) (a_socks s) of
             (h, socks) \<Rightarrow>
               s\<lparr>a_socks := socks,
                 a_udp_relays := a_udp_relays s @ [\<lparr>ur_handle = h, ur_in = []\<rparr>],
                 a_udp := (key, \<lparr>uf_handle = h, uf_out = length (a_udp_relays s), uf_last = now\<rparr>) # a_udp s\<rparr>))"

section \<open>The steps of the actor\<close>

definition poll_iface :: "'k smol \<Rightarrow> 'k actor \<Rightarrow> 'k actor" where
  "poll_iface S s =
     (case poll S (a_dev s, a_socks s) of
        (d, socks) \<Rightarrow> s\<lparr>a_dev := d\<lparr>dev_tx := []\<rparr>, a_socks := socks, a_enc := a_enc s @ dev_tx d\<rparr>)"

fun each :: "('x \<Rightarrow> 's \<Rightarrow> 's option) \<Rightarrow> 'x list \<Rightarrow> 's \<Rightarrow> 's option" where
  "each f [] s = Some s"
| "each f (x # xs) s = (case f x s of None \<Rightarrow> None | Some s' \<Rightarrow> each f xs s')"

fun set_val :: "'a \<Rightarrow> 'b \<Rightarrow> ('a \<times> 'b) list \<Rightarrow> ('a \<times> 'b) list" where
  "set_val k v [] = []"
| "set_val k v ((k', v') # xs) = (if k' = k then (k', v) # xs else (k', v') # set_val k v xs)"

definition start_relay :: "'k smol \<Rightarrow> flow_key \<times> tcp_flow \<Rightarrow> 'k actor \<Rightarrow> 'k actor option" where
  "start_relay S kf s =
     (case kf of (key, f) \<Rightarrow>
        if relay_started f then Some s
        else case get_tcp (tf_handle f) (a_socks s) of
          None \<Rightarrow> None
        | Some k \<Rightarrow>
            if established S k then
              Some (s\<lparr>a_tcp_relays := a_tcp_relays s @ [\<lparr>tr_handle = tf_handle f, tr_dst = fk_dst key, tr_in = []\<rparr>],
                      a_tcp := set_val key (f\<lparr>outbound_tx := Some (length (a_tcp_relays s)), relay_started := True\<rparr>) (a_tcp s)\<rparr>)
            else Some s)"

definition start_tcp_relays :: "'k smol \<Rightarrow> 'k actor \<Rightarrow> 'k actor option" where
  "start_tcp_relays S s = each (start_relay S) (a_tcp s) s"

definition send_relay :: "nat option \<Rightarrow> bytes \<Rightarrow> tcp_relay list \<Rightarrow> tcp_relay list" where
  "send_relay out data rs =
     (case out of
        None \<Rightarrow> rs
      | Some i \<Rightarrow> if i < length rs then rs[i := (rs ! i)\<lparr>tr_in := tr_in (rs ! i) @ [data]\<rparr>] else rs)"

definition drain_tcp :: "'k smol \<Rightarrow> nat \<Rightarrow> flow_key \<times> tcp_flow \<Rightarrow> 'k actor \<Rightarrow> 'k actor option" where
  "drain_tcp S now kf s =
     (case kf of (key, f) \<Rightarrow>
        if \<not> relay_started f then Some s
        else case get_tcp (tf_handle f) (a_socks s) of
          None \<Rightarrow> None
        | Some k \<Rightarrow>
            (case tcp_recv S k of
               (data, k') \<Rightarrow>
                 if data = [] then Some s
                 else Some (s\<lparr>a_socks := (a_socks s)[tf_handle f := Some (Tcp k')],
                              a_tcp_relays := send_relay (outbound_tx f) data (a_tcp_relays s),
                              a_tcp := set_val key (f\<lparr>tf_last := now\<rparr>) (a_tcp s)\<rparr>)))"

definition drain_tcp_recv :: "'k smol \<Rightarrow> nat \<Rightarrow> 'k actor \<Rightarrow> 'k actor option" where
  "drain_tcp_recv S now s = each (drain_tcp S now) (a_tcp s) s"

definition drain_udp :: "'k smol \<Rightarrow> nat \<Rightarrow> flow_key \<times> udp_flow \<Rightarrow> 'k actor \<Rightarrow> 'k actor option" where
  "drain_udp S now kf s =
     (case kf of (key, f) \<Rightarrow>
        (case get_udp (uf_handle f) (a_socks s) of
           None \<Rightarrow> None
         | Some k \<Rightarrow>
             (case udp_recv S k of
                (datas, k') \<Rightarrow>
                  if datas = [] then Some s
                  else Some (s\<lparr>a_socks := (a_socks s)[uf_handle f := Some (Udp k')],
                               a_udp_relays := (a_udp_relays s)[uf_out f := (a_udp_relays s ! uf_out f)
                                 \<lparr>ur_in := ur_in (a_udp_relays s ! uf_out f) @ map (Pair (fk_dst key)) datas\<rparr>],
                               a_udp := set_val key (f\<lparr>uf_last := now\<rparr>) (a_udp s)\<rparr>))))"

definition drain_udp_recv :: "'k smol \<Rightarrow> nat \<Rightarrow> 'k actor \<Rightarrow> 'k actor option" where
  "drain_udp_recv S now s = each (drain_udp S now) (a_udp s) s"

definition feed_tcp_send :: "'k smol \<Rightarrow> nat \<Rightarrow> bytes \<Rightarrow> 'k actor \<Rightarrow> 'k actor option" where
  "feed_tcp_send S h data s =
     (case get_tcp h (a_socks s) of
        None \<Rightarrow> None
      | Some k \<Rightarrow> Some (s\<lparr>a_socks := (a_socks s)[h := Some (Tcp (tcp_send S data k))]\<rparr>))"

definition feed_udp_send :: "'k smol \<Rightarrow> nat \<Rightarrow> socket_addr \<Rightarrow> bytes \<Rightarrow> 'k actor \<Rightarrow> 'k actor option" where
  "feed_udp_send S h peer_ep data s =
     (case get_udp h (a_socks s) of
        None \<Rightarrow> None
      | Some k \<Rightarrow> Some (s\<lparr>a_socks := (a_socks s)[h := Some (Udp (udp_send S peer_ep data k))]\<rparr>))"

definition TCP_IDLE :: nat where "TCP_IDLE = 300"
definition UDP_IDLE :: nat where "UDP_IDLE = 60"

definition remove_sock :: "nat \<Rightarrow> 'k sock option list \<Rightarrow> 'k sock option list option" where
  "remove_sock h socks = (if h < length socks \<and> socks ! h \<noteq> None then Some (socks[h := None]) else None)"

definition evict_flows :: "nat \<Rightarrow> 'k actor \<Rightarrow> 'k actor option" where
  "evict_flows now s =
     (let keep_t = (\<lambda>(_, f). now - tf_last f < TCP_IDLE);
          keep_u = (\<lambda>(_, f). now - uf_last f < UDP_IDLE);
          gone = map (\<lambda>(_, f). tf_handle f) (filter (\<lambda>kf. \<not> keep_t kf) (a_tcp s))
               @ map (\<lambda>(_, f). uf_handle f) (filter (\<lambda>kf. \<not> keep_u kf) (a_udp s))
      in map_option (\<lambda>socks. s\<lparr>a_socks := socks, a_tcp := filter keep_t (a_tcp s), a_udp := filter keep_u (a_udp s)\<rparr>)
           (each remove_sock gone (a_socks s)))"

definition ensure_flow :: "'k smol \<Rightarrow> nat \<Rightarrow> bytes \<Rightarrow> 'k actor \<Rightarrow> 'k actor" where
  "ensure_flow S now pkt s =
     (case parse_flow_key pkt of
        None \<Rightarrow> s
      | Some key \<Rightarrow> if fk_proto key = 6 then ensure_tcp S now key s
                     else if fk_proto key = 17 then ensure_udp S now key s else s)"

definition reply_src :: "nat \<Rightarrow> (flow_key \<times> udp_flow) list \<Rightarrow> socket_addr option" where
  "reply_src h fs = map_option (fk_src \<circ> fst) (find (\<lambda>(_, f). uf_handle f = h) fs)"

fun handle_msg :: "'k smol \<Rightarrow> nat \<Rightarrow> msg \<Rightarrow> 'k actor \<Rightarrow> 'k actor option" where
  "handle_msg S now (Inbound pkt) s =
     (let s1 = ensure_flow S now pkt s;
          s2 = poll_iface S (s1\<lparr>a_dev := inject pkt (a_dev s1)\<rparr>)
      in Option.bind (start_tcp_relays S s2) (\<lambda>s3.
         Option.bind (drain_tcp_recv S now s3) (drain_udp_recv S now)))"
| "handle_msg S now (TcpData h data) s = map_option (poll_iface S) (feed_tcp_send S h data s)"
| "handle_msg S now (UdpReply h data) s =
     map_option (poll_iface S)
       (case reply_src h (a_udp s) of None \<Rightarrow> Some s | Some peer_ep \<Rightarrow> feed_udp_send S h peer_ep data s)"
| "handle_msg S now Tick s =
     Option.bind (drain_tcp_recv S now (poll_iface S s)) (\<lambda>s1.
     Option.bind (drain_udp_recv S now s1) (\<lambda>s2.
     Option.bind (start_tcp_relays S s2) (evict_flows now)))"

section \<open>What the library promises\<close>

definition kind_at :: "nat \<Rightarrow> 'k sock option list \<Rightarrow> bool option" where
  "kind_at h socks = (if h < length socks then map_option (\<lambda>k. case k of Tcp _ \<Rightarrow> True | Udp _ \<Rightarrow> False) (socks ! h) else None)"

text \<open>
  A new socket takes a free slot, and polling neither adds nor removes sockets nor turns one of
  a protocol into one of the other.
\<close>

definition smol_laws :: "'k smol \<Rightarrow> bool" where
  "smol_laws S \<longleftrightarrow>
     (\<forall>socks. free_slot S socks \<le> length socks \<and> (free_slot S socks < length socks \<longrightarrow> socks ! free_slot S socks = None))
     \<and> (\<forall>d socks h. kind_at h (snd (poll S (d, socks))) = kind_at h socks)"

lemma get_kind: "(\<exists>k. get_tcp h socks = Some k) \<longleftrightarrow> kind_at h socks = Some True"
  "(\<exists>k. get_udp h socks = Some k) \<longleftrightarrow> kind_at h socks = Some False"
  by (auto simp: get_tcp_def get_udp_def kind_at_def split: option.splits sock.splits)

lemma kind_at_set: "kind_at h (socks[i := x]) =
    (if h = i \<and> h < length socks then map_option (\<lambda>k. case k of Tcp _ \<Rightarrow> True | Udp _ \<Rightarrow> False) x else kind_at h socks)"
  by (auto simp: kind_at_def nth_list_update)

lemma kind_at_length: "kind_at h socks = Some b \<Longrightarrow> h < length socks"
  by (simp add: kind_at_def split: if_splits)

section \<open>Flows and their sockets\<close>

definition tcp_hs :: "'k actor \<Rightarrow> (flow_key \<times> nat) list" where
  "tcp_hs s = map (\<lambda>(k, f). (k, tf_handle f)) (a_tcp s)"

definition udp_hs :: "'k actor \<Rightarrow> (flow_key \<times> nat) list" where
  "udp_hs s = map (\<lambda>(k, f). (k, uf_handle f)) (a_udp s)"

definition table_ok :: "bool \<Rightarrow> (flow_key \<times> nat) list \<Rightarrow> 'k sock option list \<Rightarrow> bool" where
  "table_ok b hs socks \<longleftrightarrow> (\<forall>kh \<in> set hs. kind_at (snd kh) socks = Some b) \<and> distinct (map fst hs) \<and> distinct (map snd hs)"

definition actor_ok :: "'k actor \<Rightarrow> bool" where
  "actor_ok s \<longleftrightarrow> table_ok True (tcp_hs s) (a_socks s) \<and> table_ok False (udp_hs s) (a_socks s)"

definition same_shape :: "'k actor \<Rightarrow> 'k actor \<Rightarrow> bool" where
  "same_shape s s' \<longleftrightarrow> (\<forall>h. kind_at h (a_socks s') = kind_at h (a_socks s)) \<and> tcp_hs s' = tcp_hs s \<and> udp_hs s' = udp_hs s"

lemma same_shape_refl: "same_shape s s" by (simp add: same_shape_def)

lemma same_shape_trans: "same_shape s t \<Longrightarrow> same_shape t u \<Longrightarrow> same_shape s u" by (simp add: same_shape_def)

lemma same_shape_ok: "same_shape s s' \<Longrightarrow> actor_ok s \<Longrightarrow> actor_ok s'"
  by (simp add: same_shape_def actor_ok_def table_ok_def)

lemma actor_ok_new: "actor_ok actor_new"
  by (simp add: actor_ok_def table_ok_def tcp_hs_def udp_hs_def actor_new_def)

lemma table_okD:
  assumes "table_ok b hs socks" "(k, h) \<in> set hs" "(k', h') \<in> set hs"
  shows "kind_at h socks = Some b" "k = k' \<longleftrightarrow> h = h'"
proof -
  from assms show "kind_at h socks = Some b" by (auto simp: table_ok_def)
  from assms(1) have "distinct (map fst hs)" "distinct (map snd hs)" by (simp_all add: table_ok_def)
  with assms(2,3) show "k = k' \<longleftrightarrow> h = h'" by (metis distinct_map fst_conv inj_onD prod.inject snd_conv)
qed

lemma set_val_same:
  assumes "distinct (map fst xs)" "(k, v) \<in> set xs" "g v' = g v"
  shows "map (\<lambda>(k, v). (k, g v)) (set_val k v' xs) = map (\<lambda>(k, v). (k, g v)) xs"
  using assms by (induction xs) force+

lemma set_val_other: "k \<noteq> k' \<Longrightarrow> (k, v) \<in> set (set_val k' v' xs) \<longleftrightarrow> (k, v) \<in> set xs"
  by (induction xs) (auto split: if_splits)

lemma set_val_hit: "(k, v) \<in> set xs \<Longrightarrow> (k, v') \<in> set (set_val k v' xs)"
  by (induction xs) auto

lemma each_ok:
  assumes "\<And>x s. x \<in> set xs \<Longrightarrow> Q s \<Longrightarrow> \<exists>s'. f x s = Some s' \<and> R s s' \<and> Q s'"
    and "\<And>s. R s s" "\<And>s t u. R s t \<Longrightarrow> R t u \<Longrightarrow> R s u" "Q s"
  shows "\<exists>s'. each f xs s = Some s' \<and> R s s' \<and> Q s'"
  using assms(1,4)
proof (induction xs arbitrary: s)
  case Nil
  with assms(2) show ?case by simp
next
  case (Cons x xs)
  then obtain s1 where s1: "f x s = Some s1" "R s s1" "Q s1" by (metis list.set_intros(1))
  with Cons.IH [of s1] Cons.prems(1) obtain s2 where "each f xs s1 = Some s2" "R s1 s2" "Q s2" by (metis list.set_intros(2))
  with s1 assms(3) show ?case by auto
qed

section \<open>Every step keeps the tables\<close>

lemma hs_cong: "a_tcp s' = a_tcp s \<Longrightarrow> tcp_hs s' = tcp_hs s" "a_udp s' = a_udp s \<Longrightarrow> udp_hs s' = udp_hs s"
  by (simp_all add: tcp_hs_def udp_hs_def)

lemma poll_iface_shape:
  assumes "smol_laws S"
  shows "same_shape s (poll_iface S s)"
proof -
  obtain d socks where p: "poll S (a_dev s, a_socks s) = (d, socks)" by fastforce
  with assms have "kind_at h socks = kind_at h (a_socks s)" for h unfolding smol_laws_def by (metis snd_conv)
  then show ?thesis by (simp add: same_shape_def poll_iface_def p tcp_hs_def udp_hs_def)
qed

lemma same_shape_tcp:
  assumes "a_tcp s' = set_val key g (a_tcp s)" "map (\<lambda>(k, f). (k, tf_handle f)) (set_val key g (a_tcp s)) = tcp_hs s"
    and "a_udp s' = a_udp s" "\<And>h. kind_at h (a_socks s') = kind_at h (a_socks s)"
  shows "same_shape s s'"
  using assms(2,4) hs_cong(2) [OF assms(3)] by (simp add: same_shape_def tcp_hs_def [of s'] assms(1))

lemma same_shape_udp:
  assumes "a_udp s' = set_val key g (a_udp s)" "map (\<lambda>(k, f). (k, uf_handle f)) (set_val key g (a_udp s)) = udp_hs s"
    and "a_tcp s' = a_tcp s" "\<And>h. kind_at h (a_socks s') = kind_at h (a_socks s)"
  shows "same_shape s s'"
  using assms(2,4) hs_cong(1) [OF assms(3)] by (simp add: same_shape_def udp_hs_def [of s'] assms(1))

lemma set_tcp_entry:
  assumes "actor_ok s" "(key, tf_handle f) \<in> set (tcp_hs s)" "tf_handle g = tf_handle f"
  shows "map (\<lambda>(k, f). (k, tf_handle f)) (set_val key g (a_tcp s)) = tcp_hs s"
proof -
  from assms(2) obtain f0 where "(key, f0) \<in> set (a_tcp s)" "tf_handle f0 = tf_handle f" by (auto simp: tcp_hs_def)
  moreover have "distinct (map fst (a_tcp s))"
    using assms(1) by (auto simp: actor_ok_def table_ok_def tcp_hs_def o_def split_def)
  ultimately show ?thesis using set_val_same [of "a_tcp s" key f0 tf_handle g] assms(3) by (simp add: tcp_hs_def)
qed

lemma set_udp_entry:
  assumes "actor_ok s" "(key, uf_handle f) \<in> set (udp_hs s)" "uf_handle g = uf_handle f"
  shows "map (\<lambda>(k, f). (k, uf_handle f)) (set_val key g (a_udp s)) = udp_hs s"
proof -
  from assms(2) obtain f0 where "(key, f0) \<in> set (a_udp s)" "uf_handle f0 = uf_handle f" by (auto simp: udp_hs_def)
  moreover have "distinct (map fst (a_udp s))"
    using assms(1) by (auto simp: actor_ok_def table_ok_def udp_hs_def o_def split_def)
  ultimately show ?thesis using set_val_same [of "a_udp s" key f0 uf_handle g] assms(3) by (simp add: udp_hs_def)
qed

lemma tcp_socket:
  assumes "actor_ok s" "(key, tf_handle f) \<in> set (tcp_hs s)"
  obtains k where "get_tcp (tf_handle f) (a_socks s) = Some k" "tf_handle f < length (a_socks s)"
    "kind_at (tf_handle f) (a_socks s) = Some True"
proof -
  have k: "kind_at (tf_handle f) (a_socks s) = Some True"
    using assms(1) table_okD(1) [OF _ assms(2,2), of True "a_socks s"] by (simp add: actor_ok_def)
  then obtain k where "get_tcp (tf_handle f) (a_socks s) = Some k" using get_kind(1) [THEN iffD2, OF k] by (elim exE)
  then show ?thesis using kind_at_length [OF k] k by (rule that)
qed

lemma udp_socket:
  assumes "actor_ok s" "(key, uf_handle f) \<in> set (udp_hs s)"
  obtains k where "get_udp (uf_handle f) (a_socks s) = Some k" "uf_handle f < length (a_socks s)"
    "kind_at (uf_handle f) (a_socks s) = Some False"
proof -
  have k: "kind_at (uf_handle f) (a_socks s) = Some False"
    using assms(1) table_okD(1) [OF _ assms(2,2), of False "a_socks s"] by (simp add: actor_ok_def)
  then obtain k where "get_udp (uf_handle f) (a_socks s) = Some k" using get_kind(2) [THEN iffD2, OF k] by (elim exE)
  then show ?thesis using kind_at_length [OF k] k by (rule that)
qed

lemma start_relay_ok:
  assumes "actor_ok s" "(key, tf_handle f) \<in> set (tcp_hs s)"
  shows "\<exists>s'. start_relay S (key, f) s = Some s' \<and> same_shape s s'"
proof -
  obtain k where k: "get_tcp (tf_handle f) (a_socks s) = Some k" by (rule tcp_socket [OF assms])
  let ?f = "f\<lparr>outbound_tx := Some (length (a_tcp_relays s)), relay_started := True\<rparr>"
  have e: "map (\<lambda>(k, f). (k, tf_handle f)) (set_val key ?f (a_tcp s)) = tcp_hs s" by (rule set_tcp_entry [OF assms]) simp
  have "same_shape s (s\<lparr>a_tcp_relays := a_tcp_relays s @ [\<lparr>tr_handle = tf_handle f, tr_dst = fk_dst key, tr_in = []\<rparr>],
      a_tcp := set_val key ?f (a_tcp s)\<rparr>)"
    by (rule same_shape_tcp [OF _ e]) (simp_all)
  then show ?thesis
    using same_shape_refl [of s] unfolding start_relay_def prod.case k option.case
    by (cases "relay_started f"; cases "established S k"; simp only: if_True if_False option.inject simp_thms)
qed

lemma drain_tcp_ok:
  assumes "actor_ok s" "(key, tf_handle f) \<in> set (tcp_hs s)"
  shows "\<exists>s'. drain_tcp S now (key, f) s = Some s' \<and> same_shape s s'"
proof -
  obtain k where k: "get_tcp (tf_handle f) (a_socks s) = Some k" "kind_at (tf_handle f) (a_socks s) = Some True"
    by (rule tcp_socket [OF assms])
  obtain d k' where r: "tcp_recv S k = (d, k')" by fastforce
  have e: "map (\<lambda>(k, f). (k, tf_handle f)) (set_val key (f\<lparr>tf_last := now\<rparr>) (a_tcp s)) = tcp_hs s"
    by (rule set_tcp_entry [OF assms]) simp
  have "same_shape s (s\<lparr>a_socks := (a_socks s)[tf_handle f := Some (Tcp k')],
      a_tcp_relays := send_relay (outbound_tx f) d (a_tcp_relays s), a_tcp := set_val key (f\<lparr>tf_last := now\<rparr>) (a_tcp s)\<rparr>)"
    by (rule same_shape_tcp [OF _ e]) (simp_all add: kind_at_set k(2))
  then show ?thesis
    using same_shape_refl [of s] unfolding drain_tcp_def prod.case k(1) option.case r
    by (cases "relay_started f"; cases "d = []"; simp only: if_True if_False option.inject simp_thms)
qed

lemma drain_udp_ok:
  assumes "actor_ok s" "(key, uf_handle f) \<in> set (udp_hs s)"
  shows "\<exists>s'. drain_udp S now (key, f) s = Some s' \<and> same_shape s s'"
proof -
  obtain k where k: "get_udp (uf_handle f) (a_socks s) = Some k" "kind_at (uf_handle f) (a_socks s) = Some False"
    by (rule udp_socket [OF assms])
  obtain d k' where r: "udp_recv S k = (d, k')" by fastforce
  have e: "map (\<lambda>(k, f). (k, uf_handle f)) (set_val key (f\<lparr>uf_last := now\<rparr>) (a_udp s)) = udp_hs s"
    by (rule set_udp_entry [OF assms]) simp
  have "same_shape s (s\<lparr>a_socks := (a_socks s)[uf_handle f := Some (Udp k')],
      a_udp_relays := (a_udp_relays s)[uf_out f := (a_udp_relays s ! uf_out f)
        \<lparr>ur_in := ur_in (a_udp_relays s ! uf_out f) @ map (Pair (fk_dst key)) d\<rparr>],
      a_udp := set_val key (f\<lparr>uf_last := now\<rparr>) (a_udp s)\<rparr>)"
    by (rule same_shape_udp [OF _ e]) (simp_all add: kind_at_set k(2))
  then show ?thesis
    using same_shape_refl [of s] unfolding drain_udp_def prod.case k(1) option.case r
    by (cases "d = []"; cases "d = []"; simp only: if_True if_False option.inject simp_thms)
qed

lemma each_shape:
  assumes "actor_ok s"
    and "\<And>x s'. x \<in> set xs \<Longrightarrow> same_shape s s' \<Longrightarrow> \<exists>s''. f x s' = Some s'' \<and> same_shape s' s''"
  shows "\<exists>s'. each f xs s = Some s' \<and> same_shape s s'"
proof -
  have "\<exists>s'. each f xs s = Some s' \<and> same_shape s s' \<and> same_shape s s'"
    by (rule each_ok [where Q = "same_shape s"]) (metis assms(2) same_shape_trans, simp_all add: same_shape_refl, erule (1) same_shape_trans)
  then show ?thesis by blast
qed

lemma in_hs: "(key, f) \<in> set (a_tcp s) \<Longrightarrow> same_shape s s' \<Longrightarrow> (key, tf_handle f) \<in> set (tcp_hs s')"
  "(key, g) \<in> set (a_udp s) \<Longrightarrow> same_shape s s' \<Longrightarrow> (key, uf_handle g) \<in> set (udp_hs s')"
  by (force simp: same_shape_def tcp_hs_def udp_hs_def)+

lemma start_tcp_relays_ok: "actor_ok s \<Longrightarrow> \<exists>s'. start_tcp_relays S s = Some s' \<and> same_shape s s'"
  unfolding start_tcp_relays_def
  by (rule each_shape, assumption) (metis in_hs(1) prod.collapse same_shape_ok start_relay_ok)

lemma drain_tcp_recv_ok: "actor_ok s \<Longrightarrow> \<exists>s'. drain_tcp_recv S now s = Some s' \<and> same_shape s s'"
  unfolding drain_tcp_recv_def
  by (rule each_shape, assumption) (metis in_hs(1) prod.collapse same_shape_ok drain_tcp_ok)

lemma drain_udp_recv_ok: "actor_ok s \<Longrightarrow> \<exists>s'. drain_udp_recv S now s = Some s' \<and> same_shape s s'"
  unfolding drain_udp_recv_def
  by (rule each_shape, assumption) (metis in_hs(2) prod.collapse same_shape_ok drain_udp_ok)

lemma feed_tcp_send_ok:
  "kind_at h (a_socks s) = Some True \<Longrightarrow> \<exists>s'. feed_tcp_send S h d s = Some s' \<and> same_shape s s'"
proof -
  assume k: "kind_at h (a_socks s) = Some True"
  then obtain x where "get_tcp h (a_socks s) = Some x" using get_kind(1) [THEN iffD2, OF k] by (elim exE)
  with k show ?thesis by (simp add: feed_tcp_send_def same_shape_def tcp_hs_def udp_hs_def kind_at_set)
qed

lemma feed_udp_send_ok:
  "kind_at h (a_socks s) = Some False \<Longrightarrow> \<exists>s'. feed_udp_send S h src d s = Some s' \<and> same_shape s s'"
proof -
  assume k: "kind_at h (a_socks s) = Some False"
  then obtain x where "get_udp h (a_socks s) = Some x" using get_kind(2) [THEN iffD2, OF k] by (elim exE)
  with k show ?thesis by (simp add: feed_udp_send_def same_shape_def tcp_hs_def udp_hs_def kind_at_set)
qed

lemma reply_src_flow:
  "reply_src h (a_udp s) = Some ep \<Longrightarrow> \<exists>key. (key, h) \<in> set (udp_hs s)"
  by (force simp: reply_src_def udp_hs_def find_Some_iff image_iff dest: nth_mem)

section \<open>New flows\<close>

lemma add_sock_kinds:
  assumes "smol_laws S" "add_sock S x socks = (h, socks')"
  shows "kind_at h socks = None" "kind_at h socks' = Some (case x of Tcp _ \<Rightarrow> True | Udp _ \<Rightarrow> False)"
    "h' \<noteq> h \<Longrightarrow> kind_at h' socks' = kind_at h' socks"
proof -
  have "h \<le> length socks" "h < length socks \<longrightarrow> socks ! h = None"
    using assms by (auto simp: smol_laws_def add_sock_def Let_def)
  with assms(2) show "kind_at h socks = None" "kind_at h socks' = Some (case x of Tcp _ \<Rightarrow> True | Udp _ \<Rightarrow> False)"
    "h' \<noteq> h \<Longrightarrow> kind_at h' socks' = kind_at h' socks"
    by (auto simp: add_sock_def Let_def kind_at_def nth_append split: if_splits)
qed

lemma table_add:
  assumes "table_ok b hs socks" "kind_at h socks = None" "\<And>h'. h' \<noteq> h \<Longrightarrow> kind_at h' socks' = kind_at h' socks"
  shows "table_ok b hs socks'"
    and "key \<notin> fst ` set hs \<Longrightarrow> kind_at h socks' = Some b \<Longrightarrow> table_ok b ((key, h) # hs) socks'"
proof -
  have n: "h \<notin> snd ` set hs" using assms(1,2) by (force simp: table_ok_def)
  then have "kind_at (snd kh) socks' = Some b" if "kh \<in> set hs" for kh
    using that assms(1,3) by (metis image_eqI table_ok_def)
  then show "table_ok b hs socks'" "key \<notin> fst ` set hs \<Longrightarrow> kind_at h socks' = Some b \<Longrightarrow> table_ok b ((key, h) # hs) socks'"
    using assms(1) n by (simp_all add: table_ok_def)
qed

lemma fresh_key: "map_of (a_tcp s) key = None \<Longrightarrow> key \<notin> fst ` set (tcp_hs s)"
  "map_of (a_udp s) key = None \<Longrightarrow> key \<notin> fst ` set (udp_hs s)"
  by (force simp: tcp_hs_def udp_hs_def map_of_eq_None_iff)+

lemma ensure_tcp_ok:
  assumes "smol_laws S" "actor_ok s"
  shows "actor_ok (ensure_tcp S now key s)"
proof (cases "map_of (a_tcp s) key = None")
  case new: True
  show ?thesis
  proof (cases "tcp_listen S (sock_ip (fk_dst key)) (sock_port (fk_dst key))")
    case (Some k)
    obtain h socks' where a: "add_sock S (Tcp k) (a_socks s) = (h, socks')" by fastforce
    note kinds = add_sock_kinds [OF assms(1) a]
    have ok: "table_ok True (tcp_hs s) (a_socks s)" "table_ok False (udp_hs s) (a_socks s)" using assms(2) by (simp_all add: actor_ok_def)
    have "table_ok True ((key, h) # tcp_hs s) socks'" "table_ok False (udp_hs s) socks'"
      using table_add(2) [OF ok(1) kinds(1,3) fresh_key(1) [OF new]] table_add(1) [OF ok(2) kinds(1,3)] kinds(2) by simp_all
    then show ?thesis by (simp add: ensure_tcp_def new Some a actor_ok_def tcp_hs_def udp_hs_def)
  qed (use assms in \<open>simp add: ensure_tcp_def new\<close>)
qed (use assms in \<open>simp add: ensure_tcp_def\<close>)

lemma ensure_udp_ok:
  assumes "smol_laws S" "actor_ok s"
  shows "actor_ok (ensure_udp S now key s)"
proof (cases "map_of (a_udp s) key = None")
  case new: True
  show ?thesis
  proof (cases "udp_bind S (sock_ip (fk_dst key)) (sock_port (fk_dst key))")
    case (Some k)
    obtain h socks' where a: "add_sock S (Udp k) (a_socks s) = (h, socks')" by fastforce
    note kinds = add_sock_kinds [OF assms(1) a]
    have ok: "table_ok True (tcp_hs s) (a_socks s)" "table_ok False (udp_hs s) (a_socks s)" using assms(2) by (simp_all add: actor_ok_def)
    have "table_ok False ((key, h) # udp_hs s) socks'" "table_ok True (tcp_hs s) socks'"
      using table_add(2) [OF ok(2) kinds(1,3) fresh_key(2) [OF new]] table_add(1) [OF ok(1) kinds(1,3)] kinds(2) by simp_all
    then show ?thesis by (simp add: ensure_udp_def new Some a actor_ok_def tcp_hs_def udp_hs_def)
  qed (use assms in \<open>simp add: ensure_udp_def new\<close>)
qed (use assms in \<open>simp add: ensure_udp_def\<close>)

lemma ensure_flow_ok: "smol_laws S \<Longrightarrow> actor_ok s \<Longrightarrow> actor_ok (ensure_flow S now pkt s)"
  by (auto simp: ensure_flow_def ensure_tcp_ok ensure_udp_ok split: option.splits)

section \<open>Eviction\<close>

lemma remove_all:
  assumes "distinct hs" "\<And>h. h \<in> set hs \<Longrightarrow> kind_at h socks \<noteq> None"
  shows "\<exists>socks'. each remove_sock hs socks = Some socks'
    \<and> (\<forall>h. kind_at h socks' = (if h \<in> set hs then None else kind_at h socks))"
  using assms
proof (induction hs arbitrary: socks)
  case (Cons h hs)
  have "h < length socks" "socks ! h \<noteq> None" using Cons.prems(2) [of h] by (auto simp: kind_at_def split: if_splits)
  then have r: "remove_sock h socks = Some (socks[h := None])" by (simp add: remove_sock_def)
  have k: "kind_at h' (socks[h := None]) = (if h' = h then None else kind_at h' socks)" for h'
    by (simp add: kind_at_def nth_list_update)
  have "\<exists>socks'. each remove_sock hs (socks[h := None]) = Some socks'
    \<and> (\<forall>h'. kind_at h' socks' = (if h' \<in> set hs then None else kind_at h' (socks[h := None])))"
    by (rule Cons.IH) (use Cons.prems in \<open>auto simp: k\<close>)
  then show ?case by (auto simp: r k)
qed simp

lemma distinct_partition:
  assumes "distinct (map H xs)"
  shows "distinct (map H (filter P xs))" "x \<in> set xs \<Longrightarrow> P x \<Longrightarrow> H x \<notin> H ` set (filter (\<lambda>x. \<not> P x) xs)"
  using assms by (auto simp: distinct_map inj_on_def)

lemma table_filter:
  assumes "table_ok b (map (\<lambda>(k, f). (k, H f)) xs) socks" "\<And>x. x \<in> set xs \<Longrightarrow> P x \<Longrightarrow> kind_at (H (snd x)) socks' = kind_at (H (snd x)) socks"
  shows "table_ok b (map (\<lambda>(k, f). (k, H f)) (filter P xs)) socks'"
  using assms by (auto simp: table_ok_def distinct_map inj_on_def split_def o_def)

lemma evict_ok:
  assumes "actor_ok s"
  shows "\<exists>s'. evict_flows now s = Some s' \<and> actor_ok s'
    \<and> (\<forall>key f. (key, f) \<in> set (a_tcp s) \<and> TCP_IDLE \<le> now - tf_last f \<longrightarrow> get_tcp (tf_handle f) (a_socks s') = None)"
proof -
  let ?kt = "\<lambda>(_ :: flow_key, f). now - tf_last f < TCP_IDLE" and ?ku = "\<lambda>(_ :: flow_key, f). now - uf_last f < UDP_IDLE"
  let ?ht = "\<lambda>(_ :: flow_key, f). tf_handle f" and ?hu = "\<lambda>(_ :: flow_key, f). uf_handle f"
  define gt where "gt = map ?ht (filter (\<lambda>kf. \<not> ?kt kf) (a_tcp s))"
  define gu where "gu = map ?hu (filter (\<lambda>kf. \<not> ?ku kf) (a_udp s))"
  have ok: "table_ok True (map (\<lambda>(k, f). (k, tf_handle f)) (a_tcp s)) (a_socks s)"
    "table_ok False (map (\<lambda>(k, f). (k, uf_handle f)) (a_udp s)) (a_socks s)"
    using assms by (simp_all add: actor_ok_def tcp_hs_def udp_hs_def)
  then have d: "distinct (map ?ht (a_tcp s))" "distinct (map ?hu (a_udp s))"
    by (simp_all add: table_ok_def split_def o_def)
  have kt: "kind_at (?ht x) (a_socks s) = Some True" if "x \<in> set (a_tcp s)" for x
    using ok(1) that by (cases x) (auto simp: table_ok_def)
  have ku: "kind_at (?hu x) (a_socks s) = Some False" if "x \<in> set (a_udp s)" for x
    using ok(2) that by (cases x) (auto simp: table_ok_def)
  have in_g: "h \<in> set gt \<Longrightarrow> kind_at h (a_socks s) = Some True" "h \<in> set gu \<Longrightarrow> kind_at h (a_socks s) = Some False" for h
    using kt ku by (auto simp: gt_def gu_def)
  have "distinct (gt @ gu)"
    using distinct_partition(1) [OF d(1), of "\<lambda>kf. \<not> ?kt kf"] distinct_partition(1) [OF d(2), of "\<lambda>kf. \<not> ?ku kf"] in_g
    by (fastforce simp: gt_def gu_def)
  moreover have "\<And>h. h \<in> set (gt @ gu) \<Longrightarrow> kind_at h (a_socks s) \<noteq> None" using in_g by auto
  ultimately obtain socks' where r: "each remove_sock (gt @ gu) (a_socks s) = Some socks'"
    and k: "\<And>h. kind_at h socks' = (if h \<in> set (gt @ gu) then None else kind_at h (a_socks s))"
    using remove_all by blast
  have keep_t: "kind_at (tf_handle (snd x)) socks' = kind_at (tf_handle (snd x)) (a_socks s)" if "x \<in> set (a_tcp s)" "?kt x" for x
    using distinct_partition(2) [where P = ?kt, OF d(1) that] kt [OF that(1)] in_g(2) k [of "tf_handle (snd x)"]
    by (cases x) (auto simp: gt_def)
  have keep_u: "kind_at (uf_handle (snd x)) socks' = kind_at (uf_handle (snd x)) (a_socks s)" if "x \<in> set (a_udp s)" "?ku x" for x
    using distinct_partition(2) [where P = ?ku, OF d(2) that] ku [OF that(1)] in_g(1) k [of "uf_handle (snd x)"]
    by (cases x) (auto simp: gu_def)
  let ?s' = "s\<lparr>a_socks := socks', a_tcp := filter ?kt (a_tcp s), a_udp := filter ?ku (a_udp s)\<rparr>"
  have "evict_flows now s = Some ?s'"
    using r by (simp add: evict_flows_def gt_def gu_def Let_def)
  moreover have "actor_ok ?s'"
    using table_filter [OF ok(1) keep_t] table_filter [OF ok(2) keep_u] by (simp add: actor_ok_def tcp_hs_def udp_hs_def)
  moreover have "get_tcp (tf_handle f) (a_socks ?s') = None" if "(key, f) \<in> set (a_tcp s)" "TCP_IDLE \<le> now - tf_last f" for key f
  proof -
    have "tf_handle f \<in> set gt" using that by (force simp: gt_def)
    then have "kind_at (tf_handle f) socks' = None" using k by simp
    then show ?thesis using get_kind(1) [of "tf_handle f" socks'] by (cases "get_tcp (tf_handle f) socks'") auto
  qed
  ultimately show ?thesis by blast
qed

section \<open>The actor\<close>

lemma handle_ok:
  assumes "smol_laws S" "actor_ok s"
  shows "case handle_msg S now m s of
      None \<Rightarrow> \<exists>h d. m = TcpData h d \<and> get_tcp h (a_socks s) = None
    | Some s' \<Rightarrow> actor_ok s' \<and> (\<forall>h d. m = TcpData h d \<longrightarrow> get_tcp h (a_socks s) \<noteq> None)"
proof (cases m)
  case (Inbound pkt)
  let ?s1 = "ensure_flow S now pkt s"
  have 1: "actor_ok (?s1\<lparr>a_dev := inject pkt (a_dev ?s1)\<rparr>)"
    using ensure_flow_ok [OF assms, of now pkt] by (simp add: actor_ok_def tcp_hs_def udp_hs_def)
  let ?s2 = "poll_iface S (?s1\<lparr>a_dev := inject pkt (a_dev ?s1)\<rparr>)"
  have 2: "actor_ok ?s2" by (rule same_shape_ok [OF poll_iface_shape [OF assms(1)] 1])
  from start_tcp_relays_ok [OF 2, of S] obtain s3 where 3: "start_tcp_relays S ?s2 = Some s3" "actor_ok s3"
    using same_shape_ok 2 by blast
  from drain_tcp_recv_ok [OF 3(2), of S now] obtain s4 where 4: "drain_tcp_recv S now s3 = Some s4" "actor_ok s4"
    using same_shape_ok 3(2) by blast
  from drain_udp_recv_ok [OF 4(2), of S now] obtain s5 where "drain_udp_recv S now s4 = Some s5" "actor_ok s5"
    using same_shape_ok 4(2) by blast
  with 3 4 show ?thesis by (simp add: Inbound)
next
  case (TcpData h d)
  show ?thesis
  proof (cases "get_tcp h (a_socks s)")
    case None
    then show ?thesis by (simp add: TcpData feed_tcp_send_def)
  next
    case (Some k)
    then have "kind_at h (a_socks s) = Some True" by (rule get_kind(1) [THEN iffD1, OF exI])
    from feed_tcp_send_ok [OF this, of S d] obtain s' where "feed_tcp_send S h d s = Some s'" "same_shape s s'" by blast
    with Some same_shape_ok assms(2) same_shape_ok [OF poll_iface_shape [OF assms(1)]] show ?thesis by (auto simp: TcpData)
  qed
next
  case (UdpReply h d)
  have "\<exists>s'. (case reply_src h (a_udp s) of None \<Rightarrow> Some s | Some peer_ep \<Rightarrow> feed_udp_send S h peer_ep d s) = Some s' \<and> actor_ok s'"
  proof (cases "reply_src h (a_udp s)")
    case (Some ep)
    then obtain key where "(key, h) \<in> set (udp_hs s)" using reply_src_flow by blast
    then have "kind_at h (a_socks s) = Some False" using assms(2) table_okD(1) by (metis actor_ok_def)
    with Some feed_udp_send_ok same_shape_ok assms(2) show ?thesis by fastforce
  qed (use assms(2) in simp)
  then show ?thesis using same_shape_ok [OF poll_iface_shape [OF assms(1)]] by (auto simp: UdpReply)
next
  case Tick
  let ?s0 = "poll_iface S s"
  have 0: "actor_ok ?s0" by (rule same_shape_ok [OF poll_iface_shape [OF assms(1)] assms(2)])
  from drain_tcp_recv_ok [OF 0, of S now] obtain s1 where 1: "drain_tcp_recv S now ?s0 = Some s1" "actor_ok s1"
    using same_shape_ok 0 by blast
  from drain_udp_recv_ok [OF 1(2), of S now] obtain s2 where 2: "drain_udp_recv S now s1 = Some s2" "actor_ok s2"
    using same_shape_ok 1(2) by blast
  from start_tcp_relays_ok [OF 2(2), of S] obtain s3 where 3: "start_tcp_relays S s2 = Some s3" "actor_ok s3"
    using same_shape_ok 2(2) by blast
  from evict_ok [OF 3(2), of now] 1 2 3 show ?thesis by (auto simp: Tick)
qed

inductive reachable_actor :: "'k smol \<Rightarrow> 'k actor \<Rightarrow> bool" for S where
  start: "reachable_actor S actor_new"
| message: "reachable_actor S s \<Longrightarrow> handle_msg S now m s = Some s' \<Longrightarrow> reachable_actor S s'"

lemma reachable_actor_ok: "reachable_actor S s \<Longrightarrow> smol_laws S \<Longrightarrow> actor_ok s"
proof (induction rule: reachable_actor.induct)
  case start
  show ?case by (rule actor_ok_new)
next
  case (message s now m s')
  with handle_ok [of S s m now] show ?case by simp
qed

text \<open>
  C20.  Whatever packets a peer sends and whatever arrives from the network, in every reachable state the actor's flow tables refer to sockets
  of the right kind, one per flow, and the only message that can make the actor panic is TCP data of a relay whose
  socket is gone.
\<close>

theorem wg_actor_panics_iff:
  assumes "smol_laws S" "reachable_actor S s"
  shows "actor_ok s \<and> (handle_msg S now m s = None \<longleftrightarrow> (\<exists>h d. m = TcpData h d \<and> get_tcp h (a_socks s) = None))"
proof -
  have ok: "actor_ok s" by (rule reachable_actor_ok [OF assms(2,1)])
  have "handle_msg S now m s = None \<longleftrightarrow> (\<exists>h d. m = TcpData h d \<and> get_tcp h (a_socks s) = None)"
    using handle_ok [OF assms(1) ok, of m now] by (auto split: option.splits)
  with ok show ?thesis ..
qed

section \<open>A download that outlives the idle limit\<close>

definition stale :: "flow_key \<Rightarrow> nat \<Rightarrow> nat \<Rightarrow> 'k actor \<Rightarrow> bool" where
  "stale key h t s \<longleftrightarrow> (\<exists>f. (key, f) \<in> set (a_tcp s) \<and> tf_handle f = h \<and> tf_last f = t)"

lemma stale_hs: "stale key h t s \<Longrightarrow> (key, h) \<in> set (tcp_hs s)"
  by (force simp: stale_def tcp_hs_def)

lemma drain_tcp_stale:
  assumes "actor_ok s" "(key', tf_handle f') \<in> set (tcp_hs s)" "stale key h t s"
    and "get_tcp h (a_socks s) = Some k" "fst (tcp_recv S k) = []" "drain_tcp S now (key', f') s = Some s'"
  shows "stale key h t s' \<and> get_tcp h (a_socks s') = Some k"
proof -
  have eq: "key' = key \<longleftrightarrow> tf_handle f' = h"
    using assms(1) table_okD(2) [OF _ assms(2) stale_hs [OF assms(3)]] by (auto simp: actor_ok_def)
  obtain d k2 where k2: "tcp_recv S k = (d, k2)" by fastforce
  with assms(5) have d: "d = []" by simp
  show ?thesis
  proof (cases "key' = key")
    case True
    with eq assms(3,4,6) k2 d show ?thesis by (simp add: drain_tcp_def split: if_splits)
  next
    case False
    with eq have h: "tf_handle f' \<noteq> h" by simp
    have "get_tcp h ((a_socks s)[tf_handle f' := x]) = get_tcp h (a_socks s)" for x using h by (simp add: get_tcp_def)
    moreover have "stale key h t (u\<lparr>a_tcp := set_val key' g (a_tcp s)\<rparr>)" for u :: "'a actor" and g
      using assms(3) False by (auto simp: stale_def set_val_other)
    ultimately show ?thesis using assms(3,4,6) by (auto simp: drain_tcp_def split: if_splits option.splits prod.splits)
  qed
qed

lemma drain_tcp_recv_stale:
  assumes "actor_ok s" "stale key h t s" "get_tcp h (a_socks s) = Some k" "fst (tcp_recv S k) = []"
    and "drain_tcp_recv S now s = Some s'"
  shows "stale key h t s'"
proof -
  let ?Q = "\<lambda>u. same_shape s u \<and> stale key h t u \<and> get_tcp h (a_socks u) = Some k"
  have "\<exists>s'. each (drain_tcp S now) (a_tcp s) s = Some s' \<and> True \<and> ?Q s'"
  proof (rule each_ok [where R = "\<lambda>_ _. True"])
    fix x u
    assume x: "x \<in> set (a_tcp s)" and q: "?Q u"
    obtain key' f' where e: "x = (key', f')" by fastforce
    have hs: "(key', tf_handle f') \<in> set (tcp_hs u)" using in_hs(1) x q unfolding e by blast
    have ok: "actor_ok u" using q same_shape_ok assms(1) by blast
    obtain u' where u': "drain_tcp S now (key', f') u = Some u'" "same_shape u u'" using drain_tcp_ok [OF ok hs] by blast
    have "stale key h t u' \<and> get_tcp h (a_socks u') = Some k" by (rule drain_tcp_stale [OF ok hs _ _ assms(4) u'(1)]) (use q in simp_all)
    with u' q same_shape_trans show "\<exists>s'. drain_tcp S now x u = Some s' \<and> True \<and> ?Q s'" unfolding e by blast
  qed (use assms(2,3) same_shape_refl in auto)
  with assms(5) show ?thesis unfolding drain_tcp_recv_def by auto
qed

lemma each_keeps:
  assumes "\<And>x s s'. f x s = Some s' \<Longrightarrow> g s' = g s" "each f xs s = Some s'"
  shows "g s' = g s"
  using assms(2)
proof (induction xs arbitrary: s)
  case (Cons x xs)
  then obtain u where "f x s = Some u" "each f xs u = Some s'" by (auto split: option.splits)
  with assms(1) Cons.IH show ?case by metis
qed simp

lemma drain_udp_recv_tcp: "drain_udp_recv S now s = Some s' \<Longrightarrow> a_tcp s' = a_tcp s"
  unfolding drain_udp_recv_def
  by (rule each_keeps [where g = a_tcp]) (auto simp: drain_udp_def split: option.splits prod.splits if_splits)

lemma feed_tcp_send_tcp: "feed_tcp_send S h d s = Some s' \<Longrightarrow> a_tcp s' = a_tcp s"
  by (auto simp: feed_tcp_send_def split: option.splits)

lemma poll_iface_tcp [simp]: "a_tcp (poll_iface S s) = a_tcp s"
  by (simp add: poll_iface_def split: prod.splits)

lemma start_tcp_relays_stale:
  assumes "actor_ok s" "stale key h t s" "start_tcp_relays S s = Some s'"
  shows "stale key h t s'"
proof -
  let ?Q = "\<lambda>u. same_shape s u \<and> stale key h t u"
  obtain f where f: "(key, f) \<in> set (a_tcp s)" "tf_handle f = h" "tf_last f = t" using assms(2) by (auto simp: stale_def)
  have dist: "distinct (map fst (a_tcp s))" using assms(1) by (simp add: actor_ok_def table_ok_def tcp_hs_def split_def o_def)
  have "\<exists>s'. each (start_relay S) (a_tcp s) s = Some s' \<and> True \<and> ?Q s'"
  proof (rule each_ok [where R = "\<lambda>_ _. True"])
    fix x u
    assume x: "x \<in> set (a_tcp s)" and q: "?Q u"
    obtain key' f' where e: "x = (key', f')" by fastforce
    have hs: "(key', tf_handle f') \<in> set (tcp_hs u)" using in_hs(1) x q unfolding e by blast
    have ok: "actor_ok u" using q same_shape_ok assms(1) by blast
    obtain u' where u': "start_relay S (key', f') u = Some u'" "same_shape u u'" using start_relay_ok [OF ok hs] by blast
    have same: "f' = f" if "key' = key" using that x f(1) dist unfolding e by (metis eq_key_imp_eq_value)
    have "stale key h t (w\<lparr>a_tcp := set_val key' g (a_tcp u)\<rparr>)" if "tf_handle g = tf_handle f'" "tf_last g = tf_last f'" for w :: "'a actor" and g
    proof -
      from q obtain f1 where f1: "(key, f1) \<in> set (a_tcp u)" "tf_handle f1 = h" "tf_last f1 = t" by (auto simp: stale_def)
      show ?thesis
      proof (cases "key' = key")
        case True
        with that same f f1 show ?thesis by (auto simp: stale_def intro!: exI [of _ g] set_val_hit)
      next
        case False
        with f1 show ?thesis by (auto simp: stale_def set_val_other)
      qed
    qed
    then have "stale key h t u'" using u'(1) q by (auto simp: start_relay_def split: if_splits option.splits)
    with u' q same_shape_trans show "\<exists>s'. start_relay S x u = Some s' \<and> True \<and> ?Q s'" unfolding e by blast
  qed (use assms(2) same_shape_refl in auto)
  with assms(3) show ?thesis unfolding start_tcp_relays_def by auto
qed

lemma run_data_tcp:
  assumes "each (\<lambda>(t, h, d). handle_msg S t (TcpData h d)) ms s = Some s'"
  shows "a_tcp s' = a_tcp s"
  by (rule each_keeps [where g = a_tcp, OF _ assms]) (auto dest: feed_tcp_send_tcp split: prod.splits)

lemma run_data_reachable:
  "each (\<lambda>(t, h, d). handle_msg S t (TcpData h d)) ms s = Some s' \<Longrightarrow> reachable_actor S s \<Longrightarrow> reachable_actor S s'"
proof (induction ms arbitrary: s)
  case (Cons m ms)
  obtain t h d where m: "m = (t, h, d)" by (cases m)
  from Cons.prems obtain u where "handle_msg S t (TcpData h d) s = Some u"
    "each (\<lambda>(t, h, d). handle_msg S t (TcpData h d)) ms u = Some s'"
    unfolding m each.simps prod.case by (auto simp del: handle_msg.simps split: option.splits)
  with Cons reachable_actor.message show ?case by blast
qed simp

text \<open>
  C22.  A download that lasts five minutes kills the peer's actor: data from the network does not refresh a flow, so when the peer has
  sent no payload for 300 seconds the next tick removes the flow and its socket, however much was received meanwhile, and the next
  bytes of the still running relay make the actor panic.
\<close>

theorem wg_download_kills_actor:
  assumes "smol_laws S" "reachable_actor S s" "(key, f) \<in> set (a_tcp s)"
    and "each (\<lambda>(t, h, d). handle_msg S t (TcpData h d)) ms s = Some s1"
    and "tf_last f + TCP_IDLE \<le> now"
    and "\<forall>k. get_tcp (tf_handle f) (a_socks (poll_iface S s1)) = Some k \<longrightarrow> fst (tcp_recv S k) = []"
  shows "\<exists>s2. handle_msg S now Tick s1 = Some s2 \<and> (\<forall>now' d. handle_msg S now' (TcpData (tf_handle f) d) s2 = None)"
proof -
  have ok1: "actor_ok s1" by (rule reachable_actor_ok [OF run_data_reachable [OF assms(4,2)] assms(1)])
  let ?s0 = "poll_iface S s1" and ?h = "tf_handle f" and ?t = "tf_last f"
  have ok0: "actor_ok ?s0" by (rule same_shape_ok [OF poll_iface_shape [OF assms(1)] ok1])
  have st0: "stale key ?h ?t ?s0" using assms(3) run_data_tcp [OF assms(4)] by (auto simp: stale_def)
  obtain k where k: "get_tcp ?h (a_socks ?s0) = Some k" by (rule tcp_socket [OF ok0 stale_hs [OF st0]])
  obtain s2 where s2: "drain_tcp_recv S now ?s0 = Some s2" "actor_ok s2" using drain_tcp_recv_ok [OF ok0] same_shape_ok ok0 by blast
  have st2: "stale key ?h ?t s2" by (rule drain_tcp_recv_stale [OF ok0 st0 k _ s2(1)]) (use assms(6) k in blast)
  obtain s3 where s3: "drain_udp_recv S now s2 = Some s3" "actor_ok s3" using drain_udp_recv_ok [OF s2(2)] same_shape_ok s2(2) by blast
  have st3: "stale key ?h ?t s3" using st2 drain_udp_recv_tcp [OF s3(1)] by (simp add: stale_def)
  obtain s4 where s4: "start_tcp_relays S s3 = Some s4" "actor_ok s4" using start_tcp_relays_ok [OF s3(2)] same_shape_ok s3(2) by blast
  obtain g where g: "(key, g) \<in> set (a_tcp s4)" "tf_handle g = ?h" "tf_last g = ?t"
    using start_tcp_relays_stale [OF s3(2) st3 s4(1)] by (auto simp: stale_def)
  have "TCP_IDLE \<le> now - tf_last g" using assms(5) g(3) by simp
  with evict_ok [OF s4(2), of now] g obtain s5 where s5: "evict_flows now s4 = Some s5" "get_tcp ?h (a_socks s5) = None" by metis
  have "handle_msg S now Tick s1 = Some s5" using s2 s3 s4 s5 by simp
  with s5(2) show ?thesis by (simp add: feed_tcp_send_def)
qed

section \<open>An instance of the library\<close>

definition toy_smol :: "unit smol" where
  "toy_smol = \<lparr>tcp_listen = \<lambda>_ _. Some (), udp_bind = \<lambda>_ _. Some (), free_slot = length, established = \<lambda>_. True,
     tcp_recv = \<lambda>k. ([], k), udp_recv = \<lambda>k. ([], k), tcp_send = \<lambda>_ k. k, udp_send = \<lambda>_ _ k. k,
     poll = \<lambda>(d, socks). (d\<lparr>dev_rx := []\<rparr>, socks)\<rparr>"

lemma toy_smol_laws: "smol_laws toy_smol"
  by (simp add: smol_laws_def toy_smol_def)

definition demo_key :: flow_key where "demo_key = FlowKey 6 (SockV4 7 5000) (SockV4 8 443)"

abbreviation demo_syn :: bytes where
  "demo_syn \<equiv> ip4_packet 5 (replicate 8 0) 6 [0, 0] 7 8 [] (to_be 2 (5000 :: u16) @ to_be 2 (443 :: u16) @ [])"

definition demo_actor :: "unit actor" where
  "demo_actor = actor_new\<lparr>a_socks := [Some (Tcp ())],
     a_tcp := [(demo_key, \<lparr>tf_handle = 0, outbound_tx = Some 0, relay_started = True, tf_last = 10\<rparr>)],
     a_tcp_relays := [\<lparr>tr_handle = 0, tr_dst = SockV4 8 443, tr_in = []\<rparr>]\<rparr>"

lemma demo_reachable: "reachable_actor toy_smol demo_actor"
proof (rule reachable_actor.message [OF reachable_actor.start])
  have "parse_flow_key demo_syn = Some demo_key" unfolding demo_key_def by (rule parse_ip4) simp_all
  then show "handle_msg toy_smol 10 (Inbound demo_syn) actor_new = Some demo_actor"
    by (simp add: ensure_flow_def demo_key_def ensure_tcp_def actor_new_def toy_smol_def add_sock_def poll_iface_def
        inject_def dev_new_def start_tcp_relays_def start_relay_def get_tcp_def drain_tcp_recv_def drain_tcp_def
        drain_udp_recv_def demo_actor_def)
qed

theorem wg_actor_panics_iff_witness:
  "actor_ok demo_actor \<and> handle_msg toy_smol 20 (TcpData 1 [5]) demo_actor = None"
  using wg_actor_panics_iff [OF toy_smol_laws demo_reachable, of 20 "TcpData 1 [5]"]
  by (simp add: get_tcp_def demo_actor_def del: handle_msg.simps)

theorem wg_download_kills_actor_witness:
  "\<exists>s2. handle_msg toy_smol 310 Tick demo_actor = Some s2 \<and> handle_msg toy_smol 311 (TcpData 0 [5]) s2 = None"
proof -
  define f where "f = \<lparr>tf_handle = 0, outbound_tx = Some 0, relay_started = True, tf_last = 10\<rparr>"
  have f: "(demo_key, f) \<in> set (a_tcp demo_actor)" "tf_handle f = 0" "tf_last f + TCP_IDLE \<le> 310"
    by (simp_all add: demo_actor_def f_def TCP_IDLE_def)
  have "each (\<lambda>(t, h, d). handle_msg toy_smol t (TcpData h d)) [(200, 0, [1, 2])] demo_actor = Some demo_actor"
    by (simp add: feed_tcp_send_def get_tcp_def demo_actor_def toy_smol_def poll_iface_def actor_new_def dev_new_def)
  from wg_download_kills_actor [OF toy_smol_laws demo_reachable f(1) this f(3)] f(2) show ?thesis
    by (auto simp: toy_smol_def simp del: handle_msg.simps)
qed

end
