(* ===== verification/Wireguard_Relay.thy ===== *)
theory Wireguard_Relay
  imports Wireguard_Stack
begin

text \<open>
  The relay tasks of the WireGuard actor (\<open>spawn_tcp_relay\<close> and \<open>spawn_udp_relay\<close> of \<open>wireguard/stack.rs\<close>): between the channels
  of the actor and sockets of the operating system.  What the operating system answers to each call
  is an argument; the messages a task sends to the actor are its result.
\<close>

section \<open>The TCP relay\<close>

text \<open>
  The forwarding half: each read of the remote connection, \<open>None\<close> for an error and no bytes at its end, with whether the actor still takes
  messages.
\<close>

fun tcp_fwd :: "nat \<Rightarrow> (bytes option \<times> bool) list \<Rightarrow> msg list" where
  "tcp_fwd h [] = []"
| "tcp_fwd h ((r, taken) # rs) =
     (case r of
        None \<Rightarrow> []
      | Some data \<Rightarrow> if data = [] then [] else if taken then TcpData h data # tcp_fwd h rs else [])"

text \<open>The other half writes what the actor gives it; \<open>Some n\<close> is a write that fails after \<open>n\<close> bytes.\<close>

fun tcp_bwd :: "(bytes \<times> nat option) list \<Rightarrow> bytes" where
  "tcp_bwd [] = []"
| "tcp_bwd ((data, failed) # ds) =
     (case failed of Some n \<Rightarrow> take n data | None \<Rightarrow> data @ tcp_bwd ds)"

record tcp_env =
  te_reads :: "(bytes option \<times> bool) list"
  te_writes :: "(bytes \<times> nat option) list"

text \<open>The task: the messages to the actor and the bytes written; \<open>None\<close> when the connection is refused.\<close>

definition tcp_relay_task :: "nat \<Rightarrow> tcp_env option \<Rightarrow> msg list \<times> bytes" where
  "tcp_relay_task h connection =
     (case connection of
        None \<Rightarrow> ([], [])
      | Some env \<Rightarrow> (tcp_fwd h (te_reads env), tcp_bwd (te_writes env)))"

section \<open>The UDP relay\<close>

text \<open>The sockets of a task, each with the datagrams waiting in it; what it sent; and its messages to the actor.\<close>

record udp_task =
  ut_sock4 :: "bytes list option"
  ut_sock6 :: "bytes list option"
  ut_out :: "(socket_addr \<times> bytes) list"
  ut_msgs :: "msg list"

definition udp_task_new :: udp_task where
  "udp_task_new = \<lparr>ut_sock4 = None, ut_sock6 = None, ut_out = [], ut_msgs = []\<rparr>"

text \<open>
  What happens in one turn: whether a socket can be bound and the datagram sent, and the datagrams that arrive since the last turn, the second
  of waiting included.  Anyone may have sent them; the relay does not look at their source.  \<open>ue_arrived\<close> is what the system's receive buffer keeps: a
  datagram that finds it full is lost before the program sees it, and is not in the list.
\<close>

record udp_env =
  ue_binds :: bool
  ue_sends :: bool
  ue_arrived :: "bytes list"

fun is_ipv4 :: "socket_addr \<Rightarrow> bool" where
  "is_ipv4 (SockV4 a p) = True"
| "is_ipv4 (SockV6 a p) = False"

definition sock_of :: "bool \<Rightarrow> udp_task \<Rightarrow> bytes list option" where
  "sock_of v4 s = (if v4 then ut_sock4 s else ut_sock6 s)"

definition set_sock :: "bool \<Rightarrow> bytes list \<Rightarrow> udp_task \<Rightarrow> udp_task" where
  "set_sock v4 q s = (if v4 then s\<lparr>ut_sock4 := Some q\<rparr> else s\<lparr>ut_sock6 := Some q\<rparr>)"

definition bind_sock :: "bool \<Rightarrow> udp_env \<Rightarrow> udp_task \<Rightarrow> udp_task" where
  "bind_sock v4 env s = (if sock_of v4 s = None \<and> ue_binds env then set_sock v4 [] s else s)"

definition udp_turn :: "nat \<Rightarrow> udp_env \<Rightarrow> socket_addr \<times> bytes \<Rightarrow> udp_task \<Rightarrow> udp_task" where
  "udp_turn h env dgram s =
     (let v4 = is_ipv4 (fst dgram); s = bind_sock v4 env s
      in case sock_of v4 s of
           None \<Rightarrow> s
         | Some q \<Rightarrow>
             let q = q @ ue_arrived env
             in if \<not> ue_sends env then set_sock v4 q s
                else let s = s\<lparr>ut_out := ut_out s @ [dgram]\<rparr>
                     in case q of
                          [] \<Rightarrow> set_sock v4 [] s
                        | data # rest \<Rightarrow> set_sock v4 rest (s\<lparr>ut_msgs := ut_msgs s @ [UdpReply h data]\<rparr>))"

definition udp_relay_task :: "nat \<Rightarrow> (udp_env \<times> socket_addr \<times> bytes) list \<Rightarrow> udp_task" where
  "udp_relay_task h turns = fold (\<lambda>(env, dgram). udp_turn h env dgram) turns udp_task_new"

section \<open>What the relays pass on\<close>

fun msg_data :: "msg \<Rightarrow> bytes" where
  "msg_data (Inbound d) = d"
| "msg_data (TcpData h d) = d"
| "msg_data (UdpReply h d) = d"
| "msg_data Tick = []"

text \<open>The bytes of a remote stream: everything before its end or its first error.\<close>

definition reads_data :: "(bytes option \<times> bool) list \<Rightarrow> bytes" where
  "reads_data rs = concat (map (the \<circ> fst) (takeWhile (\<lambda>r. fst r \<noteq> None \<and> fst r \<noteq> Some []) rs))"

lemma tcp_fwd_data:
  "list_all snd rs \<Longrightarrow> concat (map msg_data (tcp_fwd h rs)) = reads_data rs"
  by (induction h rs rule: tcp_fwd.induct) (auto simp: reads_data_def split: option.splits)

lemma tcp_fwd_kind: "m \<in> set (tcp_fwd h rs) \<Longrightarrow> \<exists>d. m = TcpData h d \<and> d \<noteq> [] \<and> Some d \<in> fst ` set rs"
  by (induction h rs rule: tcp_fwd.induct) (auto split: option.splits if_splits)

lemma tcp_fwd_end: "tcp_fwd h (rs @ (Some [], b) # rs') = tcp_fwd h rs"
  by (induction h rs rule: tcp_fwd.induct) (auto split: option.splits)

lemma tcp_bwd_ok: "list_all (\<lambda>w. snd w = None) ds \<Longrightarrow> tcp_bwd ds = concat (map fst ds)"
  by (induction ds rule: tcp_bwd.induct) auto

text \<open>A task that has turned towards one destination only, which is the case for the relay of a flow.\<close>

definition udp_inv :: "nat \<Rightarrow> bool \<Rightarrow> bytes list \<Rightarrow> nat \<Rightarrow> udp_task \<Rightarrow> bool" where
  "udp_inv h v4 arrived n s \<longleftrightarrow>
     (\<exists>ds q. ut_msgs s = map (UdpReply h) ds \<and> (sock_of v4 s = Some q \<or> sock_of v4 s = None \<and> q = [])
        \<and> ds @ q = arrived \<and> length ds \<le> n \<and> n = length (ut_out s))"

lemma sock_of_simps [simp]:
  "sock_of v4 (set_sock v4 q s) = Some q" "ut_msgs (set_sock v4 q s) = ut_msgs s" "ut_out (set_sock v4 q s) = ut_out s"
  "sock_of v4 (s\<lparr>ut_out := x\<rparr>) = sock_of v4 s" "sock_of v4 (s\<lparr>ut_msgs := y\<rparr>) = sock_of v4 s"
  by (simp_all add: sock_of_def set_sock_def)

lemma udp_turn_step:
  assumes "ue_binds env" "is_ipv4 (fst dgram) = v4" "udp_inv h v4 arrived n s"
  shows "udp_inv h v4 (arrived @ ue_arrived env) (if ue_sends env then n + 1 else n) (udp_turn h env dgram s)"
proof -
  from assms(3) obtain ds q where i: "ut_msgs s = map (UdpReply h) ds" "ds @ q = arrived" "length ds \<le> n" "n = length (ut_out s)"
    "sock_of v4 s = Some q \<or> sock_of v4 s = None \<and> q = []" unfolding udp_inv_def by blast
  let ?s = "bind_sock v4 env s"
  have b: "sock_of v4 ?s = Some q" "ut_msgs ?s = ut_msgs s" "ut_out ?s = ut_out s"
    using i(5) assms(1) by (auto simp: bind_sock_def)
  show ?thesis
  proof (cases "ue_sends env")
    case False
    then have "udp_turn h env dgram s = set_sock v4 (q @ ue_arrived env) ?s" using b assms(2) by (simp add: udp_turn_def Let_def)
    with i b False show ?thesis unfolding udp_inv_def by (intro exI [of _ ds] exI [of _ "q @ ue_arrived env"]) auto
  next
    case True
    show ?thesis
    proof (cases "q @ ue_arrived env")
      case Nil
      then have "udp_turn h env dgram s = set_sock v4 [] (?s\<lparr>ut_out := ut_out s @ [dgram]\<rparr>)"
        using b assms(2) True by (simp add: udp_turn_def Let_def)
      with i b True Nil show ?thesis unfolding udp_inv_def by (intro exI [of _ ds] exI [of _ "[]"]) auto
    next
      case (Cons d rest)
      then have "udp_turn h env dgram s
          = set_sock v4 rest (?s\<lparr>ut_out := ut_out s @ [dgram], ut_msgs := ut_msgs s @ [UdpReply h d]\<rparr>)"
        using b assms(2) True by (simp add: udp_turn_def Let_def)
      moreover have "(ds @ [d]) @ rest = arrived @ ue_arrived env" using Cons i(2) by auto
      ultimately show ?thesis using i b True unfolding udp_inv_def by (intro exI [of _ "ds @ [d]"] exI [of _ rest]) auto
    qed
  qed
qed

abbreviation turn_sent :: "udp_env \<times> socket_addr \<times> bytes \<Rightarrow> bool" where
  "turn_sent t \<equiv> ue_sends (fst t)"

abbreviation turn_arrived :: "(udp_env \<times> socket_addr \<times> bytes) list \<Rightarrow> bytes list" where
  "turn_arrived ts \<equiv> concat (map (\<lambda>t. ue_arrived (fst t)) ts)"

lemma udp_relay_inv:
  assumes "\<forall>t \<in> set ts. ue_binds (fst t) \<and> is_ipv4 (fst (snd t)) = v4"
  shows "udp_inv h v4 (turn_arrived ts) (length (filter turn_sent ts)) (udp_relay_task h ts)"
  using assms
proof (induction ts rule: rev_induct)
  case Nil
  show ?case by (simp add: udp_inv_def udp_relay_task_def udp_task_new_def sock_of_def)
next
  case (snoc t ts)
  obtain env dgram where t: "t = (env, dgram)" by (cases t)
  have "udp_inv h v4 (turn_arrived ts) (length (filter turn_sent ts)) (udp_relay_task h ts)" using snoc by simp
  from udp_turn_step [OF _ _ this, of env dgram] snoc(2) t show ?case
    by (auto simp: udp_relay_task_def)
qed

lemma udp_turn_out:
  assumes "ue_binds env"
  shows "ut_out (udp_turn h env dgram s) = ut_out s @ (if ue_sends env then [dgram] else [])"
proof -
  let ?v = "is_ipv4 (fst dgram)"
  have "sock_of ?v (bind_sock ?v env s) \<noteq> None" "ut_out (bind_sock ?v env s) = ut_out s"
    using assms by (auto simp: bind_sock_def)
  then show ?thesis by (auto simp: udp_turn_def Let_def split: list.split)
qed

lemma udp_relay_out:
  "\<forall>t \<in> set ts. ue_binds (fst t) \<Longrightarrow> ut_out (udp_relay_task h ts) = map snd (filter turn_sent ts)"
  by (induction ts rule: rev_induct) (auto simp: udp_relay_task_def udp_turn_out udp_task_new_def split: prod.splits)

lemma udp_turn_busy:
  assumes "ue_binds env" "ue_sends env" "ue_arrived env \<noteq> []"
  shows "length (ut_msgs (udp_turn h env dgram s)) = length (ut_msgs s) + 1"
proof -
  let ?v = "is_ipv4 (fst dgram)"
  obtain q where "sock_of ?v (bind_sock ?v env s) = Some q" "ut_msgs (bind_sock ?v env s) = ut_msgs s"
    using assms(1) by (cases "sock_of ?v s") (auto simp: bind_sock_def)
  with assms show ?thesis by (auto simp: udp_turn_def Let_def split: list.split)
qed

definition busy :: "udp_env \<times> socket_addr \<times> bytes \<Rightarrow> bool" where
  "busy t \<longleftrightarrow> ue_binds (fst t) \<and> ue_sends (fst t) \<and> ue_arrived (fst t) \<noteq> []"

lemma udp_relay_busy:
  "list_all busy ts \<Longrightarrow> length (ut_msgs (udp_relay_task h ts)) = length ts"
proof (induction ts rule: rev_induct)
  case Nil
  show ?case by (simp add: udp_relay_task_def udp_task_new_def)
next
  case (snoc t ts)
  then show ?case by (cases t) (simp add: udp_relay_task_def busy_def udp_turn_busy)
qed

section \<open>Properties\<close>

text \<open>
  C34.  The UDP relay of a flow sends every datagram it can to its destination and passes replies on in the order they arrived, without change, but never more
  than one for each datagram sent: when every request is answered by two datagrams, half of the answers are still waiting in the socket after any number of
  requests, and the peer receives ever older ones.
\<close>

theorem wg_udp_replies_lag:
  assumes "\<forall>t \<in> set ts. ue_binds (fst t) \<and> is_ipv4 (fst (snd t)) = v4"
  shows "\<exists>ds waiting. ut_msgs (udp_relay_task h ts) = map (UdpReply h) ds \<and> ds @ waiting = turn_arrived ts
    \<and> ut_out (udp_relay_task h ts) = map snd (filter turn_sent ts) \<and> length ds \<le> length (filter turn_sent ts)
    \<and> (list_all (\<lambda>t. turn_sent t \<and> length (ue_arrived (fst t)) = 2) ts \<longrightarrow>
         length waiting = length ts \<and> ds = take (length ts) (turn_arrived ts))"
proof -
  from udp_relay_inv [OF assms, of h] obtain ds q where d: "ut_msgs (udp_relay_task h ts) = map (UdpReply h) ds"
    "ds @ q = turn_arrived ts" "length ds \<le> length (filter turn_sent ts)" unfolding udp_inv_def by blast
  have o: "ut_out (udp_relay_task h ts) = map snd (filter turn_sent ts)" using assms by (intro udp_relay_out) blast
  have "length q = length ts \<and> ds = take (length ts) (turn_arrived ts)"
    if two: "list_all (\<lambda>t. turn_sent t \<and> length (ue_arrived (fst t)) = 2) ts"
  proof -
    have "list_all busy ts" using two assms by (fastforce simp: list_all_iff busy_def)
    then have l: "length ds = length ts" using udp_relay_busy [of ts h] d(1) by simp
    have "length (turn_arrived ts) = 2 * length ts" using two by (induction ts) auto
    moreover have "length ds + length q = length (turn_arrived ts)" by (simp add: d(2) [symmetric])
    ultimately show ?thesis using l d(2) [symmetric] by simp
  qed
  with d o show ?thesis by (intro exI [of _ ds] exI [of _ q]) auto
qed

text \<open>
  The TCP relay passes on exactly the bytes of the remote stream, in order and in messages that are never empty, and writes exactly what the actor gave it;
  but the end of the remote stream leaves no trace, the actor sees what it would see from a connection that has fallen silent.
\<close>

theorem wg_tcp_end_lost:
  assumes "list_all snd rs" "list_all (\<lambda>w. snd w = None) ws"
  shows "tcp_relay_task h (Some \<lparr>te_reads = rs @ (Some [], b) # rs', te_writes = ws\<rparr>)
      = tcp_relay_task h (Some \<lparr>te_reads = rs, te_writes = ws\<rparr>)
    \<and> concat (map msg_data (fst (tcp_relay_task h (Some \<lparr>te_reads = rs, te_writes = ws\<rparr>)))) = reads_data rs
    \<and> (\<exists>ds. fst (tcp_relay_task h (Some \<lparr>te_reads = rs, te_writes = ws\<rparr>)) = map (TcpData h) ds \<and> [] \<notin> set ds)
    \<and> snd (tcp_relay_task h (Some \<lparr>te_reads = rs, te_writes = ws\<rparr>)) = concat (map fst ws)"
proof -
  have "\<exists>ds. ms = map (TcpData h) ds \<and> [] \<notin> set ds" if "\<forall>m \<in> set ms. \<exists>d. m = TcpData h d \<and> d \<noteq> []" for ms
    using that
  proof (induction ms)
    case (Cons m ms)
    then obtain d ds where "m = TcpData h d" "d \<noteq> []" "ms = map (TcpData h) ds" "[] \<notin> set ds" by auto
    then show ?case by (intro exI [of _ "d # ds"]) auto
  qed simp
  then show ?thesis
    using tcp_fwd_kind [of _ h rs] by (simp add: tcp_relay_task_def tcp_fwd_end tcp_fwd_data [OF assms(1)] tcp_bwd_ok [OF assms(2)]) blast
qed

theorem wg_udp_replies_lag_witness:
  "ut_msgs (udp_relay_task 7 [(\<lparr>ue_binds = True, ue_sends = True, ue_arrived = [[1], [2]]\<rparr>, SockV4 0x08080808 53, [9])])
     = [UdpReply 7 [1]]"
proof -
  let ?ts = "[(\<lparr>ue_binds = True, ue_sends = True, ue_arrived = [[1 :: u8], [2]]\<rparr>, SockV4 0x08080808 53, [9 :: u8])]"
  have "\<forall>t \<in> set ?ts. ue_binds (fst t) \<and> is_ipv4 (fst (snd t)) = True" by simp
  from wg_udp_replies_lag [OF this, of 7] show ?thesis by auto
qed

theorem wg_tcp_end_lost_witness:
  "tcp_relay_task 3 (Some \<lparr>te_reads = [(Some [1, 2], True), (Some [], True)], te_writes = [([5], None)]\<rparr>)
     = tcp_relay_task 3 (Some \<lparr>te_reads = [(Some [1, 2], True)], te_writes = [([5], None)]\<rparr>)"
  using wg_tcp_end_lost [of "[(Some [1, 2], True)]" "[([5], None)]" 3 True "[]"] by simp

end
