(* ===== verification/Wireguard_Wiring.thy ===== *)
theory Wireguard_Wiring
  imports Wireguard_Relay
begin

text \<open>
  The tasks and bounded channels of the WireGuard server (\<open>spawn_stack\<close> and \<open>run_actor\<close> of \<open>wireguard/stack.rs\<close>, the delivery at the
  end of the receive loop of \<open>wireguard/server.rs\<close>): which task waits for which.  The actor's handling of one message is
  \<open>handle_msg\<close>; here its sends happen one by one, each waiting for room in its channel.
\<close>

section \<open>The model\<close>

definition STACK_CAP :: nat where "STACK_CAP = 512"
definition ACTOR_CAP :: nat where "ACTOR_CAP = 2048"
definition TCP_OUT_CAP :: nat where "TCP_OUT_CAP = 256"
definition UDP_OUT_CAP :: nat where "UDP_OUT_CAP = 128"
definition ENC_CAP :: nat where "ENC_CAP = 1024"

datatype send = Enc bytes | ToTcp nat bytes | ToUdp nat "socket_addr \<times> bytes"

text \<open>What the actor sends while it handles a message: packets to encrypt, then what it read from the TCP and the UDP sockets.\<close>

definition new_items :: "'x list \<Rightarrow> 'x list \<Rightarrow> 'x list" where
  "new_items old new = drop (length old) new"

definition nth_or :: "'x list \<Rightarrow> nat \<Rightarrow> ('x \<Rightarrow> 'y list) \<Rightarrow> 'y list" where
  "nth_or xs i f = (if i < length xs then f (xs ! i) else [])"

definition sends_of :: "'k actor \<Rightarrow> 'k actor \<Rightarrow> send list" where
  "sends_of s s' =
     map Enc (new_items (a_enc s) (a_enc s'))
     @ concat (map (\<lambda>i. map (ToTcp i) (new_items (nth_or (a_tcp_relays s) i tr_in) (nth_or (a_tcp_relays s') i tr_in)))
         [0..<length (a_tcp_relays s')])
     @ concat (map (\<lambda>i. map (ToUdp i) (new_items (nth_or (a_udp_relays s) i ur_in) (nth_or (a_udp_relays s') i ur_in)))
         [0..<length (a_udp_relays s')])"

definition actor_turn :: "'k smol \<Rightarrow> nat \<Rightarrow> msg \<Rightarrow> 'k actor \<Rightarrow> ('k actor \<times> send list) option" where
  "actor_turn S now m s = map_option (\<lambda>s'. (s', sends_of s s')) (handle_msg S now m s)"

text \<open>A UDP relay waits for a datagram, or up to a second for the reply to the one it sent, or has a reply for the actor.\<close>

datatype udp_relay_state = Waiting | Asking | Replying msg

text \<open>
  The channels and tasks of one peer: the packets for the peer, the one that the forwarding task holds, whether the timer has a tick to
  send, the actor's queue, the actor with its unfinished sends, the packets to encrypt, and the relays by their number; a TCP relay that
  has ended is \<open>None\<close>.
\<close>

record 'a wiring =
  wi_stack :: "bytes list"
  wi_fwd :: "bytes option"
  wi_tick :: bool
  wi_queue :: "msg list"
  wi_actor :: 'a
  wi_todo :: "send list"
  wi_enc :: "bytes list"
  wi_tcp :: "nat \<Rightarrow> bytes list option"
  wi_udp :: "nat \<Rightarrow> (socket_addr \<times> bytes) list \<times> udp_relay_state"

definition spawn_stack :: "'a \<Rightarrow> 'a wiring" where
  "spawn_stack a = \<lparr>wi_stack = [], wi_fwd = None, wi_tick = False, wi_queue = [], wi_actor = a, wi_todo = [], wi_enc = [],
     wi_tcp = \<lambda>_. Some [], wi_udp = \<lambda>_. ([], Waiting)\<rparr>"

inductive pstep :: "(nat \<Rightarrow> msg \<Rightarrow> 'a \<Rightarrow> ('a \<times> send list) option) \<Rightarrow> 'a wiring \<Rightarrow> 'a wiring \<Rightarrow> bool" for H where
  fwd_take: "wi_fwd w = None \<Longrightarrow> wi_stack w = p # ps \<Longrightarrow> pstep H w (w\<lparr>wi_fwd := Some p, wi_stack := ps\<rparr>)"
| fwd_put: "wi_fwd w = Some p \<Longrightarrow> length (wi_queue w) < ACTOR_CAP \<Longrightarrow>
    pstep H w (w\<lparr>wi_fwd := None, wi_queue := wi_queue w @ [Inbound p]\<rparr>)"
| tick: "pstep H w (w\<lparr>wi_tick := True\<rparr>)"
| tick_put: "wi_tick w \<Longrightarrow> length (wi_queue w) < ACTOR_CAP \<Longrightarrow>
    pstep H w (w\<lparr>wi_tick := False, wi_queue := wi_queue w @ [Tick]\<rparr>)"
| actor_take: "wi_todo w = [] \<Longrightarrow> wi_queue w = m # ms \<Longrightarrow> H now m (wi_actor w) = Some (a, sends) \<Longrightarrow>
    pstep H w (w\<lparr>wi_queue := ms, wi_actor := a, wi_todo := sends\<rparr>)"
| enc_send: "wi_todo w = Enc b # ts \<Longrightarrow> length (wi_enc w) < ENC_CAP \<Longrightarrow>
    pstep H w (w\<lparr>wi_todo := ts, wi_enc := wi_enc w @ [b]\<rparr>)"
| tcp_send: "wi_todo w = ToTcp i b # ts \<Longrightarrow> wi_tcp w i = Some bs \<Longrightarrow> length bs < TCP_OUT_CAP \<Longrightarrow>
    pstep H w (w\<lparr>wi_todo := ts, wi_tcp := (wi_tcp w)(i := Some (bs @ [b]))\<rparr>)"
| tcp_send_gone: "wi_todo w = ToTcp i b # ts \<Longrightarrow> wi_tcp w i = None \<Longrightarrow> pstep H w (w\<lparr>wi_todo := ts\<rparr>)"
| udp_send: "wi_todo w = ToUdp i x # ts \<Longrightarrow> wi_udp w i = (xs, r) \<Longrightarrow> length xs < UDP_OUT_CAP \<Longrightarrow>
    pstep H w (w\<lparr>wi_todo := ts, wi_udp := (wi_udp w)(i := (xs @ [x], r))\<rparr>)"
| enc_take: "wi_enc w = b # bs \<Longrightarrow> pstep H w (w\<lparr>wi_enc := bs\<rparr>)"
| tcp_take: "wi_tcp w i = Some (b # bs) \<Longrightarrow> pstep H w (w\<lparr>wi_tcp := (wi_tcp w)(i := Some bs)\<rparr>)"
| tcp_end: "pstep H w (w\<lparr>wi_tcp := (wi_tcp w)(i := None)\<rparr>)"
| tcp_data: "length (wi_queue w) < ACTOR_CAP \<Longrightarrow> pstep H w (w\<lparr>wi_queue := wi_queue w @ [TcpData h data]\<rparr>)"
| udp_take: "wi_udp w i = (x # xs, Waiting) \<Longrightarrow> r = Asking \<or> r = Waiting \<Longrightarrow>
    pstep H w (w\<lparr>wi_udp := (wi_udp w)(i := (xs, r))\<rparr>)"
| udp_timeout: "wi_udp w i = (xs, Asking) \<Longrightarrow> pstep H w (w\<lparr>wi_udp := (wi_udp w)(i := (xs, Waiting))\<rparr>)"
| udp_reply: "wi_udp w i = (xs, Asking) \<Longrightarrow>
    pstep H w (w\<lparr>wi_udp := (wi_udp w)(i := (xs, Replying (UdpReply h data)))\<rparr>)"
| udp_put: "wi_udp w i = (xs, Replying m) \<Longrightarrow> length (wi_queue w) < ACTOR_CAP \<Longrightarrow>
    pstep H w (w\<lparr>wi_queue := wi_queue w @ [m], wi_udp := (wi_udp w)(i := (xs, Waiting))\<rparr>)"

text \<open>
  The receive loop of the server: it takes a datagram from the socket, which may be a packet for the stack of a peer, and puts that into the peer's
  channel before it takes the next.
\<close>

record 'a wg_tasks =
  wt_wirings :: "'a wiring list"
  wt_hold :: "(nat \<times> bytes) option"
  wt_received :: nat

inductive sstep :: "(nat \<Rightarrow> msg \<Rightarrow> 'a \<Rightarrow> ('a \<times> send list) option) \<Rightarrow> 'a wg_tasks \<Rightarrow> 'a wg_tasks \<Rightarrow> bool" for H where
  peer: "i < length (wt_wirings s) \<Longrightarrow> pstep H (wt_wirings s ! i) w \<Longrightarrow> sstep H s (s\<lparr>wt_wirings := (wt_wirings s)[i := w]\<rparr>)"
| received: "wt_hold s = None \<Longrightarrow> (\<forall>i p. d = Some (i, p) \<longrightarrow> i < length (wt_wirings s)) \<Longrightarrow>
    sstep H s (s\<lparr>wt_hold := d, wt_received := wt_received s + 1\<rparr>)"
| delivered: "wt_hold s = Some (i, p) \<Longrightarrow> length (wi_stack (wt_wirings s ! i)) < STACK_CAP \<Longrightarrow>
    sstep H s (s\<lparr>wt_hold := None,
      wt_wirings := (wt_wirings s)[i := (wt_wirings s ! i)\<lparr>wi_stack := wi_stack (wt_wirings s ! i) @ [p]\<rparr>]\<rparr>)"

inductive_cases pstepE: "pstep H w w'"
inductive_cases sstepE: "sstep H s s'"

section \<open>The actor and a relay that wait for each other\<close>

text \<open>
  The actor waits for room in the channel of a UDP relay, the relay has a reply and waits for room in the actor's queue, and both are
  full.
\<close>

definition locked :: "'a wiring \<Rightarrow> bool" where
  "locked w \<longleftrightarrow> length (wi_queue w) = ACTOR_CAP \<and>
     (\<exists>i x ts xs m. wi_todo w = ToUdp i x # ts \<and> wi_udp w i = (xs, Replying m) \<and> length xs = UDP_OUT_CAP)"

lemma locked_step:
  assumes "pstep H w w'" "locked w"
  shows "locked w' \<and> wi_actor w' = wi_actor w \<and> wi_queue w' = wi_queue w
    \<and> (\<forall>p. wi_fwd w = Some p \<longrightarrow> wi_fwd w' = Some p \<and> wi_stack w' = wi_stack w)"
proof -
  from assms(2) obtain i x ts xs m where l: "length (wi_queue w) = ACTOR_CAP" "wi_todo w = ToUdp i x # ts"
    "wi_udp w i = (xs, Replying m)" "length xs = UDP_OUT_CAP"
    by (auto simp: locked_def)
  from assms(1) l show ?thesis by cases (auto simp: locked_def fun_upd_apply)
qed

text \<open>With the peer's channel full and a packet for it in hand, the receive loop waits for the locked actor.\<close>

definition server_stuck :: "nat \<Rightarrow> 'a wg_tasks \<Rightarrow> bool" where
  "server_stuck i s \<longleftrightarrow> i < length (wt_wirings s) \<and> locked (wt_wirings s ! i) \<and> wi_fwd (wt_wirings s ! i) \<noteq> None
     \<and> length (wi_stack (wt_wirings s ! i)) = STACK_CAP \<and> (\<exists>p. wt_hold s = Some (i, p))"

lemma stuck_step:
  assumes "sstep H s t" "server_stuck i s"
  shows "server_stuck i t \<and> wt_received t = wt_received s"
  using assms(1)
proof cases
  case (peer j w)
  from assms(2) obtain p where f: "locked (wt_wirings s ! i)" "wi_fwd (wt_wirings s ! i) = Some p" by (auto simp: server_stuck_def)
  show ?thesis
  proof (cases "j = i")
    case True
    with locked_step [OF peer(3) [unfolded True] f(1)] f(2) assms(2) peer show ?thesis by (auto simp: server_stuck_def)
  next
    case False
    with assms(2) peer show ?thesis by (auto simp: server_stuck_def)
  qed
qed (use assms(2) in \<open>auto simp: server_stuck_def\<close>)

lemma stuck_forever:
  assumes "server_stuck i s" "(sstep H)\<^sup>*\<^sup>* s t"
  shows "server_stuck i t \<and> wt_received t = wt_received s"
  using assms(2)
proof (induction rule: rtranclp_induct)
  case (step t u)
  with stuck_step [of H t u i] show ?case by simp
qed (use assms(1) in simp)

section \<open>How a peer gets there\<close>

text \<open>A peer whose only traffic is UDP to one destination.\<close>

definition stage :: "'a \<Rightarrow> send list \<Rightarrow> msg list \<Rightarrow> bytes option \<Rightarrow> bytes list \<Rightarrow> (socket_addr \<times> bytes) list \<Rightarrow> udp_relay_state \<Rightarrow> 'a wiring" where
  "stage a todo queue fwd stack xs r = \<lparr>wi_stack = stack, wi_fwd = fwd, wi_tick = False, wi_queue = queue, wi_actor = a,
     wi_todo = todo, wi_enc = [], wi_tcp = \<lambda>_. Some [], wi_udp = (\<lambda>_. ([], Waiting))(0 := (xs, r))\<rparr>"

lemma stage_simps [simp]:
  "wi_stack (stage a todo q f st xs r) = st" "wi_fwd (stage a todo q f st xs r) = f" "wi_queue (stage a todo q f st xs r) = q"
  "wi_actor (stage a todo q f st xs r) = a" "wi_todo (stage a todo q f st xs r) = todo" "wi_udp (stage a todo q f st xs r) 0 = (xs, r)"
  by (simp_all add: stage_def)

lemma stage_steps:
  "pstep H (stage a todo q None (p # ps) xs r) (stage a todo q (Some p) ps xs r)"
  "length q < ACTOR_CAP \<Longrightarrow> pstep H (stage a todo q (Some p) st xs r) (stage a todo (q @ [Inbound p]) None st xs r)"
  "H now m a = Some (a', sends) \<Longrightarrow> pstep H (stage a [] (m # q) f st xs r) (stage a' sends q f st xs r)"
  "length xs < UDP_OUT_CAP \<Longrightarrow> pstep H (stage a (ToUdp 0 x # ts) q f st xs r) (stage a ts q f st (xs @ [x]) r)"
  "pstep H (stage a todo q f st (x # xs) Waiting) (stage a todo q f st xs Asking)"
  "pstep H (stage a todo q f st xs Asking) (stage a todo q f st xs (Replying (UdpReply h data)))"
  using pstep.fwd_take [of "stage a todo q None (p # ps) xs r" p ps H]
    pstep.fwd_put [of "stage a todo q (Some p) st xs r" p H]
    pstep.actor_take [of "stage a [] (m # q) f st xs r" m q H now a' sends]
    pstep.udp_send [of "stage a (ToUdp 0 x # ts) q f st xs r" 0 x ts xs r H]
    pstep.udp_take [of "stage a todo q f st (x # xs) Waiting" 0 x xs Asking H]
    pstep.udp_reply [of "stage a todo q f st xs Asking" 0 xs H h data]
  by (simp_all add: stage_def)

definition with_peer :: "nat \<Rightarrow> 'a wiring \<Rightarrow> nat \<Rightarrow> 'a wg_tasks \<Rightarrow> 'a wg_tasks" where
  "with_peer i w k s = \<lparr>wt_wirings = (wt_wirings s)[i := w], wt_hold = None, wt_received = k\<rparr>"

text \<open>From one state of the peer to another, while the server goes on receiving.\<close>

definition leads ::
  "(nat \<Rightarrow> msg \<Rightarrow> 'a \<Rightarrow> ('a \<times> send list) option) \<Rightarrow> nat \<Rightarrow> 'a wg_tasks \<Rightarrow> 'a wiring \<Rightarrow> 'a wiring \<Rightarrow> bool" where
  "leads H i s w w' \<longleftrightarrow> (\<forall>k. \<exists>k'. (sstep H)\<^sup>*\<^sup>* (with_peer i w k s) (with_peer i w' k' s))"

lemma leads_refl: "leads H i s w w"
  unfolding leads_def by blast

lemma leads_trans: "leads H i s w w' \<Longrightarrow> leads H i s w' w'' \<Longrightarrow> leads H i s w w''"
  unfolding leads_def by (meson rtranclp_trans)

lemma leads_step:
  assumes "pstep H w w'" "i < length (wt_wirings s)"
  shows "leads H i s w w'"
proof -
  have "sstep H (with_peer i w k s) (with_peer i w' k s)" for k
    using sstep.peer [of i "with_peer i w k s" H w'] assms by (simp add: with_peer_def)
  then show ?thesis unfolding leads_def by blast
qed

lemma leads_push:
  assumes "length st < STACK_CAP" "i < length (wt_wirings s)"
  shows "leads H i s (stage a todo q f st xs r) (stage a todo q f (st @ [p]) xs r)"
  unfolding leads_def
proof (intro allI exI)
  fix k
  let ?s = "with_peer i (stage a todo q f st xs r) k s"
  have "sstep H ?s (?s\<lparr>wt_hold := Some (i, p), wt_received := Suc k\<rparr>)"
    using sstep.received [of ?s "Some (i, p)" H] assms(2) by (simp add: with_peer_def)
  moreover have "sstep H (?s\<lparr>wt_hold := Some (i, p), wt_received := Suc k\<rparr>)
      (with_peer i (stage a todo q f (st @ [p]) xs r) (Suc k) s)"
    using sstep.delivered [of "?s\<lparr>wt_hold := Some (i, p), wt_received := Suc k\<rparr>" i p H] assms
    by (simp add: with_peer_def stage_def)
  ultimately show "(sstep H)\<^sup>*\<^sup>* ?s (with_peer i (stage a todo q f (st @ [p]) xs r) (Suc k) s)"
    by (meson r_into_rtranclp rtranclp_trans)
qed

text \<open>The actor's part: this packet is one datagram for the flow of relay 0, again and again.\<close>

definition udp_flow_of :: "(nat \<Rightarrow> msg \<Rightarrow> 'a \<Rightarrow> ('a \<times> send list) option) \<Rightarrow> bytes \<Rightarrow> socket_addr \<times> bytes \<Rightarrow> (nat \<Rightarrow> 'a) \<Rightarrow> bool" where
  "udp_flow_of H p d a \<longleftrightarrow> (\<forall>n. \<exists>now. H now (Inbound p) (a n) = Some (a (Suc n), [ToUdp 0 d]))"

lemma leads_enqueue:
  assumes "length q < ACTOR_CAP" "i < length (wt_wirings s)"
  shows "leads H i s (stage a todo q None [] xs r) (stage a todo (q @ [Inbound p]) None [] xs r)"
proof -
  have "leads H i s (stage a todo q None [] xs r) (stage a todo q None [p] xs r)"
    using leads_push [of "[]" i s H a todo q None xs r p] assms(2) by (simp add: STACK_CAP_def)
  moreover have "leads H i s (stage a todo q None [p] xs r) (stage a todo q (Some p) [] xs r)"
    by (rule leads_step [OF stage_steps(1) assms(2)])
  moreover have "leads H i s (stage a todo q (Some p) [] xs r) (stage a todo (q @ [Inbound p]) None [] xs r)"
    by (rule leads_step [OF stage_steps(2) [OF assms(1)] assms(2)])
  ultimately show ?thesis by (meson leads_trans)
qed

lemma leads_take:
  assumes "udp_flow_of H p d a" "i < length (wt_wirings s)"
  shows "leads H i s (stage (a n) [] (Inbound p # q) None [] xs r) (stage (a (Suc n)) [ToUdp 0 d] q None [] xs r)"
proof -
  from assms(1) obtain now where "H now (Inbound p) (a n) = Some (a (Suc n), [ToUdp 0 d])" by (auto simp: udp_flow_of_def)
  then show "leads H i s (stage (a n) [] (Inbound p # q) None [] xs r) (stage (a (Suc n)) [ToUdp 0 d] q None [] xs r)"
    by (intro leads_step assms(2) stage_steps(3))
qed

lemma leads_packet:
  assumes "udp_flow_of H p d a" "i < length (wt_wirings s)" "length xs < UDP_OUT_CAP"
  shows "leads H i s (stage (a n) [] [] None [] xs r) (stage (a (Suc n)) [] [] None [] (xs @ [d]) r)"
proof -
  have "leads H i s (stage (a n) [] [] None [] xs r) (stage (a n) [] [Inbound p] None [] xs r)"
    using leads_enqueue [of "[]" i s H "a n" "[]" xs r p] assms(2) by (simp add: ACTOR_CAP_def)
  moreover note leads_take [OF assms(1,2), of n "[]" xs r]
  moreover have "leads H i s (stage (a (Suc n)) [ToUdp 0 d] [] None [] xs r) (stage (a (Suc n)) [] [] None [] (xs @ [d]) r)"
    by (rule leads_step [OF stage_steps(4) [OF assms(3)] assms(2)])
  ultimately show ?thesis by (meson leads_trans)
qed

lemma leads_packets:
  assumes "udp_flow_of H p d a" "i < length (wt_wirings s)" "c \<le> UDP_OUT_CAP"
  shows "leads H i s (stage (a n) [] [] None [] [] r) (stage (a (n + c)) [] [] None [] (replicate c d) r)"
  using assms(3)
proof (induction c)
  case 0
  show ?case by (simp add: leads_refl)
next
  case (Suc c)
  have "replicate c d @ [d] = replicate (Suc c) d" by (simp add: replicate_append_same)
  with leads_packet [OF assms(1,2), of "replicate c d" "n + c" r] Suc show ?case
    by (auto intro: leads_trans)
qed

lemma leads_fill_queue:
  assumes "i < length (wt_wirings s)" "c \<le> ACTOR_CAP"
  shows "leads H i s (stage a todo [] None [] xs r) (stage a todo (replicate c (Inbound p)) None [] xs r)"
  using assms(2)
proof (induction c)
  case 0
  show ?case by (simp add: leads_refl)
next
  case (Suc c)
  have "replicate c (Inbound p) @ [Inbound p] = replicate (Suc c) (Inbound p)" by (simp add: replicate_append_same)
  with leads_enqueue [of "replicate c (Inbound p)" i s H a todo xs r p] assms(1) Suc show ?case
    by (auto intro: leads_trans)
qed

lemma leads_fill_stack:
  assumes "i < length (wt_wirings s)" "c \<le> STACK_CAP"
  shows "leads H i s (stage a todo q f [] xs r) (stage a todo q f (replicate c p) xs r)"
  using assms(2)
proof (induction c)
  case 0
  show ?case by (simp add: leads_refl)
next
  case (Suc c)
  have "replicate c p @ [p] = replicate (Suc c) p" by (simp add: replicate_append_same)
  with leads_push [of "replicate c p" i s H a todo q f xs r p] assms(1) Suc show ?case
    by (auto intro: leads_trans)
qed

text \<open>The whole way: the relay asks, its channel and all queues fill, and then the reply comes.\<close>

lemma leads_locked:
  assumes "udp_flow_of H p d a" "i < length (wt_wirings s)"
  shows "leads H i s (spawn_stack (a 0))
    (stage (a 130) [ToUdp 0 d] (replicate ACTOR_CAP (Inbound p)) (Some p) (replicate STACK_CAP p) (replicate UDP_OUT_CAP d)
      (Replying (UdpReply h data)))"
proof -
  note pk = leads_packet [OF assms, of "[]" 0 Waiting] leads_packets [OF assms, of UDP_OUT_CAP 1 Asking]
  have start: "spawn_stack (a 0) = stage (a 0) [] [] None [] [] Waiting" by (simp add: spawn_stack_def stage_def fun_eq_iff)
  have "leads H i s (stage (a 0) [] [] None [] [] Waiting) (stage (a 1) [] [] None [] [d] Waiting)"
    using pk(1) by (simp add: UDP_OUT_CAP_def)
  moreover have "leads H i s (stage (a 1) [] [] None [] [d] Waiting) (stage (a 1) [] [] None [] [] Asking)"
    by (rule leads_step [OF stage_steps(5) assms(2)])
  moreover have "leads H i s (stage (a 1) [] [] None [] [] Asking) (stage (a 129) [] [] None [] (replicate UDP_OUT_CAP d) Asking)"
    using pk(2) by (simp add: UDP_OUT_CAP_def)
  moreover have "leads H i s (stage (a 129) [] [] None [] (replicate UDP_OUT_CAP d) Asking)
      (stage (a 129) [] [Inbound p] None [] (replicate UDP_OUT_CAP d) Asking)"
    using leads_enqueue [of "[]" i s H "a 129" "[]" "replicate UDP_OUT_CAP d" Asking p] assms(2) by (simp add: ACTOR_CAP_def)
  moreover have "leads H i s (stage (a 129) [] [Inbound p] None [] (replicate UDP_OUT_CAP d) Asking)
      (stage (a 130) [ToUdp 0 d] [] None [] (replicate UDP_OUT_CAP d) Asking)"
    using leads_take [OF assms, of 129 "[]"] by simp
  moreover note leads_fill_queue [OF assms(2) order_refl, of H "a 130" "[ToUdp 0 d]" "replicate UDP_OUT_CAP d" Asking p]
  moreover have "leads H i s (stage (a 130) [ToUdp 0 d] (replicate ACTOR_CAP (Inbound p)) None [] (replicate UDP_OUT_CAP d) Asking)
      (stage (a 130) [ToUdp 0 d] (replicate ACTOR_CAP (Inbound p)) None [p] (replicate UDP_OUT_CAP d) Asking)"
    using leads_push [of "[]" i s H "a 130" "[ToUdp 0 d]" "replicate ACTOR_CAP (Inbound p)" None "replicate UDP_OUT_CAP d" Asking p] assms(2)
    by (simp add: STACK_CAP_def)
  moreover have "leads H i s (stage (a 130) [ToUdp 0 d] (replicate ACTOR_CAP (Inbound p)) None [p] (replicate UDP_OUT_CAP d) Asking)
      (stage (a 130) [ToUdp 0 d] (replicate ACTOR_CAP (Inbound p)) (Some p) [] (replicate UDP_OUT_CAP d) Asking)"
    by (rule leads_step [OF stage_steps(1) assms(2)])
  moreover note leads_fill_stack [OF assms(2) order_refl, of H "a 130" "[ToUdp 0 d]" "replicate ACTOR_CAP (Inbound p)" "Some p"
      "replicate UDP_OUT_CAP d" Asking p]
  moreover have "leads H i s
      (stage (a 130) [ToUdp 0 d] (replicate ACTOR_CAP (Inbound p)) (Some p) (replicate STACK_CAP p) (replicate UDP_OUT_CAP d) Asking)
      (stage (a 130) [ToUdp 0 d] (replicate ACTOR_CAP (Inbound p)) (Some p) (replicate STACK_CAP p) (replicate UDP_OUT_CAP d)
        (Replying (UdpReply h data)))"
    by (rule leads_step [OF stage_steps(6) assms(2)])
  ultimately show ?thesis unfolding start by (meson leads_trans)
qed

text \<open>
  C21.  One peer can stop the WireGuard server for every peer, for good, with nothing but UDP to one destination that answers: the relay of the flow
  waits for a reply while its channel of 128, the actor's queue of 2048 and the peer's channel of 512 fill; when the reply comes, the relay waits
  for room in the actor's queue and the actor for room in the relay's channel, so the actor never handles another message; and the receive
  loop, which waits to deliver the next packet to that peer, never takes another datagram of any peer from the socket.
\<close>

theorem wg_peer_stops_server:
  assumes "udp_flow_of (actor_turn S) p d a" "i < length (wt_wirings s)" "wt_wirings s ! i = spawn_stack (a 0)" "wt_hold s = None"
  shows "\<exists>t. (sstep (actor_turn S))\<^sup>*\<^sup>* s t \<and>
    (\<forall>u. (sstep (actor_turn S))\<^sup>*\<^sup>* t u \<longrightarrow> wt_received u = wt_received t \<and> locked (wt_wirings u ! i))"
proof -
  let ?w = "stage (a 130) [ToUdp 0 d] (replicate ACTOR_CAP (Inbound p)) (Some p) (replicate STACK_CAP p) (replicate UDP_OUT_CAP d)
      (Replying (UdpReply 0 []))"
  have "with_peer i (spawn_stack (a 0)) (wt_received s) s = s"
    using assms(3,4) list_update_id [of "wt_wirings s" i] by (cases s) (simp add: with_peer_def)
  with leads_locked [OF assms(1,2), of 0 "[]"] obtain k where k: "(sstep (actor_turn S))\<^sup>*\<^sup>* s (with_peer i ?w k s)"
    unfolding leads_def by metis
  define t where "t = (with_peer i ?w k s)\<lparr>wt_hold := Some (i, p), wt_received := k + 1\<rparr>"
  have "sstep (actor_turn S) (with_peer i ?w k s) t"
    using sstep.received [of "with_peer i ?w k s" "Some (i, p)" "actor_turn S"] assms(2) by (simp add: t_def with_peer_def)
  with k have "(sstep (actor_turn S))\<^sup>*\<^sup>* s t" by simp
  moreover have "server_stuck i t"
    using assms(2) by (simp add: server_stuck_def t_def with_peer_def locked_def)
  then have "\<forall>u. (sstep (actor_turn S))\<^sup>*\<^sup>* t u \<longrightarrow> wt_received u = wt_received t \<and> locked (wt_wirings u ! i)"
    using stuck_forever unfolding server_stuck_def by blast
  ultimately show ?thesis by blast
qed

section \<open>An instance\<close>

text \<open>A library whose UDP sockets have one datagram at each turn.\<close>

definition udp_smol :: "unit smol" where
  "udp_smol = toy_smol\<lparr>udp_recv := \<lambda>k. ([[9]], k)\<rparr>"

lemma udp_smol_laws: "smol_laws udp_smol"
  by (simp add: smol_laws_def udp_smol_def toy_smol_def)

definition udp_key :: flow_key where "udp_key = FlowKey 17 (SockV4 7 5000) (SockV4 8 53)"

definition udp_packet :: bytes where
  "udp_packet = ip4_packet 5 (replicate 8 0) 17 [0, 0] 7 8 [] (to_be 2 (5000 :: u16) @ to_be 2 (53 :: u16) @ [])"

lemma udp_packet_key: "parse_flow_key udp_packet = Some udp_key"
  unfolding udp_packet_def udp_key_def by (rule parse_ip4) simp_all

definition udp_actor :: "nat \<Rightarrow> unit actor" where
  "udp_actor n = (if n = 0 then actor_new else actor_new\<lparr>a_socks := [Some (Udp ())],
     a_udp := [(udp_key, \<lparr>uf_handle = 0, uf_out = 0, uf_last = 5\<rparr>)],
     a_udp_relays := [\<lparr>ur_handle = 0, ur_in = replicate n (SockV4 8 53, [9])\<rparr>]\<rparr>)"

lemma drop_one_more: "drop n (x # replicate n x) = [x]"
  using drop_replicate [of n "Suc n" x] by simp

lemma udp_actor_turn:
  "actor_turn udp_smol 5 (Inbound udp_packet) (udp_actor n) = Some (udp_actor (Suc n), [ToUdp 0 (SockV4 8 53, [9])])"
proof -
  have "handle_msg udp_smol 5 (Inbound udp_packet) (udp_actor n) = Some (udp_actor (Suc n))"
    by (simp add: ensure_flow_def udp_packet_key udp_key_def ensure_udp_def udp_actor_def actor_new_def udp_smol_def toy_smol_def
        add_sock_def poll_iface_def inject_def dev_new_def start_tcp_relays_def drain_tcp_recv_def drain_udp_recv_def drain_udp_def
        get_udp_def replicate_append_same)
  moreover have "sends_of (udp_actor n) (udp_actor (Suc n)) = [ToUdp 0 (SockV4 8 53, [9])]"
    by (simp add: sends_of_def udp_actor_def actor_new_def new_items_def nth_or_def drop_one_more)
  ultimately show ?thesis by (simp add: actor_turn_def)
qed

definition demo_server :: "unit actor wg_tasks" where
  "demo_server = \<lparr>wt_wirings = [spawn_stack actor_new, spawn_stack actor_new], wt_hold = None, wt_received = 0\<rparr>"

theorem wg_peer_stops_server_witness:
  "\<exists>t. (sstep (actor_turn udp_smol))\<^sup>*\<^sup>* demo_server t \<and> locked (wt_wirings t ! 0)"
proof -
  have f: "udp_flow_of (actor_turn udp_smol) udp_packet (SockV4 8 53, [9]) udp_actor"
    unfolding udp_flow_of_def using udp_actor_turn by blast
  have s: "0 < length (wt_wirings demo_server)" "wt_wirings demo_server ! 0 = spawn_stack (udp_actor 0)" "wt_hold demo_server = None"
    by (simp_all add: demo_server_def udp_actor_def)
  from wg_peer_stops_server [OF f s] show ?thesis by blast
qed

end
