(* ===== verification/Anytls_Lock.thy ===== *)
theory Anytls_Lock
  imports Prelude
begin

text \<open>
  The two halves of an AnyTLS stream's relay (\<open>handle_stream\<close> of \<open>anytls/server.rs\<close>) share the stream
  behind one asynchronous mutex: the uplink locks it and, holding the lock, waits for the
  client's next message; the downlink locks it to send a reply.  The theory models both loops at
  the grain of their awaits.
\<close>

section \<open>The model\<close>

datatype up_pc = UpLock | UpRead | UpWrite bytes | UpDone

datatype down_pc = DownRead | DownLock bytes | DownWrite bytes | DownFin | DownClose | DownDone

datatype side = Uplink | Downlink

record stream_relay =
  holder :: "side option"
  up :: up_pc
  down :: down_pc
  inbox :: "bytes list"
  in_closed :: bool
  replies :: "bytes list"
  reply_end :: bool
  upstream :: "bytes list"
  sent :: "bytes list"
  fin_sent :: bool

definition relay_new :: stream_relay where
  "relay_new = \<lparr>holder = None, up = UpLock, down = DownRead, inbox = [], in_closed = False, replies = [],
     reply_end = False, upstream = [], sent = [], fin_sent = False\<rparr>"

text \<open>
  The steps of the two loops.  \<open>inbox\<close> is the pieces that reads return, an empty one being the end of the stream; a read or a write that
  fails ends its loop, which gives up the lock.
\<close>

inductive server_step :: "stream_relay \<Rightarrow> stream_relay \<Rightarrow> bool" where
  up_lock: "up s = UpLock \<Longrightarrow> holder s = None \<Longrightarrow> server_step s (s\<lparr>holder := Some Uplink, up := UpRead\<rparr>)"
| up_read: "up s = UpRead \<Longrightarrow> inbox s = d # ds \<Longrightarrow> d \<noteq> [] \<Longrightarrow>
    server_step s (s\<lparr>inbox := ds, holder := None, up := UpWrite d\<rparr>)"
| up_marker: "up s = UpRead \<Longrightarrow> inbox s = [] # ds \<Longrightarrow> server_step s (s\<lparr>inbox := ds, holder := None, up := UpDone\<rparr>)"
| up_eof: "up s = UpRead \<Longrightarrow> inbox s = [] \<Longrightarrow> in_closed s \<Longrightarrow> server_step s (s\<lparr>holder := None, up := UpDone\<rparr>)"
| up_write: "up s = UpWrite d \<Longrightarrow> server_step s (s\<lparr>upstream := upstream s @ [d], up := UpLock\<rparr>)"
| up_write_error: "up s = UpWrite d \<Longrightarrow> server_step s (s\<lparr>up := UpDone\<rparr>)"
| down_read: "down s = DownRead \<Longrightarrow> replies s = r # rs \<Longrightarrow>
    server_step s (s\<lparr>replies := rs, down := DownLock r\<rparr>)"
| down_eof: "down s = DownRead \<Longrightarrow> replies s = [] \<Longrightarrow> reply_end s \<Longrightarrow> server_step s (s\<lparr>down := DownFin\<rparr>)"
| down_read_error: "down s = DownRead \<Longrightarrow> server_step s (s\<lparr>down := DownFin\<rparr>)"
| down_lock: "down s = DownLock r \<Longrightarrow> holder s = None \<Longrightarrow>
    server_step s (s\<lparr>holder := Some Downlink, down := DownWrite r\<rparr>)"
| down_write: "down s = DownWrite r \<Longrightarrow>
    server_step s (s\<lparr>sent := sent s @ [r], holder := None, down := DownRead\<rparr>)"
| down_write_error: "down s = DownWrite r \<Longrightarrow> server_step s (s\<lparr>holder := None, down := DownFin\<rparr>)"
| fin_lock: "down s = DownFin \<Longrightarrow> holder s = None \<Longrightarrow>
    server_step s (s\<lparr>holder := Some Downlink, down := DownClose\<rparr>)"
| fin_write: "down s = DownClose \<Longrightarrow> server_step s (s\<lparr>fin_sent := True, holder := None, down := DownDone\<rparr>)"

text \<open>What the target does: it sends replies and ends.  Only the client puts messages in the inbox.\<close>

inductive target_step :: "stream_relay \<Rightarrow> stream_relay \<Rightarrow> bool" where
  reply: "\<not> reply_end s \<Longrightarrow> target_step s (s\<lparr>replies := replies s @ [r]\<rparr>)"
| reply_done: "target_step s (s\<lparr>reply_end := True\<rparr>)"

inductive client_step :: "stream_relay \<Rightarrow> stream_relay \<Rightarrow> bool" where
  message: "\<not> in_closed s \<Longrightarrow> client_step s (s\<lparr>inbox := inbox s @ [d]\<rparr>)"
| close: "client_step s (s\<lparr>in_closed := True\<rparr>)"

definition quiet_client :: "stream_relay \<Rightarrow> stream_relay \<Rightarrow> bool" where
  "quiet_client s t \<longleftrightarrow> server_step s t \<or> target_step s t"

definition any_step :: "stream_relay \<Rightarrow> stream_relay \<Rightarrow> bool" where
  "any_step s t \<longleftrightarrow> server_step s t \<or> target_step s t \<or> client_step s t"

section \<open>Mutual exclusion and order\<close>

definition lock_inv :: "stream_relay \<Rightarrow> bool" where
  "lock_inv s \<longleftrightarrow>
     (holder s = Some Uplink \<longleftrightarrow> up s = UpRead)
     \<and> (holder s = Some Downlink \<longleftrightarrow> (down s = DownClose \<or> (\<exists>r. down s = DownWrite r)))"

lemma lock_inv_step: "any_step s t \<Longrightarrow> lock_inv s \<Longrightarrow> lock_inv t"
  unfolding any_step_def
  by (elim disjE server_step.cases target_step.cases client_step.cases) (auto simp: lock_inv_def)

lemma lock_inv_reach: "any_step\<^sup>*\<^sup>* relay_new s \<Longrightarrow> lock_inv s"
  by (induction rule: rtranclp_induct) (auto simp: lock_inv_step, simp add: lock_inv_def relay_new_def)

text \<open>The state in which the uplink waits for the client with the lock in its hands.\<close>

definition waiting :: "stream_relay \<Rightarrow> bool" where
  "waiting s \<longleftrightarrow> lock_inv s \<and> up s = UpRead \<and> inbox s = [] \<and> \<not> in_closed s"

lemma waiting_step: "quiet_client s t \<Longrightarrow> waiting s \<Longrightarrow> waiting t \<and> sent t = sent s \<and> fin_sent t = fin_sent s"
  unfolding quiet_client_def
  by (elim disjE server_step.cases target_step.cases) (auto simp: waiting_def lock_inv_def)

section \<open>Properties\<close>

text \<open>
  C37.  The two loops never hold the stream at once.  But the price is that no reply reaches the
  client while the uplink waits: from every reachable state in which the uplink has taken the
  lock, nothing is left in the inbox and the client does not speak, no run of the server and the
  target, however long and whatever the target sends, delivers a reply or the end of the
  stream to the client.
\<close>

theorem anytls_replies_blocked:
  assumes "any_step\<^sup>*\<^sup>* relay_new s" "up s = UpRead" "inbox s = []" "\<not> in_closed s" "quiet_client\<^sup>*\<^sup>* s t"
  shows "sent t = sent s \<and> fin_sent t = fin_sent s \<and> holder t = Some Uplink"
proof -
  have w: "waiting s" using lock_inv_reach [OF assms(1)] assms(2-4) by (simp add: waiting_def)
  from assms(5) have "waiting t \<and> sent t = sent s \<and> fin_sent t = fin_sent s"
    by (induction rule: rtranclp_induct) (use w waiting_step in auto)
  then show ?thesis by (auto simp: waiting_def lock_inv_def)
qed

theorem anytls_replies_blocked_witness:
  "\<exists>s t. any_step\<^sup>*\<^sup>* relay_new s \<and> upstream s = [[1]] \<and> quiet_client\<^sup>*\<^sup>* s t \<and> down t = DownLock [2] \<and> sent t = []"
proof -
  let ?s = "\<lambda>h u ib up dn rp. relay_new\<lparr>holder := h, up := u, inbox := ib, upstream := up, down := dn, replies := rp\<rparr>"
  have 1: "any_step relay_new (?s None UpLock [[1]] [] DownRead [])"
    using message [of relay_new "[1]"] by (simp add: any_step_def relay_new_def)
  have 2: "any_step (?s None UpLock [[1]] [] DownRead []) (?s (Some Uplink) UpRead [[1]] [] DownRead [])"
    using up_lock [of "?s None UpLock [[1]] [] DownRead []"] by (simp add: any_step_def relay_new_def)
  have 3: "any_step (?s (Some Uplink) UpRead [[1]] [] DownRead []) (?s None (UpWrite [1]) [] [] DownRead [])"
    using up_read [of "?s (Some Uplink) UpRead [[1]] [] DownRead []" "[1]" "[]"] by (simp add: any_step_def relay_new_def)
  have 4: "any_step (?s None (UpWrite [1]) [] [] DownRead []) (?s None UpLock [] [[1]] DownRead [])"
    using up_write [of "?s None (UpWrite [1]) [] [] DownRead []" "[1]"] by (simp add: any_step_def relay_new_def)
  have 5: "any_step (?s None UpLock [] [[1]] DownRead []) (?s (Some Uplink) UpRead [] [[1]] DownRead [])"
    using up_lock [of "?s None UpLock [] [[1]] DownRead []"] by (simp add: any_step_def relay_new_def)
  have 6: "quiet_client (?s (Some Uplink) UpRead [] [[1]] DownRead []) (?s (Some Uplink) UpRead [] [[1]] DownRead [[2]])"
    using reply [of "?s (Some Uplink) UpRead [] [[1]] DownRead []" "[2]"] by (simp add: quiet_client_def relay_new_def)
  have 7: "quiet_client (?s (Some Uplink) UpRead [] [[1]] DownRead [[2]]) (?s (Some Uplink) UpRead [] [[1]] (DownLock [2]) [])"
    using down_read [of "?s (Some Uplink) UpRead [] [[1]] DownRead [[2]]" "[2]" "[]"] by (simp add: quiet_client_def relay_new_def)
  let ?a = "?s (Some Uplink) UpRead [] [[1]] DownRead []" and ?b = "?s (Some Uplink) UpRead [] [[1]] (DownLock [2]) []"
  have a: "any_step\<^sup>*\<^sup>* relay_new ?a"
    using 1 2 3 4 5 by (meson converse_rtranclp_into_rtranclp rtranclp.rtrancl_refl)
  have b: "quiet_client\<^sup>*\<^sup>* ?a ?b"
    using 6 7 by (meson converse_rtranclp_into_rtranclp rtranclp.rtrancl_refl)
  have "sent ?b = sent ?a"
    using anytls_replies_blocked [OF a _ _ _ b] by (simp add: relay_new_def)
  with a b show ?thesis by (intro exI [of _ ?a] exI [of _ ?b]) (simp add: relay_new_def)
qed

end
