(* ===== verification/Tuic_Auth.thy ===== *)
theory Tuic_Auth
  imports Prelude
begin

text \<open>
  The authentication latch \<open>Authenticated\<close> of \<open>tuic/connection.rs\<close> at the grain of its
  atomic accesses.  \<open>set\<close> writes the UUID, stores the flag and notifies the waiters; \<open>wait\<close>
  loads the flag, creates a \<open>Notified\<close> future, loads the flag again and awaits the future.
  One setter and any number of waiters interleave freely.  As the runtime documents,
  \<open>notify_waiters\<close> completes every future that was created before the call, polled or not,
  and none that is created after it.
\<close>

section \<open>The model\<close>

datatype set_pc = SetStart | UuidWritten | FlagStored | SetDone

datatype wait_pc = Check1 | CreateNotified | Check2 bool | Await bool | WaitDone

record latch =
  l_uuid :: "bytes option"
  l_flag :: bool
  l_set :: set_pc
  l_waiters :: "wait_pc list"

definition latch_new :: "nat \<Rightarrow> latch" where
  "latch_new n = \<lparr>l_uuid = None, l_flag = False, l_set = SetStart, l_waiters = replicate n Check1\<rparr>"

text \<open>\<open>notify_waiters\<close> marks every future that exists.\<close>

fun notified :: "wait_pc \<Rightarrow> wait_pc" where
  "notified (Check2 _) = Check2 True"
| "notified (Await _) = Await True"
| "notified w = w"

definition set_next :: "bytes \<Rightarrow> latch \<Rightarrow> latch option" where
  "set_next u l =
     (case l_set l of
        SetStart \<Rightarrow> Some (l\<lparr>l_uuid := Some u, l_set := UuidWritten\<rparr>)
      | UuidWritten \<Rightarrow> Some (l\<lparr>l_flag := True, l_set := FlagStored\<rparr>)
      | FlagStored \<Rightarrow> Some (l\<lparr>l_waiters := map notified (l_waiters l), l_set := SetDone\<rparr>)
      | SetDone \<Rightarrow> None)"

fun wait_next :: "bool \<Rightarrow> wait_pc \<Rightarrow> wait_pc option" where
  "wait_next flag Check1 = Some (if flag then WaitDone else CreateNotified)"
| "wait_next flag CreateNotified = Some (Check2 False)"
| "wait_next flag (Check2 n) = Some (if flag then WaitDone else Await n)"
| "wait_next flag (Await n) = (if n then Some WaitDone else None)"
| "wait_next flag WaitDone = None"

inductive latch_step :: "bytes \<Rightarrow> latch \<Rightarrow> latch \<Rightarrow> bool" for u where
  setter: "set_next u l = Some l' \<Longrightarrow> latch_step u l l'"
| waiter: "k < length (l_waiters l) \<Longrightarrow> wait_next (l_flag l) (l_waiters l ! k) = Some w \<Longrightarrow>
    latch_step u l (l\<lparr>l_waiters := (l_waiters l)[k := w]\<rparr>)"

inductive latch_reach :: "bytes \<Rightarrow> nat \<Rightarrow> latch \<Rightarrow> bool" for u n where
  latch_start: "latch_reach u n (latch_new n)"
| latch_more: "latch_reach u n l \<Longrightarrow> latch_step u l l' \<Longrightarrow> latch_reach u n l'"

inductive_cases latch_stepE: "latch_step u l l'"

section \<open>The latch invariant\<close>

definition waiter_ok :: "latch \<Rightarrow> wait_pc \<Rightarrow> bool" where
  "waiter_ok l w \<longleftrightarrow>
     (w = WaitDone \<longrightarrow> l_flag l) \<and> (w = Await False \<longrightarrow> l_set l \<noteq> SetDone)
     \<and> (\<forall>b. w = Check2 b \<or> w = Await b \<longrightarrow> b \<longrightarrow> l_flag l)"

definition latch_inv :: "bytes \<Rightarrow> nat \<Rightarrow> latch \<Rightarrow> bool" where
  "latch_inv u n l \<longleftrightarrow>
     l_flag l = (l_set l \<in> {FlagStored, SetDone}) \<and> l_uuid l = (if l_set l = SetStart then None else Some u)
     \<and> length (l_waiters l) = n \<and> (\<forall>w \<in> set (l_waiters l). waiter_ok l w)"

lemma latch_inv_new: "latch_inv u n (latch_new n)"
  by (auto simp: latch_inv_def latch_new_def waiter_ok_def)

lemma notified_ok:
  "waiter_ok l w \<Longrightarrow> l_flag l \<Longrightarrow> waiter_ok (l\<lparr>l_waiters := ws, l_set := SetDone\<rparr>) (notified w)"
  by (cases w) (auto simp: waiter_ok_def)

lemma latch_inv_setter: "latch_inv u n l \<Longrightarrow> set_next u l = Some l' \<Longrightarrow> latch_inv u n l'"
  by (cases "l_set l")
    (auto simp: set_next_def latch_inv_def notified_ok, auto simp: waiter_ok_def)

lemma waiter_ok_waiters [simp]: "waiter_ok (l\<lparr>l_waiters := ws\<rparr>) w = waiter_ok l w"
  by (simp add: waiter_ok_def)

lemma waiter_ok_next:
  assumes "latch_inv u n l" "w \<in> set (l_waiters l)" "wait_next (l_flag l) w = Some w'"
  shows "waiter_ok l w'"
  using assms by (cases w) (auto simp: latch_inv_def waiter_ok_def split: if_splits)

lemma latch_inv_waiter:
  assumes "latch_inv u n l" "k < length (l_waiters l)" "wait_next (l_flag l) (l_waiters l ! k) = Some w"
  shows "latch_inv u n (l\<lparr>l_waiters := (l_waiters l)[k := w]\<rparr>)"
proof -
  have "waiter_ok l w"
    by (rule waiter_ok_next [OF assms(1) nth_mem [OF assms(2)] assms(3)])
  moreover have "\<forall>v \<in> set (l_waiters l). waiter_ok l v"
    using assms(1) by (simp add: latch_inv_def)
  ultimately have "\<forall>v \<in> set ((l_waiters l)[k := w]). waiter_ok l v"
    using set_update_subset_insert [of "l_waiters l" k w] by blast
  with assms(1) show ?thesis by (simp add: latch_inv_def)
qed

lemma latch_reach_inv: "latch_reach u n l \<Longrightarrow> latch_inv u n l"
proof (induction rule: latch_reach.induct)
  case latch_start
  show ?case by (rule latch_inv_new)
next
  case (latch_more l l')
  from latch_more.hyps(2) latch_more.IH show ?case
    by (elim latch_stepE) (auto intro: latch_inv_setter latch_inv_waiter)
qed

text \<open>How many steps a waiter may still take once the flag is set.\<close>

fun wait_rank :: "wait_pc \<Rightarrow> nat" where
  "wait_rank Check1 = 3"
| "wait_rank CreateNotified = 2"
| "wait_rank (Check2 _) = 1"
| "wait_rank (Await _) = 1"
| "wait_rank WaitDone = 0"

lemma wait_rank_decreases: "wait_next True w = Some w' \<Longrightarrow> wait_rank w' < wait_rank w"
  by (cases w) (auto split: if_splits)

section \<open>Properties\<close>

text \<open>
  C6.  No wakeup is lost: in every interleaving of \<open>set\<close> with any number of \<open>wait\<close> calls, a
  waiter returns only after the UUID and the flag were written; and once \<open>set\<close> is through,
  every waiter that has not returned can run, each of its steps bringing it closer to its
  return (at most three steps).
\<close>

theorem tuic_no_lost_wakeup:
  assumes "latch_reach u n l" "k < n"
  shows "(l_waiters l ! k = WaitDone \<longrightarrow> l_flag l \<and> l_uuid l = Some u)
    \<and> (l_set l = SetDone \<and> l_waiters l ! k \<noteq> WaitDone \<longrightarrow>
        (\<exists>w. wait_next (l_flag l) (l_waiters l ! k) = Some w \<and> wait_rank w < wait_rank (l_waiters l ! k)
           \<and> latch_reach u n (l\<lparr>l_waiters := (l_waiters l)[k := w]\<rparr>)))"
proof -
  have inv: "latch_inv u n l" by (rule latch_reach_inv [OF assms(1)])
  then have w: "waiter_ok l (l_waiters l ! k)" and k: "k < length (l_waiters l)"
    using assms(2) by (simp_all add: latch_inv_def)
  have fin: "l_flag l \<and> l_uuid l = Some u" if "l_waiters l ! k = WaitDone"
    using that w inv by (auto simp: latch_inv_def waiter_ok_def)
  have flag: "l_flag l" if "l_set l = SetDone"
    using that inv by (simp add: latch_inv_def)
  have run: "\<exists>w. wait_next (l_flag l) (l_waiters l ! k) = Some w"
    if "l_set l = SetDone" "l_waiters l ! k \<noteq> WaitDone"
    using that w flag by (cases "l_waiters l ! k") (simp_all add: waiter_ok_def)
  show ?thesis
  proof (intro conjI impI)
    assume s: "l_set l = SetDone \<and> l_waiters l ! k \<noteq> WaitDone"
    then obtain w' where w': "wait_next (l_flag l) (l_waiters l ! k) = Some w'" using run by blast
    moreover have "wait_rank w' < wait_rank (l_waiters l ! k)"
      using wait_rank_decreases w' flag s by simp
    ultimately show "\<exists>w. wait_next (l_flag l) (l_waiters l ! k) = Some w
        \<and> wait_rank w < wait_rank (l_waiters l ! k)
        \<and> latch_reach u n (l\<lparr>l_waiters := (l_waiters l)[k := w]\<rparr>)"
      using latch_more [OF assms(1) latch_step.waiter [OF k w']] by blast
  qed (use fin in simp_all)
qed

theorem tuic_no_lost_wakeup_witness:
  "\<exists>l. latch_reach [7] 1 l \<and> l_set l = SetDone \<and> l_waiters l ! 0 = Await True
     \<and> wait_next (l_flag l) (l_waiters l ! 0) = Some WaitDone"
proof -
  let ?l = "\<lambda>u f s w. \<lparr>l_uuid = u, l_flag = f, l_set = s, l_waiters = [w]\<rparr>"
  have step_w: "wait_next f w = Some w' \<Longrightarrow> latch_step [7] (?l u f s w) (?l u f s w')" for u f s w w'
    using latch_step.waiter [of 0 "?l u f s w" w' "[7]"] by simp
  have "latch_reach [7] 1 (?l None False SetStart Check1)"
    using latch_start [of "[7]" 1] by (simp add: latch_new_def)
  from latch_more [OF this step_w] have "latch_reach [7] 1 (?l None False SetStart CreateNotified)" by simp
  from latch_more [OF this step_w] have "latch_reach [7] 1 (?l None False SetStart (Check2 False))" by simp
  from latch_more [OF this step_w] have "latch_reach [7] 1 (?l None False SetStart (Await False))" by simp
  from latch_more [OF this setter] have "latch_reach [7] 1 (?l (Some [7]) False UuidWritten (Await False))"
    by (simp add: set_next_def)
  from latch_more [OF this setter] have "latch_reach [7] 1 (?l (Some [7]) True FlagStored (Await False))"
    by (simp add: set_next_def)
  from latch_more [OF this setter] have r: "latch_reach [7] 1 (?l (Some [7]) True SetDone (Await True))"
    by (simp add: set_next_def)
  from tuic_no_lost_wakeup [OF r, of 0] r show ?thesis
    by (intro exI [of _ "?l (Some [7]) True SetDone (Await True)"]) simp
qed

end
