(* ===== verification/Xhttp_Server.thy ===== *)
theory Xhttp_Server
  imports Xhttp_Stream
begin

text \<open>
  The XHTTP server (\<open>common/transport/xhttp.rs\<close> up to the response body): request paths, the
  routing of requests, the shared table of sessions, the GET and POST handlers and the task
  that expires a session.  The handlers run concurrently, so the server is a step relation;
  a step is what a task does between two points at which it waits: for the lock of the
  table, for the lock of a session, or for room in a channel of 64 entries.
\<close>

section \<open>Paths and routing\<close>

definition normalized_path :: "rstring \<Rightarrow> rstring" where
  "normalized_path path =
     (let p = trim_end_byte 47 path;
          p = (if strip_prefix [47] p \<noteq> None then p else [47] @ p)
      in p @ [47])"

text \<open>\<open>splitn(2, '/')\<close>: the part before the first slash and, if there is one, the part after it.\<close>

definition non_empty :: "rstring \<Rightarrow> rstring option" where
  "non_empty s = (if s = [] then None else Some s)"

definition parse_path :: "rstring \<Rightarrow> rstring \<Rightarrow> (rstring option \<times> rstring option) option" where
  "parse_path req_path base_path =
     (let base_no_slash = trim_end_byte 47 base_path;
          rest = (if req_path = base_no_slash \<or> req_path = base_path then Some []
                  else case strip_prefix base_path req_path of
                    Some s \<Rightarrow> Some (trim_start_byte 47 s)
                  | None \<Rightarrow> None)
      in case rest of
           None \<Rightarrow> None
         | Some rest \<Rightarrow>
             if rest = [] then Some (None, None)
             else (case split_once 47 rest of
                     None \<Rightarrow> Some (non_empty rest, None)
                   | Some (a, b) \<Rightarrow> Some (non_empty a, non_empty b)))"

datatype status = OK | NOT_FOUND | BAD_REQUEST | CONFLICT

datatype http_method = GET | POST | OPTIONS | OtherMethod

record xrequest =
  xr_method :: http_method
  xr_host :: "rstring option"
  xr_path :: rstring

record xhttp_config =
  cfg_path :: rstring
  cfg_host :: "rstring option"

text \<open>What \<open>handle_request\<close> does with a request: answer it, or call one of the two handlers.\<close>

datatype route = Answer status | HandleGet "rstring option" | HandlePost "rstring option" "rstring option"

definition bad_host :: "xhttp_config \<Rightarrow> xrequest \<Rightarrow> bool" where
  "bad_host cfg req =
     (case cfg_host cfg of
        Some expected \<Rightarrow> (let req_host = (case xr_host req of Some h \<Rightarrow> h | None \<Rightarrow> []) in req_host \<noteq> expected)
      | None \<Rightarrow> False)"

definition handle_request :: "xhttp_config \<Rightarrow> xrequest \<Rightarrow> route" where
  "handle_request cfg req =
     (if bad_host cfg req then Answer NOT_FOUND
      else if xr_method req = OPTIONS then Answer OK
      else case parse_path (xr_path req) (normalized_path (cfg_path cfg)) of
        None \<Rightarrow> Answer NOT_FOUND
      | Some (session_id, seq_str) \<Rightarrow>
          if xr_method req = GET \<and> seq_str = None then HandleGet session_id
          else HandlePost session_id seq_str)"

section \<open>Sessions\<close>

definition CHANNEL_CAP :: nat where "CHANNEL_CAP = 64"

text \<open>
  The expiry task of a session: it waits for the GET, has timed out and wants to remove the session,
  knows that the GET has arrived and lets the session's lifetime pass, or is over.
\<close>

datatype ttl = AwaitGet | TimedOut | GetArrived | TtlDone

text \<open>
  A session: its id (a stream-one connection has none), the upload channel, whether the two
  receivers are still in the session (\<open>up_rx\<close> and \<open>down_rx\<close> being \<open>Some\<close>), whether the stream that
  took the receiver still lives, and its expiry task.  \<open>se_read\<close> records what the stream took out.
\<close>

record xsession =
  se_id :: "rstring option"
  se_up :: "upload_packet list"
  se_up_rx :: bool
  se_down_rx :: bool
  se_stream :: bool
  se_ttl :: ttl
  se_read :: "upload_packet list"

text \<open>
  Where the expiry task that holds the lock of the table is: it has removed the session from the
  table, or it also holds the session's lock and sends \<open>Eof\<close>.
\<close>

datatype expiry = NoExpiry | Removed nat | Sending nat

text \<open>
  \<open>x_posts\<close> are tasks that have the sender of a session and packets to send one after the other,
  \<open>x_gets\<close> GET handlers that have found their session and wait for its lock, \<open>x_posted\<close> a record
  of every packet and the session id it was posted under.
\<close>

record xserver =
  x_map :: "rstring \<rightharpoonup> nat"
  x_sess :: "xsession list"
  x_ready :: "nat list"
  x_posts :: "(nat \<times> upload_packet list) list"
  x_gets :: "nat list"
  x_expiry :: expiry
  x_posted :: "(rstring option \<times> upload_packet) list"
  x_answers :: "status list"

definition xserver_new :: xserver where
  "xserver_new =
     \<lparr>x_map = Map.empty, x_sess = [], x_ready = [], x_posts = [], x_gets = [], x_expiry = NoExpiry,
      x_posted = [], x_answers = []\<rparr>"

definition session_new :: "rstring \<Rightarrow> xsession" where
  "session_new sid =
     \<lparr>se_id = Some sid, se_up = [], se_up_rx = True, se_down_rx = True, se_stream = False,
      se_ttl = AwaitGet, se_read = []\<rparr>"

definition get_or_create_session :: "rstring \<Rightarrow> xserver \<Rightarrow> nat \<times> xserver" where
  "get_or_create_session sid s =
     (case x_map s sid of
        Some k \<Rightarrow> (k, s)
      | None \<Rightarrow>
          (length (x_sess s),
           s\<lparr>x_sess := x_sess s @ [session_new sid], x_map := (x_map s)(sid \<mapsto> length (x_sess s))\<rparr>))"

definition update_session :: "nat \<Rightarrow> (xsession \<Rightarrow> xsession) \<Rightarrow> xserver \<Rightarrow> xserver" where
  "update_session k f s = s\<lparr>x_sess := (x_sess s)[k := f (x_sess s ! k)]\<rparr>"

definition answer :: "status \<Rightarrow> xserver \<Rightarrow> xserver" where
  "answer st s = s\<lparr>x_answers := x_answers s @ [st]\<rparr>"

definition send_task :: "rstring option \<Rightarrow> nat \<Rightarrow> upload_packet list \<Rightarrow> xserver \<Rightarrow> xserver" where
  "send_task sid k us s =
     s\<lparr>x_posts := x_posts s @ [(k, us)], x_posted := x_posted s @ map (Pair sid) us\<rparr>"

text \<open>
  \<open>handle_get\<close> without a session id: a stream of its own that is fed from the request's body.
\<close>

definition stream_one :: "bytes list \<Rightarrow> xserver \<Rightarrow> xserver" where
  "stream_one frames s =
     (let k = length (x_sess s);
          se = \<lparr>se_id = None, se_up = [], se_up_rx = False, se_down_rx = False, se_stream = True,
                se_ttl = TtlDone, se_read = []\<rparr>
      in answer OK (send_task None k (map Chunk frames @ [Eof])
           (s\<lparr>x_sess := x_sess s @ [se], x_ready := x_ready s @ [k]\<rparr>)))"

text \<open>\<open>handle_get\<close> with a session id: the look-up, and what it does under the session's lock.\<close>

definition get_lookup :: "rstring \<Rightarrow> xserver \<Rightarrow> xserver" where
  "get_lookup sid s =
     (case get_or_create_session sid s of (k, s1) \<Rightarrow> s1\<lparr>x_gets := x_gets s1 @ [k]\<rparr>)"

definition get_take :: "nat \<Rightarrow> xserver \<Rightarrow> xserver" where
  "get_take k s =
     (let s1 = s\<lparr>x_gets := remove1 k (x_gets s)\<rparr>; se = x_sess s ! k in
      if \<not> se_up_rx se then answer CONFLICT s1
      else if \<not> se_down_rx se then answer CONFLICT (update_session k (\<lambda>se. se\<lparr>se_up_rx := False\<rparr>) s1)
      else answer OK (update_session k
             (\<lambda>se. se\<lparr>se_up_rx := False, se_down_rx := False, se_stream := True,
                      se_ttl := (if se_ttl se = AwaitGet then GetArrived else se_ttl se)\<rparr>)
             (s1\<lparr>x_ready := x_ready s1 @ [k]\<rparr>)))"

text \<open>
  \<open>handle_post\<close>: without a session id or with a malformed number it is refused; without a number
  it answers and a task sends the body's frames; with one it sends one packet and then answers.
  \<open>whole\<close> says whether the body was read without an error; a packet that was not is dropped.
\<close>

definition handle_post :: "rstring option \<Rightarrow> rstring option \<Rightarrow> bytes list \<Rightarrow> bool \<Rightarrow> xserver \<Rightarrow> xserver" where
  "handle_post session_id seq_str frames whole s =
     (case session_id of
        None \<Rightarrow> answer BAD_REQUEST s
      | Some sid \<Rightarrow>
          (case get_or_create_session sid s of
             (k, s1) \<Rightarrow>
               (case seq_str of
                  None \<Rightarrow> answer OK (send_task (Some sid) k (map Chunk frames) s1)
                | Some n \<Rightarrow>
                    (case parse_unsigned (2 ^ 64 - 1) n of
                       None \<Rightarrow> answer BAD_REQUEST s1
                     | Some q \<Rightarrow>
                         if whole then send_task (Some sid) k [Packet (of_nat q) (concat frames)] s1
                         else answer OK s1))))"

text \<open>A send finishes when there is room, or fails, which ends its task, when the receiver is gone.\<close>

definition receiver_alive :: "xsession \<Rightarrow> bool" where
  "receiver_alive se \<longleftrightarrow> se_up_rx se \<or> se_stream se"

definition can_send :: "nat \<Rightarrow> xserver \<Rightarrow> bool" where
  "can_send k s \<longleftrightarrow> \<not> receiver_alive (x_sess s ! k) \<or> length (se_up (x_sess s ! k)) < CHANNEL_CAP"

definition put :: "nat \<Rightarrow> upload_packet \<Rightarrow> xserver \<Rightarrow> xserver" where
  "put k u s =
     (if receiver_alive (x_sess s ! k) then update_session k (\<lambda>se. se\<lparr>se_up := se_up se @ [u]\<rparr>) s else s)"

definition post_send :: "nat \<Rightarrow> xserver \<Rightarrow> xserver" where
  "post_send i s =
     (case x_posts s ! i of
        (k, []) \<Rightarrow> s
      | (k, u # us) \<Rightarrow>
          (let us' = (if receiver_alive (x_sess s ! k) then us else []);
               s1 = put k u (s\<lparr>x_posts := (x_posts s)[i := (k, us')]\<rparr>)
           in case u of Packet _ _ \<Rightarrow> answer OK s1 | _ \<Rightarrow> s1))"

text \<open>
  The steps.  A task that needs the table waits while an expiry task holds its lock; one that
  needs a session waits while an expiry task holds the session's lock.
\<close>

inductive xstep :: "xserver \<Rightarrow> xserver \<Rightarrow> bool" where
  one: "xstep s (stream_one frames s)"
| get_found: "x_expiry s = NoExpiry \<Longrightarrow> xstep s (get_lookup sid s)"
| get_taken: "k \<in> set (x_gets s) \<Longrightarrow> x_expiry s \<noteq> Sending k \<Longrightarrow> xstep s (get_take k s)"
| posted: "x_expiry s = NoExpiry \<or> session_id = None \<Longrightarrow> xstep s (handle_post session_id seq_str frames whole s)"
| sent: "i < length (x_posts s) \<Longrightarrow> x_posts s ! i = (k, u # us) \<Longrightarrow> can_send k s \<Longrightarrow> xstep s (post_send i s)"
| received: "k < length (x_sess s) \<Longrightarrow> se_stream (x_sess s ! k) \<Longrightarrow> se_up (x_sess s ! k) = u # us \<Longrightarrow>
    xstep s (update_session k (\<lambda>se. se\<lparr>se_up := us, se_read := se_read se @ [u]\<rparr>) s)"
| stream_dropped: "k < length (x_sess s) \<Longrightarrow> se_stream (x_sess s ! k) \<Longrightarrow>
    xstep s (update_session k (\<lambda>se. se\<lparr>se_stream := False\<rparr>) s)"
| timed_out: "k < length (x_sess s) \<Longrightarrow> se_ttl (x_sess s ! k) = AwaitGet \<Longrightarrow>
    xstep s (update_session k (\<lambda>se. se\<lparr>se_ttl := TimedOut\<rparr>) s)"
| expire_remove: "x_expiry s = NoExpiry \<Longrightarrow> k < length (x_sess s) \<Longrightarrow> se_ttl (x_sess s ! k) = TimedOut \<Longrightarrow>
    se_id (x_sess s ! k) = Some sid \<Longrightarrow> x_map s sid = Some k \<Longrightarrow>
    xstep s (update_session k (\<lambda>se. se\<lparr>se_ttl := TtlDone\<rparr>)
      (s\<lparr>x_map := (x_map s)(sid := None), x_expiry := Removed k\<rparr>))"
| expire_lock: "x_expiry s = Removed k \<Longrightarrow> xstep s (s\<lparr>x_expiry := Sending k\<rparr>)"
| expire_send: "x_expiry s = Sending k \<Longrightarrow> can_send k s \<Longrightarrow> xstep s ((put k Eof s)\<lparr>x_expiry := NoExpiry\<rparr>)"
| lifetime_over: "x_expiry s = NoExpiry \<Longrightarrow> k < length (x_sess s) \<Longrightarrow> se_ttl (x_sess s ! k) = GetArrived \<Longrightarrow>
    se_id (x_sess s ! k) = Some sid \<Longrightarrow> x_map s sid = Some k \<Longrightarrow>
    xstep s (update_session k (\<lambda>se. se\<lparr>se_ttl := TtlDone\<rparr>) (s\<lparr>x_map := (x_map s)(sid := None)\<rparr>))"

inductive_cases xstepE: "xstep s t"

definition xreach :: "xserver \<Rightarrow> xserver \<Rightarrow> bool" where
  "xreach s t \<longleftrightarrow> xstep\<^sup>*\<^sup>* s t"

section \<open>Paths\<close>

lemma trim_start_slash: "sid \<noteq> [] \<Longrightarrow> hd sid \<noteq> 47 \<Longrightarrow> trim_start_byte 47 (sid @ t) = sid @ t"
  by (cases sid) (simp_all add: trim_start_byte_def)

lemma strip_prefix_append [simp]: "strip_prefix p (p @ s) = Some s"
  by (simp add: strip_prefix_def)

lemma parse_path_session:
  assumes "sid \<noteq> []" "47 \<notin> set sid" "base = normalized_path path"
  shows "parse_path (base @ sid) base = Some (Some sid, None)"
    and "parse_path (base @ sid @ 47 # n) base = Some (Some sid, non_empty n)"
    and "parse_path base base = Some (None, None)"
proof -
  have h: "hd sid \<noteq> 47" using assms(1,2) by (cases sid) auto
  have short: "length (trim_end_byte 47 base) \<le> length base"
    using length_dropWhile_le [of _ "rev base"] by (simp add: trim_end_byte_def)
  have n: "base @ sid @ t \<noteq> trim_end_byte 47 base" "base @ sid @ t \<noteq> base" for t
    using short assms(1) by (metis append_is_Nil_conv append_self_conv length_append add_leD1 le_antisym
        length_greater_0_conv less_add_same_cancel1 not_less)+
  have s: "split_once 47 sid = None" "split_once 47 (sid @ 47 # n) = Some (sid, n)"
    using assms(2) by (simp_all add: split_once_None split_once_append)
  show "parse_path (base @ sid) base = Some (Some sid, None)"
    using n [of "[]"] h assms(1) s(1) trim_start_slash [of sid "[]"]
    by (simp add: parse_path_def non_empty_def Let_def)
  show "parse_path (base @ sid @ 47 # n) base = Some (Some sid, non_empty n)"
    using n [of "47 # n"] h assms(1) s(2) trim_start_slash [of sid "47 # n"]
    by (simp add: parse_path_def non_empty_def Let_def)
  show "parse_path base base = Some (None, None)"
    by (simp add: parse_path_def)
qed

lemma root_path: "normalized_path [47] = [47, 47]"
  by (simp add: normalized_path_def trim_end_byte_def strip_prefix_def)

section \<open>Invariants of the server\<close>

text \<open>What the sessions, the table and the running tasks say about each other.\<close>

definition from_owner :: "xserver \<Rightarrow> nat \<Rightarrow> upload_packet \<Rightarrow> bool" where
  "from_owner s k u \<longleftrightarrow> u = Eof \<or> (se_id (x_sess s ! k), u) \<in> set (x_posted s)"

definition sessions_ok :: "xserver \<Rightarrow> bool" where
  "sessions_ok s \<longleftrightarrow>
     (\<forall>k < length (x_sess s). \<forall>u \<in> set (se_read (x_sess s ! k) @ se_up (x_sess s ! k)). from_owner s k u)"

definition posts_ok :: "xserver \<Rightarrow> bool" where
  "posts_ok s \<longleftrightarrow>
     (\<forall>(k, us) \<in> set (x_posts s). k < length (x_sess s) \<and> (\<forall>u \<in> set us. from_owner s k u))"

definition table_ok :: "xserver \<Rightarrow> bool" where
  "table_ok s \<longleftrightarrow>
     (\<forall>sid k. x_map s sid = Some k \<longrightarrow> k < length (x_sess s) \<and> se_id (x_sess s ! k) = Some sid)
     \<and> (\<forall>k \<in> set (x_gets s). k < length (x_sess s))
     \<and> (\<forall>k. x_expiry s = Removed k \<or> x_expiry s = Sending k \<longrightarrow> k < length (x_sess s))"

definition ready_ok :: "xserver \<Rightarrow> bool" where
  "ready_ok s \<longleftrightarrow> distinct (x_ready s) \<and> (\<forall>k \<in> set (x_ready s). k < length (x_sess s) \<and> \<not> se_up_rx (x_sess s ! k))"

definition xinv :: "xserver \<Rightarrow> bool" where
  "xinv s \<longleftrightarrow> sessions_ok s \<and> posts_ok s \<and> table_ok s \<and> ready_ok s"

lemmas xinv_defs = xinv_def sessions_ok_def posts_ok_def table_ok_def ready_ok_def from_owner_def

lemma xinv_answer [simp]: "xinv (answer st s) = xinv s"
  by (simp add: answer_def xinv_defs)

text \<open>A change to one session that keeps its id and only loses or moves packets.\<close>

lemma xinv_update:
  assumes "xinv s" "\<And>se. se_id (f se) = se_id se" "\<And>se. se_up_rx (f se) \<Longrightarrow> se_up_rx se"
    and "set (se_read (f (x_sess s ! k)) @ se_up (f (x_sess s ! k)))
      \<subseteq> set (se_read (x_sess s ! k) @ se_up (x_sess s ! k)) \<union> {u. from_owner s k u}"
  shows "xinv (update_session k f s)"
proof (cases "k < length (x_sess s)")
  case True
  let ?t = "update_session k f s"
  have n: "x_sess ?t ! j = (if j = k then f (x_sess s ! k) else x_sess s ! j)" if "j < length (x_sess s)" for j
    using that by (simp add: update_session_def)
  have fields: "length (x_sess ?t) = length (x_sess s)" "x_posted ?t = x_posted s" "x_posts ?t = x_posts s"
    "x_map ?t = x_map s" "x_gets ?t = x_gets s" "x_expiry ?t = x_expiry s" "x_ready ?t = x_ready s"
    by (simp_all add: update_session_def)
  have o: "from_owner ?t j u = from_owner s j u" if "j < length (x_sess s)" for j u
    using that n assms(2) by (simp add: from_owner_def fields)
  have "from_owner s k u" if "u \<in> set (se_read (f (x_sess s ! k)) @ se_up (f (x_sess s ! k)))" for u
    using that assms(1,4) True by (auto simp: xinv_def sessions_ok_def)
  then have "sessions_ok ?t" using assms(1) True
    by (simp add: xinv_def sessions_ok_def n o fields)
  moreover have "posts_ok ?t" using assms(1) by (fastforce simp: xinv_def posts_ok_def o fields)
  moreover have "table_ok ?t" using assms(1,2) by (auto simp: xinv_def table_ok_def fields n)
  moreover have "ready_ok ?t" using assms(1,3) by (auto simp: xinv_def ready_ok_def fields n)
  ultimately show ?thesis by (simp add: xinv_def)
qed (use assms(1) in \<open>simp add: update_session_def not_less list_update_beyond\<close>)

lemma xinv_put:
  assumes "xinv s" "from_owner s k u"
  shows "xinv (put k u s)"
  using xinv_update [OF assms(1), of "\<lambda>se. se\<lparr>se_up := se_up se @ [u]\<rparr>" k] assms
  by (auto simp: put_def)

lemma xinv_get_or_create:
  assumes "xinv s" "get_or_create_session sid s = (k, t)"
  shows "xinv t \<and> k < length (x_sess t) \<and> se_id (x_sess t ! k) = Some sid"
proof (cases "x_map s sid")
  case None
  with assms have t: "k = length (x_sess s)"
    "t = s\<lparr>x_sess := x_sess s @ [session_new sid], x_map := (x_map s)(sid \<mapsto> k)\<rparr>"
    by (auto simp: get_or_create_session_def)
  have "sessions_ok t" "posts_ok t" "table_ok t" "ready_ok t"
    using assms(1) unfolding t by (fastforce simp: xinv_defs session_new_def nth_append split: if_splits)+
  then show ?thesis by (simp add: xinv_def t session_new_def)
qed (use assms in \<open>auto simp: get_or_create_session_def xinv_def table_ok_def\<close>)

lemma xinv_send_task:
  assumes "xinv s" "k < length (x_sess s)" "se_id (x_sess s ! k) = sid"
  shows "xinv (send_task sid k us s)"
proof -
  have "from_owner s j u \<Longrightarrow> from_owner (send_task sid k us s) j u" for j u
    by (auto simp: from_owner_def send_task_def)
  moreover have "u \<in> set us \<Longrightarrow> from_owner (send_task sid k us s) k u" for u
    using assms(3) by (auto simp: from_owner_def send_task_def)
  ultimately show ?thesis using assms
    by (auto simp: xinv_def sessions_ok_def posts_ok_def table_ok_def ready_ok_def send_task_def)
qed

lemma xinv_stream_one: "xinv s \<Longrightarrow> xinv (stream_one frames s)"
proof -
  assume i: "xinv s"
  let ?se = "\<lparr>se_id = None, se_up = [], se_up_rx = False, se_down_rx = False, se_stream = True,
    se_ttl = TtlDone, se_read = []\<rparr>"
  let ?t = "s\<lparr>x_sess := x_sess s @ [?se], x_ready := x_ready s @ [length (x_sess s)]\<rparr>"
  have "sessions_ok ?t" "posts_ok ?t" "table_ok ?t" "ready_ok ?t"
    using i by (fastforce simp: xinv_defs nth_append split: if_splits)+
  then have "xinv ?t" by (simp add: xinv_def)
  then show ?thesis unfolding stream_one_def Let_def by (simp add: xinv_send_task)
qed

lemma xinv_ready:
  "xinv s \<Longrightarrow> k \<notin> set (x_ready s) \<Longrightarrow> k < length (x_sess s) \<Longrightarrow> \<not> se_up_rx (x_sess s ! k) \<Longrightarrow>
     xinv (s\<lparr>x_ready := x_ready s @ [k]\<rparr>)"
  by (auto simp: xinv_defs)

lemma xinv_get_take:
  assumes "xinv s" "k \<in> set (x_gets s)"
  shows "xinv (get_take k s)"
proof -
  let ?s1 = "s\<lparr>x_gets := remove1 k (x_gets s)\<rparr>" and ?se = "x_sess s ! k"
  have s1: "xinv ?s1" using assms by (auto simp: xinv_defs dest: notin_set_remove1 set_remove1_subset [THEN subsetD])
  show ?thesis
  proof (cases "se_up_rx ?se \<and> se_down_rx ?se")
    case False
    with s1 xinv_update [OF s1, of "\<lambda>se. se\<lparr>se_up_rx := False\<rparr>" k] show ?thesis
      by (auto simp: get_take_def Let_def)
  next
    case True
    let ?f = "\<lambda>se. se\<lparr>se_up_rx := False, se_down_rx := False, se_stream := True,
      se_ttl := (if se_ttl se = AwaitGet then GetArrived else se_ttl se)\<rparr>"
    have "xinv (update_session k ?f ?s1)" using xinv_update [OF s1, of ?f k] by simp
    moreover have "k \<notin> set (x_ready s)" using assms True by (auto simp: xinv_def ready_ok_def)
    moreover have "k < length (x_sess s)" using assms by (auto simp: xinv_def table_ok_def)
    ultimately have "xinv ((update_session k ?f ?s1)\<lparr>x_ready := x_ready (update_session k ?f ?s1) @ [k]\<rparr>)"
      by (intro xinv_ready) (simp_all add: update_session_def)
    moreover have "(update_session k ?f ?s1)\<lparr>x_ready := x_ready (update_session k ?f ?s1) @ [k]\<rparr>
        = update_session k ?f (?s1\<lparr>x_ready := x_ready ?s1 @ [k]\<rparr>)"
      by (cases s) (simp add: update_session_def)
    moreover have "get_take k s = answer OK (update_session k ?f (?s1\<lparr>x_ready := x_ready ?s1 @ [k]\<rparr>))"
      unfolding get_take_def Let_def using True by (simp only: simp_thms if_True if_False)
    ultimately show ?thesis by simp
  qed
qed

lemma xinv_handle_post: "xinv s \<Longrightarrow> xinv (handle_post session_id seq_str frames whole s)"
  by (cases session_id; cases "get_or_create_session (the session_id) s")
    (auto simp: handle_post_def xinv_send_task split: option.splits dest: xinv_get_or_create)

lemma xinv_post_send:
  assumes "xinv s" "i < length (x_posts s)" "x_posts s ! i = (k, u # us)"
  shows "xinv (post_send i s)"
proof -
  let ?us = "if receiver_alive (x_sess s ! k) then us else []"
  let ?s1 = "s\<lparr>x_posts := (x_posts s)[i := (k, ?us)]\<rparr>"
  have t: "(k, u # us) \<in> set (x_posts s)" using assms(2,3) by (metis nth_mem)
  then have o: "from_owner s k u" "\<forall>v \<in> set us. from_owner s k v" "k < length (x_sess s)"
    using assms(1) by (auto simp: xinv_def posts_ok_def)
  have "set ((x_posts s)[i := (k, ?us)]) \<subseteq> insert (k, ?us) (set (x_posts s))" by (rule set_update_subset_insert)
  moreover have own: "from_owner ?s1 = from_owner s" by (simp add: from_owner_def fun_eq_iff)
  moreover have "\<forall>v \<in> set ?us. from_owner s k v" using o(2) by simp
  moreover have "\<forall>(k, us) \<in> set (x_posts s). k < length (x_sess s) \<and> (\<forall>u \<in> set us. from_owner s k u)"
    using assms(1) by (simp add: xinv_def posts_ok_def)
  ultimately have "posts_ok ?s1" using o(3) unfolding posts_ok_def own by fastforce
  with assms(1) have "xinv ?s1" by (simp add: xinv_defs)
  moreover have "from_owner ?s1 k u" using o(1) by (simp add: from_owner_def)
  ultimately have "xinv (put k u ?s1)" by (rule xinv_put)
  then show ?thesis using assms(3)
    by (cases u) (simp_all add: post_send_def Let_def split del: if_split)
qed

lemma xinv_expiry:
  assumes "xinv s"
  shows "xinv (s\<lparr>x_map := (x_map s)(sid := None)\<rparr>)" "xinv (s\<lparr>x_expiry := NoExpiry\<rparr>)"
    and "k < length (x_sess s) \<Longrightarrow> e = Removed k \<or> e = Sending k \<Longrightarrow> xinv (s\<lparr>x_expiry := e\<rparr>)"
  using assms by (auto simp: xinv_defs)

lemma xinv_step:
  assumes "xstep s t" "xinv s"
  shows "xinv t"
  using assms
proof cases
  case (received k u us)
  with assms(2) show ?thesis by (auto intro!: xinv_update)
next
  case (expire_remove k sid)
  have "xinv (s\<lparr>x_map := (x_map s)(sid := None), x_expiry := Removed k\<rparr>)"
    using xinv_expiry(3) [OF xinv_expiry(1) [OF assms(2)], where k = k and e = "Removed k" and sid1 = sid] expire_remove by simp
  then show ?thesis unfolding expire_remove(1) by (rule xinv_update) auto
next
  case (expire_send k)
  have "xinv (put k Eof s)" by (rule xinv_put [OF assms(2)]) (simp add: from_owner_def)
  then show ?thesis unfolding expire_send(1) by (rule xinv_expiry(2))
next
  case (expire_lock k)
  then have "k < length (x_sess s)" using assms(2) by (auto simp: xinv_def table_ok_def)
  then show ?thesis using expire_lock xinv_expiry(3) [OF assms(2)] by simp
next
  case (lifetime_over k sid)
  have "xinv (s\<lparr>x_map := (x_map s)(sid := None)\<rparr>)" by (rule xinv_expiry(1) [OF assms(2)])
  then show ?thesis unfolding lifetime_over(1) by (rule xinv_update) auto
next
  case (get_found sid)
  obtain k t1 where g: "get_or_create_session sid s = (k, t1)" by fastforce
  from xinv_get_or_create [OF assms(2) g] have "xinv t1" "k < length (x_sess t1)" by auto
  then show ?thesis unfolding get_found(1) by (auto simp: get_lookup_def g xinv_defs)
qed (use assms(2) in \<open>auto intro: xinv_stream_one xinv_get_take xinv_handle_post xinv_post_send xinv_update\<close>)

lemma xinv_reach: "xreach xserver_new s \<Longrightarrow> xinv s"
  unfolding xreach_def
proof (induction rule: rtranclp_induct)
  case base
  then show ?case by (simp add: xinv_defs xserver_new_def)
qed (rule xinv_step)

section \<open>The server that waits for itself\<close>

definition stalled :: "nat \<Rightarrow> xserver \<Rightarrow> bool" where
  "stalled k s \<longleftrightarrow>
     x_expiry s = Sending k \<and> k < length (x_sess s) \<and> se_up_rx (x_sess s ! k)
     \<and> \<not> se_stream (x_sess s ! k) \<and> length (se_up (x_sess s ! k)) = CHANNEL_CAP"

lemma stalled_step:
  assumes "xstep s t" "stalled k s"
  shows "stalled k t \<and> x_map t = x_map s \<and> set (x_gets t) \<subseteq> set (x_gets s)
    \<and> filter (\<lambda>(i, u). i \<noteq> None) (x_posted t) = filter (\<lambda>(i, u). i \<noteq> None) (x_posted s)"
  using assms
proof cases
  case (one frames)
  then show ?thesis using assms(2)
    by (simp add: stream_one_def send_task_def answer_def Let_def stalled_def nth_append filter_map comp_def)
next
  case (get_taken j)
  then have "j \<noteq> k" using assms(2) by (auto simp: stalled_def)
  then show ?thesis using assms(2) get_taken(1)
    by (simp add: get_take_def Let_def answer_def update_session_def stalled_def set_remove1_subset)
next
  case (posted session_id seq_str frames whole)
  then have "session_id = None" using assms(2) by (auto simp: stalled_def)
  with posted(1) assms(2) show ?thesis by (simp add: handle_post_def answer_def stalled_def)
next
  case (sent i j u us)
  then have "j \<noteq> k" using assms(2) by (auto simp: stalled_def can_send_def receiver_alive_def)
  then show ?thesis using assms(2) sent
    by (auto simp: post_send_def put_def Let_def answer_def update_session_def stalled_def
        split: upload_packet.splits)
next
  case (timed_out j)
  then show ?thesis using assms(2) by (auto simp: stalled_def update_session_def nth_list_update)
next
  case (received j u us)
  then have "j \<noteq> k" using assms(2) by (auto simp: stalled_def)
  then show ?thesis using assms(2) received(1) by (simp add: stalled_def update_session_def)
next
  case (stream_dropped j)
  then have "j \<noteq> k" using assms(2) by (auto simp: stalled_def)
  then show ?thesis using assms(2) stream_dropped(1) by (simp add: stalled_def update_session_def)
next
  case (expire_send j)
  then show ?thesis using assms(2) by (auto simp: stalled_def can_send_def receiver_alive_def)
qed (use assms(2) in \<open>simp_all add: stalled_def\<close>)

section \<open>Properties\<close>

text \<open>
  Requests find their session: for every configured path, session id and packet number, a GET on
  the session's path is the download of that session and a POST on the path with a number is
  an upload of that packet, while a request with another host is refused.
\<close>

theorem xhttp_request_routing:
  assumes "sid \<noteq> []" "47 \<notin> set sid" "n \<noteq> []" "cfg_host cfg = None \<or> cfg_host cfg = h"
  shows "handle_request cfg \<lparr>xr_method = GET, xr_host = h, xr_path = normalized_path (cfg_path cfg) @ sid\<rparr>
      = HandleGet (Some sid)
    \<and> handle_request cfg \<lparr>xr_method = POST, xr_host = h, xr_path = normalized_path (cfg_path cfg) @ sid @ 47 # n\<rparr>
      = HandlePost (Some sid) (Some n)
    \<and> handle_request cfg \<lparr>xr_method = POST, xr_host = h, xr_path = normalized_path (cfg_path cfg) @ sid\<rparr>
      = HandlePost (Some sid) None
    \<and> (\<forall>req e. cfg_host cfg = Some e \<and> xr_host req = Some h' \<and> h' \<noteq> e \<longrightarrow> handle_request cfg req = Answer NOT_FOUND)"
proof -
  note p = parse_path_session [OF assms(1,2) refl, of "cfg_path cfg"]
  have good: "\<not> bad_host cfg \<lparr>xr_method = m, xr_host = h, xr_path = q\<rparr>" for m q
    using assms(4) by (auto simp: bad_host_def split: option.splits)
  have bad: "bad_host cfg req" if "cfg_host cfg = Some e" "xr_host req = Some h'" "h' \<noteq> e" for req e
    using that by (simp add: bad_host_def)
  show ?thesis using p assms(3) good bad by (simp add: handle_request_def non_empty_def)
qed

theorem xhttp_request_routing_witness:
  "handle_request \<lparr>cfg_path = str ''/vless'', cfg_host = None\<rparr>
     \<lparr>xr_method = POST, xr_host = None, xr_path = str ''/vless/a1/42''\<rparr>
   = HandlePost (Some (str ''a1'')) (Some (str ''42''))"
proof -
  have p: "normalized_path (str ''/vless'') = str ''/vless/''"
    by (simp add: normalized_path_def trim_end_byte_def strip_prefix_def)
  show ?thesis
    using xhttp_request_routing [of "str ''a1''" "str ''42''" "\<lparr>cfg_path = str ''/vless'', cfg_host = None\<rparr>" None] p
    by simp
qed

text \<open>
  With the default path \<open>/\<close> the server refuses every request to a path that does not start with
  two slashes: the normalised path is \<open>//\<close>.
\<close>

theorem xhttp_default_path_unreachable:
  assumes "cfg_path cfg = [47]" "xr_method req \<noteq> OPTIONS" "xr_path req \<noteq> []" "take 2 (xr_path req) \<noteq> [47, 47]"
  shows "handle_request cfg req = Answer NOT_FOUND"
proof -
  have "parse_path (xr_path req) [47, 47] = None"
    using assms(3,4) by (auto simp: parse_path_def trim_end_byte_def strip_prefix_def Let_def numeral_2_eq_2)
  then show ?thesis using assms(1,2) by (auto simp: handle_request_def root_path split: option.splits)
qed

theorem xhttp_default_path_unreachable_witness:
  "handle_request \<lparr>cfg_path = [47], cfg_host = None\<rparr>
     \<lparr>xr_method = GET, xr_host = None, xr_path = str ''/a1''\<rparr> = Answer NOT_FOUND"
  by (rule xhttp_default_path_unreachable) simp_all

text \<open>
  Sessions are kept apart: in every reachable state of the server, whatever the interleaving of
  its handlers and expiry tasks, no session has been handed out as a stream twice, and every
  packet that is in a session's channel or has been read from it was posted under that
  session's id (or is the end marker).
\<close>

theorem xhttp_session_isolation:
  assumes "xreach xserver_new s"
  shows "distinct (x_ready s)
    \<and> (\<forall>k < length (x_sess s). \<forall>u \<in> set (se_read (x_sess s ! k) @ se_up (x_sess s ! k)).
         u = Eof \<or> (se_id (x_sess s ! k), u) \<in> set (x_posted s))"
  using xinv_reach [OF assms] by (simp add: xinv_def ready_ok_def sessions_ok_def from_owner_def)

text \<open>
  The expiry of a session whose channel is full and whose GET never came stops the server: the
  task holds the lock of the session table while it waits for room that nobody can make, so
  in every later state the lock is still held, the table is unchanged, and no request that
  names a session is ever looked up again.
\<close>

theorem xhttp_expiry_stalls_server:
  assumes "stalled k s" "xreach s t"
  shows "x_expiry t = Sending k \<and> x_map t = x_map s \<and> set (x_gets t) \<subseteq> set (x_gets s)
    \<and> filter (\<lambda>(i, u). i \<noteq> None) (x_posted t) = filter (\<lambda>(i, u). i \<noteq> None) (x_posted s)"
proof -
  have "stalled k t \<and> x_map t = x_map s \<and> set (x_gets t) \<subseteq> set (x_gets s)
    \<and> filter (\<lambda>(i, u). i \<noteq> None) (x_posted t) = filter (\<lambda>(i, u). i \<noteq> None) (x_posted s)"
    using assms(2) unfolding xreach_def
  proof (induction rule: rtranclp_induct)
    case (step t u)
    with stalled_step [of t u k] show ?case by auto
  qed (use assms(1) in simp)
  then show ?thesis by (simp add: stalled_def)
qed

section \<open>Instances\<close>

lemma xreach_trans: "xreach a b \<Longrightarrow> xstep b c \<Longrightarrow> xreach a c"
  by (simp add: xreach_def)

definition flooded :: "nat \<Rightarrow> xserver" where
  "flooded n =
     \<lparr>x_map = [str ''a'' \<mapsto> 0],
      x_sess = [(session_new (str ''a''))\<lparr>se_up := replicate n (Packet 0 [])\<rparr>],
      x_ready = [], x_posts = replicate n (0, []), x_gets = [], x_expiry = NoExpiry,
      x_posted = replicate n (Some (str ''a''), Packet 0 []), x_answers = replicate n OK\<rparr>"

lemma parse_zero: "parse_unsigned 18446744073709551615 [48] = Some 0"
  using parse_dec [of 0 "2 ^ 64 - 1"] by (simp add: dec.simps)

lemma flood_step:
  assumes "0 < n" "n < CHANNEL_CAP"
  shows "xreach (flooded n) (flooded (Suc n))"
proof -
  define q where "q = handle_post (Some (str ''a'')) (Some (str ''0'')) [] True (flooded n)"
  have p: "q = (flooded n)\<lparr>x_posts := x_posts (flooded n) @ [(0, [Packet 0 []])],
      x_posted := x_posted (flooded n) @ [(Some (str ''a''), Packet 0 [])]\<rparr>"
    by (simp add: q_def handle_post_def get_or_create_session_def flooded_def parse_zero send_task_def)
  have 1: "xstep (flooded n) q" unfolding q_def by (rule xstep.posted) (simp add: flooded_def)
  have l: "length (x_posts (flooded n)) = n" by (simp add: flooded_def)
  have 2: "xstep q (post_send n q)"
    by (rule xstep.sent [where k = 0 and u = "Packet 0 []" and us = "[]"])
      (use assms(2) in \<open>simp_all add: p nth_append l can_send_def\<close>, simp add: flooded_def)
  have "post_send n q = flooded (Suc n)"
    by (simp add: p post_send_def nth_append l Let_def put_def)
      (simp add: flooded_def receiver_alive_def session_new_def update_session_def answer_def replicate_append_same
        list_update_append)
  with 1 2 show ?thesis by (metis rtranclp.rtrancl_refl xreach_def xreach_trans)
qed

lemma flood_start: "xreach xserver_new (flooded 1)"
proof -
  define q where "q = handle_post (Some (str ''a'')) (Some (str ''0'')) [] True xserver_new"
  have 1: "xstep xserver_new q" unfolding q_def by (rule xstep.posted) (simp add: xserver_new_def)
  have p: "q = \<lparr>x_map = [str ''a'' \<mapsto> 0], x_sess = [session_new (str ''a'')], x_ready = [],
      x_posts = [(0, [Packet 0 []])], x_gets = [], x_expiry = NoExpiry,
      x_posted = [(Some (str ''a''), Packet 0 [])], x_answers = []\<rparr>"
    by (simp add: q_def handle_post_def get_or_create_session_def xserver_new_def parse_zero send_task_def)
  have 2: "xstep q (post_send 0 q)"
    by (rule xstep.sent [where k = 0 and u = "Packet 0 []" and us = "[]"])
      (simp_all add: p can_send_def session_new_def CHANNEL_CAP_def)
  have "post_send 0 q = flooded 1"
    by (simp add: p post_send_def put_def flooded_def receiver_alive_def session_new_def update_session_def answer_def)
  with 1 2 show ?thesis by (metis rtranclp.rtrancl_refl xreach_def xreach_trans)
qed

lemma flooded_reach: "n < CHANNEL_CAP \<Longrightarrow> xreach xserver_new (flooded (Suc n))"
proof (induction n)
  case (Suc n)
  then have "xreach xserver_new (flooded (Suc n))" "xreach (flooded (Suc n)) (flooded (Suc (Suc n)))"
    using flood_step by simp_all
  then show ?case by (simp add: xreach_def)
qed (use flood_start in simp)

lemma stalled_reachable: "\<exists>s. xreach xserver_new s \<and> stalled 0 s"
proof -
  let ?n = CHANNEL_CAP and ?a = "str ''a''"
  let ?s1 = "update_session 0 (\<lambda>se. se\<lparr>se_ttl := TimedOut\<rparr>) (flooded ?n)"
  let ?s2 = "update_session 0 (\<lambda>se. se\<lparr>se_ttl := TtlDone\<rparr>) (?s1\<lparr>x_map := (x_map ?s1)(?a := None), x_expiry := Removed 0\<rparr>)"
  let ?s3 = "?s2\<lparr>x_expiry := Sending 0\<rparr>"
  have "xreach xserver_new (flooded ?n)" using flooded_reach [of "?n - 1"] by (simp add: CHANNEL_CAP_def)
  moreover have "xstep (flooded ?n) ?s1" by (rule xstep.timed_out) (simp_all add: flooded_def session_new_def)
  moreover have "xstep ?s1 ?s2"
    by (rule xstep.expire_remove) (simp_all add: flooded_def session_new_def update_session_def)
  moreover have "xstep ?s2 ?s3" by (rule xstep.expire_lock) (simp add: update_session_def)
  ultimately have "xreach xserver_new ?s3" by (meson xreach_trans)
  moreover have "stalled 0 ?s3" by (simp add: stalled_def flooded_def session_new_def update_session_def)
  ultimately show ?thesis by blast
qed

theorem xhttp_session_isolation_witness:
  "xreach xserver_new (flooded 2) \<and> distinct (x_ready (flooded 2))"
proof -
  have r: "xreach xserver_new (flooded 2)" using flooded_reach [of 1] by (simp add: CHANNEL_CAP_def numeral_2_eq_2)
  with xhttp_session_isolation [OF r] show ?thesis by blast
qed

theorem xhttp_expiry_stalls_server_witness:
  "\<exists>s. xreach xserver_new s \<and> (\<forall>t. xreach s t \<longrightarrow> x_expiry t = Sending 0 \<and> x_map t = x_map s)"
proof -
  obtain s where "xreach xserver_new s" "stalled 0 s" using stalled_reachable by blast
  with xhttp_expiry_stalls_server [of 0 s] show ?thesis by blast
qed

end
