(* ===== verification/Transport_Ends.thy ===== *)
theory Transport_Ends
  imports Websocket Xhttp_Server
begin

text \<open>
  The ends of the two transports: flush and shutdown of a WebSocket and of an XHTTP stream, one request of a connection that
  \<open>serve_conn\<close> hands to the handlers, and \<open>accept\<close>, which takes the ready streams one by one.
\<close>

section \<open>The model\<close>

text \<open>The answers of the WebSocket library to \<open>poll_flush\<close> and \<open>poll_close\<close>; the first close also sends a close frame.\<close>

definition sink_result :: "sink \<Rightarrow> unit result option" where
  "sink_result k = (case k of SinkReady \<Rightarrow> Some (Inr ()) | SinkPending \<Rightarrow> None | SinkError \<Rightarrow> Some (Inl (Io Other)))"

definition ws_poll_flush :: "sink \<Rightarrow> ws_stream \<Rightarrow> unit result option \<times> ws_stream" where
  "ws_poll_flush flushed this = (sink_result flushed, this)"

definition ws_poll_shutdown :: "sink \<Rightarrow> ws_stream \<Rightarrow> unit result option \<times> ws_stream" where
  "ws_poll_shutdown closed this =
     (sink_result closed, if closed = SinkError \<or> Close \<in> set (ws_out this) then this else this\<lparr>ws_out := ws_out this @ [Close]\<rparr>)"

text \<open>Of an XHTTP stream both do nothing: the sender of the downlink stays in the stream until the stream is dropped.\<close>

definition xhttp_poll_flush :: "downlink_chan \<Rightarrow> unit result option \<times> downlink_chan" where
  "xhttp_poll_flush this = (Some (Inr ()), this)"

definition xhttp_poll_shutdown :: "downlink_chan \<Rightarrow> unit result option \<times> downlink_chan" where
  "xhttp_poll_shutdown this = (Some (Inr ()), this)"

definition xhttp_config_default :: xhttp_config where
  "xhttp_config_default = \<lparr>cfg_path = str ''/'', cfg_host = None\<rparr>"

text \<open>One request of a connection: its body's frames, and whether it was read without an error.\<close>

definition serve_conn :: "xhttp_config \<Rightarrow> xrequest \<Rightarrow> bytes list \<Rightarrow> bool \<Rightarrow> xserver \<Rightarrow> xserver" where
  "serve_conn cfg req frames whole s =
     (case handle_request cfg req of
        Answer st \<Rightarrow> answer st s
      | HandleGet None \<Rightarrow> stream_one frames s
      | HandleGet (Some sid) \<Rightarrow> get_lookup sid s
      | HandlePost session_id seq_str \<Rightarrow> handle_post session_id seq_str frames whole s)"

definition xhttp_accept :: "xserver \<Rightarrow> nat option \<times> xserver" where
  "xhttp_accept s = (case x_ready s of [] \<Rightarrow> (None, s) | k # ks \<Rightarrow> (Some k, s\<lparr>x_ready := ks\<rparr>))"

text \<open>The running server, with the streams that it has handed out: a request, a step of its tasks, or an \<open>accept\<close>.\<close>

inductive xserve :: "xhttp_config \<Rightarrow> xserver \<times> nat list \<Rightarrow> xserver \<times> nat list \<Rightarrow> bool" for cfg where
  request: "x_expiry s = NoExpiry \<Longrightarrow> xserve cfg (s, out) (serve_conn cfg req frames whole s, out)"
| refused: "handle_request cfg req = Answer st \<Longrightarrow> xserve cfg (s, out) (serve_conn cfg req frames whole s, out)"
| task: "xstep s t \<Longrightarrow> xserve cfg (s, out) (t, out)"
| accepted: "xhttp_accept s = (Some k, t) \<Longrightarrow> xserve cfg (s, out) (t, out @ [k])"

section \<open>Requests are steps\<close>

lemma serve_conn_cases:
  assumes "x_expiry s = NoExpiry"
  shows "(\<exists>st. serve_conn cfg req frames whole s = answer st s) \<or> xstep s (serve_conn cfg req frames whole s)"
proof (cases "handle_request cfg req")
  case (Answer st)
  then show ?thesis by (auto simp: serve_conn_def)
next
  case (HandleGet sid)
  then show ?thesis
    using xstep.one [of s frames] xstep.get_found [OF assms] by (cases sid) (simp_all add: serve_conn_def)
next
  case (HandlePost sid q)
  with xstep.posted [of s sid q frames whole] assms show ?thesis by (simp add: serve_conn_def)
qed

text \<open>A refused request leaves nothing behind.\<close>

lemma serve_conn_refused:
  "handle_request cfg req = Answer st \<Longrightarrow>
     x_sess (serve_conn cfg req frames whole s) = x_sess s \<and> x_map (serve_conn cfg req frames whole s) = x_map s
     \<and> x_posts (serve_conn cfg req frames whole s) = x_posts s"
  by (simp add: serve_conn_def answer_def)

lemma serve_conn_bad_host:
  "cfg_host cfg = Some h \<Longrightarrow> xr_host req \<noteq> Some h \<Longrightarrow> h \<noteq> [] \<Longrightarrow> serve_conn cfg req frames whole s = answer NOT_FOUND s"
  by (cases "xr_host req") (simp_all add: serve_conn_def handle_request_def bad_host_def)

section \<open>Streams are handed out once\<close>

text \<open>No step reads the queue of ready streams: what was taken from it could as well still be in front of it.\<close>

definition untaken :: "nat list \<Rightarrow> xserver \<Rightarrow> xserver" where
  "untaken out s = s\<lparr>x_ready := out @ x_ready s\<rparr>"

lemma untaken_simps [simp]:
  "x_map (untaken out s) = x_map s" "x_sess (untaken out s) = x_sess s" "x_ready (untaken out s) = out @ x_ready s"
  "x_posts (untaken out s) = x_posts s" "x_gets (untaken out s) = x_gets s" "x_expiry (untaken out s) = x_expiry s"
  "x_posted (untaken out s) = x_posted s" "x_answers (untaken out s) = x_answers s"
  by (simp_all add: untaken_def)

lemma untaken_update:
  "untaken out (answer st s) = answer st (untaken out s)"
  "untaken out (update_session k f s) = update_session k f (untaken out s)"
  "untaken out (send_task session_id k us s) = send_task session_id k us (untaken out s)"
  "untaken out (s\<lparr>x_map := m\<rparr>) = (untaken out s)\<lparr>x_map := m\<rparr>"
  "untaken out (s\<lparr>x_expiry := e\<rparr>) = (untaken out s)\<lparr>x_expiry := e\<rparr>"
  "untaken out (s\<lparr>x_posts := ps\<rparr>) = (untaken out s)\<lparr>x_posts := ps\<rparr>"
  "untaken out (s\<lparr>x_gets := gs\<rparr>) = (untaken out s)\<lparr>x_gets := gs\<rparr>"
  "untaken out (s\<lparr>x_sess := ss\<rparr>) = (untaken out s)\<lparr>x_sess := ss\<rparr>"
  "untaken out (s\<lparr>x_ready := x_ready s @ ks\<rparr>) = (untaken out s)\<lparr>x_ready := x_ready (untaken out s) @ ks\<rparr>"
  by (simp_all add: untaken_def answer_def update_session_def send_task_def)

lemma untaken_create: "get_or_create_session sid (untaken out s) = map_prod id (untaken out) (get_or_create_session sid s)"
  by (simp add: get_or_create_session_def untaken_update split: option.split)

lemma untaken_put: "untaken out (put k u s) = put k u (untaken out s)"
  by (simp add: put_def untaken_update)

lemma untaken_ops:
  "untaken out (stream_one frames s) = stream_one frames (untaken out s)"
  "untaken out (get_lookup sid s) = get_lookup sid (untaken out s)"
  "untaken out (get_take k s) = get_take k (untaken out s)"
  "untaken out (handle_post session_id q frames whole s) = handle_post session_id q frames whole (untaken out s)"
  "untaken out (post_send i s) = post_send i (untaken out s)"
  subgoal by (simp add: stream_one_def Let_def untaken_update) (simp add: untaken_def)
  subgoal by (simp add: get_lookup_def untaken_create untaken_update split: prod.split)
  subgoal by (simp add: get_take_def Let_def untaken_update) (simp add: untaken_def update_session_def answer_def)
  subgoal by (auto simp: handle_post_def untaken_create untaken_update split: option.split prod.split)
  subgoal by (auto simp: post_send_def Let_def untaken_update untaken_put split: prod.split list.split upload_packet.split)
  done

lemma untaken_step: "xstep s t \<Longrightarrow> xstep (untaken out s) (untaken out t)"
  by (erule xstepE) (auto simp: untaken_update untaken_put untaken_ops can_send_def intro: xstep.intros
      xstep.expire_remove [where s = "untaken out s", simplified] xstep.lifetime_over [where s = "untaken out s", simplified])

lemma xserve_inv:
  assumes "xserve cfg (s, out) (t, out')" "xinv (untaken out s)"
  shows "xinv (untaken out' t)"
  using assms(1)
proof cases
  case (request req frames whole)
  from serve_conn_cases [OF request(3), of cfg req frames whole] show ?thesis
  proof (elim disjE exE)
    fix st assume "serve_conn cfg req frames whole s = answer st s"
    with request assms(2) show ?thesis by (simp add: untaken_update)
  next
    assume "xstep s (serve_conn cfg req frames whole s)"
    from xinv_step [OF untaken_step [OF this] assms(2)] request show ?thesis by simp
  qed
next
  case (refused req st frames whole)
  with assms(2) show ?thesis by (simp add: serve_conn_def untaken_update)
next
  case task
  from xinv_step [OF untaken_step [OF task(2)] assms(2)] task(1) show ?thesis by simp
next
  case (accepted k)
  then have "untaken out' t = untaken out s"
    by (cases "x_ready s") (auto simp: xhttp_accept_def untaken_def)
  with assms(2) show ?thesis by simp
qed

lemma xserve_reach_inv:
  assumes "(xserve cfg)\<^sup>*\<^sup>* (xserver_new, []) (s, out)"
  shows "xinv (untaken out s)"
  using assms
proof (induction "(s, out)" arbitrary: s out rule: rtranclp_induct)
  case base
  have "xinv xserver_new" by (rule xinv_reach) (simp add: xreach_def)
  then show ?case by (simp add: untaken_def)
next
  case (step y)
  then show ?case by (cases y) (auto intro: xserve_inv)
qed

text \<open>
  C27.  The XHTTP server keeps its sessions apart, from the requests to the streams that are handed out: whatever requests arrive,
  good or bad, and however the handlers, the expiry tasks and \<open>accept\<close> interleave, no session is handed out as a stream twice, and
  every packet in a session's channel, or read from it, was posted under that session's id or is the end marker.
\<close>

theorem xhttp_streams_once:
  assumes "(xserve cfg)\<^sup>*\<^sup>* (xserver_new, []) (s, out)"
  shows "distinct (out @ x_ready s) \<and>
    (\<forall>k < length (x_sess s). \<forall>u \<in> set (se_read (x_sess s ! k) @ se_up (x_sess s ! k)).
       u = Eof \<or> (se_id (x_sess s ! k), u) \<in> set (x_posted s))"
  using xserve_reach_inv [OF assms] by (simp add: xinv_def ready_ok_def sessions_ok_def from_owner_def)

definition demo_request :: xrequest where
  "demo_request = \<lparr>xr_method = GET, xr_host = None, xr_path = str ''/v/''\<rparr>"

lemma demo_request_route: "handle_request \<lparr>cfg_path = str ''/v'', cfg_host = None\<rparr> demo_request = HandleGet None"
  by (simp add: handle_request_def bad_host_def demo_request_def parse_path_def normalized_path_def trim_end_byte_def
      trim_start_byte_def strip_prefix_def Let_def)

lemma demo_served:
  "(xserve \<lparr>cfg_path = str ''/v'', cfg_host = None\<rparr>)\<^sup>*\<^sup>* (xserver_new, []) ((stream_one [[1]] xserver_new)\<lparr>x_ready := []\<rparr>, [0])"
proof -
  let ?c = "\<lparr>cfg_path = str ''/v'', cfg_host = None\<rparr>" and ?s = "stream_one [[1]] xserver_new"
  have "xserve ?c (xserver_new, []) (serve_conn ?c demo_request [[1]] True xserver_new, [])"
    by (rule xserve.request) (simp add: xserver_new_def)
  then have "xserve ?c (xserver_new, []) (?s, [])"
    by (simp only: serve_conn_def demo_request_route route.case option.case)
  moreover have "xserve ?c (?s, []) (?s\<lparr>x_ready := []\<rparr>, [] @ [0])"
    by (rule xserve.accepted) (simp add: xhttp_accept_def stream_one_def answer_def send_task_def xserver_new_def)
  ultimately show ?thesis by simp
qed

theorem xhttp_streams_once_witness:
  "distinct ([0] @ x_ready ((stream_one [[1]] xserver_new)\<lparr>x_ready := []\<rparr>))"
  using xhttp_streams_once [OF demo_served] by (rule conjunct1)

section \<open>The ends\<close>

text \<open>
  A shutdown of the download side does not reach the client: however often the stream is shut down, the response body
  does not end before the stream is dropped.
\<close>

lemma xhttp_shutdown_keeps_body:
  "poll_frame False (StreamBody (snd (xhttp_poll_shutdown d))) = poll_frame False (StreamBody d)
     \<and> fst (poll_frame False (StreamBody (snd (xhttp_poll_shutdown d)))) \<noteq> FrameEnd"
  by (cases "dl_items d") (simp_all add: xhttp_poll_shutdown_def)

text \<open>A WebSocket that is shut down sends what was written and then the close frame.\<close>

lemma ws_shutdown_closes:
  "closed \<noteq> SinkError \<Longrightarrow> Close \<notin> set (ws_out s) \<Longrightarrow>
     ws_out (snd (ws_poll_shutdown closed (ws_writes bs s))) = ws_out s @ map Binary bs @ [Close]"
  by (auto simp: ws_poll_shutdown_def ws_writes_out)

end
