(* ===== verification/Spec2Isabelle.thy ===== *)
theory Spec2Isabelle
  imports Config_Write Generate Accept_Loops Shadowsocks_Client Shadowsocks_Exact Hysteria2_Padding Wireguard_Wiring Anytls_Lock Tuic_Auth Transport_Ends
begin

text \<open>
  A verification development for \<open>ruproxy\<close>, a proxy server in Rust with nine inbound protocols (paths below are under
  \<open>src/src/\<close>).

  \<^bold>\<open>The program.\<close>  \<open>main.rs\<close> reads a configuration (\<open>config.rs\<close>) and spawns one task for each of its nodes.  A task listens on one
  address and runs one protocol: VLESS, VMess, Trojan, Shadowsocks 2022, AnyTLS and SOCKS5 on TCP; TUIC and Hysteria2 on QUIC; WireGuard
  on UDP.  The first four can run inside TLS and inside a WebSocket or an XHTTP session (\<open>common/\<close>), VLESS also inside REALITY
  (\<open>vless/tls/reality.rs\<close>).  A handler authenticates the client, reads a destination, dials it and
  relays bytes both ways.

  \<^bold>\<open>Conventions.\<close>  A machine integer is a word of its width; lengths and indices are \<open>nat\<close>.  A fallible function returns
  \<open>err + 'a\<close> (\<open>result\<close> in \<open>Prelude\<close>); a panic is the error \<open>Panic\<close>.  Asynchronous reads and writes are functions of a connection record
  (\<open>Stream_IO\<close>): the bytes that still arrive, how the stream ends after them, the bytes written and how many the peer accepts.  Tasks that
  share state are step relations, and their properties hold in every interleaving.  Cryptography, TLS, QUIC, HTTP, smoltcp,
  boringtun, the file system and the operating system are parameters, functions or records of functions with named laws
  (\<open>aead_laws\<close>, \<open>body_laws\<close>, \<open>digest_laws\<close> and others); every law is shown to be satisfiable by a concrete instance that a witness uses.

  \<^bold>\<open>Foundations.\<close>
  \<^item> \<open>Prelude\<close>: word types, byte strings, errors, big-endian encodings.
  \<^item> \<open>Rust_Std\<close>, \<open>Ip_Parse\<close>, \<open>F64\<close>: the standard library as the sources use it: UTF-8, numbers, splitting and trimming, addresses as text in both directions,
    and floating point with its rounding (locale \<open>rounding\<close>).
  \<^item> \<open>Stream_IO\<close>, \<open>Byte_Source\<close>: streams; locale \<open>header_parser\<close> for a parser that inverts an encoder and consumes exactly its output, locale
    \<open>byte_source\<close> for a stream that yields its bytes piecewise, over which a reader refines the reader of the whole; \<open>input_conn\<close>, the connection
    that a handler sees over a stream: it holds what the stream's \<open>poll_read\<close> returns to its end.
  \<^item> \<open>Wire_Addr\<close>: destinations as a conforming client writes them.
  \<^item> \<open>Relay\<close>: the two copy loops of a handler as a step relation among peers whose bytes arrive over time and that may end, break off or stay silent;
    nothing is repeated, reordered or invented, what arrived before a clean end is delivered, a half-close is passed on, and the loops wait only for a source that is open.

  \<^bold>\<open>Protocols.\<close>
  \<^item> \<open>Vless\<close> (\<open>vless/protocol.rs\<close>, \<open>vless/listener.rs\<close>), \<open>Trojan\<close> (\<open>trojan/mod.rs\<close>), \<open>Socks\<close> (\<open>socks/mod.rs\<close>): request parsers, replies, handlers.
    \<open>Proxy_Handlers\<close> composes them with the relay and with what \<open>poll_read\<close> of WebSocket and of XHTTP returns (locale \<open>inbound_handler\<close>).
  \<^item> \<open>Aead_Stream\<close>, \<open>Shadowsocks\<close>, \<open>Shadowsocks_Client\<close>, \<open>Shadowsocks_Exact\<close> (\<open>shadowsocks/\<close>): the encrypted stream, with round trip and integrity against any sender; session keys,
    headers, the handler; the request builder against the parser; the exact reader and the clock.
  \<^item> \<open>Vmess_Body\<close>, \<open>Vmess_Header\<close> (\<open>vmess/mod.rs\<close>): chunked bodies, key derivation, authenticated headers, the handler.
  \<^item> \<open>Anytls_Padding\<close>, \<open>Anytls_Session\<close>, \<open>Anytls_Lock\<close>, \<open>Anytls_Server\<close> (\<open>anytls/\<close>): the padding text, the multiplexer, the lock that the two loops of a stream
    share, start-up, authentication and the handlers of a session's streams up to their dials.
  \<^item> \<open>Tuic_Proto\<close>, \<open>Tuic_Auth\<close>, \<open>Tuic_Connection\<close> (\<open>tuic/\<close>): wire format; the authentication latch at the grain of its atomic
    operations; the connection's event loop, sessions and handlers.
  \<^item> \<open>Varint\<close>, \<open>Hysteria2_Udp\<close>, \<open>Hysteria2_Server\<close>, \<open>Hysteria2_Padding\<close>, \<open>Hysteria2_Masquerade\<close>, \<open>Hysteria2_Congestion\<close> (\<open>hysteria2/\<close>): integers, fragmentation and reassembly, authentication,
    streams and datagrams; random padding; the answers to probes; the Brutal controller and the bandwidth texts.
  \<^item> \<open>Quic_Setup\<close>: start-up of the two QUIC servers, and \<open>tuic/error.rs\<close>.
  \<^item> \<open>Wireguard_Flow\<close>, \<open>Wireguard_Stack\<close>, \<open>Wireguard_Relay\<close>, \<open>Wireguard_Server\<close>, \<open>Wireguard_Setup\<close>, \<open>Wireguard_Wiring\<close> (\<open>wireguard/\<close>): packets, the actor
    of a peer, its relay tasks, the server's tasks, keys and peers at start-up; and which task waits for which, as a step relation over the bounded
    channels between them.

  \<^bold>\<open>Transports, TLS, program.\<close>
  \<^item> \<open>Websocket\<close>, \<open>Xhttp_Stream\<close>, \<open>Xhttp_Server\<close>, \<open>Transport_Ends\<close> (\<open>common/transport/\<close>): the check of the upgrade and the message stream; the upload stream that reassembles packets; sessions,
    routing and expiry; the requests of a connection, the streams handed out, flush and shutdown.
  \<^item> \<open>Reality_Hello\<close>, \<open>Reality_Der\<close>, \<open>Reality_Accept\<close> (\<open>vless/tls/reality.rs\<close>): the check of a ClientHello, with a reference parser; the rewriting of a certificate; the handshake and the
    forwarding of everyone else.
  \<^item> \<open>Transport_Stack\<close> (\<open>common/tls/\<close>), \<open>Listeners\<close>: certificates, the layers between a connection and its handler, the listeners (locale \<open>guarded_handler\<close>: a
    handler whose outcome can depend on the network only for admitted connections, behind any layers).
  \<^item> \<open>Startup\<close>, \<open>Program\<close> (\<open>main.rs\<close>): the command line, the checks on nodes, the tasks, and the theorem that goes from the command line to a dial;
    \<open>Accept_Loops\<close>, a sequence of accepted connections.
  \<^item> \<open>Config_File\<close>, \<open>Config_Write\<close> (\<open>config.rs\<close>): the readers and the writers that serde derives, over documents as value trees, with the
    locales \<open>codec\<close> and \<open>table_codec\<close> for a type that is read back as it was written, interpreted on every record of the configuration.
  \<^item> \<open>Generate\<close> (\<open>generate.rs\<close>): UUIDs, passwords and key pairs with the text in which they are printed; the keys work in the servers they are for.

  \<^bold>\<open>What the lemmas show.\<close>  For each protocol that nothing is dialled and no session served without its credential; that a conforming client is
  understood, and its stream handed to the relay at the right byte (an AnyTLS stream's bytes after the dial, and the dials of TUIC, Hysteria2 and WireGuard,
  are followed within their own theories only); that no input makes a parser panic, or exactly which does; round trips of the
  encodings; well-formedness of the shared tables in every interleaving (TUIC and Hysteria2 sessions, XHTTP sessions, the
  WireGuard actor and peers); bounds on congestion windows.  Where the code does not do what it means to, the theorem says what it does
  instead: one WireGuard peer can stop the server for all (\<open>wg_peer_stops_server\<close>), a second reply to one WireGuard datagram waits for the next request (\<open>wg_udp_replies_lag\<close>), a large download ends the peer's actor
  (\<open>wg_download_kills_actor\<close>), AnyTLS replies wait for the next upload (\<open>anytls_replies_blocked\<close>), losses hardly reach the congestion controller
  (\<open>brutal_ignores_loss\<close>), VMess with authenticated lengths cannot be read back (\<open>vmess_auth_len_diverges\<close>), and an empty message of AnyTLS or XHTTP ends its stream
  (\<open>anytls_stream_delivery\<close>, \<open>xhttp_empty_packet_ends\<close>).

  \<^bold>\<open>Bounds.\<close>  Functions recurse on the bytes left or on the events given, so they are total.  \<open>drain\<close> takes the number of reads as fuel, and the lemmas about
  it state that one more than the bytes available is enough.  \<open>drain_timers\<close> may run for ever when the tunnel keeps producing packets; it is a
  partial function whose value is then \<open>None\<close>.  The counters of the congestion statistics are unbounded numbers; the code resets
  them every second, long before 64 bits are exhausted.  Rates are exact as long as they stay below 2^53 bits per second, the hypothesis of the theorem.

  \<^bold>\<open>Not modelled.\<close>  Logging and error texts beyond what is sent to a peer; the text syntax of TOML, durations and UUIDs, and the errors
  of the configuration's readers (only that they fail); in a record that is given as an array, and in enums, the less usual forms that serde also
  accepts are left out; the capacity of the queue of ready XHTTP streams, and the fairness of channels (the theorems hold without it); HTTP framing of hyper and h3; WebSocket frames and handshake; the TLS and QUIC
  handshakes; the socket calls of the accept loops.  A handler of TUIC that awaits a name, a connect or a socket is one step, and integer overflow is that of the
  release profile except where a theory says otherwise.  Timeouts appear as a possible result of what they guard.  In SOCKS5 a
  listener without users is open, as the code has it.
\<close>

end
